(* ===== verification/Go_Prelude.thy ===== *)
theory Go_Prelude
  imports Main "HOL-Library.AList" "HOL-Library.Word"
begin

text \<open>
  The vocabulary shared by every component: the machine types of the Go source, the parts of
  the Go standard library the source uses (\<open>time\<close>, \<open>strings\<close>, built-in maps,
  \<open>container/list\<close>), and the generic facts about them that carry the component proofs.

  \<^item> An instant (\<open>time.Time\<close>) is the number of nanoseconds since the zero instant, so
    the zero value is \<open>0\<close>; a duration is a number of nanoseconds. \<open>Sub\<close> saturates
    at the range of a 64-bit duration, as the library does. Monotonic clock readings are
    not modelled: two instants are compared by their wall time.
  \<^item> \<open>uint64\<close> counters are naturals with the wrap-around written out (\<open>inc64\<close>), and
    \<open>int\<close> counters integers with theirs (\<open>inc_int\<close>).
  \<^item> A 16-byte array used as an identity is its big-endian value, a 128-bit word: the
    zero array is \<open>0\<close> and \<open>bytes.Compare\<close> is the order of the words.
  \<^item> A built-in map is an association list with distinct keys. Where the source ranges over a
    map, the model visits the list in its order; Go leaves that order open, and a statement
    about every well-formed list covers every order.
  \<^item> A \<open>container/list.List\<close> of records is the list of their keys, front first.
\<close>

named_theorems gomap_simps \<open>rewrite rules for association lists used as Go maps\<close>
named_theorems lru_simps \<open>rewrite rules for recency lists\<close>

section \<open>Time\<close>

type_synonym gotime = int
type_synonym duration = int

abbreviation millisecond :: duration where "millisecond \<equiv> 1000000"
abbreviation second :: duration where "second \<equiv> 1000000000"
abbreviation minute :: duration where "minute \<equiv> 60 * second"
abbreviation hour :: duration where "hour \<equiv> 60 * minute"

definition is_zero :: "gotime \<Rightarrow> bool" where
  "is_zero t \<longleftrightarrow> t = 0"

definition time_sub :: "gotime \<Rightarrow> gotime \<Rightarrow> duration" where
  "time_sub t u = max (- (2 ^ 63)) (min (2 ^ 63 - 1) (t - u))"

definition quot_int :: "int \<Rightarrow> int \<Rightarrow> int" where
  \<comment> \<open>Go's integer division, which truncates towards zero\<close>
  "quot_int a b = sgn a * sgn b * (\<bar>a\<bar> div \<bar>b\<bar>)"

lemma quot_int_nonneg [simp]: "0 \<le> a \<Longrightarrow> 0 < b \<Longrightarrow> quot_int a b = a div b"
  by (cases "a = 0") (auto simp: quot_int_def sgn_if)

section \<open>Machine counters\<close>

definition inc64 :: "nat \<Rightarrow> nat" where
  "inc64 n = (n + 1) mod 2 ^ 64"

definition int64 :: "int \<Rightarrow> int" where
  "int64 x = (x + 2 ^ 63) mod 2 ^ 64 - 2 ^ 63"

definition inc_int :: "int \<Rightarrow> int" where
  "inc_int x = int64 (x + 1)"

lemma inc64_int [code]: "inc64 n = nat ((int n + 1) mod 2 ^ 64)"
  by (simp add: inc64_def nat_mod_distrib nat_add_distrib)

lemma inc64_less [simp]: "n < 2 ^ 64 - 1 \<Longrightarrow> inc64 n = Suc n"
  by (simp add: inc64_def)

lemma inc64_bound: "inc64 n < 2 ^ 64"
  unfolding inc64_def by (rule mod_less_divisor) simp

lemma int64_id [simp]: "- (2 ^ 63) \<le> x \<Longrightarrow> x < 2 ^ 63 \<Longrightarrow> int64 x = x"
  by (simp add: int64_def)

lemma inc_int_small [simp]: "0 \<le> x \<Longrightarrow> x < 2 ^ 63 - 1 \<Longrightarrow> inc_int x = x + 1"
  by (simp add: inc_int_def)

section \<open>Strings\<close>

definition has_prefix :: "string \<Rightarrow> string \<Rightarrow> bool" where
  "has_prefix s p \<longleftrightarrow> take (length p) s = p"

fun index_byte :: "string \<Rightarrow> char \<Rightarrow> nat option" where
  "index_byte [] c = None"
| "index_byte (x # xs) c = (if x = c then Some 0 else map_option Suc (index_byte xs c))"

definition contains_byte :: "string \<Rightarrow> char \<Rightarrow> bool" where
  "contains_byte s c \<longleftrightarrow> list_ex (\<lambda>x. x = c) s"

lemma index_byte_None [simp]: "index_byte s c = None \<longleftrightarrow> c \<notin> set s"
  by (induction s) auto

lemma index_byte_Some:
  "index_byte s c = Some i \<Longrightarrow> i < length s \<and> s ! i = c \<and> c \<notin> set (take i s)"
  by (induction s arbitrary: i) (auto split: if_splits)

lemma contains_byte_iff [simp]: "contains_byte s c \<longleftrightarrow> c \<in> set s"
  by (auto simp: contains_byte_def list_ex_iff)

text \<open>
  \<open>strings.TrimSpace\<close> strips the runes of Unicode's white space; the table lists their
  UTF-8 encodings.
\<close>

definition space_runes :: "string list" where
  "space_runes =
     [[CHR 0x09], [CHR 0x0A], [CHR 0x0B], [CHR 0x0C], [CHR 0x0D], [CHR 0x20],
      [CHR 0xC2, CHR 0x85], [CHR 0xC2, CHR 0xA0], [CHR 0xE1, CHR 0x9A, CHR 0x80],
      [CHR 0xE2, CHR 0x80, CHR 0x80], [CHR 0xE2, CHR 0x80, CHR 0x81],
      [CHR 0xE2, CHR 0x80, CHR 0x82], [CHR 0xE2, CHR 0x80, CHR 0x83],
      [CHR 0xE2, CHR 0x80, CHR 0x84], [CHR 0xE2, CHR 0x80, CHR 0x85],
      [CHR 0xE2, CHR 0x80, CHR 0x86], [CHR 0xE2, CHR 0x80, CHR 0x87],
      [CHR 0xE2, CHR 0x80, CHR 0x88], [CHR 0xE2, CHR 0x80, CHR 0x89],
      [CHR 0xE2, CHR 0x80, CHR 0x8A], [CHR 0xE2, CHR 0x80, CHR 0xA8],
      [CHR 0xE2, CHR 0x80, CHR 0xA9], [CHR 0xE2, CHR 0x80, CHR 0xAF],
      [CHR 0xE2, CHR 0x81, CHR 0x9F], [CHR 0xE3, CHR 0x80, CHR 0x80]]"

lemma space_runes_nonempty: "r \<in> set space_runes \<Longrightarrow> r \<noteq> []"
  by (auto simp: space_runes_def)

function strip_runes :: "string list \<Rightarrow> string \<Rightarrow> string" where
  "strip_runes rs s =
     (case find (\<lambda>r. r \<noteq> [] \<and> has_prefix s r) rs of
        None \<Rightarrow> s
      | Some r \<Rightarrow> strip_runes rs (drop (length r) s))"
  by pat_completeness auto
termination
proof (relation "measure (\<lambda>(rs, s). length s)")
  fix rs s r
  assume "find (\<lambda>r. r \<noteq> [] \<and> has_prefix s r) rs = Some r"
  then have "r \<noteq> []" "has_prefix s r" by (auto simp: find_Some_iff)
  then show "((rs, drop (length r) s), rs, s) \<in> measure (\<lambda>(rs, s). length s)"
    by (cases s) (auto simp: has_prefix_def)
qed simp

declare strip_runes.simps [simp del]

definition trim_space :: "string \<Rightarrow> string" where
  "trim_space s =
     rev (strip_runes (map rev space_runes) (rev (strip_runes space_runes s)))"

section \<open>Built-in maps\<close>

type_synonym ('k, 'v) gomap = "('k \<times> 'v) list"

abbreviation gm_keys :: "('k, 'v) gomap \<Rightarrow> 'k list" where
  "gm_keys m \<equiv> map fst m"

abbreviation gm_wf :: "('k, 'v) gomap \<Rightarrow> bool" where
  "gm_wf m \<equiv> distinct (map fst m)"

lemma gm_get_put [gomap_simps]:
  "map_of (AList.update k v m) k' = (if k' = k then Some v else map_of m k')"
  by (simp add: update_conv')

lemma gm_get_del [gomap_simps]:
  "map_of (AList.delete k m) k' = (if k' = k then None else map_of m k')"
  by (simp add: delete_conv')

lemma gm_wf_put [simp, gomap_simps]: "gm_wf m \<Longrightarrow> gm_wf (AList.update k v m)"
  by (rule distinct_update)

lemma gm_wf_del [simp, gomap_simps]: "gm_wf m \<Longrightarrow> gm_wf (AList.delete k m)"
  by (rule distinct_delete)

lemma gm_set_put [gomap_simps]: "fst ` set (AList.update k v m) = insert k (fst ` set m)"
  by (induction m) auto

lemma gm_set_del [gomap_simps]: "fst ` set (AList.delete k m) = fst ` set m - {k}"
  by (induction m) (auto split: if_splits)

lemma gm_in_keys_iff: "k \<in> fst ` set m \<longleftrightarrow> map_of m k \<noteq> None"
  by (simp add: map_of_eq_None_iff)

lemma gm_len_card: "gm_wf m \<Longrightarrow> length m = card (fst ` set m)"
  using distinct_card [of "map fst m"] by simp

lemma gm_len_put [gomap_simps]:
  "length (AList.update k v m) = (if map_of m k = None then Suc (length m) else length m)"
  by (induction m) auto

lemma gm_len_del [gomap_simps]:
  "gm_wf m \<Longrightarrow> length (AList.delete k m) = (if map_of m k = None then length m else length m - 1)"
proof (induction m)
  case (Cons p m)
  then show ?case
    by (cases "fst p = k"; cases m) (auto simp: map_of_eq_None_iff)
qed simp

section \<open>Lists updated by index\<close>

lemma length_filter_update:
  assumes "i < length xs"
  shows "length (filter P (xs[i := y])) + (if P (xs ! i) then 1 else 0)
       = length (filter P xs) + (if P y then 1 else 0)"
proof -
  have mid: "length (filter P (us @ z # vs)) =
      length (filter P us) + (if P z then 1 else 0) + length (filter P vs)" for us z vs
    by simp
  have "length (filter P xs) = length (filter P (take i xs @ xs ! i # drop (Suc i) xs))"
    using id_take_nth_drop [OF assms] by simp
  then show ?thesis unfolding upd_conv_take_nth_drop [OF assms] mid by simp
qed

section \<open>Sorting\<close>

text \<open>
  \<open>sort.Slice\<close> and \<open>sort.SliceStable\<close> with a comparison function: the stable sorted
  permutation, computed by insertion. Where the comparison is a strict weak order the result does
  not depend on the algorithm, up to the order of equivalent elements for \<open>sort.Slice\<close>.
\<close>

fun insertSlice :: "('a \<Rightarrow> 'a \<Rightarrow> bool) \<Rightarrow> 'a \<Rightarrow> 'a list \<Rightarrow> 'a list" where
  "insertSlice lt x [] = [x]"
| "insertSlice lt x (y # ys) = (if lt y x then y # insertSlice lt x ys else x # y # ys)"

definition sortSlice :: "('a \<Rightarrow> 'a \<Rightarrow> bool) \<Rightarrow> 'a list \<Rightarrow> 'a list" where
  \<comment> \<open>\<open>sort.Slice\<close>\<close>
  "sortSlice lt xs = foldr (insertSlice lt) xs []"

lemma set_insertSlice [simp]: "set (insertSlice lt x xs) = insert x (set xs)"
  by (induction xs) auto

lemma set_sortSlice [simp]: "set (sortSlice lt xs) = set xs"
  by (induction xs) (simp_all add: sortSlice_def)

lemma length_insertSlice [simp]: "length (insertSlice lt x xs) = Suc (length xs)"
  by (induction xs) auto

lemma length_sortSlice [simp]: "length (sortSlice lt xs) = length xs"
  by (induction xs) (simp_all add: sortSlice_def)

lemma distinct_insertSlice [simp]: "distinct (insertSlice lt x xs) \<longleftrightarrow> x \<notin> set xs \<and> distinct xs"
  by (induction xs) auto

lemma distinct_sortSlice [simp]: "distinct (sortSlice lt xs) \<longleftrightarrow> distinct xs"
proof (induction xs)
  case (Cons x xs)
  then show ?case using set_sortSlice [of lt xs] by (simp add: sortSlice_def)
qed (simp add: sortSlice_def)

lemma sorted_insertSlice:
  assumes "\<And>x y. lt x y \<Longrightarrow> \<not> lt y x"
    and "\<And>x y z. \<not> lt y x \<Longrightarrow> \<not> lt z y \<Longrightarrow> \<not> lt z x"
    and "sorted_wrt (\<lambda>x y. \<not> lt y x) xs"
  shows "sorted_wrt (\<lambda>x y. \<not> lt y x) (insertSlice lt x xs)"
  using assms(3)
proof (induction xs)
  case (Cons y ys)
  show ?case
  proof (cases "lt y x")
    case True
    then have "\<not> lt x y" by (rule assms(1))
    then show ?thesis using True Cons by simp
  next
    case False
    have "\<not> lt z x" if "z \<in> set ys" for z
      using Cons.prems that False assms(2) [of y x z] by simp
    then show ?thesis using False Cons.prems by simp
  qed
qed simp

lemma sorted_sortSlice:
  assumes "\<And>x y. lt x y \<Longrightarrow> \<not> lt y x"
    and "\<And>x y z. \<not> lt y x \<Longrightarrow> \<not> lt z y \<Longrightarrow> \<not> lt z x"
  shows "sorted_wrt (\<lambda>x y. \<not> lt y x) (sortSlice lt xs)"
proof (induction xs)
  case (Cons x xs)
  then show ?case
    using sorted_insertSlice [of lt, OF assms] by (simp add: sortSlice_def)
qed (simp add: sortSlice_def)

section \<open>Recency lists\<close>

text \<open>
  A store that evicts by recency keeps a map and a list of its keys, most recently used
  first. \<open>lru_wf\<close> says that the two agree.
\<close>

definition move_front :: "'k \<Rightarrow> 'k list \<Rightarrow> 'k list" where
  "move_front k ks = k # remove1 k ks"

definition lru_wf :: "('k, 'v) gomap \<Rightarrow> 'k list \<Rightarrow> bool" where
  "lru_wf m ks \<longleftrightarrow> gm_wf m \<and> distinct ks \<and> set ks = fst ` set m"

lemma lru_wf_empty [simp]: "lru_wf [] []"
  by (simp add: lru_wf_def)

lemma lru_wf_length: "lru_wf m ks \<Longrightarrow> length ks = length m"
  using distinct_card [of ks] gm_len_card [of m] by (simp add: lru_wf_def)

lemma lru_wf_insert: "lru_wf m ks \<Longrightarrow> map_of m k = None \<Longrightarrow> lru_wf (AList.update k v m) (k # ks)"
  by (auto simp: lru_wf_def gomap_simps gm_in_keys_iff)

lemma lru_wf_update: "lru_wf m ks \<Longrightarrow> map_of m k \<noteq> None \<Longrightarrow> lru_wf (AList.update k v m) ks"
  by (auto simp: lru_wf_def gomap_simps gm_in_keys_iff)

lemma lru_wf_touch: "lru_wf m ks \<Longrightarrow> map_of m k \<noteq> None \<Longrightarrow> lru_wf m (move_front k ks)"
  by (auto simp: lru_wf_def move_front_def gm_in_keys_iff)

lemma lru_wf_delete: "lru_wf m ks \<Longrightarrow> lru_wf (AList.delete k m) (remove1 k ks)"
  by (auto simp: lru_wf_def gomap_simps)

lemma find_SomeD: "find P xs = Some x \<Longrightarrow> x \<in> set xs \<and> P x"
  by (auto simp: find_Some_iff)

lemma remove1_last: "distinct ks \<Longrightarrow> ks \<noteq> [] \<Longrightarrow> remove1 (last ks) ks = butlast ks"
  by (induction ks) (auto split: if_splits)

lemma lru_wf_evict:
  "lru_wf m ks \<Longrightarrow> ks \<noteq> [] \<Longrightarrow> lru_wf (AList.delete (last ks) m) (butlast ks)"
  using lru_wf_delete [of m ks "last ks"] by (simp add: lru_wf_def remove1_last)

section \<open>Eviction from a bounded table\<close>

text \<open>
  The interface of a table bounded by recency: removing the oldest entry drops the last key of
  the list, and the eviction loop does so while the table is over its capacity. The health
  store provides it; the lemmas say that the
  loop leaves exactly the most recently used entries.
\<close>

locale lru_table =
  fixes ents :: "'s \<Rightarrow> ('k, 'v) gomap"
    and lru :: "'s \<Rightarrow> 'k list"
    and cap :: "'s \<Rightarrow> nat"
    and remove_oldest :: "'s \<Rightarrow> 's"
    and evict :: "'s \<Rightarrow> 's"
  assumes ents_remove: "lru s \<noteq> [] \<Longrightarrow> ents (remove_oldest s) = AList.delete (last (lru s)) (ents s)"
    and lru_remove: "lru s \<noteq> [] \<Longrightarrow> lru (remove_oldest s) = remove1 (last (lru s)) (lru s)"
    and cap_remove: "cap (remove_oldest s) = cap s"
    and evict_eq: "evict s = (if cap s < length (ents s) \<and> lru s \<noteq> []
                              then evict (remove_oldest s) else s)"
begin

lemma evict_induct:
  assumes "P s"
    and "\<And>s. P s \<Longrightarrow> cap s < length (ents s) \<Longrightarrow> lru s \<noteq> [] \<Longrightarrow> P (remove_oldest s)"
  shows "P (evict s)"
  using assms(1)
proof (induction "length (lru s)" arbitrary: s rule: less_induct)
  case less
  show ?case
  proof (cases "cap s < length (ents s) \<and> lru s \<noteq> []")
    case True
    then have "length (lru (remove_oldest s)) < length (lru s)"
      by (simp add: lru_remove length_remove1)
    then have "P (evict (remove_oldest s))"
      using less True assms(2) by blast
    then show ?thesis using True by (simp add: evict_eq [of s])
  next
    case False
    then have "evict s = s" by (subst evict_eq) auto
    then show ?thesis using less.prems by simp
  qed
qed

lemma evict_cap: "cap (evict s) = cap s"
  by (rule evict_induct [where P = "\<lambda>t. cap t = cap s"]) (simp_all add: cap_remove)

lemma evict_wf: "lru_wf (ents s) (lru s) \<Longrightarrow> lru_wf (ents (evict s)) (lru (evict s))"
  by (rule evict_induct [where P = "\<lambda>t. lru_wf (ents t) (lru t)"])
    (simp_all add: ents_remove lru_remove lru_wf_delete)

lemma evict_noop: "length (ents s) \<le> cap s \<Longrightarrow> evict s = s"
  by (subst evict_eq) simp

lemma evict_lru:
  assumes "lru_wf (ents s) (lru s)"
  shows "lru (evict s) = take (cap s) (lru s)"
  using assms
proof (induction "length (lru s)" arbitrary: s rule: less_induct)
  case less
  have len: "length (lru s) = length (ents s)"
    by (rule lru_wf_length) (rule less.prems)
  have dist: "distinct (lru s)" using less.prems by (simp add: lru_wf_def)
  show ?case
  proof (cases "cap s < length (ents s)")
    case True
    then have ne: "lru s \<noteq> []" using len by auto
    have but: "lru (remove_oldest s) = butlast (lru s)"
      by (simp add: lru_remove ne remove1_last dist)
    have "lru (evict s) = lru (evict (remove_oldest s))"
      using True ne by (simp add: evict_eq [of s])
    also have "\<dots> = take (cap s) (butlast (lru s))"
      using less(1) [of "remove_oldest s"] ne lru_wf_delete [OF less.prems, of "last (lru s)"]
      by (simp add: ents_remove lru_remove cap_remove but length_remove1)
        (metis but cap_remove lru_remove)
    also have "\<dots> = take (cap s) (lru s)"
      using True len by (simp add: butlast_conv_take min_absorb1)
    finally show ?thesis .
  next
    case False
    then show ?thesis using len by (simp add: evict_noop)
  qed
qed

lemma evict_bounded:
  assumes "lru_wf (ents s) (lru s)"
  shows "length (ents (evict s)) \<le> cap s"
  using lru_wf_length [OF evict_wf [OF assms]] by (simp add: evict_lru [OF assms])

lemma evict_lookup_sub:
  assumes "map_of (ents (evict s)) k = Some v"
  shows "map_of (ents s) k = Some v"
proof -
  have "\<forall>v. map_of (ents (evict s)) k = Some v \<longrightarrow> map_of (ents s) k = Some v"
    by (rule evict_induct [where P = "\<lambda>t. \<forall>v. map_of (ents t) k = Some v \<longrightarrow>
          map_of (ents s) k = Some v"]) (auto simp: ents_remove gomap_simps)
  then show ?thesis using assms by blast
qed

lemma evict_lookup:
  assumes "lru_wf (ents s) (lru s)" and "k \<in> set (take (cap s) (lru s))"
  shows "map_of (ents (evict s)) k = map_of (ents s) k"
proof -
  have "k \<in> fst ` set (ents (evict s))"
    using evict_wf [OF assms(1)] evict_lru [OF assms(1)] assms(2) by (simp add: lru_wf_def)
  then obtain v where v: "map_of (ents (evict s)) k = Some v"
    by (auto simp: gm_in_keys_iff)
  then show ?thesis using evict_lookup_sub [OF v] by simp
qed

end

section \<open>Transition systems\<close>

text \<open>
  The runs of a component: states related by the reflexive and transitive closure of its steps.
  A predicate that holds at the start and that every step keeps holds along every run.
\<close>

locale transition_system =
  fixes init :: "'s \<Rightarrow> bool"
    and step :: "'s \<Rightarrow> 's \<Rightarrow> bool"
    and inv :: "'s \<Rightarrow> bool"
  assumes init_inv: "init s \<Longrightarrow> inv s"
    and step_inv: "step s s' \<Longrightarrow> inv s \<Longrightarrow> inv s'"
begin

lemma run_inv: "step\<^sup>*\<^sup>* s s' \<Longrightarrow> inv s \<Longrightarrow> inv s'"
  by (induction rule: rtranclp_induct) (auto intro: step_inv)

lemma reach_inv: "init s \<Longrightarrow> step\<^sup>*\<^sup>* s s' \<Longrightarrow> inv s'"
  by (rule run_inv [OF _ init_inv])

end

end
