(* ===== verification/Transport.thy ===== *)
theory Transport
  imports Go_Prelude
begin

text \<open>
  Identities, service contexts and health transport paths of the adaptive pool
  (\<^verbatim>\<open>protocol/group/adaptive/resolver.go\<close>, the handle type of
  \<^verbatim>\<open>runtime_manager.go\<close> and the two path helpers of \<^verbatim>\<open>health.go\<close> and
  \<^verbatim>\<open>node_capability.go\<close>). A health path is a
  class, a slash and an address family; the lemmas say how the helpers keep that vocabulary
  consistent, which the health ledgers rely on.
\<close>

section \<open>Identities\<close>

type_synonym node_id = "128 word"
type_synonym session_key = "128 word"

record node_handle =
  nh_NodeID :: node_id
  nh_Slot :: nat
  nh_Version :: nat
  nh_BornRevision :: nat

datatype policy_mode =
    ModeUnset
  | ModeStrictAffinity
  | ModeAdaptive
  | ModeLatency
  | ModeBulk
  | ModeManual
  | ModeOther string

record service_context =
  sc_ID :: string
  sc_AffinityID :: string
  sc_Session :: session_key
  sc_Mode :: policy_mode
  sc_Host :: string
  sc_Transport :: string
  sc_HealthTransport :: string
  sc_ExpectUDPResponse :: bool

section \<open>Health transport paths\<close>

definition serviceHealthTransport :: "service_context \<Rightarrow> string" where
  "serviceHealthTransport service =
     (if sc_HealthTransport service \<noteq> [] then sc_HealthTransport service
      else sc_Transport service)"

definition splitHealthTransport :: "string \<Rightarrow> string \<times> string" where
  "splitHealthTransport path =
     (if path = ''tcp'' then (''tcp'', [])
      else if path = ''udp'' then (''udp_data'', [])
      else if path = ''udp_dns'' \<or> path = ''udp_data'' then (path, [])
      else case index_byte path (CHR ''/'') of
          Some i \<Rightarrow> if 0 < i then (take i path, drop (i + 1) path) else (path, [])
        | None \<Rightarrow> (path, []))"

definition refineHealthTransportFamily :: "string \<Rightarrow> string \<Rightarrow> string" where
  "refineHealthTransportFamily path family =
     (if path = [] \<or> family = [] \<or> family = ''any'' then path
      else if family \<noteq> ''ipv4'' \<and> family \<noteq> ''ipv6'' then path
      else let (class, currentFamily) = splitHealthTransport path in
        if class = [] then path
        else if currentFamily \<noteq> [] \<and> currentFamily \<noteq> ''any'' then path
        else class @ ''/'' @ family)"

definition normalizeHealthTransportPath :: "string \<Rightarrow> string" where
  "normalizeHealthTransportPath path =
     (if path = [] then []
      else if path = ''tcp'' then ''tcp/any''
      else if path = ''udp'' then ''udp_data/any''
      else if path = ''udp_dns'' then ''udp_dns/any''
      else if path = ''udp_data'' then ''udp_data/any''
      else path)"

definition transportLedgerKey :: "string \<Rightarrow> string" where
  "transportLedgerKey transport =
     (let normalized = normalizeHealthTransportPath transport in
      if normalized \<noteq> [] then normalized else transport)"

definition dualStackFamilyPaths :: "string \<Rightarrow> (string \<times> string) option" where
  "dualStackFamilyPaths path =
     (if path = ''tcp'' \<or> path = ''tcp/any'' then Some (''tcp/ipv4'', ''tcp/ipv6'')
      else if path = ''udp_dns/any'' then Some (''udp_dns/ipv4'', ''udp_dns/ipv6'')
      else if path = ''udp'' \<or> path = ''udp/any'' \<or> path = ''udp_data/any''
        then Some (''udp_data/ipv4'', ''udp_data/ipv6'')
      else None)"

definition serviceAffinityFamily :: "string \<Rightarrow> string" where
  "serviceAffinityFamily serviceID = (if serviceID = [] then ''unknown'' else serviceID)"

section \<open>Resolving the path of a destination\<close>

text \<open>
  \<open>netip.Addr\<close> as far as its family is concerned, and the fields of the inbound metadata
  and of the destination (\<open>M.Socksaddr\<close>) the resolver reads.
\<close>

datatype ip_addr = AddrInvalid | Addr4 "32 word" | Addr6 "128 word"

definition addr_is_valid :: "ip_addr \<Rightarrow> bool" where
  "addr_is_valid a \<longleftrightarrow> a \<noteq> AddrInvalid"

fun addr_is4 :: "ip_addr \<Rightarrow> bool" where
  "addr_is4 (Addr4 _) = True"
| "addr_is4 _ = False"

fun addr_is4in6 :: "ip_addr \<Rightarrow> bool" where
  "addr_is4in6 (Addr6 w) = (drop_bit 32 w = 0xffff)"
| "addr_is4in6 _ = False"

fun addr_is6 :: "ip_addr \<Rightarrow> bool" where
  "addr_is6 (Addr6 _) = True"
| "addr_is6 _ = False"

record socks_addr =
  sa_Addr :: ip_addr
  sa_Port :: nat
  sa_Fqdn :: string

record inbound_metadata =
  md_Protocol :: string
  md_Destination :: socks_addr
  md_DestinationAddresses :: "ip_addr list"

text \<open>
  Case folding against an ASCII literal: besides ASCII letters, the long s and the Kelvin
  sign fold to a letter (\<open>strings.EqualFold\<close>); the Kelvin sign and the dotted capital I
  lower to one (\<open>strings.ToLower\<close>). Every other rune stays outside ASCII.
\<close>

definition lower_char :: "char \<Rightarrow> char" where
  "lower_char c = (let n = of_char c :: nat in if 65 \<le> n \<and> n \<le> 90 then char_of (n + 32) else c)"

fun fold_ascii :: "string \<Rightarrow> string" where
  "fold_ascii [] = []"
| "fold_ascii (a # b # c # s) =
     (if a = CHR 0xE2 \<and> b = CHR 0x84 \<and> c = CHR 0xAA then CHR ''k'' # fold_ascii s
      else if a = CHR 0xC5 \<and> b = CHR 0xBF then CHR ''s'' # fold_ascii (c # s)
      else lower_char a # fold_ascii (b # c # s))"
| "fold_ascii [a, b] =
     (if a = CHR 0xC5 \<and> b = CHR 0xBF then ''s'' else [lower_char a, lower_char b])"
| "fold_ascii [a] = [lower_char a]"

definition equal_fold :: "string \<Rightarrow> string \<Rightarrow> bool" where
  "equal_fold s lit \<longleftrightarrow> fold_ascii s = lit"

fun to_lower_ascii :: "string \<Rightarrow> string" where
  "to_lower_ascii [] = []"
| "to_lower_ascii (a # b # c # s) =
     (if a = CHR 0xE2 \<and> b = CHR 0x84 \<and> c = CHR 0xAA then CHR ''k'' # to_lower_ascii s
      else if a = CHR 0xC4 \<and> b = CHR 0xB0 then CHR ''i'' # to_lower_ascii (c # s)
      else lower_char a # to_lower_ascii (b # c # s))"
| "to_lower_ascii [a, b] =
     (if a = CHR 0xC4 \<and> b = CHR 0xB0 then ''i'' else [lower_char a, lower_char b])"
| "to_lower_ascii [a] = [lower_char a]"

definition expectsUDPResponse ::
  "inbound_metadata option \<Rightarrow> socks_addr \<Rightarrow> string \<Rightarrow> bool" where
  "expectsUDPResponse metadata destination transport =
     (if transport \<noteq> ''udp'' then False
      else if sa_Port destination = 53 \<or> sa_Port destination = 443 \<or> sa_Port destination = 3478
        then True
      else case metadata of
          None \<Rightarrow> False
        | Some md \<Rightarrow> to_lower_ascii (md_Protocol md) \<in> {''dns'', ''quic'', ''stun''})"

fun resolvedFamilyLoop :: "string \<Rightarrow> ip_addr list \<Rightarrow> string" where
  "resolvedFamilyLoop resolvedFamily [] = resolvedFamily"
| "resolvedFamilyLoop resolvedFamily (resolved # rest) =
     (let current = (if addr_is4 resolved \<or> addr_is4in6 resolved then ''ipv4'' else ''ipv6'') in
      if resolvedFamily = [] then resolvedFamilyLoop current rest
      else if resolvedFamily \<noteq> current then ''any''
      else resolvedFamilyLoop resolvedFamily rest)"

definition resolveHealthTransport ::
  "inbound_metadata option \<Rightarrow> socks_addr \<Rightarrow> string \<Rightarrow> string" where
  "resolveHealthTransport metadata destination transport =
     (let class =
        (if transport = ''udp'' then
           (if sa_Port destination = 53 \<or>
               (case metadata of None \<Rightarrow> False | Some md \<Rightarrow> equal_fold (md_Protocol md) ''dns'')
            then ''udp_dns'' else ''udp_data'')
         else if transport = ''tcp'' then ''tcp''
         else transport);
        address =
          (case metadata of
             Some md \<Rightarrow> if \<not> addr_is_valid (sa_Addr destination) then sa_Addr (md_Destination md)
                        else sa_Addr destination
           | None \<Rightarrow> sa_Addr destination);
        family =
          (if addr_is_valid address then
             (if addr_is4 address \<or> addr_is4in6 address then ''ipv4''
              else if addr_is6 address then ''ipv6'' else ''any'')
           else case metadata of
               None \<Rightarrow> ''any''
             | Some md \<Rightarrow>
                 (let resolvedFamily = resolvedFamilyLoop [] (md_DestinationAddresses md) in
                  if resolvedFamily \<noteq> [] then resolvedFamily else ''any''))
      in class @ ''/'' @ family)"

definition familyFromSocksaddr :: "socks_addr \<Rightarrow> string" where
  "familyFromSocksaddr destination =
     (if \<not> (addr_is_valid (sa_Addr destination) \<or> sa_Fqdn destination \<noteq> []) then []
      else let addr = sa_Addr destination in
        if \<not> addr_is_valid addr then []
        else if addr_is4 addr \<or> addr_is4in6 addr then ''ipv4''
        else if addr_is6 addr then ''ipv6''
        else [])"

section \<open>Facts about paths\<close>

definition concrete_family :: "string \<Rightarrow> bool" where
  "concrete_family f \<longleftrightarrow> f = ''ipv4'' \<or> f = ''ipv6''"

lemma index_byte_append:
  "c \<notin> set xs \<Longrightarrow> index_byte (xs @ c # ys) c = Some (length xs)"
  by (induction xs) auto

lemma split_qualified:
  assumes "class \<noteq> []" and "CHR ''/'' \<notin> set class"
  shows "splitHealthTransport (class @ ''/'' @ family) = (class, family)"
proof -
  have "CHR ''/'' \<in> set (class @ ''/'' @ family)" by simp
  then have "class @ ''/'' @ family \<notin> {''tcp'', ''udp'', ''udp_dns'', ''udp_data''}"
    by (auto simp del: set_append)
  then show ?thesis
    using assms index_byte_append [OF assms(2), of family]
    by (auto simp: splitHealthTransport_def)
qed

lemma split_class_plain:
  assumes "path \<noteq> []" and "hd path \<noteq> CHR ''/''"
  shows "fst (splitHealthTransport path) \<noteq> [] \<and> CHR ''/'' \<notin> set (fst (splitHealthTransport path))"
  using assms
  by (auto simp: splitHealthTransport_def hd_conv_nth split: option.splits
      dest!: index_byte_Some)

lemma refine_eq:
  "path \<noteq> [] \<Longrightarrow> concrete_family f \<Longrightarrow>
   refineHealthTransportFamily path f =
     (if fst (splitHealthTransport path) = [] \<or> snd (splitHealthTransport path) \<notin> {[], ''any''}
      then path else fst (splitHealthTransport path) @ ''/'' @ f)"
  by (auto simp: refineHealthTransportFamily_def concrete_family_def case_prod_unfold Let_def)

lemma refine_stable:
  assumes "path \<noteq> []" and "hd path \<noteq> CHR ''/''" and "concrete_family f" and "concrete_family g"
  shows "refineHealthTransportFamily (refineHealthTransportFamily path f) g
       = refineHealthTransportFamily path f"
proof (cases "snd (splitHealthTransport path) \<in> {[], ''any''}")
  case False
  then show ?thesis using assms by (simp add: refine_eq)
next
  case True
  define cls where "cls = fst (splitHealthTransport path)"
  have cls: "cls \<noteq> []" "CHR ''/'' \<notin> set cls"
    using split_class_plain [OF assms(1,2)] by (simp_all add: cls_def)
  have "refineHealthTransportFamily path f = cls @ ''/'' @ f"
    using True assms(1,3) cls(1) by (auto simp: refine_eq cls_def)
  moreover have "refineHealthTransportFamily (cls @ ''/'' @ f) g = cls @ ''/'' @ f"
    using split_qualified [OF cls, of f] assms(3,4)
    by (auto simp: refine_eq concrete_family_def)
  ultimately show ?thesis by simp
qed

lemma normalize_idem [simp]:
  "normalizeHealthTransportPath (normalizeHealthTransportPath p) = normalizeHealthTransportPath p"
  by (simp add: normalizeHealthTransportPath_def)

lemma normalize_Nil [simp]: "normalizeHealthTransportPath p = [] \<longleftrightarrow> p = []"
  by (simp add: normalizeHealthTransportPath_def)

lemma transportLedgerKey_eq: "transportLedgerKey p = normalizeHealthTransportPath p"
  by (simp add: transportLedgerKey_def normalizeHealthTransportPath_def)

end
