(* ===== verification/Go_Float.thy ===== *)
theory Go_Float
  imports Complex_Main Go_Prelude
begin

text \<open>
  Finite \<open>float64\<close> values as rationals. Every arithmetic operation of the source is the exact
  operation followed by \<open>f64\<close>, rounding to the nearest value with a 53-bit significand,
  ties to even. Overflow to infinity, subnormal values and NaN are outside the model: the
  quantities it is used for (durations, weights, ratios) stay far from those ranges. A delay
  divided by the smallest weight, one hundredth, fits a \<open>time.Duration\<close> up to two years.
\<close>

type_synonym float64 = rat

definition scale2 :: "int \<Rightarrow> rat \<Rightarrow> rat" where
  "scale2 e x = (if 0 \<le> e then x * 2 ^ nat e else x / 2 ^ nat (- e))"

function bit_len :: "int \<Rightarrow> int" where
  "bit_len n = (if n \<le> 0 then 0 else bit_len (n div 2) + 1)"
  by pat_completeness auto
termination
  by (relation "measure nat") auto

declare bit_len.simps [simp del]

definition ilog2 :: "rat \<Rightarrow> int" where
  \<comment> \<open>the exponent \<open>e\<close> with \<open>2 ^ e \<le> x < 2 ^ (e + 1)\<close>, for positive \<open>x\<close>\<close>
  "ilog2 x =
     (let (n, d) = quotient_of x;
          k = bit_len n - bit_len d
      in if scale2 k 1 \<le> x then k else k - 1)"

definition round_even :: "rat \<Rightarrow> int" where
  "round_even y =
     (let q = \<lfloor>y\<rfloor>; r = y - of_int q in
      if r < 1 / 2 then q else if 1 / 2 < r then q + 1 else if even q then q else q + 1)"

definition f64 :: "rat \<Rightarrow> float64" where
  "f64 x =
     (if x = 0 then 0
      else let e = ilog2 \<bar>x\<bar> - 52 in scale2 e (of_int (round_even (scale2 (- e) x))))"

definition f_add :: "float64 \<Rightarrow> float64 \<Rightarrow> float64" where
  "f_add x y = f64 (x + y)"

definition f_sub :: "float64 \<Rightarrow> float64 \<Rightarrow> float64" where
  "f_sub x y = f64 (x - y)"

definition f_mul :: "float64 \<Rightarrow> float64 \<Rightarrow> float64" where
  "f_mul x y = f64 (x * y)"

definition f_div :: "float64 \<Rightarrow> float64 \<Rightarrow> float64" where
  "f_div x y = f64 (x / y)"

definition f_of_int :: "int \<Rightarrow> float64" where
  "f_of_int n = f64 (of_int n)"

definition f_trunc :: "float64 \<Rightarrow> int" where
  \<comment> \<open>conversion to an integer type, towards zero; outside the range of the type the language leaves
      the result to the implementation, and the model keeps the exact value\<close>
  "f_trunc x = (if 0 \<le> x then \<lfloor>x\<rfloor> else \<lceil>x\<rceil>)"

end
