(* ===== verification/Health_Store.thy ===== *)
theory Health_Store
  imports Transport Go_Float
begin

text \<open>
  The health store of \<^verbatim>\<open>protocol/group/adaptive/health.go\<close>: one ledger record per node
  handle, failure domain, transport path and service, each with a circuit breaker, kept in a
  map bounded by a least-recently-used list. This theory holds the data, the read side
  (\<open>StatusHandle\<close> and the key resolution behind it) and the write side
  (\<open>ObserveEvidence\<close>, \<open>observeLocked\<close>, retirement and pruning); permits are in
  theory Health_Permit.

  The store carries what the Go code reads from outside: \<open>hs_clock\<close> is the reading of the
  injected clock during the operation, \<open>hs_draws\<close> counts the values taken from the injected
  jitter source, and \<open>hs_log1p\<close>, \<open>hs_expm1\<close> are the two functions of Go's
  \<open>math\<close> package the throughput average uses. A record lives in the map under its own key
  and its list element is that key, so the recency list is a list of keys. Method receivers
  are non-nil, and the mutex makes each method one step.
\<close>

section \<open>Data\<close>

datatype failure_domain = DomainEndpoint | DomainTransport | DomainService

datatype observation_outcome =
  OutcomeEmpty | OutcomeSuccess | OutcomeFailure | OutcomeBlocked | OutcomeDeferred

datatype breaker_state =
  BreakerEmpty | BreakerUnknown | BreakerClosed | BreakerOpen | BreakerCooldown | BreakerHalfOpen

datatype health_state =
  HealthEmpty | HealthUnknown | HealthHealthy | HealthDegraded | HealthUnreachable

record observation =
  ob_NodeID :: node_id
  ob_NodeSlot :: nat
  ob_NodeVersion :: nat
  ob_Scope :: failure_domain
  ob_Transport :: string
  ob_Service :: string
  ob_Outcome :: observation_outcome
  ob_Delay :: duration
  ob_ThroughputBPS :: float64
  ob_At :: gotime
  ob_Reason :: string

record health_status =
  st_Health :: health_state
  st_Breaker :: breaker_state
  st_LastUpdated :: gotime
  st_LastDelay :: duration
  st_SmoothedDelay :: duration
  st_DelaySamples :: nat
  st_ThroughputBPS :: float64
  st_ThroughputSamples :: nat
  st_Successes :: nat
  st_Failures :: nat
  st_NonBreakerSuccesses :: nat
  st_NonBreakerFailures :: nat
  st_EvidenceWeight :: float64
  st_ConsecutiveFailures :: int
  st_RecoverySuccesses :: int
  st_CooldownUntil :: gotime
  st_Backoff :: duration
  st_HalfOpen :: bool
  st_Reason :: string

definition emptyStatus :: health_status where
  \<comment> \<open>the zero value of the struct\<close>
  "emptyStatus =
     \<lparr>st_Health = HealthEmpty, st_Breaker = BreakerEmpty, st_LastUpdated = 0, st_LastDelay = 0,
      st_SmoothedDelay = 0, st_DelaySamples = 0, st_ThroughputBPS = 0, st_ThroughputSamples = 0,
      st_Successes = 0, st_Failures = 0, st_NonBreakerSuccesses = 0, st_NonBreakerFailures = 0,
      st_EvidenceWeight = 0, st_ConsecutiveFailures = 0, st_RecoverySuccesses = 0,
      st_CooldownUntil = 0, st_Backoff = 0, st_HalfOpen = False, st_Reason = []\<rparr>"

record health_key =
  hk_nodeID :: node_id
  hk_nodeSlot :: nat
  hk_nodeVersion :: nat
  hk_domain :: failure_domain
  hk_transport :: string
  hk_service :: string

record health_record =
  hr_key :: health_key
  hr_status :: health_status
  hr_consecutiveFailure :: int
  hr_reopenCount :: int
  hr_recoverySuccesses :: int
  hr_openUntil :: gotime
  hr_halfOpenToken :: nat
  hr_version :: nat
  hr_delaySamples :: "duration list"
  hr_delayCount :: nat
  hr_delayNext :: nat

abbreviation healthDelayRingSize :: nat where "healthDelayRingSize \<equiv> 10"

definition newHealthRecord :: "health_key \<Rightarrow> health_record" where
  "newHealthRecord key =
     \<lparr>hr_key = key, hr_status = emptyStatus, hr_consecutiveFailure = 0, hr_reopenCount = 0,
      hr_recoverySuccesses = 0, hr_openUntil = 0, hr_halfOpenToken = 0, hr_version = 0,
      hr_delaySamples = replicate healthDelayRingSize 0, hr_delayCount = 0, hr_delayNext = 0\<rparr>"

abbreviation record_breaker :: "health_record \<Rightarrow> breaker_state" where
  "record_breaker r \<equiv> st_Breaker (hr_status r)"

record breaker_config =
  bc_FailureThreshold :: int
  bc_BaseCooldown :: duration
  bc_MaxCooldown :: duration
  bc_JitterFraction :: float64
  bc_JitterRandom :: "nat \<Rightarrow> float64"  \<comment> \<open>the values the source returns, in order\<close>

record health_store =
  hs_entries :: "(health_key, health_record) gomap"
  hs_lru :: "health_key list"
  hs_retention :: duration
  hs_maxEntries :: nat
  hs_evictions :: nat
  hs_clock :: gotime
  hs_breaker :: breaker_config
  hs_nextToken :: nat
  hs_draws :: nat
  hs_log1p :: "float64 \<Rightarrow> float64"
  hs_expm1 :: "float64 \<Rightarrow> float64"

section \<open>Construction\<close>

definition defaultBreakerConfig :: "(nat \<Rightarrow> float64) \<Rightarrow> breaker_config" where
  "defaultBreakerConfig rand_Float64 =
     \<lparr>bc_FailureThreshold = 3, bc_BaseCooldown = 5 * second, bc_MaxCooldown = 5 * minute,
      bc_JitterFraction = f64 (2 / 10), bc_JitterRandom = rand_Float64\<rparr>"

definition normalizeBreakerConfig :: "breaker_config \<Rightarrow> breaker_config" where
  \<comment> \<open>the defaulting of the breaker settings in \<open>NewHealthStoreWithClock\<close>\<close>
  "normalizeBreakerConfig breaker =
     (let defaults = defaultBreakerConfig (bc_JitterRandom breaker);
          b1 = (if bc_FailureThreshold breaker \<le> 0
                then breaker\<lparr>bc_FailureThreshold := bc_FailureThreshold defaults\<rparr> else breaker);
          b2 = (if bc_BaseCooldown b1 \<le> 0
                then b1\<lparr>bc_BaseCooldown := bc_BaseCooldown defaults\<rparr> else b1);
          b3 = (if bc_MaxCooldown b2 < bc_BaseCooldown b2
                then b2\<lparr>bc_MaxCooldown := bc_MaxCooldown defaults\<rparr> else b2);
          b4 = (if bc_JitterFraction b3 < 0
                then b3\<lparr>bc_JitterFraction := bc_JitterFraction defaults\<rparr> else b3)
      in if bc_JitterFraction b4 > 1 / 2 then b4\<lparr>bc_JitterFraction := 1 / 2\<rparr> else b4)"

definition NewHealthStoreWithClock ::
  "duration \<Rightarrow> int \<Rightarrow> gotime \<Rightarrow> breaker_config \<Rightarrow>
   (float64 \<Rightarrow> float64) \<Rightarrow> (float64 \<Rightarrow> float64) \<Rightarrow> health_store" where
  "NewHealthStoreWithClock retention maxEntries clock breaker log1p expm1 =
     \<lparr>hs_entries = [], hs_lru = [],
      hs_retention = (if retention \<le> 0 then 7 * 24 * hour else retention),
      hs_maxEntries = (if maxEntries \<le> 0 then 4096 else nat maxEntries),
      hs_evictions = 0, hs_clock = clock, hs_breaker = normalizeBreakerConfig breaker,
      hs_nextToken = 0, hs_draws = 0, hs_log1p = log1p, hs_expm1 = expm1\<rparr>"

section \<open>Delay samples\<close>

definition medianHealthDelay :: "duration list \<Rightarrow> duration" where
  "medianHealthDelay samples =
     (if samples = [] then 0
      else let ordered = sort samples; mid = length ordered div 2 in
        if odd (length ordered) then ordered ! mid
        else quot_int (int64 (ordered ! (mid - 1) + ordered ! mid)) 2)"

definition recordHealthDelay :: "health_record \<Rightarrow> duration \<Rightarrow> health_record" where
  "recordHealthDelay record delay =
     (if delay \<le> 0 then record
      else
        let samples = (hr_delaySamples record)[hr_delayNext record := delay];
            count = (if hr_delayCount record < healthDelayRingSize
                     then hr_delayCount record + 1 else hr_delayCount record)
        in record\<lparr>hr_delaySamples := samples,
                  hr_delayNext := (hr_delayNext record + 1) mod healthDelayRingSize,
                  hr_delayCount := count,
                  hr_status := (hr_status record)
                    \<lparr>st_LastDelay := delay, st_DelaySamples := count,
                     st_SmoothedDelay := medianHealthDelay (take count samples)\<rparr>\<rparr>)"

definition RankingDelay :: "health_status \<Rightarrow> duration" where
  "RankingDelay s = (if st_SmoothedDelay s > 0 then st_SmoothedDelay s else st_LastDelay s)"

section \<open>Opening a breaker\<close>

definition applyBackoffJitter :: "duration \<Rightarrow> float64 \<Rightarrow> float64 \<Rightarrow> duration" where
  \<comment> \<open>\<open>sample0\<close> is the value the random source returns on this call\<close>
  "applyBackoffJitter backoff fraction sample0 =
     (if backoff \<le> 0 \<or> fraction \<le> 0 then backoff
      else
        let sample = (if sample0 < 0 then 0
                      else if sample0 \<ge> 1 then 1 - 1 / 2 ^ 53 else sample0);
            scale0 = f_add 1 (f_mul (f_sub (f_mul sample 2) 1) fraction);
            scale = (if scale0 < f64 (1 / 10) then f64 (1 / 10) else scale0)
        in f_trunc (f_mul (f_of_int backoff) scale))"

fun backoffLoop :: "duration \<Rightarrow> nat \<Rightarrow> duration \<Rightarrow> duration" where
  "backoffLoop maxCooldown 0 backoff = backoff"
| "backoffLoop maxCooldown (Suc n) backoff =
     (if backoff \<ge> quot_int maxCooldown 2 then maxCooldown
      else backoffLoop maxCooldown n (backoff * 2))"

definition openBackoff :: "breaker_config \<Rightarrow> int \<Rightarrow> float64 \<Rightarrow> duration" where
  \<comment> \<open>the backoff \<open>openBreakerRecordLocked\<close> computes\<close>
  "openBackoff cfg reopenCount sample =
     (let b0 = backoffLoop (bc_MaxCooldown cfg) (nat (reopenCount - 1)) (bc_BaseCooldown cfg);
          b1 = (if b0 > bc_MaxCooldown cfg then bc_MaxCooldown cfg else b0);
          b2 = applyBackoffJitter b1 (bc_JitterFraction cfg) sample;
          b3 = (if b2 > bc_MaxCooldown cfg then bc_MaxCooldown cfg else b2)
      in if b3 < quot_int (bc_BaseCooldown cfg) 2 \<and> bc_BaseCooldown cfg > 0
         then quot_int (bc_BaseCooldown cfg) 2 else b3)"

definition jitterDraws :: "breaker_config \<Rightarrow> int \<Rightarrow> nat" where
  \<comment> \<open>how many values the random source yields on this opening\<close>
  "jitterDraws cfg reopenCount =
     (let b0 = backoffLoop (bc_MaxCooldown cfg) (nat (reopenCount - 1)) (bc_BaseCooldown cfg);
          b1 = (if b0 > bc_MaxCooldown cfg then bc_MaxCooldown cfg else b0)
      in if b1 \<le> 0 \<or> bc_JitterFraction cfg \<le> 0 then 0 else 1)"

definition openBreakerRecordLocked ::
  "breaker_config \<Rightarrow> nat \<Rightarrow> health_record \<Rightarrow> gotime \<Rightarrow> health_record" where
  "openBreakerRecordLocked cfg draws record now =
     (let backoff = openBackoff cfg (hr_reopenCount record) (bc_JitterRandom cfg draws);
          until = now + backoff
      in record\<lparr>hr_openUntil := until, hr_version := inc64 (hr_version record),
                hr_halfOpenToken := 0, hr_recoverySuccesses := 0,
                hr_status := (hr_status record)
                  \<lparr>st_Breaker := BreakerOpen, st_HalfOpen := False, st_CooldownUntil := until,
                   st_Backoff := backoff, st_RecoverySuccesses := 0\<rparr>\<rparr>)"

section \<open>Removal, pruning and eviction\<close>

definition removeLocked :: "health_key \<Rightarrow> health_store \<Rightarrow> health_store" where
  "removeLocked key s =
     s\<lparr>hs_entries := AList.delete key (hs_entries s), hs_lru := remove1 key (hs_lru s),
       hs_evictions := inc64 (hs_evictions s)\<rparr>"

definition removeOldestLocked :: "health_store \<Rightarrow> health_store" where
  "removeOldestLocked s = (if hs_lru s = [] then s else removeLocked (last (hs_lru s)) s)"

function evictLocked :: "health_store \<Rightarrow> health_store" where
  \<comment> \<open>\<open>for len(s.entries) > s.maxEntries { s.removeOldestLocked() }\<close>; with an empty list the
    source would spin, which \<open>evictLocked_bounded\<close> rules out for well-formed stores\<close>
  "evictLocked s =
     (if length (hs_entries s) > hs_maxEntries s \<and> hs_lru s \<noteq> []
      then evictLocked (removeOldestLocked s) else s)"
  by pat_completeness auto
termination
proof (relation "measure (\<lambda>s. length (hs_lru s))")
  fix s :: health_store
  assume "length (hs_entries s) > hs_maxEntries s \<and> hs_lru s \<noteq> []"
  then show "(removeOldestLocked s, s) \<in> measure (\<lambda>s. length (hs_lru s))"
    by (simp add: removeOldestLocked_def removeLocked_def length_remove1)
qed simp

declare evictLocked.simps [simp del]

fun pruneLoop :: "gotime \<Rightarrow> health_key list \<Rightarrow> health_store \<Rightarrow> health_store" where
  \<comment> \<open>the list holds the keys still to visit, least recently used first\<close>
  "pruneLoop now [] s = s"
| "pruneLoop now (k # ks) s =
     (case map_of (hs_entries s) k of
        None \<Rightarrow> s
      | Some record \<Rightarrow>
          if time_sub now (st_LastUpdated (hr_status record)) \<le> hs_retention s then s
          else pruneLoop now ks (removeLocked k s))"

definition pruneExpiredLocked :: "gotime \<Rightarrow> health_store \<Rightarrow> health_store" where
  "pruneExpiredLocked now s = pruneLoop now (rev (hs_lru s)) s"

section \<open>Observing an outcome\<close>

definition putRecord :: "health_key \<Rightarrow> health_record \<Rightarrow> health_store \<Rightarrow> health_store" where
  "putRecord key record s = s\<lparr>hs_entries := AList.update key record (hs_entries s)\<rparr>"

definition touchRecord :: "health_key \<Rightarrow> health_store \<Rightarrow> health_store" where
  "touchRecord key s = s\<lparr>hs_lru := move_front key (hs_lru s)\<rparr>"

definition insertRecord :: "health_key \<Rightarrow> health_record \<Rightarrow> health_store \<Rightarrow> health_store" where
  "insertRecord key record s =
     s\<lparr>hs_entries := AList.update key record (hs_entries s), hs_lru := key # hs_lru s\<rparr>"

definition recordSuccess :: "health_record \<Rightarrow> health_record \<times> bool" where
  \<comment> \<open>the success branch of \<open>observeLocked\<close>; \<open>True\<close> when it returns early, still half open\<close>
  "recordSuccess r =
     (let st = hr_status r;
          st1 = st\<lparr>st_Successes := inc64 (st_Successes st)\<rparr>;
          half = (st_Breaker st = BreakerHalfOpen);
          recovery = (if half then inc_int (hr_recoverySuccesses r) else hr_recoverySuccesses r)
      in if half \<and> recovery < 2
         then (r\<lparr>hr_consecutiveFailure := 0, hr_recoverySuccesses := recovery,
                 hr_halfOpenToken := 0,
                 hr_status := st1\<lparr>st_RecoverySuccesses := recovery, st_Health := HealthDegraded,
                   st_Breaker := BreakerHalfOpen, st_HalfOpen := True, st_CooldownUntil := 0,
                   st_ConsecutiveFailures := 0\<rparr>\<rparr>, True)
         else (r\<lparr>hr_consecutiveFailure := 0, hr_reopenCount := 0, hr_recoverySuccesses := 0,
                 hr_openUntil := 0, hr_halfOpenToken := 0,
                 hr_status := st1\<lparr>st_Health := HealthHealthy, st_Breaker := BreakerClosed,
                   st_HalfOpen := False, st_CooldownUntil := 0, st_Backoff := 0,
                   st_RecoverySuccesses := 0, st_ConsecutiveFailures := 0\<rparr>\<rparr>, False))"

definition failureOpens :: "breaker_config \<Rightarrow> health_record \<Rightarrow> bool" where
  \<comment> \<open>the condition under which the failure branch opens the breaker; \<open>r\<close> is the record
    before its failure is counted\<close>
  "failureOpens cfg r \<longleftrightarrow>
     record_breaker r = BreakerHalfOpen \<or>
     inc_int (hr_consecutiveFailure r) \<ge> bc_FailureThreshold cfg"

definition recordFailure ::
  "breaker_config \<Rightarrow> nat \<Rightarrow> gotime \<Rightarrow> health_record \<Rightarrow> health_record" where
  "recordFailure cfg draws tm r =
     (let n = inc_int (hr_consecutiveFailure r); st = hr_status r;
          st1 = st\<lparr>st_Failures := inc64 (st_Failures st), st_RecoverySuccesses := 0\<rparr>;
          r1 = r\<lparr>hr_consecutiveFailure := n, hr_recoverySuccesses := 0, hr_status := st1\<rparr>;
          r2 = (if failureOpens cfg r
                then openBreakerRecordLocked cfg draws
                       (r1\<lparr>hr_reopenCount := inc_int (hr_reopenCount r),
                           hr_status := st1\<lparr>st_Health := HealthUnreachable\<rparr>\<rparr>) tm
                else r1\<lparr>hr_status := st1\<lparr>st_Health := HealthDegraded,
                                         st_Breaker := BreakerClosed\<rparr>\<rparr>)
      in r2\<lparr>hr_status := (hr_status r2)\<lparr>st_ConsecutiveFailures := n\<rparr>\<rparr>)"

definition observeRefused :: "health_record \<Rightarrow> nat \<Rightarrow> nat \<Rightarrow> bool \<Rightarrow> bool" where
  \<comment> \<open>the three early returns of \<open>observeLocked\<close> after the record is found\<close>
  "observeRefused r version halfOpenToken active \<longleftrightarrow>
     (active \<and> hr_version r \<noteq> version) \<or>
     (\<not> active \<and> record_breaker r \<noteq> BreakerClosed \<and> record_breaker r \<noteq> BreakerEmpty) \<or>
     (record_breaker r = BreakerHalfOpen \<and> halfOpenToken \<noteq> hr_halfOpenToken r)"

definition stampOutcome ::
  "health_record \<Rightarrow> observation_outcome \<Rightarrow> gotime \<Rightarrow> duration \<Rightarrow> string \<Rightarrow> health_record" where
  "stampOutcome r outcome tm delay reason =
     (let r1 = r\<lparr>hr_status := (hr_status r)\<lparr>st_LastUpdated := tm, st_Reason := reason\<rparr>\<rparr> in
      if outcome = OutcomeSuccess \<and> delay > 0 then recordHealthDelay r1 delay else r1)"

definition applyOutcome ::
  "health_key \<Rightarrow> health_record \<Rightarrow> observation_outcome \<Rightarrow> gotime \<Rightarrow> duration \<Rightarrow> string \<Rightarrow>
   health_store \<Rightarrow> health_store" where
  "applyOutcome key r0 outcome tm delay reason s =
     (let r2 = stampOutcome r0 outcome tm delay reason in
      if outcome = OutcomeSuccess then
        (let (r3, early) = recordSuccess r2 in
         if early then putRecord key r3 s else evictLocked (putRecord key r3 s))
      else
        (let r3 = recordFailure (hs_breaker s) (hs_draws s) tm r2;
             drawn = (if failureOpens (hs_breaker s) r2
                      then jitterDraws (hs_breaker s) (inc_int (hr_reopenCount r2)) else 0)
         in evictLocked (putRecord key r3 (s\<lparr>hs_draws := hs_draws s + drawn\<rparr>))))"

definition observeLocked ::
  "health_key \<Rightarrow> observation_outcome \<Rightarrow> gotime \<Rightarrow> duration \<Rightarrow> string \<Rightarrow> nat \<Rightarrow> nat \<Rightarrow> bool \<Rightarrow>
   health_store \<Rightarrow> health_store" where
  "observeLocked key outcome tm delay reason version halfOpenToken active s =
     (let s1 = pruneExpiredLocked tm s in
      case map_of (hs_entries s1) key of
        Some record \<Rightarrow>
          if \<not> is_zero (st_LastUpdated (hr_status record)) \<and> tm < st_LastUpdated (hr_status record)
          then s1
          else let s2 = touchRecord key s1 in
            if observeRefused record version halfOpenToken active then s2
            else applyOutcome key record outcome tm delay reason s2
      | None \<Rightarrow>
          if active \<and> version \<noteq> 0 then s1
          else let record = newHealthRecord key; s2 = insertRecord key record s1 in
            if observeRefused record version halfOpenToken active then s2
            else applyOutcome key record outcome tm delay reason s2)"

definition recordThroughput :: "health_store \<Rightarrow> float64 \<Rightarrow> health_status \<Rightarrow> health_status" where
  "recordThroughput s bps st =
     (if bps > 0 then
        (let logValue = hs_log1p s bps;
             bps' = (if st_ThroughputSamples st = 0 \<or> st_ThroughputBPS st \<le> 0 then bps
                     else let window = min (f_of_int (int (inc64 (st_ThroughputSamples st)))) 8;
                              current = hs_log1p s (st_ThroughputBPS st)
                          in hs_expm1 s (f_add current (f_div (f_sub logValue current) window)))
         in st\<lparr>st_ThroughputBPS := bps',
               st_ThroughputSamples := inc64 (st_ThroughputSamples st)\<rparr>)
      else st)"

definition qualityHealth ::
  "int \<Rightarrow> bool \<Rightarrow> observation_outcome \<Rightarrow> health_status \<Rightarrow> health_status" where
  "qualityHealth failureThreshold metricsOnly outcome st =
     (if outcome = OutcomeSuccess then
        (let st1 = st\<lparr>st_NonBreakerSuccesses := inc64 (st_NonBreakerSuccesses st)\<rparr> in
         if \<not> metricsOnly \<and> st_Breaker st = BreakerClosed
         then st1\<lparr>st_NonBreakerFailures := 0, st_Health := HealthHealthy\<rparr> else st1)
      else
        (let st1 = st\<lparr>st_NonBreakerFailures := inc64 (st_NonBreakerFailures st)\<rparr> in
         if \<not> metricsOnly \<and> st_Breaker st = BreakerClosed then
           (let threshold = (if failureThreshold \<le> 0 then 3 else failureThreshold) in
            if int64 (int (st_NonBreakerFailures st1)) \<ge> threshold
            then st1\<lparr>st_Health := HealthUnreachable\<rparr>
            else if st_Health st1 \<noteq> HealthUnreachable then st1\<lparr>st_Health := HealthDegraded\<rparr>
            else st1)
         else st1))"

definition applyQuality ::
  "health_record \<Rightarrow> observation \<Rightarrow> float64 \<Rightarrow> health_store \<Rightarrow> health_record" where
  "applyQuality r0 obs weight0 s =
     (let weight = (if weight0 < 0 then 0 else weight0);
          st0 = hr_status r0;
          r1 = r0\<lparr>hr_status := st0\<lparr>st_LastUpdated := ob_At obs, st_Reason := ob_Reason obs,
                   st_EvidenceWeight := f_add (st_EvidenceWeight st0) weight\<rparr>\<rparr>;
          r2 = (if ob_Outcome obs = OutcomeSuccess \<and> ob_Delay obs > 0
                then recordHealthDelay r1 (ob_Delay obs) else r1);
          st2 = recordThroughput s (ob_ThroughputBPS obs) (hr_status r2);
          metricsOnly = (weight > 0 \<and> weight < 1 / 2)
      in r2\<lparr>hr_status :=
              qualityHealth (bc_FailureThreshold (hs_breaker s)) metricsOnly (ob_Outcome obs) st2\<rparr>)"

definition observeQualityLocked ::
  "health_key \<Rightarrow> observation \<Rightarrow> float64 \<Rightarrow> health_store \<Rightarrow> health_store" where
  "observeQualityLocked key obs weight s =
     (let s1 = pruneExpiredLocked (ob_At obs) s in
      case map_of (hs_entries s1) key of
        Some record \<Rightarrow>
          if \<not> is_zero (st_LastUpdated (hr_status record)) \<and> ob_At obs < st_LastUpdated (hr_status record)
          then s1
          else evictLocked (putRecord key (applyQuality record obs weight s1) (touchRecord key s1))
      | None \<Rightarrow>
          let record = (newHealthRecord key)
                \<lparr>hr_status := emptyStatus\<lparr>st_Breaker := BreakerClosed\<rparr>\<rparr>
          in evictLocked (insertRecord key (applyQuality record obs weight s1) s1))"

definition observationKey :: "observation \<Rightarrow> health_key" where
  "observationKey obs =
     \<lparr>hk_nodeID = ob_NodeID obs, hk_nodeSlot = ob_NodeSlot obs, hk_nodeVersion = ob_NodeVersion obs,
      hk_domain = ob_Scope obs, hk_transport = ob_Transport obs, hk_service = ob_Service obs\<rparr>"

definition ObserveEvidence :: "observation \<Rightarrow> bool \<Rightarrow> float64 \<Rightarrow> health_store \<Rightarrow> health_store" where
  "ObserveEvidence obs0 breakerEligible weight s =
     (if ob_Outcome obs0 = OutcomeDeferred then s
      else
        let obs1 = (if is_zero (ob_At obs0) then obs0\<lparr>ob_At := hs_clock s\<rparr> else obs0);
            normalized = normalizeHealthTransportPath (ob_Transport obs1);
            obs = (if ob_Scope obs1 = DomainTransport \<and> normalized \<noteq> []
                   then obs1\<lparr>ob_Transport := normalized\<rparr> else obs1);
            key = observationKey obs
        in if breakerEligible
           then observeLocked key (ob_Outcome obs) (ob_At obs) (ob_Delay obs) (ob_Reason obs)
                  0 0 False s
           else observeQualityLocked key obs weight s)"

definition Observe :: "observation \<Rightarrow> health_store \<Rightarrow> health_store" where
  "Observe obs s = ObserveEvidence obs True 1 s"

section \<open>Reading a status\<close>

definition healthTransportStatusRank :: "health_status \<Rightarrow> nat" where
  "healthTransportStatusRank st =
     (case st_Breaker st of
        BreakerHalfOpen \<Rightarrow> 4
      | BreakerOpen \<Rightarrow> 3
      | BreakerCooldown \<Rightarrow> 2
      | _ \<Rightarrow> if st_Health st = HealthUnreachable then 1 else 0)"

definition worseRecord :: "health_record \<Rightarrow> health_record \<Rightarrow> bool" where
  \<comment> \<open>the candidate replaces the record selected so far\<close>
  "worseRecord candidate selected \<longleftrightarrow>
     healthTransportStatusRank (hr_status candidate) > healthTransportStatusRank (hr_status selected)
     \<or> healthTransportStatusRank (hr_status candidate) = healthTransportStatusRank (hr_status selected)
       \<and> st_LastUpdated (hr_status candidate) > st_LastUpdated (hr_status selected)"

fun selectWorst ::
  "(health_key \<Rightarrow> bool) \<Rightarrow> (health_key \<times> health_record) option \<Rightarrow>
   (health_key \<times> health_record) list \<Rightarrow> (health_key \<times> health_record) option" where
  "selectWorst P selected [] = selected"
| "selectWorst P selected ((k, r) # rest) =
     (if \<not> P k then selectWorst P selected rest
      else case selected of
          None \<Rightarrow> selectWorst P (Some (k, r)) rest
        | Some (k0, r0) \<Rightarrow>
            if worseRecord r r0 then selectWorst P (Some (k, r)) rest
            else selectWorst P selected rest)"

definition keyHasHandle :: "node_handle \<Rightarrow> health_key \<Rightarrow> bool" where
  "keyHasHandle handle k \<longleftrightarrow>
     hk_nodeID k = nh_NodeID handle \<and> hk_nodeSlot k = nh_Slot handle
     \<and> hk_nodeVersion k = nh_Version handle"

definition recordForKeyLocked ::
  "health_store \<Rightarrow> health_key \<Rightarrow> health_record option \<times> health_key" where
  "recordForKeyLocked s key =
     (case map_of (hs_entries s) key of
        Some record \<Rightarrow> (Some record, key)
      | None \<Rightarrow>
          if hk_domain key \<noteq> DomainTransport then (None, key)
          else case index_byte (hk_transport key) (CHR ''/'') of
              Some separator \<Rightarrow>
                if separator > 0 then
                  (let t0 = take separator (hk_transport key);
                       t = (if has_prefix t0 ''udp_'' then ''udp'' else t0);
                       legacyKey = key\<lparr>hk_transport := t\<rparr>
                   in case map_of (hs_entries s) legacyKey of
                        Some record \<Rightarrow> (Some record, legacyKey)
                      | None \<Rightarrow> (None, key))
                else (None, key)
            | None \<Rightarrow> (None, key))"

definition handleKey ::
  "node_handle \<Rightarrow> failure_domain \<Rightarrow> string \<Rightarrow> string \<Rightarrow> health_key" where
  "handleKey handle domain transport service =
     \<lparr>hk_nodeID = nh_NodeID handle, hk_nodeSlot = nh_Slot handle,
      hk_nodeVersion = nh_Version handle, hk_domain = domain, hk_transport = transport,
      hk_service = service\<rparr>"

definition StatusHandle ::
  "health_store \<Rightarrow> node_handle \<Rightarrow> failure_domain \<Rightarrow> string \<Rightarrow> string \<Rightarrow> health_status" where
  "StatusHandle s handle domain transport service =
     (let record0 = fst (recordForKeyLocked s (handleKey handle domain transport service));
          record = (if record0 = None \<and> domain = DomainTransport
                       \<and> \<not> contains_byte transport (CHR ''/'')
                    then map_option snd (selectWorst
                       (\<lambda>k. keyHasHandle handle k \<and> hk_domain k = domain \<and> hk_service k = service
                            \<and> has_prefix (hk_transport k) (transport @ ''/''))
                       None (hs_entries s))
                    else record0)
      in case record of
           None \<Rightarrow> emptyStatus\<lparr>st_Health := HealthUnknown, st_Breaker := BreakerClosed\<rparr>
         | Some r \<Rightarrow> hr_status r)"

definition EndpointHandle :: "health_store \<Rightarrow> node_handle \<Rightarrow> health_status" where
  "EndpointHandle s handle = StatusHandle s handle DomainEndpoint [] []"

definition mostRestrictiveTransportRecordLocked ::
  "health_store \<Rightarrow> node_handle \<Rightarrow> string \<Rightarrow> (health_key \<times> health_record) option" where
  "mostRestrictiveTransportRecordLocked s handle transport =
     (let (class, family) = splitHealthTransport transport in
      if class = [] then None
      else if family \<noteq> [] \<and> family \<noteq> ''any'' then None
      else case selectWorst
              (\<lambda>k. keyHasHandle handle k \<and> hk_domain k = DomainTransport
                   \<and> has_prefix (hk_transport k) (class @ ''/''))
              None (hs_entries s) of
          None \<Rightarrow> None
        | Some (k, r) \<Rightarrow> if healthTransportStatusRank (hr_status r) = 0 then None else Some (k, r))"

section \<open>Retirement and statistics\<close>

definition RetireNodeHandle :: "node_handle \<Rightarrow> health_store \<Rightarrow> health_store" where
  "RetireNodeHandle handle s =
     fold removeLocked (filter (keyHasHandle handle) (gm_keys (hs_entries s))) s"

definition healthStats :: "health_store \<Rightarrow> nat \<times> nat" where
  "healthStats s = (length (hs_entries s), hs_evictions s)"

definition ReadOnlySnapshot :: "health_store \<Rightarrow> health_store" where
  \<comment> \<open>the clone's list is filled from the front while ranging over the map\<close>
  "ReadOnlySnapshot s =
     s\<lparr>hs_lru := rev (gm_keys (hs_entries s)), hs_nextToken := 0\<rparr>"

end
