(* ===== verification/Health_Invariant.thy ===== *)
theory Health_Invariant
  imports Health_Store
begin

text \<open>
  The invariant of the health store and its preservation by every operation that observes,
  prunes, evicts or retires: the map and the recency list agree, the store is within its
  capacity, and each record is consistent (a half-open token is held only in the half-open
  state, the half-open flag tells that state, the published cooldown is the breaker's own,
  the delay ring is in range). The interpretation of the bounded-table interface is here.
\<close>

section \<open>The bounded table\<close>

interpretation htab: lru_table hs_entries hs_lru hs_maxEntries removeOldestLocked evictLocked
proof unfold_locales
  show "evictLocked s = (if hs_maxEntries s < length (hs_entries s) \<and> hs_lru s \<noteq> []
          then evictLocked (removeOldestLocked s) else s)" for s
    by (rule evictLocked.simps)
qed (simp_all add: removeOldestLocked_def removeLocked_def)

section \<open>The invariant\<close>

definition record_ok :: "health_key \<Rightarrow> health_record \<Rightarrow> bool" where
  "record_ok key r \<longleftrightarrow>
     hr_key r = key
     \<and> (hr_halfOpenToken r \<noteq> 0 \<longrightarrow> record_breaker r = BreakerHalfOpen)
     \<and> (st_HalfOpen (hr_status r) \<longleftrightarrow> record_breaker r = BreakerHalfOpen)
     \<and> (record_breaker r \<in> {BreakerOpen, BreakerCooldown} \<longrightarrow>
          st_CooldownUntil (hr_status r) = hr_openUntil r)
     \<and> 0 \<le> hr_recoverySuccesses r \<and> hr_recoverySuccesses r < 2
     \<and> st_RecoverySuccesses (hr_status r) = hr_recoverySuccesses r
     \<and> length (hr_delaySamples r) = healthDelayRingSize
     \<and> hr_delayCount r \<le> healthDelayRingSize \<and> hr_delayNext r < healthDelayRingSize
     \<and> st_DelaySamples (hr_status r) = hr_delayCount r"

definition records_ok :: "health_store \<Rightarrow> bool" where
  "records_ok s \<longleftrightarrow> (\<forall>k r. map_of (hs_entries s) k = Some r \<longrightarrow> record_ok k r)"

definition health_inv :: "health_store \<Rightarrow> bool" where
  "health_inv s \<longleftrightarrow>
     lru_wf (hs_entries s) (hs_lru s) \<and> length (hs_entries s) \<le> hs_maxEntries s \<and> records_ok s"

lemma health_inv_new: "health_inv (NewHealthStoreWithClock r m c b f g)"
  by (simp add: health_inv_def NewHealthStoreWithClock_def records_ok_def)

section \<open>Record transitions\<close>

lemma record_ok_new [simp]: "record_ok key (newHealthRecord key)"
  by (simp add: record_ok_def newHealthRecord_def emptyStatus_def)

lemma record_ok_delay: "record_ok key r \<Longrightarrow> record_ok key (recordHealthDelay r d)"
  by (auto simp: record_ok_def recordHealthDelay_def Let_def)

lemma delay_frame [simp]:
  "record_breaker (recordHealthDelay r d) = record_breaker r"
  "hr_halfOpenToken (recordHealthDelay r d) = hr_halfOpenToken r"
  "hr_version (recordHealthDelay r d) = hr_version r"
  "hr_consecutiveFailure (recordHealthDelay r d) = hr_consecutiveFailure r"
  "hr_reopenCount (recordHealthDelay r d) = hr_reopenCount r"
  "hr_recoverySuccesses (recordHealthDelay r d) = hr_recoverySuccesses r"
  "hr_openUntil (recordHealthDelay r d) = hr_openUntil r"
  "hr_key (recordHealthDelay r d) = hr_key r"
  "st_Health (hr_status (recordHealthDelay r d)) = st_Health (hr_status r)"
  "st_LastUpdated (hr_status (recordHealthDelay r d)) = st_LastUpdated (hr_status r)"
  "st_CooldownUntil (hr_status (recordHealthDelay r d)) = st_CooldownUntil (hr_status r)"
  by (simp_all add: recordHealthDelay_def Let_def)

lemma record_ok_success: "record_ok key r \<Longrightarrow> record_ok key (fst (recordSuccess r))"
  by (auto simp: record_ok_def recordSuccess_def Let_def)

lemma record_ok_failure: "record_ok key r \<Longrightarrow> record_ok key (recordFailure cfg d t r)"
  by (auto simp: record_ok_def recordFailure_def openBreakerRecordLocked_def failureOpens_def Let_def)

lemma record_ok_stamp:
  "record_ok key r \<Longrightarrow>
   record_ok key (r\<lparr>hr_status := (hr_status r)\<lparr>st_LastUpdated := t, st_Reason := m\<rparr>\<rparr>)"
  by (simp add: record_ok_def)

lemma throughput_frame [simp]:
  "st_Breaker (recordThroughput s b st) = st_Breaker st"
  "st_HalfOpen (recordThroughput s b st) = st_HalfOpen st"
  "st_CooldownUntil (recordThroughput s b st) = st_CooldownUntil st"
  "st_RecoverySuccesses (recordThroughput s b st) = st_RecoverySuccesses st"
  "st_DelaySamples (recordThroughput s b st) = st_DelaySamples st"
  "st_Health (recordThroughput s b st) = st_Health st"
  "st_LastUpdated (recordThroughput s b st) = st_LastUpdated st"
  "st_NonBreakerFailures (recordThroughput s b st) = st_NonBreakerFailures st"
  by (simp_all add: recordThroughput_def Let_def)

lemma quality_frame [simp]:
  "st_Breaker (qualityHealth n m oc st) = st_Breaker st"
  "st_HalfOpen (qualityHealth n m oc st) = st_HalfOpen st"
  "st_CooldownUntil (qualityHealth n m oc st) = st_CooldownUntil st"
  "st_RecoverySuccesses (qualityHealth n m oc st) = st_RecoverySuccesses st"
  "st_DelaySamples (qualityHealth n m oc st) = st_DelaySamples st"
  "st_LastUpdated (qualityHealth n m oc st) = st_LastUpdated st"
  by (simp_all add: qualityHealth_def Let_def)

lemma record_ok_quality: "record_ok key r \<Longrightarrow> record_ok key (applyQuality r obs w s)"
  using record_ok_delay
  by (auto simp: record_ok_def applyQuality_def Let_def recordHealthDelay_def)

section \<open>Store operations\<close>

lemma store_frame [simp]:
  "hs_entries (touchRecord k s) = hs_entries s"
  "hs_maxEntries (touchRecord k s) = hs_maxEntries s"
  "hs_lru (putRecord k r s) = hs_lru s"
  "hs_maxEntries (putRecord k r s) = hs_maxEntries s"
  "hs_maxEntries (insertRecord k r s) = hs_maxEntries s"
  "hs_maxEntries (removeLocked k s) = hs_maxEntries s"
  "hs_nextToken (touchRecord k s) = hs_nextToken s"
  "hs_nextToken (putRecord k r s) = hs_nextToken s"
  "hs_nextToken (insertRecord k r s) = hs_nextToken s"
  "hs_nextToken (removeLocked k s) = hs_nextToken s"
  "hs_retention (removeLocked k s) = hs_retention s"
  "hs_breaker (removeLocked k s) = hs_breaker s"
  "hs_breaker (touchRecord k s) = hs_breaker s"
  "hs_breaker (insertRecord k r s) = hs_breaker s"
  "hs_clock (removeLocked k s) = hs_clock s"
  by (simp_all add: touchRecord_def putRecord_def insertRecord_def removeLocked_def)

lemma lookup_put: "map_of (hs_entries (putRecord k r s)) k' =
    (if k' = k then Some r else map_of (hs_entries s) k')"
  by (simp add: putRecord_def gomap_simps)

lemma lookup_insert: "map_of (hs_entries (insertRecord k r s)) k' =
    (if k' = k then Some r else map_of (hs_entries s) k')"
  by (simp add: insertRecord_def gomap_simps)

lemma lookup_remove: "map_of (hs_entries (removeLocked k s)) k' =
    (if k' = k then None else map_of (hs_entries s) k')"
  by (simp add: removeLocked_def gomap_simps)

lemmas lookup_simps = lookup_put lookup_insert lookup_remove

lemma records_ok_put: "records_ok s \<Longrightarrow> record_ok k r \<Longrightarrow> records_ok (putRecord k r s)"
  by (auto simp: records_ok_def lookup_simps)

lemma records_ok_insert: "records_ok s \<Longrightarrow> record_ok k r \<Longrightarrow> records_ok (insertRecord k r s)"
  by (auto simp: records_ok_def lookup_simps)

lemma records_ok_remove: "records_ok s \<Longrightarrow> records_ok (removeLocked k s)"
  by (auto simp: records_ok_def lookup_simps)

lemma records_ok_touch: "records_ok (touchRecord k s) = records_ok s"
  by (simp add: records_ok_def)

lemma records_ok_evict: "records_ok s \<Longrightarrow> records_ok (evictLocked s)"
  by (auto simp: records_ok_def dest!: htab.evict_lookup_sub)

lemma inv_remove: "health_inv s \<Longrightarrow> health_inv (removeLocked k s)"
  using records_ok_remove [of s k] lru_wf_delete [of "hs_entries s" "hs_lru s" k]
  by (auto simp: health_inv_def removeLocked_def lru_wf_def gm_len_del)

lemma inv_prune_loop: "health_inv s \<Longrightarrow> health_inv (pruneLoop t ks s)"
  by (induction t ks s rule: pruneLoop.induct) (auto split: option.splits intro: inv_remove)

lemma inv_prune: "health_inv s \<Longrightarrow> health_inv (pruneExpiredLocked t s)"
  by (simp add: pruneExpiredLocked_def inv_prune_loop)

lemma inv_touch:
  "health_inv s \<Longrightarrow> map_of (hs_entries s) k \<noteq> None \<Longrightarrow> health_inv (touchRecord k s)"
  by (simp add: health_inv_def records_ok_def touchRecord_def lru_wf_touch)

lemma inv_put:
  "health_inv s \<Longrightarrow> map_of (hs_entries s) k \<noteq> None \<Longrightarrow> record_ok k r \<Longrightarrow> health_inv (putRecord k r s)"
  using records_ok_put [of s k r]
  by (auto simp: health_inv_def putRecord_def lru_wf_update gm_len_put)

text \<open>
  After an insertion the store may hold one entry too many; the eviction that ends every
  insertion restores the bound.
\<close>

definition health_pre :: "health_store \<Rightarrow> bool" where
  "health_pre s \<longleftrightarrow> lru_wf (hs_entries s) (hs_lru s) \<and> records_ok s"

lemma inv_pre: "health_inv s \<Longrightarrow> health_pre s"
  by (simp add: health_inv_def health_pre_def)

lemma pre_insert:
  "health_inv s \<Longrightarrow> map_of (hs_entries s) k = None \<Longrightarrow> record_ok k r \<Longrightarrow> health_pre (insertRecord k r s)"
  using records_ok_insert [of s k r]
  by (simp add: health_inv_def health_pre_def insertRecord_def lru_wf_insert)

lemma pre_put:
  "health_pre s \<Longrightarrow> map_of (hs_entries s) k \<noteq> None \<Longrightarrow> record_ok k r \<Longrightarrow> health_pre (putRecord k r s)"
  using records_ok_put [of s k r]
  by (auto simp: health_pre_def putRecord_def lru_wf_update)

lemma pre_draws: "health_pre s \<Longrightarrow> health_pre (s\<lparr>hs_draws := n\<rparr>)"
  by (simp add: health_pre_def records_ok_def)

lemma inv_evict: "health_pre s \<Longrightarrow> health_inv (evictLocked s)"
  using htab.evict_wf [of s] htab.evict_bounded [of s] htab.evict_cap [of s]
  by (simp add: health_inv_def health_pre_def records_ok_evict)

lemma evictLocked_bounded:
  "lru_wf (hs_entries s) (hs_lru s) \<Longrightarrow> \<not> length (hs_entries (evictLocked s)) > hs_maxEntries (evictLocked s)"
  using htab.evict_bounded [of s] htab.evict_cap [of s] by simp

text \<open>An outcome is applied to a record of the store.\<close>

lemma record_ok_outcome: "record_ok key r \<Longrightarrow> record_ok key (stampOutcome r oc t d m)"
  by (simp add: stampOutcome_def Let_def record_ok_stamp record_ok_delay)

lemma stamp_frame [simp]:
  "record_breaker (stampOutcome r oc t d m) = record_breaker r"
  "hr_halfOpenToken (stampOutcome r oc t d m) = hr_halfOpenToken r"
  "hr_version (stampOutcome r oc t d m) = hr_version r"
  "hr_consecutiveFailure (stampOutcome r oc t d m) = hr_consecutiveFailure r"
  "hr_reopenCount (stampOutcome r oc t d m) = hr_reopenCount r"
  "hr_recoverySuccesses (stampOutcome r oc t d m) = hr_recoverySuccesses r"
  "hr_openUntil (stampOutcome r oc t d m) = hr_openUntil r"
  "st_LastUpdated (hr_status (stampOutcome r oc t d m)) = t"
  by (simp_all add: stampOutcome_def Let_def)

lemma early_success_half_open:
  "snd (recordSuccess r) \<Longrightarrow> record_breaker r = BreakerHalfOpen"
  by (auto simp: recordSuccess_def Let_def split: if_splits)

lemma inv_apply_outcome:
  assumes pre: "health_pre s" and get: "map_of (hs_entries s) key = Some r0"
    and early: "record_breaker r0 = BreakerHalfOpen \<Longrightarrow> length (hs_entries s) \<le> hs_maxEntries s"
  shows "health_inv (applyOutcome key r0 oc t delay reason s)"
proof -
  let ?r2 = "stampOutcome r0 oc t delay reason"
  have ok2: "record_ok key ?r2"
    using pre get by (simp add: health_pre_def records_ok_def record_ok_outcome)
  show ?thesis
  proof (cases "oc = OutcomeSuccess")
    case True
    have p: "health_pre (putRecord key (fst (recordSuccess ?r2)) s)"
      by (rule pre_put [OF pre]) (simp_all add: get record_ok_success ok2)
    show ?thesis
    proof (cases "snd (recordSuccess ?r2)")
      case e: True
      then have "length (hs_entries s) \<le> hs_maxEntries s"
        using early early_success_half_open [of ?r2] by simp
      then have "health_inv (putRecord key (fst (recordSuccess ?r2)) s)"
        using p get by (simp add: health_inv_def health_pre_def putRecord_def gm_len_put)
      then show ?thesis
        using True e by (simp add: applyOutcome_def case_prod_unfold)
    next
      case e: False
      then show ?thesis
        using True inv_evict [OF p] by (simp add: applyOutcome_def case_prod_unfold)
    qed
  next
    case False
    have "health_pre (putRecord key (recordFailure (hs_breaker s) (hs_draws s) t ?r2)
            (s\<lparr>hs_draws := n\<rparr>))" for n
      by (rule pre_put [OF pre_draws [OF pre]]) (simp_all add: get record_ok_failure ok2)
    then show ?thesis
      using False inv_evict by (simp add: applyOutcome_def Let_def)
  qed
qed

lemma inv_observe: "health_inv s \<Longrightarrow> health_inv (observeLocked k oc t d m v tok act s)"
proof -
  assume "health_inv s"
  then have s1: "health_inv (pruneExpiredLocked t s)" by (rule inv_prune)
  show ?thesis
  proof (cases "map_of (hs_entries (pruneExpiredLocked t s)) k")
    case None
    let ?s2 = "insertRecord k (newHealthRecord k) (pruneExpiredLocked t s)"
    have p: "health_pre ?s2" by (rule pre_insert [OF s1 None record_ok_new])
    have get: "map_of (hs_entries ?s2) k = Some (newHealthRecord k)" by (simp add: lookup_simps)
    have nb: "record_breaker (newHealthRecord k) = BreakerEmpty"
      by (simp add: newHealthRecord_def emptyStatus_def)
    have nv: "hr_version (newHealthRecord k) = 0" by (simp add: newHealthRecord_def)
    show ?thesis
      using s1 None inv_apply_outcome [OF p get] nb nv
      by (auto simp: observeLocked_def Let_def observeRefused_def)
  next
    case (Some r)
    let ?s2 = "touchRecord k (pruneExpiredLocked t s)"
    have i2: "health_inv ?s2" by (rule inv_touch [OF s1]) (simp add: Some)
    then have "length (hs_entries ?s2) \<le> hs_maxEntries ?s2" by (simp add: health_inv_def)
    then show ?thesis
      using s1 Some i2 inv_apply_outcome [OF inv_pre [OF i2], of k r]
      by (auto simp: observeLocked_def Let_def)
  qed
qed

lemma inv_observe_quality: "health_inv s \<Longrightarrow> health_inv (observeQualityLocked k obs w s)"
proof -
  assume "health_inv s"
  then have s1: "health_inv (pruneExpiredLocked (ob_At obs) s)" by (rule inv_prune)
  show ?thesis
  proof (cases "map_of (hs_entries (pruneExpiredLocked (ob_At obs) s)) k")
    case None
    have "record_ok k ((newHealthRecord k)\<lparr>hr_status := emptyStatus\<lparr>st_Breaker := BreakerClosed\<rparr>\<rparr>)"
      by (simp add: record_ok_def newHealthRecord_def emptyStatus_def)
    then show ?thesis
      using inv_evict [OF pre_insert [OF s1 None record_ok_quality]] None
      by (simp add: observeQualityLocked_def Let_def)
  next
    case (Some r)
    have i2: "health_inv (touchRecord k (pruneExpiredLocked (ob_At obs) s))"
      by (rule inv_touch [OF s1]) (simp add: Some)
    have "record_ok k r" using s1 Some by (simp add: health_inv_def records_ok_def)
    then show ?thesis
      using s1 Some inv_evict [OF inv_pre [OF inv_put [OF i2 _ record_ok_quality]]]
      by (simp add: observeQualityLocked_def Let_def)
  qed
qed

lemma inv_observe_evidence: "health_inv s \<Longrightarrow> health_inv (ObserveEvidence obs elig w s)"
  by (simp add: ObserveEvidence_def Let_def inv_observe inv_observe_quality)

lemma inv_retire: "health_inv s \<Longrightarrow> health_inv (RetireNodeHandle h s)"
proof -
  have "health_inv s \<Longrightarrow> health_inv (fold removeLocked ks s)" for ks s
    by (induction ks arbitrary: s) (auto intro: inv_remove)
  then show "health_inv s \<Longrightarrow> health_inv (RetireNodeHandle h s)"
    by (simp add: RetireNodeHandle_def)
qed

lemma inv_clock [simp]: "health_inv (s\<lparr>hs_clock := t\<rparr>) = health_inv s"
  by (simp add: health_inv_def records_ok_def)

lemmas health_inv_ops =
  inv_observe_evidence inv_retire inv_observe inv_prune

end
