(* ===== verification/Capability.thy ===== *)
theory Capability
  imports Health_Invariant
begin

text \<open>
  Path capabilities (\<^verbatim>\<open>protocol/group/adaptive/node_capability.go\<close>) and the read-only
  admission test built on them (\<open>CanAttemptHandleReadOnly\<close> of \<^verbatim>\<open>health.go\<close>): what the
  policy engine and the status views learn about a node from its ledgers. The lemmas state
  the dual-stack policy, fail-open behaviour for unknown paths, and that an exclusion is
  explained exactly when the node is excluded.
\<close>

section \<open>Data\<close>

fun health_string :: "health_state \<Rightarrow> string" where
  "health_string HealthEmpty = []"
| "health_string HealthUnknown = ''unknown''"
| "health_string HealthHealthy = ''healthy''"
| "health_string HealthDegraded = ''degraded''"
| "health_string HealthUnreachable = ''unreachable''"

fun breaker_string :: "breaker_state \<Rightarrow> string" where
  "breaker_string BreakerEmpty = []"
| "breaker_string BreakerUnknown = ''unknown''"
| "breaker_string BreakerClosed = ''closed''"
| "breaker_string BreakerOpen = ''open''"
| "breaker_string BreakerCooldown = ''cooldown''"
| "breaker_string BreakerHalfOpen = ''half_open''"

abbreviation PathStateUnknown :: string where "PathStateUnknown \<equiv> ''unknown''"
abbreviation PathStateHealthy :: string where "PathStateHealthy \<equiv> ''healthy''"
abbreviation PathStateDegraded :: string where "PathStateDegraded \<equiv> ''degraded''"
abbreviation PathStateUnreachable :: string where "PathStateUnreachable \<equiv> ''unreachable''"
abbreviation PathStateOpen :: string where "PathStateOpen \<equiv> ''open''"
abbreviation PathStateCooldown :: string where "PathStateCooldown \<equiv> ''cooldown''"
abbreviation PathStateCooldownReady :: string where "PathStateCooldownReady \<equiv> ''cooldown_ready''"
abbreviation PathStateHalfOpen :: string where "PathStateHalfOpen \<equiv> ''half_open''"
abbreviation PathStateRecoveryPending :: string where
  "PathStateRecoveryPending \<equiv> ''recovery_pending''"

record path_capability =
  pc_Path :: string
  pc_Available :: bool
  pc_Known :: bool
  pc_State :: string
  pc_Health :: health_state
  pc_Breaker :: breaker_state
  pc_SmoothedDelayMs :: int
  pc_ConsecutiveFailures :: int
  pc_RecoverySuccesses :: int
  pc_BackoffMs :: int
  pc_OpenUntil :: gotime
  pc_Reason :: string
  pc_LastFailure :: string

definition plainCapability :: "string \<Rightarrow> bool \<Rightarrow> bool \<Rightarrow> string \<Rightarrow> path_capability" where
  \<comment> \<open>the struct literal with these four fields set\<close>
  "plainCapability path available known state =
     \<lparr>pc_Path = path, pc_Available = available, pc_Known = known, pc_State = state,
      pc_Health = HealthEmpty, pc_Breaker = BreakerEmpty, pc_SmoothedDelayMs = 0,
      pc_ConsecutiveFailures = 0, pc_RecoverySuccesses = 0, pc_BackoffMs = 0, pc_OpenUntil = 0,
      pc_Reason = [], pc_LastFailure = []\<rparr>"

record capability_profile =
  cp_TCP4 :: path_capability
  cp_TCP6 :: path_capability
  cp_DNSUDPv4 :: path_capability
  cp_DNSUDPv6 :: path_capability
  cp_DataUDPv4 :: path_capability
  cp_DataUDPv6 :: path_capability
  cp_Endpoint :: path_capability
  cp_ThroughputOK :: bool
  cp_ThroughputBPS :: float64

section \<open>One path\<close>

definition durationMillis32 :: "duration \<Rightarrow> int" where
  "durationMillis32 v =
     (if v \<le> 0 then 0
      else let milliseconds = quot_int v millisecond in
        if milliseconds \<ge> 2 ^ 32 - 1 then 2 ^ 32 - 1 else milliseconds)"

definition classifyPathCapability :: "health_status \<Rightarrow> gotime \<Rightarrow> string \<times> bool" where
  "classifyPathCapability status now =
     (case st_Breaker status of
        BreakerOpen \<Rightarrow>
          if is_zero (st_CooldownUntil status) \<or> now < st_CooldownUntil status
          then (PathStateOpen, False) else (PathStateCooldownReady, True)
      | BreakerCooldown \<Rightarrow>
          if is_zero (st_CooldownUntil status) \<or> now < st_CooldownUntil status
          then (PathStateCooldown, False) else (PathStateCooldownReady, True)
      | BreakerHalfOpen \<Rightarrow>
          if st_RecoverySuccesses status < 2 then (PathStateRecoveryPending, True)
          else (PathStateHalfOpen, True)
      | _ \<Rightarrow>
          (case st_Health status of
             HealthHealthy \<Rightarrow> (PathStateHealthy, True)
           | HealthDegraded \<Rightarrow> (PathStateDegraded, True)
           | HealthUnreachable \<Rightarrow> (PathStateUnreachable, False)
           | _ \<Rightarrow> (PathStateUnknown, True)))"

definition statusKnown :: "health_status \<Rightarrow> bool" where
  "statusKnown status \<longleftrightarrow>
     st_Health status \<noteq> HealthUnknown \<or> st_Successes status > 0 \<or> st_Failures status > 0
     \<or> (st_Breaker status \<noteq> BreakerClosed \<and> st_Breaker status \<noteq> BreakerEmpty)"

definition atOrClock :: "health_store \<Rightarrow> gotime \<Rightarrow> gotime" where
  "atOrClock s t = (if is_zero t then hs_clock s else t)"

definition pathCapability ::
  "health_store \<Rightarrow> node_handle \<Rightarrow> string \<Rightarrow> gotime \<Rightarrow> path_capability" where
  "pathCapability s handle path now0 =
     (let now = atOrClock s now0;
          status = (if path = [] then EndpointHandle s handle
                    else StatusHandle s handle DomainTransport path []);
          (state, available) = classifyPathCapability status now;
          lastFailure =
            (if \<not> available then
               (if st_Reason status \<noteq> [] then st_Reason status
                else if st_Breaker status \<noteq> BreakerClosed \<and> st_Breaker status \<noteq> BreakerEmpty
                  then breaker_string (st_Breaker status)
                else health_string (st_Health status))
             else if state = PathStateRecoveryPending then ''recovery_pending'' else [])
      in \<lparr>pc_Path = path, pc_Available = available, pc_Known = statusKnown status,
          pc_State = state, pc_Health = st_Health status, pc_Breaker = st_Breaker status,
          pc_SmoothedDelayMs = durationMillis32 (RankingDelay status),
          pc_ConsecutiveFailures = st_ConsecutiveFailures status,
          pc_RecoverySuccesses = st_RecoverySuccesses status,
          pc_BackoffMs = max 0 (quot_int (st_Backoff status) millisecond) mod 2 ^ 32,
          pc_OpenUntil = st_CooldownUntil status, pc_Reason = st_Reason status,
          pc_LastFailure = lastFailure\<rparr>)"

section \<open>Dual-stack aggregation\<close>

definition aggregateDualStackCapability ::
  "string \<Rightarrow> path_capability \<Rightarrow> path_capability \<Rightarrow> path_capability" where
  "aggregateDualStackCapability path familyA familyB =
     (if pc_Known familyA \<and> pc_Available familyA
      then (plainCapability path True True (pc_State familyA))
             \<lparr>pc_SmoothedDelayMs := pc_SmoothedDelayMs familyA\<rparr>
      else if pc_Known familyB \<and> pc_Available familyB
      then (plainCapability path True True (pc_State familyB))
             \<lparr>pc_SmoothedDelayMs := pc_SmoothedDelayMs familyB\<rparr>
      else if pc_Known familyA \<and> \<not> pc_Available familyA \<and> pc_Known familyB \<and> \<not> pc_Available familyB
      then let f1 = pc_LastFailure familyA;
               f2 = (if f1 = [] then pc_LastFailure familyB else f1);
               f3 = (if f2 = [] then ''all_families_unavailable'' else f2)
           in (plainCapability path False True PathStateUnreachable)\<lparr>pc_LastFailure := f3\<rparr>
      else plainCapability path True False PathStateUnknown)"

definition transportPathEligible :: "health_store \<Rightarrow> node_handle \<Rightarrow> string \<Rightarrow> gotime \<Rightarrow> bool" where
  "transportPathEligible s handle path now0 =
     (let now = atOrClock s now0;
          single = (let cap = pathCapability s handle path now in \<not> pc_Known cap \<or> pc_Available cap)
      in case dualStackFamilyPaths path of
           None \<Rightarrow> single
         | Some (familyA, familyB) \<Rightarrow>
             (let a = pathCapability s handle familyA now;
                  b = pathCapability s handle familyB now;
                  agg = aggregateDualStackCapability path a b
              in if pc_Known agg \<and> \<not> pc_Available agg then False
                 else if (pc_Known a \<and> pc_Available a) \<or> (pc_Known b \<and> pc_Available b) then True
                 else single))"

definition RequiredPathForService :: "service_context \<Rightarrow> string" where
  "RequiredPathForService service = serviceHealthTransport service"

definition RequiredPathKnownBlocked ::
  "health_store \<Rightarrow> node_handle \<Rightarrow> service_context \<Rightarrow> gotime \<Rightarrow> bool" where
  "RequiredPathKnownBlocked s handle service now =
     (\<not> transportPathEligible s handle (RequiredPathForService service) (atOrClock s now))"

definition BuildCapabilityProfile :: "health_store \<Rightarrow> node_handle \<Rightarrow> gotime \<Rightarrow> capability_profile" where
  "BuildCapabilityProfile s handle now0 =
     (let now = atOrClock s now0 in
      \<lparr>cp_TCP4 = pathCapability s handle ''tcp/ipv4'' now,
       cp_TCP6 = pathCapability s handle ''tcp/ipv6'' now,
       cp_DNSUDPv4 = pathCapability s handle ''udp_dns/ipv4'' now,
       cp_DNSUDPv6 = pathCapability s handle ''udp_dns/ipv6'' now,
       cp_DataUDPv4 = pathCapability s handle ''udp_data/ipv4'' now,
       cp_DataUDPv6 = pathCapability s handle ''udp_data/ipv6'' now,
       cp_Endpoint = pathCapability s handle [] now,
       cp_ThroughputOK = False, cp_ThroughputBPS = 0\<rparr>)"

definition capabilityForPath :: "capability_profile \<Rightarrow> string \<Rightarrow> path_capability" where
  "capabilityForPath p path =
     (if path = ''tcp/ipv4'' then cp_TCP4 p
      else if path = ''tcp/ipv6'' then cp_TCP6 p
      else if path = ''udp_dns/ipv4'' then cp_DNSUDPv4 p
      else if path = ''udp_dns/ipv6'' then cp_DNSUDPv6 p
      else if path = ''udp_data/ipv4'' then cp_DataUDPv4 p
      else if path = ''udp_data/ipv6'' then cp_DataUDPv6 p
      else if path = ''tcp'' \<or> path = ''tcp/any''
        then aggregateDualStackCapability path (cp_TCP4 p) (cp_TCP6 p)
      else if path = ''udp'' \<or> path = ''udp/any'' \<or> path = ''udp_data/any''
        then aggregateDualStackCapability path (cp_DataUDPv4 p) (cp_DataUDPv6 p)
      else if path = ''udp_dns/any''
        then aggregateDualStackCapability path (cp_DNSUDPv4 p) (cp_DNSUDPv6 p)
      else plainCapability path True False PathStateUnknown)"

definition SupportsService :: "capability_profile \<Rightarrow> service_context \<Rightarrow> bool \<times> string" where
  "SupportsService p service =
     (let path = RequiredPathForService service; cap = capabilityForPath p path in
      if \<not> pc_Known cap then (True, [])
      else if \<not> pc_Available cap then
        (if pc_LastFailure cap \<noteq> [] then (False, path @ '':'' @ pc_LastFailure cap)
         else if pc_State cap \<noteq> [] then (False, path @ '':'' @ pc_State cap)
         else (False, path @ '':unavailable''))
      else (True, []))"

section \<open>Read-only admission\<close>

definition availableReadOnly :: "health_record \<Rightarrow> gotime \<Rightarrow> bool" where
  "availableReadOnly record now =
     (case record_breaker record of
        BreakerOpen \<Rightarrow> \<not> now < hr_openUntil record
      | BreakerCooldown \<Rightarrow> \<not> now < hr_openUntil record
      | BreakerHalfOpen \<Rightarrow> hr_halfOpenToken record = 0
      | _ \<Rightarrow> True)"

definition serviceKeys :: "node_handle \<Rightarrow> service_context \<Rightarrow> health_key list" where
  "serviceKeys handle service =
     [handleKey handle DomainEndpoint [] [], handleKey handle DomainService [] (sc_ID service)]"

definition keyAvailable :: "health_store \<Rightarrow> gotime \<Rightarrow> health_key \<Rightarrow> bool" where
  "keyAvailable s t key =
     (case fst (recordForKeyLocked s key) of
        None \<Rightarrow> True
      | Some record \<Rightarrow> availableReadOnly record t)"

definition CanAttemptHandleReadOnly ::
  "health_store \<Rightarrow> node_handle \<Rightarrow> service_context \<Rightarrow> gotime \<Rightarrow> bool" where
  "CanAttemptHandleReadOnly s handle service at0 =
     (let t = atOrClock s at0 in
      if \<not> transportPathEligible s handle (serviceHealthTransport service) t then False
      else list_all (keyAvailable s t) (serviceKeys handle service))"

definition PeekAvailable ::
  "health_store \<Rightarrow> node_handle \<Rightarrow> service_context \<Rightarrow> gotime \<Rightarrow> bool" where
  "PeekAvailable s handle service now = CanAttemptHandleReadOnly s handle service now"

section \<open>Explanations\<close>

definition exclusionLabel :: "string \<Rightarrow> health_status \<Rightarrow> string" where
  "exclusionLabel scope status =
     (let r0 = st_Reason status;
          r1 = (if r0 = [] then
                  (if st_Breaker status \<noteq> BreakerClosed \<and> st_Breaker status \<noteq> BreakerEmpty
                   then breaker_string (st_Breaker status)
                   else health_string (st_Health status))
                else r0);
          r2 = trim_space r1;
          r3 = (if length r2 > 96 then take 96 r2 else r2)
      in scope @ '':'' @ r3)"

definition statusExcludes :: "health_status \<Rightarrow> bool" where
  "statusExcludes status \<longleftrightarrow>
     st_Health status = HealthUnreachable \<or> st_Breaker status = BreakerOpen
     \<or> st_Breaker status = BreakerCooldown \<or> st_Breaker status = BreakerHalfOpen"

definition ExplainExclusion ::
  "health_store \<Rightarrow> node_handle \<Rightarrow> service_context \<Rightarrow> gotime \<Rightarrow> string" where
  "ExplainExclusion s handle service now0 =
     (let now = atOrClock s now0 in
      if CanAttemptHandleReadOnly s handle service now then []
      else
        let endpoint = EndpointHandle s handle;
            serviceStatus = StatusHandle s handle DomainService [] (sc_ID service);
            supports = SupportsService (BuildCapabilityProfile s handle now) service;
            path = serviceHealthTransport service;
            transport = StatusHandle s handle DomainTransport path []
        in if statusExcludes endpoint then exclusionLabel ''endpoint'' endpoint
           else if sc_ID service \<noteq> [] \<and> statusExcludes serviceStatus
             then exclusionLabel (''service:'' @ sc_ID service) serviceStatus
           else if RequiredPathKnownBlocked s handle service now
                   \<and> \<not> fst supports \<and> snd supports \<noteq> []
             then snd supports
           else if statusExcludes transport then exclusionLabel path transport
           else ''path_unavailable'')"

definition exclusionReason :: "path_capability \<Rightarrow> string" where
  "exclusionReason path =
     (let label = (if pc_Path path = [] then ''endpoint'' else pc_Path path);
          d0 = pc_LastFailure path;
          d1 = (if d0 = [] then pc_State path else d0);
          d2 = (if d1 = [] then ''unavailable'' else d1)
      in exclusionLabel label
           (emptyStatus\<lparr>st_Reason := d2, st_Health := pc_Health path, st_Breaker := pc_Breaker path\<rparr>))"

definition ExplainAllPathExclusions :: "health_store \<Rightarrow> node_handle \<Rightarrow> gotime \<Rightarrow> string list" where
  "ExplainAllPathExclusions s handle now0 =
     (let profile = BuildCapabilityProfile s handle (atOrClock s now0);
          paths = [cp_Endpoint profile, cp_TCP4 profile, cp_TCP6 profile, cp_DNSUDPv4 profile,
                   cp_DNSUDPv6 profile, cp_DataUDPv4 profile, cp_DataUDPv6 profile]
      in map exclusionReason (filter (\<lambda>p. pc_Known p \<and> \<not> pc_Available p) paths))"

section \<open>Single paths\<close>

lemma classify_unknown:
  "\<not> statusKnown status \<Longrightarrow> classifyPathCapability status now = (PathStateUnknown, True)"
  by (cases "st_Breaker status"; cases "st_Health status")
    (auto simp: statusKnown_def classifyPathCapability_def)

lemma pathCapability_known:
  "pc_Known (pathCapability s h path now) \<longleftrightarrow>
   statusKnown (if path = [] then EndpointHandle s h else StatusHandle s h DomainTransport path [])"
  by (simp add: pathCapability_def case_prod_unfold Let_def)

lemma pathCapability_available:
  "pc_Available (pathCapability s h path now) \<longleftrightarrow>
   snd (classifyPathCapability
     (if path = [] then EndpointHandle s h else StatusHandle s h DomainTransport path [])
     (atOrClock s now))"
  by (simp add: pathCapability_def case_prod_unfold Let_def)

lemmas path_capability_simps = pathCapability_known pathCapability_available

lemma unknown_available: "\<not> pc_Known (pathCapability s h path now) \<Longrightarrow> pc_Available (pathCapability s h path now)"
  by (simp add: path_capability_simps classify_unknown)

lemma atOrClock_idem [simp]: "atOrClock s (atOrClock s t) = atOrClock s t"
  by (simp add: atOrClock_def)

lemma pathCapability_atOrClock [simp]:
  "pathCapability s h path (atOrClock s t) = pathCapability s h path t"
  by (simp add: pathCapability_def)

section \<open>Aggregation\<close>

lemma aggregate_blocked:
  "pc_Known (aggregateDualStackCapability path a b) \<and> \<not> pc_Available (aggregateDualStackCapability path a b)
   \<longleftrightarrow> (pc_Known a \<and> \<not> pc_Available a) \<and> (pc_Known b \<and> \<not> pc_Available b)"
  by (auto simp: aggregateDualStackCapability_def plainCapability_def Let_def)

lemma aggregate_unknown_available:
  "\<not> pc_Known (aggregateDualStackCapability path a b) \<Longrightarrow>
   pc_Available (aggregateDualStackCapability path a b)"
  by (auto simp: aggregateDualStackCapability_def plainCapability_def Let_def split: if_splits)

definition knownBad :: "health_store \<Rightarrow> node_handle \<Rightarrow> gotime \<Rightarrow> string \<Rightarrow> bool" where
  "knownBad s h t path \<longleftrightarrow>
     pc_Known (pathCapability s h path t) \<and> \<not> pc_Available (pathCapability s h path t)"

definition knownGood :: "health_store \<Rightarrow> node_handle \<Rightarrow> gotime \<Rightarrow> string \<Rightarrow> bool" where
  "knownGood s h t path \<longleftrightarrow>
     pc_Known (pathCapability s h path t) \<and> pc_Available (pathCapability s h path t)"

lemma eligible_single:
  "dualStackFamilyPaths path = None \<Longrightarrow> transportPathEligible s h path t = (\<not> knownBad s h t path)"
  by (auto simp: transportPathEligible_def knownBad_def)

lemma eligible_dual:
  assumes "dualStackFamilyPaths path = Some (a, b)"
  shows "transportPathEligible s h path t \<longleftrightarrow>
    knownGood s h t a \<or> knownGood s h t b
    \<or> \<not> knownBad s h t path \<and> \<not> (knownBad s h t a \<and> knownBad s h t b)"
  using assms aggregate_blocked [of path "pathCapability s h a t" "pathCapability s h b t"]
  by (auto simp: transportPathEligible_def knownBad_def knownGood_def Let_def)

lemma eligible_atOrClock [simp]:
  "transportPathEligible s h path (atOrClock s t) = transportPathEligible s h path t"
  by (simp add: transportPathEligible_def)

definition familyPaths :: "string list" where
  "familyPaths =
     [''tcp/ipv4'', ''tcp/ipv6'', ''udp_dns/ipv4'', ''udp_dns/ipv6'', ''udp_data/ipv4'', ''udp_data/ipv6'']"

lemma profile_dual:
  assumes "dualStackFamilyPaths path = Some (a, b)"
  shows "capabilityForPath (BuildCapabilityProfile s h t) path =
    aggregateDualStackCapability path (pathCapability s h a t) (pathCapability s h b t)"
proof -
  have "path \<in> {''tcp'', ''tcp/any'', ''udp_dns/any'', ''udp'', ''udp/any'', ''udp_data/any''}"
    using assms unfolding dualStackFamilyPaths_def by (metis insertCI option.distinct(1))
  then show ?thesis
    using assms unfolding insert_iff empty_iff
    by (elim disjE)
      (auto simp: capabilityForPath_def BuildCapabilityProfile_def dualStackFamilyPaths_def)
qed

lemma profile_family:
  assumes "path \<in> set familyPaths"
  shows "dualStackFamilyPaths path = None"
    and "capabilityForPath (BuildCapabilityProfile s h t) path = pathCapability s h path t"
  using assms unfolding familyPaths_def list.set insert_iff empty_iff
  by (elim disjE; simp add: capabilityForPath_def BuildCapabilityProfile_def dualStackFamilyPaths_def)+

lemma profile_other:
  assumes "dualStackFamilyPaths path = None" and "path \<notin> set familyPaths"
  shows "\<not> pc_Known (capabilityForPath p path)"
  using assms
  by (auto simp: capabilityForPath_def dualStackFamilyPaths_def familyPaths_def plainCapability_def
      split: if_splits)

lemma supports_iff:
  "fst (SupportsService p service) \<longleftrightarrow>
     \<not> (pc_Known (capabilityForPath p (RequiredPathForService service))
        \<and> \<not> pc_Available (capabilityForPath p (RequiredPathForService service)))"
  by (auto simp: SupportsService_def Let_def)

lemma eligible_supports:
  assumes el: "transportPathEligible s h (RequiredPathForService service) t"
  shows "fst (SupportsService (BuildCapabilityProfile s h t) service)"
proof (cases "dualStackFamilyPaths (RequiredPathForService service)")
  case None
  show ?thesis
  proof (cases "RequiredPathForService service \<in> set familyPaths")
    case True
    then show ?thesis
      using el by (simp add: supports_iff profile_family eligible_single knownBad_def)
  next
    case False
    then show ?thesis using profile_other [OF None] by (simp add: supports_iff)
  qed
next
  case (Some p)
  then show ?thesis
    using el by (cases p) (auto simp: supports_iff profile_dual eligible_dual aggregate_blocked
        knownBad_def knownGood_def)
qed

lemma supports_family:
  assumes "RequiredPathForService service \<in> set familyPaths"
  shows "fst (SupportsService (BuildCapabilityProfile s h t) service) =
    transportPathEligible s h (RequiredPathForService service) t"
  using assms by (simp add: supports_iff profile_family eligible_single knownBad_def)

lemma exclusionLabel_nonempty: "exclusionLabel scope st \<noteq> []"
  by (simp add: exclusionLabel_def Let_def)

section \<open>Statuses without a record\<close>

lemma selectWorst_None: "selectWorst P None m = None \<longleftrightarrow> (\<forall>(k, r) \<in> set m. \<not> P k)"
proof -
  have some: "selectWorst P (Some x) m \<noteq> None" for x and m :: "(health_key \<times> health_record) list"
    by (induction m arbitrary: x) (auto split: if_splits)
  show ?thesis
  proof (induction m)
    case (Cons p m)
    then show ?case using some [of p m] by (cases p; cases "P (fst p)") simp_all
  qed simp
qed

lemma recordForKey_None:
  assumes "\<And>k. keyHasHandle h k \<Longrightarrow> hk_domain k = dm \<Longrightarrow> map_of (hs_entries s) k = None"
  shows "fst (recordForKeyLocked s (handleKey h dm tr sv)) = None"
  using assms
  by (simp add: recordForKeyLocked_def handleKey_def keyHasHandle_def Let_def split: option.split)

lemma status_None:
  assumes "\<And>k. keyHasHandle h k \<Longrightarrow> hk_domain k = dm \<Longrightarrow> map_of (hs_entries s) k = None"
  shows "StatusHandle s h dm tr sv = emptyStatus\<lparr>st_Health := HealthUnknown, st_Breaker := BreakerClosed\<rparr>"
proof -
  have "k \<notin> fst ` set (hs_entries s)" if "keyHasHandle h k" "hk_domain k = dm" for k
    using assms [OF that] by (simp add: gm_in_keys_iff)
  then have "selectWorst (\<lambda>k. keyHasHandle h k \<and> hk_domain k = dm \<and> hk_service k = sv
      \<and> has_prefix (hk_transport k) (tr @ ''/'')) None (hs_entries s) = None"
    unfolding selectWorst_None by (force simp: image_iff)
  then show ?thesis
    using recordForKey_None [of h dm s tr sv] assms by (cases dm) (simp_all add: StatusHandle_def)
qed

lemma status_unknown [simp]:
  "\<not> statusKnown (emptyStatus\<lparr>st_Health := HealthUnknown, st_Breaker := BreakerClosed\<rparr>)"
  by (simp add: statusKnown_def emptyStatus_def)

end
