(* ===== verification/Health_Permit.thy ===== *)
theory Health_Permit
  imports Capability
begin

text \<open>
  Attempt permits (\<^verbatim>\<open>protocol/group/adaptive/health.go\<close>): how a dial acquires the
  half-open tokens of the breakers it crosses, and how the permit is settled. A permit is a
  value of its own (entries and the completed flag of the atomic); the operations on it
  return the updated permit with the updated store. The last part closes the store and the
  permits issued from it under every locked operation and proves the ownership invariant:
  a half-open token is held by at most one unsettled permit.
\<close>

section \<open>Data\<close>

record permit_entry =
  pe_key :: health_key
  pe_version :: nat
  pe_halfOpenToken :: nat

record attempt_permit =
  ap_entries :: "permit_entry list"
  ap_completed :: bool

section \<open>Acquisition\<close>

definition availableLocked :: "health_record \<Rightarrow> gotime \<Rightarrow> health_record \<times> bool" where
  "availableLocked record now =
     (case record_breaker record of
        BreakerOpen \<Rightarrow>
          if now < hr_openUntil record
          then (record\<lparr>hr_status := (hr_status record)
                  \<lparr>st_Breaker := BreakerCooldown, st_CooldownUntil := hr_openUntil record\<rparr>\<rparr>, False)
          else (record, True)
      | BreakerCooldown \<Rightarrow> (record, \<not> now < hr_openUntil record)
      | BreakerHalfOpen \<Rightarrow> (record, hr_halfOpenToken record = 0)
      | _ \<Rightarrow> (record, True))"

definition releaseTokenLocked :: "permit_entry \<Rightarrow> health_store \<Rightarrow> health_store" where
  "releaseTokenLocked entry s =
     (case map_of (hs_entries s) (pe_key entry) of
        None \<Rightarrow> s
      | Some record \<Rightarrow>
          if hr_version record = pe_version entry \<and> hr_halfOpenToken record = pe_halfOpenToken entry
             \<and> pe_halfOpenToken entry \<noteq> 0 \<and> record_breaker record = BreakerHalfOpen
          then putRecord (pe_key entry)
                 (record\<lparr>hr_halfOpenToken := 0,
                    hr_status := (hr_status record)\<lparr>st_Breaker := BreakerCooldown, st_HalfOpen := False,
                      st_CooldownUntil := hr_openUntil record\<rparr>\<rparr>) s
          else s)"

definition grantEntry ::
  "health_key \<Rightarrow> health_record \<Rightarrow> health_store \<Rightarrow> health_store \<times> permit_entry" where
  \<comment> \<open>the entry for an available record: a fresh token unless its breaker is closed\<close>
  "grantEntry key record s =
     (if record_breaker record \<in> {BreakerOpen, BreakerCooldown, BreakerHalfOpen}
      then let token = inc64 (hs_nextToken s) in
        (putRecord key
           (record\<lparr>hr_halfOpenToken := token,
              hr_status := (hr_status record)\<lparr>st_Breaker := BreakerHalfOpen, st_HalfOpen := True\<rparr>\<rparr>)
           (s\<lparr>hs_nextToken := token\<rparr>),
         \<lparr>pe_key = key, pe_version = hr_version record, pe_halfOpenToken = token\<rparr>)
      else (s, \<lparr>pe_key = key, pe_version = hr_version record, pe_halfOpenToken = 0\<rparr>))"

definition freeEntry :: "health_key \<Rightarrow> permit_entry" where
  \<comment> \<open>the entry for a key without a record\<close>
  "freeEntry key = \<lparr>pe_key = key, pe_version = 0, pe_halfOpenToken = 0\<rparr>"

definition newPermit :: "permit_entry list \<Rightarrow> attempt_permit" where
  "newPermit entries = \<lparr>ap_entries = entries, ap_completed = False\<rparr>"

fun acquireLoop ::
  "gotime \<Rightarrow> health_key list \<Rightarrow> permit_entry list \<Rightarrow> health_store \<Rightarrow>
   health_store \<times> permit_entry list option" where
  "acquireLoop t [] entries s = (s, Some entries)"
| "acquireLoop t (key0 # keys) entries s =
     (case recordForKeyLocked s key0 of
        (None, key) \<Rightarrow> acquireLoop t keys (entries @ [freeEntry key]) s
      | (Some record, key) \<Rightarrow>
          let (record', available) = availableLocked record t in
          if \<not> available then (fold releaseTokenLocked entries (putRecord key record' s), None)
          else let (s', entry) = grantEntry key record s in
            acquireLoop t keys (entries @ [entry]) s')"

definition tryAcquirePermit ::
  "health_key list \<Rightarrow> gotime \<Rightarrow> health_store \<Rightarrow> health_store \<times> attempt_permit option" where
  "tryAcquirePermit keys t s =
     (case acquireLoop t keys [] s of
        (s', None) \<Rightarrow> (s', None)
      | (s', Some entries) \<Rightarrow> (s', Some (newPermit entries)))"

definition permitTransportKey :: "health_store \<Rightarrow> node_handle \<Rightarrow> string \<Rightarrow> string" where
  \<comment> \<open>the transport key \<open>permitKeysForDial\<close> pins\<close>
  "permitTransportKey s handle transport =
     (let transportKey = transportLedgerKey transport; now = hs_clock s in
      case dualStackFamilyPaths transportKey of
        None \<Rightarrow> transportKey
      | Some (familyA, familyB) \<Rightarrow>
          if knownBad s handle now transport then
            (if knownGood s handle now familyA then familyA
             else if knownGood s handle now familyB then familyB
             else transportKey)
          else transportKey)"

definition permitKeysForDial ::
  "health_store \<Rightarrow> node_handle \<Rightarrow> string \<Rightarrow> string \<Rightarrow> bool \<Rightarrow> health_key list" where
  "permitKeysForDial s handle transport serviceID includeService =
     (let transportKey = permitTransportKey s handle transport in
      [handleKey handle DomainEndpoint [] []]
      @ (if transportKey \<noteq> [] then [handleKey handle DomainTransport transportKey []] else [])
      @ (if includeService then [handleKey handle DomainService [] serviceID] else []))"

definition TryAcquireAttemptPermitHandle ::
  "node_handle \<Rightarrow> service_context \<Rightarrow> gotime \<Rightarrow> health_store \<Rightarrow> health_store \<times> attempt_permit option" where
  "TryAcquireAttemptPermitHandle handle service at0 s =
     (let t = atOrClock s at0; path = serviceHealthTransport service in
      if \<not> transportPathEligible s handle path t then (s, None)
      else tryAcquirePermit (permitKeysForDial s handle path (sc_ID service) True) t s)"

definition TryAcquireConnectionPermitHandle ::
  "node_handle \<Rightarrow> string \<Rightarrow> gotime \<Rightarrow> health_store \<Rightarrow> health_store \<times> attempt_permit option" where
  "TryAcquireConnectionPermitHandle handle transport at0 s =
     (let t = atOrClock s at0 in
      if \<not> transportPathEligible s handle transport t then (s, None)
      else tryAcquirePermit (permitKeysForDial s handle transport [] False) t s)"

fun fallbackEntries :: "health_store \<Rightarrow> health_key list \<Rightarrow> permit_entry list option" where
  "fallbackEntries s [] = Some []"
| "fallbackEntries s (key # keys) =
     (case map_of (hs_entries s) key of
        None \<Rightarrow> map_option (\<lambda>es. freeEntry key # es) (fallbackEntries s keys)
      | Some record \<Rightarrow>
          if record_breaker record = BreakerHalfOpen then None
          else map_option
            (\<lambda>es. \<lparr>pe_key = key, pe_version = hr_version record, pe_halfOpenToken = 0\<rparr> # es)
            (fallbackEntries s keys))"

definition TryAcquireConnectionFallbackPermitHandle ::
  "node_handle \<Rightarrow> string \<Rightarrow> health_store \<Rightarrow> attempt_permit option" where
  \<comment> \<open>the instant only replaces a zero argument and is not used further\<close>
  "TryAcquireConnectionFallbackPermitHandle handle transport s =
     map_option newPermit
       (fallbackEntries s
         [handleKey handle DomainEndpoint [] [],
          handleKey handle DomainTransport (transportLedgerKey transport) []])"

definition domainRecord ::
  "health_store \<Rightarrow> node_handle \<Rightarrow> failure_domain \<Rightarrow> string \<Rightarrow> string \<Rightarrow> health_record option \<times> health_key" where
  \<comment> \<open>the record \<open>TryAcquireDomainPermitHandle\<close> resolves to\<close>
  "domainRecord s handle domain transport service =
     (case recordForKeyLocked s (handleKey handle domain transport service) of
        (Some record, key) \<Rightarrow> (Some record, key)
      | (None, key) \<Rightarrow>
          if domain = DomainTransport
          then case mostRestrictiveTransportRecordLocked s handle (hk_transport key) of
                 Some (pinnedKey, pinned) \<Rightarrow> (Some pinned, pinnedKey)
               | None \<Rightarrow> (None, key)
          else (None, key))"

definition TryAcquireDomainPermitHandle ::
  "node_handle \<Rightarrow> failure_domain \<Rightarrow> string \<Rightarrow> string \<Rightarrow> gotime \<Rightarrow> health_store \<Rightarrow>
   health_store \<times> attempt_permit option" where
  "TryAcquireDomainPermitHandle handle domain transport0 service at0 s =
     (let t = atOrClock s at0;
          transport = (if domain = DomainTransport then transportLedgerKey transport0 else transport0)
      in case domainRecord s handle domain transport service of
           (None, key) \<Rightarrow> (s, Some (newPermit [freeEntry key]))
         | (Some record, key) \<Rightarrow>
             let (record', available) = availableLocked record t in
             if \<not> available then (putRecord key record' s, None)
             else let (s', entry) = grantEntry key record s in (s', Some (newPermit [entry])))"

section \<open>Availability with its side effect\<close>

fun attemptLoop :: "gotime \<Rightarrow> health_key list \<Rightarrow> health_store \<Rightarrow> health_store \<times> bool" where
  "attemptLoop t [] s = (s, True)"
| "attemptLoop t (key0 # keys) s =
     (case recordForKeyLocked s key0 of
        (None, _) \<Rightarrow> attemptLoop t keys s
      | (Some record, key) \<Rightarrow>
          let (record', available) = availableLocked record t in
          if \<not> available then (putRecord key record' s, False)
          else attemptLoop t keys s)"

definition CanAttemptHandle ::
  "node_handle \<Rightarrow> service_context \<Rightarrow> gotime \<Rightarrow> health_store \<Rightarrow> health_store \<times> bool" where
  "CanAttemptHandle handle service at0 s =
     (let t = atOrClock s at0 in
      if \<not> transportPathEligible s handle (serviceHealthTransport service) t then (s, False)
      else attemptLoop t (serviceKeys handle service) s)"

section \<open>Settlement\<close>

type_synonym domain_outcomes = "(failure_domain, observation_outcome) gomap"

definition completeEntry ::
  "domain_outcomes \<Rightarrow> gotime \<Rightarrow> duration \<Rightarrow> string \<Rightarrow> permit_entry \<Rightarrow> health_store \<Rightarrow> health_store" where
  "completeEntry outcomes t delay reason entry s =
     (case map_of outcomes (hk_domain (pe_key entry)) of
        None \<Rightarrow> releaseTokenLocked entry s
      | Some outcome \<Rightarrow>
          if outcome = OutcomeDeferred then releaseTokenLocked entry s
          else observeLocked (pe_key entry) outcome t delay reason
                 (pe_version entry) (pe_halfOpenToken entry) True s)"

definition completePermitDomains ::
  "permit_entry list \<Rightarrow> domain_outcomes \<Rightarrow> gotime \<Rightarrow> duration \<Rightarrow> string \<Rightarrow>
   health_store \<Rightarrow> health_store" where
  "completePermitDomains entries outcomes at0 delay reason s =
     fold (completeEntry outcomes (atOrClock s at0) delay reason) entries s"

definition releasePermit :: "permit_entry list \<Rightarrow> health_store \<Rightarrow> health_store" where
  "releasePermit entries s = fold releaseTokenLocked entries s"

definition CompleteDomains ::
  "domain_outcomes \<Rightarrow> gotime \<Rightarrow> duration \<Rightarrow> string \<Rightarrow> attempt_permit \<times> health_store \<Rightarrow>
   attempt_permit \<times> health_store" where
  "CompleteDomains outcomes t delay reason = (\<lambda>(p, s).
     if ap_completed p then (p, s)
     else (p\<lparr>ap_completed := True\<rparr>, completePermitDomains (ap_entries p) outcomes t delay reason s))"

definition ReleaseDeferred :: "attempt_permit \<times> health_store \<Rightarrow> attempt_permit \<times> health_store" where
  "ReleaseDeferred = (\<lambda>(p, s).
     if ap_completed p then (p, s)
     else (p\<lparr>ap_completed := True\<rparr>, releasePermit (ap_entries p) s))"

section \<open>Lookups\<close>

lemma recordForKey_lookup:
  "recordForKeyLocked s key = (Some r, k) \<Longrightarrow> map_of (hs_entries s) k = Some r"
  by (auto simp: recordForKeyLocked_def Let_def split: option.splits if_splits)

lemma recordForKey_missing:
  "recordForKeyLocked s key = (None, k) \<Longrightarrow> k = key \<and> map_of (hs_entries s) k = None"
  by (auto simp: recordForKeyLocked_def Let_def split: option.splits if_splits)

lemma selectWorst_mem:
  "selectWorst P sel m = Some x \<Longrightarrow> x \<in> set m \<or> sel = Some x"
proof (induction m arbitrary: sel)
  case (Cons p m)
  obtain k r where "p = (k, r)" by (cases p)
  then show ?case
    using Cons.IH [of sel] Cons.IH [of "Some (k, r)"] Cons.prems
    by (cases sel) (auto split: if_splits)
qed simp

lemma mostRestrictive_lookup:
  assumes "gm_wf (hs_entries s)" and "mostRestrictiveTransportRecordLocked s h tr = Some (k, r)"
  shows "map_of (hs_entries s) k = Some r"
proof -
  obtain P where "selectWorst P None (hs_entries s) = Some (k, r)"
    using assms(2) unfolding mostRestrictiveTransportRecordLocked_def case_prod_unfold Let_def
    by (auto split: if_splits option.splits)
  from selectWorst_mem [OF this] show ?thesis using assms(1) by simp
qed

lemma domainRecord_lookup:
  assumes "gm_wf (hs_entries s)" and "domainRecord s h dm tr sv = (Some r, k)"
  shows "map_of (hs_entries s) k = Some r"
  using assms recordForKey_lookup [of s "handleKey h dm tr sv" r k] mostRestrictive_lookup [OF assms(1)]
  by (auto simp: domainRecord_def split: prod.splits option.splits if_splits)

lemma availableLocked_True: "availableLocked r t = (r', True) \<Longrightarrow> r' = r"
  by (auto simp: availableLocked_def split: breaker_state.splits if_splits)

lemma availableLocked_iff: "snd (availableLocked r t) = availableReadOnly r t"
  by (simp add: availableLocked_def availableReadOnly_def split: breaker_state.splits)

lemma availableLocked_frame:
  assumes "availableLocked r t = (r', av)"
  shows "hr_halfOpenToken r' = hr_halfOpenToken r" "hr_version r' = hr_version r"
    "hr_openUntil r' = hr_openUntil r" "hr_recoverySuccesses r' = hr_recoverySuccesses r"
    "hr_reopenCount r' = hr_reopenCount r" "hr_consecutiveFailure r' = hr_consecutiveFailure r"
    "record_breaker r' = BreakerHalfOpen \<longleftrightarrow> record_breaker r = BreakerHalfOpen"
  using assms by (auto simp: availableLocked_def split: breaker_state.splits if_splits)

lemma record_ok_available:
  "record_ok k r \<Longrightarrow> record_ok k (fst (availableLocked r t))"
  by (auto simp: record_ok_def availableLocked_def split: breaker_state.splits)

lemma record_ok_token:
  "record_ok k r \<Longrightarrow> record_ok k (r\<lparr>hr_halfOpenToken := n,
     hr_status := (hr_status r)\<lparr>st_Breaker := BreakerHalfOpen, st_HalfOpen := True\<rparr>\<rparr>)"
  by (simp add: record_ok_def)

lemma record_ok_release:
  "record_ok k r \<Longrightarrow> record_ok k (r\<lparr>hr_halfOpenToken := 0,
     hr_status := (hr_status r)\<lparr>st_Breaker := BreakerCooldown, st_HalfOpen := False,
       st_CooldownUntil := hr_openUntil r\<rparr>\<rparr>)"
  by (simp add: record_ok_def)

lemma inv_lookup: "health_inv s \<Longrightarrow> map_of (hs_entries s) k = Some r \<Longrightarrow> record_ok k r"
  by (simp add: health_inv_def records_ok_def)

lemma inv_wf: "health_inv s \<Longrightarrow> gm_wf (hs_entries s)"
  by (simp add: health_inv_def lru_wf_def)

section \<open>The store invariant\<close>

lemma inv_token [simp]: "health_inv (s\<lparr>hs_nextToken := n\<rparr>) = health_inv s"
  by (simp add: health_inv_def records_ok_def)

lemma inv_available:
  "health_inv s \<Longrightarrow> map_of (hs_entries s) k = Some r \<Longrightarrow> health_inv (putRecord k (fst (availableLocked r t)) s)"
  by (rule inv_put) (simp_all add: record_ok_available inv_lookup)

lemma inv_release: "health_inv s \<Longrightarrow> health_inv (releaseTokenLocked e s)"
  by (auto simp: releaseTokenLocked_def record_ok_release inv_lookup intro: inv_put split: option.split)

lemma inv_release_fold: "health_inv s \<Longrightarrow> health_inv (fold releaseTokenLocked es s)"
  by (induction es arbitrary: s) (auto intro: inv_release)

lemma inv_grant:
  "health_inv s \<Longrightarrow> map_of (hs_entries s) k = Some r \<Longrightarrow> health_inv (fst (grantEntry k r s))"
  using inv_put [of "s\<lparr>hs_nextToken := inc64 (hs_nextToken s)\<rparr>" k] record_ok_token inv_lookup
  by (simp add: grantEntry_def Let_def)

text \<open>The acquisition loop by its three cases: no record, a refusal, a grant.\<close>

lemma acquire_missing:
  "recordForKeyLocked s key0 = (None, k) \<Longrightarrow>
   acquireLoop t (key0 # keys) es s = acquireLoop t keys (es @ [freeEntry k]) s"
  by simp

lemma acquire_refused:
  "recordForKeyLocked s key0 = (Some r, k) \<Longrightarrow> \<not> availableReadOnly r t \<Longrightarrow>
   acquireLoop t (key0 # keys) es s =
     (fold releaseTokenLocked es (putRecord k (fst (availableLocked r t)) s), None)"
  by (simp add: case_prod_unfold Let_def availableLocked_iff)

lemma acquire_granted:
  "recordForKeyLocked s key0 = (Some r, k) \<Longrightarrow> availableReadOnly r t \<Longrightarrow>
   acquireLoop t (key0 # keys) es s =
     acquireLoop t keys (es @ [snd (grantEntry k r s)]) (fst (grantEntry k r s))"
  by (simp add: case_prod_unfold Let_def availableLocked_iff)

lemmas acquire_simps = acquire_missing acquire_refused acquire_granted

lemma acquire_induct:
  assumes "\<And>es s. P [] es s"
    and "\<And>key0 keys es s. recordForKeyLocked s key0 = (None, key0) \<Longrightarrow>
           map_of (hs_entries s) key0 = None \<Longrightarrow>
           P keys (es @ [freeEntry key0]) s \<Longrightarrow> P (key0 # keys) es s"
    and "\<And>key0 k r keys es s. recordForKeyLocked s key0 = (Some r, k) \<Longrightarrow>
           map_of (hs_entries s) k = Some r \<Longrightarrow> \<not> availableReadOnly r t \<Longrightarrow> P (key0 # keys) es s"
    and "\<And>key0 k r keys es s. recordForKeyLocked s key0 = (Some r, k) \<Longrightarrow>
           map_of (hs_entries s) k = Some r \<Longrightarrow> availableReadOnly r t \<Longrightarrow>
           P keys (es @ [snd (grantEntry k r s)]) (fst (grantEntry k r s)) \<Longrightarrow> P (key0 # keys) es s"
  shows "P keys es s"
proof (induction keys arbitrary: es s)
  case Nil
  show ?case by (rule assms(1))
next
  case (Cons key0 keys es s)
  obtain m k where mk: "recordForKeyLocked s key0 = (m, k)" by (cases "recordForKeyLocked s key0")
  show ?case
  proof (cases m)
    case None
    then show ?thesis using assms(2) Cons mk recordForKey_missing [of s key0 k] by auto
  next
    case (Some r)
    then show ?thesis using assms(3,4) Cons mk recordForKey_lookup [of s key0 r k] by blast
  qed
qed

lemma inv_acquire_loop: "health_inv s \<Longrightarrow> health_inv (fst (acquireLoop t keys es s))"
  by (induction keys es s rule: acquire_induct [where t = t])
    (simp_all add: acquire_simps inv_release_fold inv_available inv_grant del: acquireLoop.simps(2))

lemma tryAcquire_fst: "fst (tryAcquirePermit keys t s) = fst (acquireLoop t keys [] s)"
  by (simp add: tryAcquirePermit_def case_prod_unfold split: option.split)

lemma inv_acquire: "health_inv s \<Longrightarrow> health_inv (fst (tryAcquirePermit keys t s))"
  by (simp add: tryAcquire_fst inv_acquire_loop)

lemma attempt_simps:
  "recordForKeyLocked s key0 = (None, k) \<Longrightarrow> attemptLoop t (key0 # keys) s = attemptLoop t keys s"
  "recordForKeyLocked s key0 = (Some r, k) \<Longrightarrow> availableReadOnly r t \<Longrightarrow>
   attemptLoop t (key0 # keys) s = attemptLoop t keys s"
  "recordForKeyLocked s key0 = (Some r, k) \<Longrightarrow> \<not> availableReadOnly r t \<Longrightarrow>
   attemptLoop t (key0 # keys) s = (putRecord k (fst (availableLocked r t)) s, False)"
  by (simp_all add: case_prod_unfold Let_def availableLocked_iff)

lemma attempt_cases:
  obtains "attemptLoop t keys s = (s, True)" "list_all (keyAvailable s t) keys"
  | k r where "attemptLoop t keys s = (putRecord k (fst (availableLocked r t)) s, False)"
      "map_of (hs_entries s) k = Some r" "\<not> availableReadOnly r t"
      "\<not> list_all (keyAvailable s t) keys"
proof (induction keys arbitrary: thesis)
  case (Cons key0 keys)
  obtain m k where mk: "recordForKeyLocked s key0 = (m, k)" by (cases "recordForKeyLocked s key0")
  show ?case
  proof (cases "keyAvailable s t key0")
    case True
    then have "attemptLoop t (key0 # keys) s = attemptLoop t keys s"
      using mk by (cases m) (simp_all only: attempt_simps keyAvailable_def fst_conv option.case)
    then show ?thesis using Cons True by (metis list.pred_inject(2))
  next
    case False
    then obtain r where "m = Some r" "\<not> availableReadOnly r t"
      using mk by (cases m) (auto simp: keyAvailable_def)
    then show ?thesis
      using Cons.prems(2) [of k r] mk False recordForKey_lookup [of s key0 r k]
      by (simp only: attempt_simps list.pred_inject not_False_eq_True simp_thms)
  qed
qed simp

lemma inv_attempt_loop: "health_inv s \<Longrightarrow> health_inv (fst (attemptLoop t keys s))"
  by (rule attempt_cases [of t keys s]) (simp_all add: inv_available)

lemma inv_complete: "health_inv s \<Longrightarrow> health_inv (completePermitDomains es ocs t d m s)"
proof -
  have entry: "health_inv s \<Longrightarrow> health_inv (completeEntry ocs u d m e s)" for e u s
    by (simp add: completeEntry_def inv_release inv_observe split: option.split)
  have "health_inv s \<Longrightarrow> health_inv (fold (completeEntry ocs u d m) es s)" for u s
    by (induction es arbitrary: s) (auto intro: entry)
  then show "health_inv s \<Longrightarrow> health_inv (completePermitDomains es ocs t d m s)"
    by (simp add: completePermitDomains_def)
qed

end
