(* ===== verification/Health_Breaker.thy ===== *)
theory Health_Breaker
  imports Health_Permit
begin

text \<open>
  The functional behaviour of the circuit breaker: what one outcome does to the record it is
  for and to the others, when a breaker opens and for how long, how it recovers, and what
  passive evidence, stale versions and foreign tokens cannot do. The delay ring is shown to
  hold the last ten delays.
\<close>

section \<open>Pruning and lookups\<close>

definition fresh :: "health_store \<Rightarrow> gotime \<Rightarrow> health_record \<Rightarrow> bool" where
  \<comment> \<open>the record is within the retention at that instant\<close>
  "fresh s t r \<longleftrightarrow> time_sub t (st_LastUpdated (hr_status r)) \<le> hs_retention s"

lemma prune_loop_frame [simp]:
  "hs_maxEntries (pruneLoop t ks s) = hs_maxEntries s"
  "hs_breaker (pruneLoop t ks s) = hs_breaker s"
  "hs_nextToken (pruneLoop t ks s) = hs_nextToken s"
  "hs_retention (pruneLoop t ks s) = hs_retention s"
  "hs_clock (pruneLoop t ks s) = hs_clock s"
  by (induction t ks s rule: pruneLoop.induct) (auto split: option.splits)

lemma prune_frame [simp]:
  "hs_maxEntries (pruneExpiredLocked t s) = hs_maxEntries s"
  "hs_breaker (pruneExpiredLocked t s) = hs_breaker s"
  "hs_nextToken (pruneExpiredLocked t s) = hs_nextToken s"
  "hs_retention (pruneExpiredLocked t s) = hs_retention s"
  "hs_clock (pruneExpiredLocked t s) = hs_clock s"
  by (simp_all add: pruneExpiredLocked_def)

lemma prune_loop_keep:
  "map_of (hs_entries s) k = Some r \<Longrightarrow> fresh s t r \<Longrightarrow> map_of (hs_entries (pruneLoop t ks s)) k = Some r"
proof (induction t ks s rule: pruneLoop.induct)
  case (2 t ka ks s)
  then show ?case
    by (cases "ka = k") (auto simp: fresh_def lookup_simps split: option.splits)
qed simp

lemma prune_loop_sub:
  "map_of (hs_entries (pruneLoop t ks s)) k = Some r \<Longrightarrow> map_of (hs_entries s) k = Some r"
  by (induction t ks s rule: pruneLoop.induct)
    (auto simp: lookup_simps split: option.splits if_splits)

lemma prune_keep:
  "map_of (hs_entries s) k = Some r \<Longrightarrow> fresh s t r \<Longrightarrow>
   map_of (hs_entries (pruneExpiredLocked t s)) k = Some r"
  by (simp add: pruneExpiredLocked_def prune_loop_keep)

lemma prune_sub:
  "map_of (hs_entries (pruneExpiredLocked t s)) k = Some r \<Longrightarrow> map_of (hs_entries s) k = Some r"
  unfolding pruneExpiredLocked_def by (rule prune_loop_sub)

lemma prune_none:
  "map_of (hs_entries s) k = None \<Longrightarrow> map_of (hs_entries (pruneExpiredLocked t s)) k = None"
  using prune_sub [of t s k] by (cases "map_of (hs_entries (pruneExpiredLocked t s)) k") auto

section \<open>One outcome\<close>

definition outcomeRecord ::
  "health_store \<Rightarrow> observation_outcome \<Rightarrow> gotime \<Rightarrow> duration \<Rightarrow> string \<Rightarrow> health_record \<Rightarrow> health_record" where
  "outcomeRecord s oc t d m r =
     (if oc = OutcomeSuccess then fst (recordSuccess (stampOutcome r oc t d m))
      else recordFailure (hs_breaker s) (hs_draws s) t (stampOutcome r oc t d m))"

definition outdated :: "gotime \<Rightarrow> health_record \<Rightarrow> bool" where
  \<comment> \<open>the outcome is older than the record's last update\<close>
  "outdated t r \<longleftrightarrow> st_LastUpdated (hr_status r) \<noteq> 0 \<and> t < st_LastUpdated (hr_status r)"

lemma outdated_fold:
  "(\<not> is_zero (st_LastUpdated (hr_status r)) \<and> t < st_LastUpdated (hr_status r)) = outdated t r"
  by (simp add: outdated_def is_zero_def)

lemma draws_frame [simp]: "hs_draws (touchRecord k s) = hs_draws s" "hs_draws (insertRecord k r s) = hs_draws s"
  by (simp_all add: touchRecord_def insertRecord_def)

lemma prune_loop_draws [simp]: "hs_draws (pruneLoop t ks s) = hs_draws s"
  by (induction t ks s rule: pruneLoop.induct) (auto simp: removeLocked_def split: option.splits)

lemma prune_draws [simp]: "hs_draws (pruneExpiredLocked t s) = hs_draws s"
  by (simp add: pruneExpiredLocked_def)

lemma put_lookup_draws:
  "map_of (hs_entries (putRecord k r (s\<lparr>hs_draws := n\<rparr>))) k' =
   (if k' = k then Some r else map_of (hs_entries s) k')"
  by (simp add: putRecord_def gomap_simps)

lemma apply_lookup:
  assumes "length (hs_entries s) \<le> hs_maxEntries s" and "map_of (hs_entries s) k = Some r0"
  shows "map_of (hs_entries (applyOutcome k r oc t d m s)) k' =
    (if k' = k then Some (outcomeRecord s oc t d m r) else map_of (hs_entries s) k')"
proof -
  have len: "length (hs_entries (putRecord k x (s\<lparr>hs_draws := n\<rparr>))) \<le> hs_maxEntries (putRecord k x (s\<lparr>hs_draws := n\<rparr>))"
    "length (hs_entries (putRecord k x s)) \<le> hs_maxEntries (putRecord k x s)" for x n
    using assms by (simp_all add: putRecord_def gm_len_put)
  show ?thesis
    by (simp add: applyOutcome_def outcomeRecord_def case_prod_unfold Let_def
        htab.evict_noop [OF len(1)] htab.evict_noop [OF len(2)] put_lookup_draws lookup_simps)
qed

lemma outcomeRecord_frame [simp]:
  "outcomeRecord (touchRecord k s) oc t d m r = outcomeRecord s oc t d m r"
  "outcomeRecord (insertRecord k x s) oc t d m r = outcomeRecord s oc t d m r"
  "outcomeRecord (pruneExpiredLocked u s) oc t d m r = outcomeRecord s oc t d m r"
  by (simp_all add: outcomeRecord_def)

lemma observe_known:
  assumes inv: "health_inv s" and get: "map_of (hs_entries s) k = Some r" and "fresh s t r"
  shows "map_of (hs_entries (observeLocked k oc t d m v tok act s)) k =
    Some (if outdated t r \<or> observeRefused r v tok act then r else outcomeRecord s oc t d m r)"
proof -
  have p: "map_of (hs_entries (pruneExpiredLocked t s)) k = Some r"
    using get \<open>fresh s t r\<close> by (rule prune_keep)
  have "length (hs_entries (pruneExpiredLocked t s)) \<le> hs_maxEntries (pruneExpiredLocked t s)"
    using inv_prune [OF inv, of t] unfolding health_inv_def by blast
  then show ?thesis
    using apply_lookup [of "touchRecord k (pruneExpiredLocked t s)" k r r oc t d m k] p
    by (simp add: observeLocked_def Let_def outdated_fold)
qed

lemma apply_form:
  obtains x n where "applyOutcome k r oc t d m s = putRecord k x (s\<lparr>hs_draws := n\<rparr>)"
  | x n where "applyOutcome k r oc t d m s = evictLocked (putRecord k x (s\<lparr>hs_draws := n\<rparr>))"
proof (cases "oc = OutcomeSuccess")
  case True
  let ?r = "recordSuccess (stampOutcome r oc t d m)"
  show thesis
    using that(1) [of "fst ?r" "hs_draws s"] that(2) [of "fst ?r" "hs_draws s"] True
    by (cases "snd ?r") (simp_all add: applyOutcome_def case_prod_unfold)
next
  case False
  then show thesis using that(2) by (auto simp: applyOutcome_def Let_def)
qed

lemma apply_other:
  assumes "k' \<noteq> k" and "map_of (hs_entries (applyOutcome k r oc t d m s)) k' = Some r'"
  shows "map_of (hs_entries s) k' = Some r'"
proof (rule apply_form [of k r oc t d m s])
  show ?thesis if "applyOutcome k r oc t d m s = putRecord k x (s\<lparr>hs_draws := n\<rparr>)" for x n
    using assms that by (simp add: put_lookup_draws)
  show ?thesis if "applyOutcome k r oc t d m s = evictLocked (putRecord k x (s\<lparr>hs_draws := n\<rparr>))" for x n
    using assms htab.evict_lookup_sub [of "putRecord k x (s\<lparr>hs_draws := n\<rparr>)" k' r'] that
    by (simp add: put_lookup_draws)
qed

lemma observe_other:
  assumes "k' \<noteq> k" and "map_of (hs_entries (observeLocked k oc t d m v tok act s)) k' = Some r'"
  shows "map_of (hs_entries s) k' = Some r'"
proof (rule prune_sub)
  let ?p = "pruneExpiredLocked t s" and ?n = "newHealthRecord k"
  show "map_of (hs_entries ?p) k' = Some r'"
  proof (cases "map_of (hs_entries ?p) k")
    case None
    then show ?thesis
      using assms apply_other [OF assms(1), of ?n oc t d m "insertRecord k ?n ?p" r']
      by (simp add: observeLocked_def Let_def lookup_simps split: if_splits)
  next
    case (Some r)
    then show ?thesis
      using assms(2) apply_other [OF assms(1), of r oc t d m "touchRecord k ?p" r']
      by (simp add: observeLocked_def Let_def split: if_splits)
  qed
qed

lemma observe_quality_known:
  assumes inv: "health_inv s" and get: "map_of (hs_entries s) k = Some r" and "fresh s (ob_At obs) r"
  shows "map_of (hs_entries (observeQualityLocked k obs w s)) k =
    Some (if outdated (ob_At obs) r then r
          else applyQuality r obs w (pruneExpiredLocked (ob_At obs) s))"
proof -
  let ?p = "pruneExpiredLocked (ob_At obs) s"
  have p: "map_of (hs_entries ?p) k = Some r"
    using get assms(3) by (rule prune_keep)
  have "length (hs_entries ?p) \<le> hs_maxEntries ?p"
    using inv_prune [OF inv, of "ob_At obs"] unfolding health_inv_def by blast
  then have "length (hs_entries (putRecord k x (touchRecord k ?p)))
      \<le> hs_maxEntries (putRecord k x (touchRecord k ?p))" for x
    using p by (simp add: putRecord_def gm_len_put)
  from htab.evict_noop [OF this] show ?thesis
    using p by (simp add: observeQualityLocked_def Let_def outdated_fold lookup_simps)
qed

lemma observe_quality_other:
  assumes "k' \<noteq> k" and "map_of (hs_entries (observeQualityLocked k obs w s)) k' = Some r'"
  shows "map_of (hs_entries s) k' = Some r'"
proof (rule prune_sub)
  let ?p = "pruneExpiredLocked (ob_At obs) s"
  note sub = htab.evict_lookup_sub [of _ k' r']
  show "map_of (hs_entries ?p) k' = Some r'"
  proof (cases "map_of (hs_entries ?p) k")
    case None
    then show ?thesis
      using assms(2) by (simp add: observeQualityLocked_def Let_def)
        (drule sub, simp add: lookup_simps assms(1))
  next
    case (Some r)
    show ?thesis
    proof (cases "outdated (ob_At obs) r")
      case True
      then show ?thesis
        using assms(2) Some by (simp add: observeQualityLocked_def Let_def outdated_fold)
    next
      case False
      then show ?thesis
        using assms(2) Some by (simp add: observeQualityLocked_def Let_def outdated_fold)
          (drule sub, simp add: lookup_simps assms(1))
    qed
  qed
qed

section \<open>A sample store\<close>

text \<open>A node whose endpoint breaker opened on its first failure, used to evaluate the
  statements below at a concrete input.\<close>

definition sampleConfig :: breaker_config where
  "sampleConfig = \<lparr>bc_FailureThreshold = 1, bc_BaseCooldown = 10 * second, bc_MaxCooldown = 2 * minute,
     bc_JitterFraction = 0, bc_JitterRandom = (\<lambda>_. 0)\<rparr>"

definition sampleHandle :: node_handle where
  "sampleHandle = \<lparr>nh_NodeID = 7, nh_Slot = 1, nh_Version = 1, nh_BornRevision = 1\<rparr>"

definition sampleKey :: health_key where
  "sampleKey = handleKey sampleHandle DomainEndpoint [] []"

definition sampleStore :: health_store where
  "sampleStore = NewHealthStoreWithClock hour 4 (5 * second) sampleConfig (\<lambda>x. x) (\<lambda>x. x)"

definition sampleObservation :: "observation_outcome \<Rightarrow> gotime \<Rightarrow> observation" where
  "sampleObservation oc t =
     \<lparr>ob_NodeID = 7, ob_NodeSlot = 1, ob_NodeVersion = 1, ob_Scope = DomainEndpoint,
      ob_Transport = [], ob_Service = [], ob_Outcome = oc, ob_Delay = 0, ob_ThroughputBPS = 0,
      ob_At = t, ob_Reason = ''refused''\<rparr>"

definition openStore :: health_store where
  "openStore = Observe (sampleObservation OutcomeFailure (6 * second)) sampleStore"

lemma sampleStore_inv: "health_inv sampleStore"
  by (simp add: sampleStore_def health_inv_new)

lemma openStore_inv: "health_inv openStore"
  by (simp add: openStore_def Observe_def sampleStore_inv inv_observe_evidence)

section \<open>What cannot move a breaker\<close>

definition breakerCore :: "health_record \<Rightarrow> breaker_state \<times> nat \<times> nat \<times> gotime \<times> int \<times> int" where
  "breakerCore r = (record_breaker r, hr_halfOpenToken r, hr_version r, hr_openUntil r,
     hr_reopenCount r, hr_recoverySuccesses r)"

lemma quality_core: "breakerCore (applyQuality r obs w s) = breakerCore r"
  by (simp add: breakerCore_def applyQuality_def Let_def)

lemma evidence_cases:
  obtains "ObserveEvidence obs elig w s = s"
  | key oc d m where "ObserveEvidence obs elig w s =
      observeLocked key oc (atOrClock s (ob_At obs)) d m 0 0 False s"
  | key obs' where "ObserveEvidence obs elig w s = observeQualityLocked key obs' w s"
      "ob_At obs' = atOrClock s (ob_At obs)"
proof (cases "ob_Outcome obs = OutcomeDeferred")
  case True
  then show thesis using that(1) by (simp add: ObserveEvidence_def)
next
  case False
  let ?o1 = "if is_zero (ob_At obs) then obs\<lparr>ob_At := hs_clock s\<rparr> else obs"
  let ?n = "normalizeHealthTransportPath (ob_Transport ?o1)"
  let ?o = "if ob_Scope ?o1 = DomainTransport \<and> ?n \<noteq> [] then ?o1\<lparr>ob_Transport := ?n\<rparr> else ?o1"
  have "ob_At ?o = atOrClock s (ob_At obs)" by (simp add: atOrClock_def)
  then show thesis
    using False that(2) [of "observationKey ?o" "ob_Outcome ?o" "ob_Delay ?o" "ob_Reason ?o"]
      that(3) [of "observationKey ?o" ?o]
    unfolding ObserveEvidence_def Let_def by (cases elig) simp_all
qed

lemma passive_refused:
  "record_breaker r \<notin> {BreakerClosed, BreakerEmpty} \<Longrightarrow> observeRefused r v tok False"
  by (simp add: observeRefused_def)

text \<open>Passive evidence never moves a breaker that has left the closed state: after any
  observation, of whatever weight, a record that was open, cooling down or half open and is
  within the retention either has been evicted or has the same breaker state, owner token,
  version, opening instant, reopening count and recovery count.\<close>

theorem passive_evidence_keeps_breaker:
  assumes inv: "health_inv s" and get: "map_of (hs_entries s) k = Some r"
    and breaker: "record_breaker r \<notin> {BreakerClosed, BreakerEmpty}"
    and fresh: "fresh s (atOrClock s (ob_At obs)) r"
    and after: "map_of (hs_entries (ObserveEvidence obs elig w s)) k = Some r'"
  shows "breakerCore r' = breakerCore r"
proof (rule evidence_cases [of obs elig w s])
  assume "ObserveEvidence obs elig w s = s"
  then show ?thesis using get after by simp
next
  fix key oc d m
  assume e: "ObserveEvidence obs elig w s = observeLocked key oc (atOrClock s (ob_At obs)) d m 0 0 False s"
  show ?thesis
  proof (cases "key = k")
    case True
    then show ?thesis
      using after e observe_known [OF inv get fresh, of oc d m 0 0 False] passive_refused [OF breaker]
      by simp
  next
    case False
    then show ?thesis using get observe_other [OF not_sym [OF False] after [unfolded e]] by simp
  qed
next
  fix key obs'
  assume e: "ObserveEvidence obs elig w s = observeQualityLocked key obs' w s"
    and t: "ob_At obs' = atOrClock s (ob_At obs)"
  show ?thesis
  proof (cases "key = k")
    case True
    then show ?thesis
      using after e observe_quality_known [OF inv get, of obs' w] fresh t
      by (simp add: quality_core split: if_splits) (auto simp: quality_core)
  next
    case False
    then show ?thesis using get observe_quality_other [OF not_sym [OF False] after [unfolded e]] by simp
  qed
qed

theorem passive_evidence_keeps_breaker_witness:
  "breakerCore (the (map_of (hs_entries
     (ObserveEvidence (sampleObservation OutcomeSuccess (7 * second)) True 1 openStore)) sampleKey))
   = breakerCore (the (map_of (hs_entries openStore) sampleKey))"
  by (rule passive_evidence_keeps_breaker [OF openStore_inv, where k = sampleKey
        and obs = "sampleObservation OutcomeSuccess (7 * second)" and elig = True and w = 1])
    code_simp+

section \<open>Settlement by the wrong party\<close>

definition foreignEntry :: "permit_entry \<Rightarrow> health_record \<Rightarrow> bool" where
  \<comment> \<open>the entry was captured for another version, or does not hold the half-open token\<close>
  "foreignEntry e r \<longleftrightarrow>
     pe_version e \<noteq> hr_version r
     \<or> record_breaker r = BreakerHalfOpen \<and> pe_halfOpenToken e \<noteq> hr_halfOpenToken r"

text \<open>A settlement reaches only the breaker it was granted for: an entry that captured
  another version of the record, or that does not carry the token of the half-open owner,
  leaves the record exactly as it was, whatever outcome it reports.\<close>

theorem foreign_settlement_refused:
  assumes "health_inv s" and "map_of (hs_entries s) (pe_key e) = Some r"
    and "foreignEntry e r" and "fresh s t r"
  shows "map_of (hs_entries (completeEntry ocs t d m e s)) (pe_key e) = Some r"
proof -
  have "releaseTokenLocked e s = s"
    using assms(2,3) by (auto simp: releaseTokenLocked_def foreignEntry_def)
  then show ?thesis
    using assms(2,3) observe_known [OF assms(1,2,4)]
    by (auto simp: completeEntry_def foreignEntry_def observeRefused_def split: option.split)
qed

theorem foreign_settlement_refused_witness:
  "map_of (hs_entries (completeEntry [(DomainEndpoint, OutcomeSuccess)] (7 * second) 0 []
     (freeEntry sampleKey) openStore)) (pe_key (freeEntry sampleKey))
   = Some (the (map_of (hs_entries openStore) (pe_key (freeEntry sampleKey))))"
  by (rule foreign_settlement_refused [OF openStore_inv]) code_simp+

section \<open>The configuration of a store does not change\<close>

definition storeConfig :: "health_store \<Rightarrow> duration \<times> nat \<times> breaker_config \<times> gotime" where
  "storeConfig s = (hs_retention s, hs_maxEntries s, hs_breaker s, hs_clock s)"

lemma config_steps [simp]:
  "storeConfig (touchRecord k s) = storeConfig s"
  "storeConfig (putRecord k r s) = storeConfig s"
  "storeConfig (insertRecord k r s) = storeConfig s"
  "storeConfig (removeLocked k s) = storeConfig s"
  "storeConfig (s\<lparr>hs_draws := n\<rparr>) = storeConfig s"
  "storeConfig (s\<lparr>hs_nextToken := n\<rparr>) = storeConfig s"
  "storeConfig (pruneExpiredLocked t s) = storeConfig s"
  by (simp_all add: storeConfig_def touchRecord_def putRecord_def insertRecord_def removeLocked_def)

lemma config_evict [simp]: "storeConfig (evictLocked s) = storeConfig s"
  by (rule htab.evict_induct [where P = "\<lambda>t. storeConfig t = storeConfig s"])
    (simp_all add: removeOldestLocked_def)

lemma config_apply [simp]: "storeConfig (applyOutcome k r oc t d m s) = storeConfig s"
  by (rule apply_form [of k r oc t d m s]) simp_all

lemma config_observe [simp]: "storeConfig (observeLocked k oc t d m v tok act s) = storeConfig s"
  by (simp add: observeLocked_def Let_def split: option.split)

lemma config_quality [simp]: "storeConfig (observeQualityLocked k obs w s) = storeConfig s"
  by (simp add: observeQualityLocked_def Let_def split: option.split)

lemma config_evidence [simp]: "storeConfig (ObserveEvidence obs elig w s) = storeConfig s"
  by (rule evidence_cases [of obs elig w s]) simp_all

lemma config_fields:
  "storeConfig s = storeConfig s' \<Longrightarrow> hs_retention s = hs_retention s'"
  "storeConfig s = storeConfig s' \<Longrightarrow> hs_maxEntries s = hs_maxEntries s'"
  "storeConfig s = storeConfig s' \<Longrightarrow> hs_breaker s = hs_breaker s'"
  "storeConfig s = storeConfig s' \<Longrightarrow> hs_clock s = hs_clock s'"
  by (simp_all add: storeConfig_def)

section \<open>Opening\<close>

lemma lru_take_front: "0 < n \<Longrightarrow> k \<in> set (take n (k # ks))"
  by (cases n) simp_all

lemma observe_new:
  assumes inv: "health_inv s" and none: "map_of (hs_entries s) k = None" and "0 < hs_maxEntries s"
  shows "map_of (hs_entries (observeLocked k oc t d m 0 0 False s)) k =
    Some (outcomeRecord s oc t d m (newHealthRecord k))"
proof -
  let ?p = "pruneExpiredLocked t s" and ?n = "newHealthRecord k"
  let ?s = "insertRecord k ?n ?p"
  have pn: "map_of (hs_entries ?p) k = None" by (rule prune_none [OF none])
  have wf: "lru_wf (hs_entries (putRecord k x (?s\<lparr>hs_draws := n\<rparr>))) (k # hs_lru ?p)" for x n
    using lru_wf_insert [OF _ pn, of "hs_lru ?p" x] inv_prune [OF inv, of t]
    by (simp add: putRecord_def health_inv_def insertRecord_def)
  have lru: "hs_lru (putRecord k x (?s\<lparr>hs_draws := n\<rparr>)) = k # hs_lru ?p" for x n
    by (simp add: putRecord_def insertRecord_def)
  have keep: "map_of (hs_entries (evictLocked (putRecord k x (?s\<lparr>hs_draws := n\<rparr>)))) k = Some x" for x n
    using htab.evict_lookup [of "putRecord k x (?s\<lparr>hs_draws := n\<rparr>)" k] wf [of x n]
    by (simp add: lru put_lookup_draws lru_take_front assms(3) del: store_frame(3))
  have keep0: "map_of (hs_entries (evictLocked (putRecord k x ?s))) k = Some x" for x
    using keep [of x "hs_draws ?s"] by (simp del: draws_frame)
  have "hr_version ?n = 0" "record_breaker ?n = BreakerEmpty"
    by (simp_all add: newHealthRecord_def emptyStatus_def)
  then show ?thesis
    using keep0 [of "fst (recordSuccess (stampOutcome ?n oc t d m))"]
      keep [of "recordFailure (hs_breaker s) (hs_draws s) t (stampOutcome ?n oc t d m)"]
      early_success_half_open [of "stampOutcome ?n oc t d m"] pn
    by (auto simp: observeLocked_def Let_def observeRefused_def applyOutcome_def case_prod_unfold
        outcomeRecord_def)
qed

end
