(* ===== verification/Breaker_Cycle.thy ===== *)
theory Breaker_Cycle
  imports Health_Breaker "HOL-Library.Multiset"
begin

text \<open>
  The cycle of one breaker: it opens when the configured number of failures in a row is reached,
  stays open for a backoff between half the base cooldown and the maximum, and closes again at the
  second success it accepts while half open. The last part is about the delay samples kept beside
  it.
\<close>

section \<open>Opening on consecutive failures\<close>

record endpoint_report =
  er_ok :: bool
  er_at :: gotime
  er_delay :: duration
  er_reason :: string

definition streak :: "endpoint_report list \<Rightarrow> nat" where
  \<comment> \<open>the failures in a row at the end of the reports\<close>
  "streak rs = length (takeWhile (\<lambda>x. \<not> er_ok x) (rev rs))"

definition countedFailures :: "breaker_config \<Rightarrow> gotime \<Rightarrow> nat \<Rightarrow> health_record \<Rightarrow> bool" where
  \<comment> \<open>the record after a report at \<open>t\<close> with that many failures in a row\<close>
  "countedFailures cfg t n r \<longleftrightarrow>
     hr_consecutiveFailure r = int n \<and> st_LastUpdated (hr_status r) = t
     \<and> (if n = 0 then record_breaker r = BreakerClosed \<and> st_Health (hr_status r) = HealthHealthy
        else if int n < bc_FailureThreshold cfg
        then record_breaker r = BreakerClosed \<and> st_Health (hr_status r) = HealthDegraded
        else record_breaker r = BreakerOpen \<and> st_Health (hr_status r) = HealthUnreachable
          \<and> hr_openUntil r = t + st_Backoff (hr_status r))"

lemma failure_counts:
  assumes "int n + 1 \<le> bc_FailureThreshold cfg" and "bc_FailureThreshold cfg < 2 ^ 63"
    and "hr_consecutiveFailure r = int n" and "record_breaker r \<noteq> BreakerHalfOpen"
    and "st_LastUpdated (hr_status r) = t"
  shows "countedFailures cfg t (Suc n) (recordFailure cfg d t r)"
  using assms
  by (simp add: countedFailures_def recordFailure_def failureOpens_def openBreakerRecordLocked_def Let_def)

lemma success_counts:
  assumes "record_breaker r \<noteq> BreakerHalfOpen" and "st_LastUpdated (hr_status r) = t"
  shows "countedFailures cfg t 0 (fst (recordSuccess r))"
  using assms by (simp add: countedFailures_def recordSuccess_def Let_def)

lemma streak_snoc: "streak (rs @ [x]) = (if er_ok x then 0 else Suc (streak rs))"
  by (simp add: streak_def)

lemma report_counts:
  assumes "int n < bc_FailureThreshold (hs_breaker s)" and "bc_FailureThreshold (hs_breaker s) < 2 ^ 63"
    and "hr_consecutiveFailure r = int n" and "record_breaker r \<noteq> BreakerHalfOpen"
  shows "countedFailures (hs_breaker s) t (if er_ok x then 0 else Suc n)
    (outcomeRecord s (if er_ok x then OutcomeSuccess else OutcomeFailure) t d m r)"
  using assms success_counts [of "stampOutcome r OutcomeSuccess t d m" t]
    failure_counts [of n "hs_breaker s" "stampOutcome r OutcomeFailure t d m" t]
  by (simp add: outcomeRecord_def)

definition endpointReport :: "node_handle \<Rightarrow> endpoint_report \<Rightarrow> observation" where
  "endpointReport h x =
     \<lparr>ob_NodeID = nh_NodeID h, ob_NodeSlot = nh_Slot h, ob_NodeVersion = nh_Version h,
      ob_Scope = DomainEndpoint, ob_Transport = [], ob_Service = [],
      ob_Outcome = (if er_ok x then OutcomeSuccess else OutcomeFailure),
      ob_Delay = er_delay x, ob_ThroughputBPS = 0, ob_At = er_at x, ob_Reason = er_reason x\<rparr>"

lemma observe_endpoint:
  "er_at x \<noteq> 0 \<Longrightarrow> Observe (endpointReport h x) s =
     observeLocked (handleKey h DomainEndpoint [] []) (if er_ok x then OutcomeSuccess else OutcomeFailure)
       (er_at x) (er_delay x) (er_reason x) 0 0 False s"
  by (simp add: Observe_def ObserveEvidence_def endpointReport_def observationKey_def handleKey_def
      is_zero_def)

abbreviation reported_to :: "node_handle \<Rightarrow> endpoint_report list \<Rightarrow> health_store \<Rightarrow> health_store" where
  "reported_to h rs s \<equiv> fold (\<lambda>x. Observe (endpointReport h x)) rs s"

lemma config_reports: "storeConfig (reported_to h rs s) = storeConfig s"
  by (induction rs arbitrary: s) (simp_all add: Observe_def)

lemma inv_reports: "health_inv s \<Longrightarrow> health_inv (reported_to h rs s)"
  by (induction rs arbitrary: s) (simp_all add: Observe_def inv_observe_evidence)

definition inOrder :: "duration \<Rightarrow> endpoint_report list \<Rightarrow> bool" where
  \<comment> \<open>the reports have times, none is older than the one before, and no gap exceeds the retention\<close>
  "inOrder retention rs \<longleftrightarrow> (\<forall>x \<in> set rs. er_at x \<noteq> 0)
     \<and> successively (\<lambda>x y. er_at x \<le> er_at y \<and> time_sub (er_at y) (er_at x) \<le> retention) rs"

text \<open>C34. The breaker of an endpoint opens exactly when its failures in a row reach the threshold.
  From a store without a record of the endpoint, after any sequence of successes and failures that
  had not reached the threshold before its last report, the record counts the failures in a row at
  its end: with none of them the breaker is closed and the health good, below the threshold it is
  closed and the health degraded, and at the threshold it is open, the health is unreachable and the
  endpoint stays closed to dials for its backoff from the time of the last report. A success starts
  the count again.\<close>

theorem consecutive_failures_open:
  assumes inv: "health_inv s" and cap: "0 < hs_maxEntries s"
    and none: "map_of (hs_entries s) (handleKey h DomainEndpoint [] []) = None"
    and thr: "0 < bc_FailureThreshold (hs_breaker s)" "bc_FailureThreshold (hs_breaker s) < 2 ^ 63"
    and rs: "rs \<noteq> []" "inOrder (hs_retention s) rs"
    and below: "\<And>k. k < length rs \<Longrightarrow> int (streak (take k rs)) < bc_FailureThreshold (hs_breaker s)"
  shows "\<exists>r. map_of (hs_entries (reported_to h rs s)) (handleKey h DomainEndpoint [] []) = Some r
             \<and> countedFailures (hs_breaker s) (er_at (last rs)) (streak rs) r"
  using rs below
proof (induction rs rule: rev_induct)
  case (snoc x rs)
  let ?k = "handleKey h DomainEndpoint [] []" and ?s = "reported_to h rs s"
  let ?oc = "if er_ok x then OutcomeSuccess else OutcomeFailure"
  note inv' = inv_reports [OF inv, of h rs] and cfg = config_fields [OF config_reports [of h rs s]]
  have t: "er_at x \<noteq> 0" using snoc.prems(2) by (simp add: inOrder_def)
  have n: "int (streak rs) < bc_FailureThreshold (hs_breaker ?s)" using snoc.prems(3) [of "length rs"] by (simp add: cfg)
  have counts: "hr_consecutiveFailure r = int (streak rs) \<Longrightarrow> record_breaker r \<noteq> BreakerHalfOpen \<Longrightarrow>
      countedFailures (hs_breaker s) (er_at x) (streak (rs @ [x])) (outcomeRecord ?s ?oc (er_at x) (er_delay x) (er_reason x) r)" for r
    using report_counts [OF n, of r "er_at x" x "er_delay x" "er_reason x"] thr(2) by (simp add: cfg streak_snoc)
  show ?case
  proof (cases "rs = []")
    case True
    then show ?thesis
      using observe_new [OF inv none cap, of ?oc "er_at x" "er_delay x" "er_reason x"] counts [of "newHealthRecord ?k"]
      by (simp add: observe_endpoint t newHealthRecord_def emptyStatus_def streak_def)
  next
    case False
    have "inOrder (hs_retention s) rs" "er_at (last rs) \<le> er_at x" "time_sub (er_at x) (er_at (last rs)) \<le> hs_retention s"
      using snoc.prems(2) False by (auto simp: inOrder_def successively_append_iff)
    moreover have "int (streak (take k rs)) < bc_FailureThreshold (hs_breaker s)" if "k < length rs" for k
      using snoc.prems(3) [of k] that by simp
    ultimately obtain r where r: "map_of (hs_entries ?s) ?k = Some r"
        "countedFailures (hs_breaker s) (er_at (last rs)) (streak rs) r"
      using snoc.IH False by blast
    have closed: "record_breaker r = BreakerClosed" "hr_consecutiveFailure r = int (streak rs)"
        "st_LastUpdated (hr_status r) = er_at (last rs)"
      using r(2) n by (auto simp: countedFailures_def cfg split: if_splits)
    have "fresh ?s (er_at x) r"
      using \<open>time_sub (er_at x) (er_at (last rs)) \<le> hs_retention s\<close> by (simp add: fresh_def closed cfg)
    from observe_known [OF inv' r(1) this, of ?oc "er_delay x" "er_reason x" 0 0 False]
    have "map_of (hs_entries (Observe (endpointReport h x) ?s)) ?k =
        Some (outcomeRecord ?s ?oc (er_at x) (er_delay x) (er_reason x) r)"
      using \<open>er_at (last rs) \<le> er_at x\<close> by (simp add: observe_endpoint t outdated_def observeRefused_def closed)
    then show ?thesis using counts [of r] closed by simp
  qed
qed simp

definition wavering :: "endpoint_report list" where
  \<comment> \<open>two failures, a success, and three failures\<close>
  "wavering = map (\<lambda>(ok, t). \<lparr>er_ok = ok, er_at = t, er_delay = (if ok then 7 else 0), er_reason = []\<rparr>)
     [(False, 6), (False, 7), (True, 9), (False, 9), (False, 12), (False, 15)]"

definition patientStore :: health_store where
  "patientStore = NewHealthStoreWithClock hour 4 5 (sampleConfig\<lparr>bc_FailureThreshold := 3\<rparr>) (\<lambda>x. x) (\<lambda>x. x)"

theorem consecutive_failures_open_witness:
  "\<exists>r. map_of (hs_entries (reported_to sampleHandle wavering patientStore))
          (handleKey sampleHandle DomainEndpoint [] []) = Some r
       \<and> countedFailures (hs_breaker patientStore) 15 3 r"
proof -
  have thr: "bc_FailureThreshold (hs_breaker patientStore) = 3" by code_simp
  have "\<exists>r. map_of (hs_entries (reported_to sampleHandle wavering patientStore))
          (handleKey sampleHandle DomainEndpoint [] []) = Some r
       \<and> countedFailures (hs_breaker patientStore) (er_at (last wavering)) (streak wavering) r"
  proof (rule consecutive_failures_open)
    show "health_inv patientStore" by (simp add: patientStore_def health_inv_new)
    show "int (streak (take k wavering)) < bc_FailureThreshold (hs_breaker patientStore)" if "k < length wavering" for k
    proof -
      have "\<forall>k < 6. streak (take k wavering) < 3" by code_simp
      then show ?thesis using that by (simp add: thr wavering_def)
    qed
  qed code_simp+
  moreover have "er_at (last wavering) = 15" "streak wavering = 3" by code_simp+
  ultimately show ?thesis by simp
qed

section \<open>How long a breaker stays open\<close>

lemma backoff_loop_bounds: "0 < b \<Longrightarrow> b \<le> mx \<Longrightarrow> b \<le> backoffLoop mx n b \<and> backoffLoop mx n b \<le> mx"
proof (induction mx n b rule: backoffLoop.induct)
  case (2 mx n b)
  show ?case
  proof (cases "b \<ge> mx div 2")
    case True
    then show ?thesis using 2 by simp
  next
    case False
    then have "b * 2 \<le> mx" by linarith
    then show ?thesis using 2 False by simp
  qed
qed simp

lemma backoff_loop_closed:
  "0 < b \<Longrightarrow> b \<le> mx \<Longrightarrow> even mx \<Longrightarrow> backoffLoop mx n b = min (b * 2 ^ n) mx"
proof (induction mx n b rule: backoffLoop.induct)
  case (2 mx n b)
  show ?case
  proof (cases "b \<ge> mx div 2")
    case True
    then have "mx \<le> b * 2" using \<open>even mx\<close> by presburger
    also have "\<dots> \<le> b * 2 * 2 ^ n" using \<open>0 < b\<close> by simp
    finally show ?thesis using True 2 by (simp add: min_def)
  next
    case False
    then have "b * 2 \<le> mx" by linarith
    then show ?thesis using 2 False by (simp add: mult.assoc)
  qed
qed simp

text \<open>C35. Whatever the random source returns, an open window lasts at least half the base
  cooldown and at most the maximum cooldown, provided half the base does not exceed the
  maximum; without jitter it is the base doubled at each reopening and capped at the maximum,
  for a maximum of an even number of nanoseconds.\<close>

theorem open_backoff_bounds:
  assumes "0 < bc_BaseCooldown cfg" and "bc_BaseCooldown cfg div 2 \<le> bc_MaxCooldown cfg"
  shows "bc_BaseCooldown cfg div 2 \<le> openBackoff cfg n x \<and> openBackoff cfg n x \<le> bc_MaxCooldown cfg
    \<and> (bc_JitterFraction cfg \<le> 0 \<and> bc_BaseCooldown cfg \<le> bc_MaxCooldown cfg
         \<and> even (bc_MaxCooldown cfg) \<longrightarrow>
       openBackoff cfg n x = min (bc_BaseCooldown cfg * 2 ^ nat (n - 1)) (bc_MaxCooldown cfg))"
proof -
  have "openBackoff cfg n x = min (bc_BaseCooldown cfg * 2 ^ nat (n - 1)) (bc_MaxCooldown cfg)"
    if "bc_JitterFraction cfg \<le> 0" "bc_BaseCooldown cfg \<le> bc_MaxCooldown cfg"
      "even (bc_MaxCooldown cfg)"
  proof -
    let ?b = "bc_BaseCooldown cfg" and ?n = "nat (n - 1)"
    define v where "v = min (?b * 2 ^ ?n) (bc_MaxCooldown cfg)"
    have "?b \<le> ?b * 2 ^ ?n" using assms(1) by simp
    then have "?b div 2 \<le> v" "v \<le> bc_MaxCooldown cfg"
      using assms unfolding v_def by linarith+
    moreover have "backoffLoop (bc_MaxCooldown cfg) ?n ?b = v"
      using backoff_loop_closed [OF assms(1) that(2,3), of ?n] by (simp add: v_def)
    ultimately show ?thesis
      unfolding v_def [symmetric] using that(1) assms(1)
      by (simp add: openBackoff_def Let_def applyBackoffJitter_def)
  qed
  then show ?thesis using assms by (auto simp: openBackoff_def Let_def)
qed

theorem open_backoff_bounds_witness:
  "openBackoff sampleConfig 3 0 = min (bc_BaseCooldown sampleConfig * 2 ^ nat (3 - 1))
     (bc_MaxCooldown sampleConfig)"
  using open_backoff_bounds [of sampleConfig 3 0] by (simp add: sampleConfig_def)

text \<open>The defaulting of the breaker settings can break the cap: when the maximum cooldown is
  smaller than the base it is replaced by five minutes even if the base is larger than that,
  and a window then lasts half the base, longer than the maximum.\<close>

theorem default_maximum_below_base:
  "\<exists>cfg. bc_MaxCooldown (normalizeBreakerConfig cfg) < openBackoff (normalizeBreakerConfig cfg) 1 0"
proof
  show "bc_MaxCooldown (normalizeBreakerConfig (sampleConfig\<lparr>bc_BaseCooldown := 20 * minute\<rparr>))
    < openBackoff (normalizeBreakerConfig (sampleConfig\<lparr>bc_BaseCooldown := 20 * minute\<rparr>)) 1 0"
    by (simp add: sampleConfig_def normalizeBreakerConfig_def defaultBreakerConfig_def Let_def
        openBackoff_def applyBackoffJitter_def)
qed

section \<open>Recovery\<close>

lemma success_recovering:
  "record_breaker r = BreakerHalfOpen \<Longrightarrow> hr_recoverySuccesses r = 0 \<Longrightarrow>
   fst (recordSuccess r) = r\<lparr>hr_consecutiveFailure := 0, hr_recoverySuccesses := 1, hr_halfOpenToken := 0,
     hr_status := (hr_status r)\<lparr>st_Successes := inc64 (st_Successes (hr_status r)),
       st_RecoverySuccesses := 1, st_Health := HealthDegraded, st_Breaker := BreakerHalfOpen,
       st_HalfOpen := True, st_CooldownUntil := 0, st_ConsecutiveFailures := 0\<rparr>\<rparr>"
  by (simp add: recordSuccess_def Let_def)

definition recovered :: "health_record \<Rightarrow> bool" where
  "recovered r \<longleftrightarrow>
     record_breaker r = BreakerClosed \<and> st_Health (hr_status r) = HealthHealthy
     \<and> hr_reopenCount r = 0 \<and> hr_consecutiveFailure r = 0 \<and> hr_recoverySuccesses r = 0
     \<and> hr_halfOpenToken r = 0 \<and> hr_openUntil r = 0 \<and> st_Backoff (hr_status r) = 0"

lemma success_closes:
  "hr_recoverySuccesses r = 1 \<or> record_breaker r \<noteq> BreakerHalfOpen \<Longrightarrow> recovered (fst (recordSuccess r))"
  by (auto simp: recordSuccess_def recovered_def Let_def)

lemma acquire_recovering:
  assumes "map_of (hs_entries s) k = Some r" "record_breaker r = BreakerHalfOpen" "hr_halfOpenToken r = 0"
  shows "tryAcquirePermit [k] t s = (fst (grantEntry k r s), Some (newPermit [snd (grantEntry k r s)]))"
  using assms
  by (simp add: tryAcquirePermit_def recordForKeyLocked_def availableLocked_def case_prod_unfold Let_def)

lemma grant_half_open:
  "record_breaker r = BreakerHalfOpen \<Longrightarrow>
   map_of (hs_entries (fst (grantEntry k r s))) k = Some (r\<lparr>hr_halfOpenToken := inc64 (hs_nextToken s),
      hr_status := (hr_status r)\<lparr>st_Breaker := BreakerHalfOpen, st_HalfOpen := True\<rparr>\<rparr>)
   \<and> snd (grantEntry k r s) =
       \<lparr>pe_key = k, pe_version = hr_version r, pe_halfOpenToken = inc64 (hs_nextToken s)\<rparr>"
  by (simp add: grantEntry_def Let_def putRecord_def gomap_simps)

lemma grant_config [simp]: "storeConfig (fst (grantEntry k r s)) = storeConfig s"
  by (simp add: grantEntry_def Let_def)

lemma recovering_not_closed:
  assumes "record_breaker r = BreakerHalfOpen" and "hr_recoverySuccesses r = 0"
  shows "record_breaker (outcomeRecord s oc t d m r) \<noteq> BreakerClosed"
  using assms
  by (simp add: outcomeRecord_def success_recovering recordFailure_def failureOpens_def openBreakerRecordLocked_def Let_def)


definition halfOpenStore :: health_store where
  "halfOpenStore = fst (tryAcquirePermit [sampleKey] (20 * second) openStore)"

lemma halfOpenStore_inv: "health_inv halfOpenStore"
  by (simp add: halfOpenStore_def inv_acquire openStore_inv)

definition halfOpenRecord :: health_record where
  "halfOpenRecord = the (map_of (hs_entries halfOpenStore) sampleKey)"

lemma halfOpenRecord_get: "map_of (hs_entries halfOpenStore) sampleKey = Some halfOpenRecord"
  by code_simp


section \<open>The delay ring\<close>

definition window :: "duration list \<Rightarrow> duration list" where
  "window ds = drop (length ds - healthDelayRingSize) ds"

definition ringHolds :: "health_record \<Rightarrow> duration list \<Rightarrow> bool" where
  "ringHolds r ws \<longleftrightarrow>
     length (hr_delaySamples r) = healthDelayRingSize \<and> hr_delayCount r = length ws
     \<and> (if length ws < healthDelayRingSize
        then hr_delayNext r = length ws \<and> take (length ws) (hr_delaySamples r) = ws
        else length ws = healthDelayRingSize \<and> hr_delayNext r < healthDelayRingSize
          \<and> drop (hr_delayNext r) (hr_delaySamples r) @ take (hr_delayNext r) (hr_delaySamples r) = ws)"

lemma ring_new: "ringHolds (newHealthRecord k) []"
  by (simp add: ringHolds_def newHealthRecord_def)

lemma ring_full_step:
  assumes "length xs = n" and "k < n"
  shows "drop ((k + 1) mod n) (xs[k := d]) @ take ((k + 1) mod n) (xs[k := d])
    = tl (drop k xs @ take k xs) @ [d]"
proof -
  have hd: "drop k xs = xs ! k # drop (Suc k) xs" using assms by (simp add: Cons_nth_drop_Suc)
  have tk: "take (Suc k) (xs[k := d]) = take k xs @ [d]"
    using assms by (simp add: take_Suc_conv_app_nth)
  show ?thesis
  proof (cases "Suc k = n")
    case True
    then show ?thesis using tk hd assms by simp
  next
    case False
    then have "(k + 1) mod n = Suc k" using assms by simp
    then show ?thesis using tk hd by simp
  qed
qed

lemma ring_step:
  assumes "ringHolds r ws" and "0 < d"
  shows "ringHolds (recordHealthDelay r d) (window (ws @ [d]))"
proof (cases "length ws < healthDelayRingSize")
  case True
  then have "take (Suc (length ws)) ((hr_delaySamples r)[length ws := d]) = ws @ [d]"
    using assms(1) by (simp add: ringHolds_def take_Suc_conv_app_nth)
  then show ?thesis
    using assms True
    by (cases "length ws = 9") (auto simp: ringHolds_def recordHealthDelay_def window_def Let_def)
next
  case False
  then show ?thesis
    using assms ring_full_step [of "hr_delaySamples r" healthDelayRingSize "hr_delayNext r" d]
    by (auto simp: ringHolds_def recordHealthDelay_def window_def Let_def drop_Suc)
qed

lemma window_snoc: "window (window ds @ [d]) = window (ds @ [d])"
proof (cases "length ds < healthDelayRingSize")
  case False
  then have "Suc (length ds - healthDelayRingSize) = length ds - 9" by linarith
  then show ?thesis using False by (simp add: window_def)
qed (simp add: window_def)

lemma ring_fold:
  "\<forall>d \<in> set ds. 0 < d \<Longrightarrow> ringHolds (fold (\<lambda>d r. recordHealthDelay r d) ds (newHealthRecord k)) (window ds)"
proof (induction ds rule: rev_induct)
  case Nil
  then show ?case by (simp add: ring_new window_def)
next
  case (snoc d ds)
  then show ?case using ring_step [of _ "window ds" d] by (simp add: window_snoc)
qed

lemma median_mset: "mset xs = mset ys \<Longrightarrow> medianHealthDelay xs = medianHealthDelay ys"
proof -
  assume eq: "mset xs = mset ys"
  then have "sort xs = sort ys" by (metis properties_for_sort mset_sort sorted_sort)
  moreover have "xs = [] \<longleftrightarrow> ys = []" using eq by (cases xs; cases ys) auto
  ultimately show ?thesis by (simp add: medianHealthDelay_def)
qed

lemma ring_samples: "ringHolds r ws \<Longrightarrow> mset (take (length ws) (hr_delaySamples r)) = mset ws"
proof (cases "length ws < healthDelayRingSize")
  case False
  assume "ringHolds r ws"
  then have "mset ws = mset (drop (hr_delayNext r) (hr_delaySamples r) @ take (hr_delayNext r) (hr_delaySamples r))"
    "take (length ws) (hr_delaySamples r) = hr_delaySamples r"
    using False by (simp_all add: ringHolds_def)
  then show ?thesis by (metis append_take_drop_id mset_append add.commute)
qed (simp add: ringHolds_def)

lemma median_value:
  assumes "samples \<noteq> []" and bound: "\<forall>d \<in> set samples. 0 \<le> d \<and> d < 2 ^ 62"
  shows "medianHealthDelay samples =
    (if odd (length samples) then sort samples ! (length samples div 2)
     else (sort samples ! (length samples div 2 - 1) + sort samples ! (length samples div 2)) div 2)"
proof (cases "odd (length samples)")
  case False
  let ?ys = "sort samples" and ?mid = "length samples div 2"
  have mid: "?mid < length samples" using assms(1) by simp
  then have "?mid - 1 < length samples" by linarith
  then have b: "0 \<le> ?ys ! ?mid" "?ys ! ?mid < 2 ^ 62" "0 \<le> ?ys ! (?mid - 1)" "?ys ! (?mid - 1) < 2 ^ 62"
    using bound mid nth_mem [of _ ?ys] by auto
  then have "int64 (?ys ! (?mid - 1) + ?ys ! ?mid) = ?ys ! (?mid - 1) + ?ys ! ?mid" by (intro int64_id) simp_all
  then show ?thesis using False assms(1) b(1,3) by (simp add: medianHealthDelay_def Let_def)
qed (use assms(1) in \<open>simp add: medianHealthDelay_def\<close>)

text \<open>C36. The smoothed delay is the median of the last ten positive delays: after any sequence of
  recorded delays (each below 2 to the 62 nanoseconds) the filled slots of the ring hold exactly the
  last ten of them, or all when there are fewer, and the smoothed delay is the middle one of
  these in ascending order, or the mean of the two middle ones, rounded down.\<close>

theorem smoothed_delay_is_median_of_last_ten:
  assumes pos: "\<forall>d \<in> set ds. 0 < d \<and> d < 2 ^ 62" and "ds \<noteq> []"
    and r: "r = fold (\<lambda>d r. recordHealthDelay r d) ds (newHealthRecord k)"
    and w: "w = drop (length ds - 10) ds"
  shows "mset (take (hr_delayCount r) (hr_delaySamples r)) = mset w
    \<and> st_SmoothedDelay (hr_status r) =
        (if odd (length w) then sort w ! (length w div 2)
         else (sort w ! (length w div 2 - 1) + sort w ! (length w div 2)) div 2)"
proof -
  have win: "window ds = w" by (simp add: window_def w)
  have ring: "ringHolds r w" using ring_fold [of ds k] pos by (simp add: r win)
  then have count: "hr_delayCount r = length w" by (simp add: ringHolds_def)
  obtain ds' d0 where ds: "ds = ds' @ [d0]" using assms(2) by (cases ds rule: rev_cases) auto
  have "st_SmoothedDelay (hr_status r) = medianHealthDelay (take (hr_delayCount r) (hr_delaySamples r))"
    using pos by (simp add: r ds recordHealthDelay_def Let_def)
  also have "\<dots> = medianHealthDelay w" using median_mset [OF ring_samples [OF ring]] by (simp add: count)
  also have "\<dots> = (if odd (length w) then sort w ! (length w div 2)
      else (sort w ! (length w div 2 - 1) + sort w ! (length w div 2)) div 2)"
  proof (rule median_value)
    have "length ds - 10 < length ds" using assms(2) by (simp add: diff_less)
    then show "w \<noteq> []" by (simp add: w)
    have "0 < d \<and> d < 2 ^ 62" if "d \<in> set w" for d using pos that unfolding w by (meson in_set_dropD)
    then show "\<forall>d \<in> set w. 0 \<le> d \<and> d < 2 ^ 62" by force
  qed
  finally show ?thesis using ring_samples [OF ring] by (simp add: count)
qed

theorem smoothed_delay_is_median_of_last_ten_witness:
  "st_SmoothedDelay (hr_status (fold (\<lambda>d r. recordHealthDelay r d)
     [900, 800, 5, 9, 7, 1, 30, 20, 11, 13, 17, 19] (newHealthRecord sampleKey))) = (11 + 13) div 2"
proof -
  let ?ds = "[900, 800, 5, 9, 7, 1, 30, 20, 11, 13, 17, 19] :: int list"
  have "sort [5, 9, 7, 1, 30, 20, 11, 13, 17, 19 :: int] = [1, 5, 7, 9, 11, 13, 17, 19, 20, 30]" by code_simp
  then show ?thesis
    using smoothed_delay_is_median_of_last_ten [of ?ds _ sampleKey, OF _ _ refl refl] by simp
qed

lemma sorted_below: "sorted ys \<Longrightarrow> j < length ys \<Longrightarrow> ys ! j \<le> (m :: int) \<Longrightarrow> j + 1 \<le> length (filter (\<lambda>x. x \<le> m) ys)"
proof -
  assume a: "sorted ys" "j < length ys" "ys ! j \<le> m"
  have "ys ! i \<le> m" if "i < j + 1" for i
    using sorted_nth_mono [OF a(1), of i j] a that by simp
  then have "\<forall>x \<in> set (take (j + 1) ys). x \<le> m"
    by (auto simp: in_set_conv_nth)
  then have "length (take (j + 1) ys) = length (filter (\<lambda>x. x \<le> m) (take (j + 1) ys))" by simp
  also have "\<dots> \<le> length (filter (\<lambda>x. x \<le> m) (take (j + 1) ys @ drop (j + 1) ys))"
    by (simp only: filter_append length_append)
  finally show ?thesis using a(2) by simp
qed

lemma sorted_above: "sorted ys \<Longrightarrow> j < length ys \<Longrightarrow> (m :: int) \<le> ys ! j \<Longrightarrow> length ys - j \<le> length (filter (\<lambda>x. m \<le> x) ys)"
proof -
  assume a: "sorted ys" "j < length ys" "m \<le> ys ! j"
  have "m \<le> ys ! (j + i)" if "j + i < length ys" for i
    using sorted_nth_mono [OF a(1), of j "j + i"] a that by simp
  then have "\<forall>x \<in> set (drop j ys). m \<le> x"
    by (auto simp: in_set_conv_nth)
  then have "length (drop j ys) = length (filter (\<lambda>x. m \<le> x) (drop j ys))" by simp
  also have "\<dots> \<le> length (filter (\<lambda>x. m \<le> x) (take j ys @ drop j ys))"
    by (simp only: filter_append length_append)
  finally show ?thesis by simp
qed

text \<open>The median is a median: at least half of the samples are not above it and at least half
  are not below it, for any non-empty list of delays that cannot overflow when two are added.\<close>

theorem median_splits_samples:
  assumes "samples \<noteq> []" and "\<forall>d \<in> set samples. 0 \<le> d \<and> d < 2 ^ 62"
  shows "length samples \<le> 2 * length (filter (\<lambda>d. d \<le> medianHealthDelay samples) samples)
    \<and> length samples \<le> 2 * length (filter (\<lambda>d. medianHealthDelay samples \<le> d) samples)"
proof -
  let ?ys = "sort samples" and ?n = "length samples"
  let ?mid = "?n div 2" and ?m = "medianHealthDelay samples"
  have count: "length (filter P ?ys) = length (filter P samples)" for P
    by (metis mset_filter mset_sort size_mset)
  have mid: "?mid < ?n" using assms(1) by simp
  have "\<exists>lo hi. lo < ?n \<and> hi < ?n \<and> ?ys ! lo \<le> ?m \<and> ?m \<le> ?ys ! hi \<and> ?n \<le> 2 * (lo + 1) \<and> ?n \<le> 2 * (?n - hi)"
  proof (cases "odd ?n")
    case True
    then have "?m = ?ys ! ?mid" using assms(1) by (simp add: medianHealthDelay_def)
    then show ?thesis using mid True by (intro exI [of _ ?mid]) (auto elim: oddE)
  next
    case False
    have pos: "0 < ?mid" using False assms(1) by (cases ?n) (auto elim: evenE)
    have le: "?ys ! (?mid - 1) \<le> ?ys ! ?mid" using mid by (intro sorted_nth_mono) auto
    have "?m = (?ys ! (?mid - 1) + ?ys ! ?mid) div 2" using median_value [OF assms] False by simp
    then show ?thesis
      using le mid pos False by (intro exI [of _ "?mid - 1"] exI [of _ ?mid]) (auto elim!: evenE)
  qed
  then obtain lo hi where "lo < ?n" "hi < ?n" "?ys ! lo \<le> ?m" "?m \<le> ?ys ! hi" "?n \<le> 2 * (lo + 1)" "?n \<le> 2 * (?n - hi)"
    by blast
  then show ?thesis
    using sorted_below [of ?ys lo ?m] sorted_above [of ?ys hi ?m] by (simp add: count)
qed

theorem median_splits_samples_witness:
  "length [30, 10, 20, 40 :: int] \<le> 2 * length (filter (\<lambda>d. d \<le> medianHealthDelay [30, 10, 20, 40]) [30, 10, 20, 40])
   \<and> length [30, 10, 20, 40 :: int] \<le> 2 * length (filter (\<lambda>d. medianHealthDelay [30, 10, 20, 40] \<le> d) [30, 10, 20, 40])"
  by (rule median_splits_samples) simp_all

end
