(* ===== verification/Permit_Owner.thy ===== *)
theory Permit_Owner
  imports Breaker_Cycle
begin

text \<open>
  Who holds a half-open token. A refused acquisition gives back every token it took; a granted
  one excludes a second owner of the same key; and, over every sequence of operations on a
  store and the permits issued from it, each token has been issued once and a held token
  belongs to exactly one issued entry. The two ways in which the code departs from its own
  comments are stated as theorems at the end.
\<close>

section \<open>Grants and releases\<close>

definition permitCore :: "health_record \<Rightarrow> nat \<times> gotime \<times> int \<times> int \<times> int" where
  \<comment> \<open>what no acquisition or release touches\<close>
  "permitCore r = (hr_version r, hr_openUntil r, hr_reopenCount r, hr_recoverySuccesses r,
     hr_consecutiveFailure r)"

lemma available_core: "permitCore (fst (availableLocked r t)) = permitCore r"
  by (simp add: permitCore_def availableLocked_def split: breaker_state.split)

lemma grant_lookup:
  assumes "map_of (hs_entries s) k = Some r"
  shows "map_of (hs_entries (fst (grantEntry k r s))) k' =
    (if k' = k \<and> record_breaker r \<in> {BreakerOpen, BreakerCooldown, BreakerHalfOpen}
     then Some (r\<lparr>hr_halfOpenToken := inc64 (hs_nextToken s),
        hr_status := (hr_status r)\<lparr>st_Breaker := BreakerHalfOpen, st_HalfOpen := True\<rparr>\<rparr>)
     else map_of (hs_entries s) k')"
  using assms by (auto simp: grantEntry_def Let_def putRecord_def gomap_simps)

lemma release_lookup:
  "map_of (hs_entries (releaseTokenLocked e s)) k =
     (case map_of (hs_entries s) k of
        None \<Rightarrow> None
      | Some r \<Rightarrow> Some (if k = pe_key e \<and> hr_version r = pe_version e
                       \<and> hr_halfOpenToken r = pe_halfOpenToken e \<and> pe_halfOpenToken e \<noteq> 0
                       \<and> record_breaker r = BreakerHalfOpen
           then r\<lparr>hr_halfOpenToken := 0, hr_status := (hr_status r)\<lparr>st_Breaker := BreakerCooldown,
                    st_HalfOpen := False, st_CooldownUntil := hr_openUntil r\<rparr>\<rparr>
           else r))"
  by (auto simp: releaseTokenLocked_def lookup_simps split: option.split)

lemma release_lru [simp]: "hs_lru (releaseTokenLocked e s) = hs_lru s"
  by (simp add: releaseTokenLocked_def split: option.split)

lemma release_fold_lru [simp]: "hs_lru (fold releaseTokenLocked es s) = hs_lru s"
  by (induction es arbitrary: s) simp_all

lemma grant_lru [simp]: "hs_lru (fst (grantEntry k r s)) = hs_lru s"
  by (simp add: grantEntry_def Let_def)

lemma release_next [simp]: "hs_nextToken (releaseTokenLocked e s) = hs_nextToken s"
  by (simp add: releaseTokenLocked_def split: option.split)

lemma release_fold_next [simp]: "hs_nextToken (fold releaseTokenLocked es s) = hs_nextToken s"
  by (induction es arbitrary: s) simp_all

section \<open>A refused acquisition\<close>

text \<open>While the loop runs, a record differs from the start only by a token one of the entries
  holds.\<close>

definition heldBy :: "permit_entry \<Rightarrow> health_key \<Rightarrow> health_record \<Rightarrow> bool" where
  "heldBy e k r \<longleftrightarrow>
     pe_key e = k \<and> pe_version e = hr_version r \<and> pe_halfOpenToken e = hr_halfOpenToken r
     \<and> record_breaker r = BreakerHalfOpen"

definition borrowed :: "permit_entry list \<Rightarrow> health_key \<Rightarrow> health_record \<Rightarrow> health_record \<Rightarrow> bool" where
  "borrowed es k r0 r \<longleftrightarrow>
     permitCore r = permitCore r0
     \<and> (hr_halfOpenToken r = hr_halfOpenToken r0
        \<or> hr_halfOpenToken r0 = 0 \<and> (\<exists>e \<in> set es. heldBy e k r))"

definition onLoan :: "health_store \<Rightarrow> permit_entry list \<Rightarrow> health_store \<Rightarrow> bool" where
  "onLoan s0 es s \<longleftrightarrow>
     hs_lru s = hs_lru s0
     \<and> (\<forall>k. rel_option (borrowed es k) (map_of (hs_entries s0) k) (map_of (hs_entries s) k))
     \<and> (\<forall>e \<in> set es. pe_halfOpenToken e \<noteq> 0 \<longrightarrow>
          (\<exists>r0. map_of (hs_entries s0) (pe_key e) = Some r0 \<and> hr_halfOpenToken r0 = 0))"

lemma onLoan_refl: "onLoan s [] s"
  by (simp add: onLoan_def borrowed_def option.rel_refl)

lemma rel_option_fun:
  "rel_option P x y \<Longrightarrow> (\<And>a b. x = Some a \<Longrightarrow> y = Some b \<Longrightarrow> P a b \<Longrightarrow> Q a (f b)) \<Longrightarrow>
   rel_option Q x (map_option f y)"
  by (cases x; cases y) auto

lemma borrowed_more: "borrowed es k r0 r \<Longrightarrow> set es \<subseteq> set es' \<Longrightarrow> borrowed es' k r0 r"
  by (auto simp: borrowed_def)

lemma onLoan_free:
  assumes "onLoan s0 es s" and "pe_halfOpenToken e = 0"
  shows "onLoan s0 (es @ [e]) s"
proof -
  have "rel_option (borrowed (es @ [e]) k) (map_of (hs_entries s0) k) (map_of (hs_entries s) k)" for k
  proof (rule option.rel_mono_strong)
    show "rel_option (borrowed es k) (map_of (hs_entries s0) k) (map_of (hs_entries s) k)"
      using assms(1) by (simp add: onLoan_def)
  qed (rule borrowed_more, auto)
  then show ?thesis using assms by (simp add: onLoan_def)
qed

definition released :: "permit_entry \<Rightarrow> health_key \<Rightarrow> health_record \<Rightarrow> health_record" where
  "released e k r =
     (if k = pe_key e \<and> hr_version r = pe_version e \<and> hr_halfOpenToken r = pe_halfOpenToken e
        \<and> pe_halfOpenToken e \<noteq> 0 \<and> record_breaker r = BreakerHalfOpen
      then r\<lparr>hr_halfOpenToken := 0, hr_status := (hr_status r)\<lparr>st_Breaker := BreakerCooldown,
               st_HalfOpen := False, st_CooldownUntil := hr_openUntil r\<rparr>\<rparr>
      else r)"

lemma release_map: "map_of (hs_entries (releaseTokenLocked e s)) k = map_option (released e k) (map_of (hs_entries s) k)"
  by (simp add: release_lookup released_def split: option.split)

lemma borrowed_release:
  assumes "borrowed (e # es) k r0 r"
    and "pe_key e = k \<Longrightarrow> pe_halfOpenToken e \<noteq> 0 \<Longrightarrow> hr_halfOpenToken r0 = 0"
  shows "borrowed es k r0 (released e k r)"
  using assms by (auto simp: borrowed_def permitCore_def heldBy_def released_def)

lemma onLoan_release:
  assumes "onLoan s0 (e # es) s"
  shows "onLoan s0 es (releaseTokenLocked e s)"
proof -
  have "rel_option (borrowed es k) (map_of (hs_entries s0) k)
          (map_of (hs_entries (releaseTokenLocked e s)) k)" for k
    unfolding release_map
  proof (rule rel_option_fun)
    show "rel_option (borrowed (e # es) k) (map_of (hs_entries s0) k) (map_of (hs_entries s) k)"
      using assms by (simp add: onLoan_def)
    show "borrowed es k a (released e k b)"
      if "map_of (hs_entries s0) k = Some a" "borrowed (e # es) k a b" for a b
      by (rule borrowed_release [OF that(2)]) (use assms that(1) in \<open>auto simp: onLoan_def\<close>)
  qed
  then show ?thesis using assms by (simp add: onLoan_def)
qed

lemma onLoan_release_all: "onLoan s0 es s \<Longrightarrow> onLoan s0 [] (fold releaseTokenLocked es s)"
  by (induction es arbitrary: s) (auto intro: onLoan_release)

lemma borrowed_available: "borrowed es k r0 r \<Longrightarrow> borrowed es k r0 (fst (availableLocked r t))"
  using available_core [of r t] availableLocked_frame [OF prod.collapse [symmetric], of r t]
  by (auto simp: borrowed_def heldBy_def permitCore_def)

lemma put_map:
  "map_of (hs_entries s) k = Some r \<Longrightarrow>
   map_of (hs_entries (putRecord k (f r) s)) k' =
     map_option (\<lambda>x. if k' = k then f x else x) (map_of (hs_entries s) k')"
  by (auto simp: lookup_simps option.map_ident)

lemma onLoan_put:
  assumes "onLoan s0 es s" and "map_of (hs_entries s) k = Some r"
    and "\<And>r0. map_of (hs_entries s0) k = Some r0 \<Longrightarrow> borrowed es k r0 r \<Longrightarrow> borrowed es' k r0 (f r)"
    and "set es \<subseteq> set es'"
    and "\<And>e. e \<in> set es' - set es \<Longrightarrow> pe_halfOpenToken e \<noteq> 0 \<Longrightarrow>
           (\<exists>r0. map_of (hs_entries s0) (pe_key e) = Some r0 \<and> hr_halfOpenToken r0 = 0)"
  shows "onLoan s0 es' (putRecord k (f r) s)"
proof -
  have "rel_option (borrowed es' k') (map_of (hs_entries s0) k') (map_of (hs_entries (putRecord k (f r) s)) k')" for k'
    unfolding put_map [of s k r f k', OF assms(2)]
  proof (rule rel_option_fun)
    show "rel_option (borrowed es k') (map_of (hs_entries s0) k') (map_of (hs_entries s) k')"
      using assms(1) by (simp add: onLoan_def)
  qed (use assms(2-4) borrowed_more in auto)
  moreover have "\<exists>r0. map_of (hs_entries s0) (pe_key e) = Some r0 \<and> hr_halfOpenToken r0 = 0"
    if "e \<in> set es'" "pe_halfOpenToken e \<noteq> 0" for e
    using assms(1,5) that by (cases "e \<in> set es") (auto simp: onLoan_def)
  ultimately show ?thesis using assms(1) by (simp add: onLoan_def)
qed

lemma available_token:
  "record_ok k r \<Longrightarrow> availableReadOnly r t \<Longrightarrow>
   record_breaker r \<in> {BreakerOpen, BreakerCooldown, BreakerHalfOpen} \<Longrightarrow> hr_halfOpenToken r = 0"
  by (auto simp: record_ok_def availableReadOnly_def split: breaker_state.splits)

lemma onLoan_token [simp]: "onLoan s0 es (s\<lparr>hs_nextToken := n\<rparr>) = onLoan s0 es s"
  by (simp add: onLoan_def)

lemma onLoan_grant:
  assumes loan: "onLoan s0 es s" and inv: "health_inv s" and get: "map_of (hs_entries s) k = Some r"
    and av: "availableReadOnly r t"
  shows "onLoan s0 (es @ [snd (grantEntry k r s)]) (fst (grantEntry k r s))"
proof (cases "record_breaker r \<in> {BreakerOpen, BreakerCooldown, BreakerHalfOpen}")
  case False
  then show ?thesis using onLoan_free [OF loan] by (simp add: grantEntry_def)
next
  case True
  let ?n = "inc64 (hs_nextToken s)"
  let ?e = "\<lparr>pe_key = k, pe_version = hr_version r, pe_halfOpenToken = ?n\<rparr>"
  let ?f = "\<lambda>r. r\<lparr>hr_halfOpenToken := ?n,
      hr_status := (hr_status r)\<lparr>st_Breaker := BreakerHalfOpen, st_HalfOpen := True\<rparr>\<rparr>"
  have zero: "hr_halfOpenToken r = 0"
    by (rule available_token [OF inv_lookup [OF inv get] av True])
  have free: "hr_halfOpenToken r0 = 0" if "map_of (hs_entries s0) k = Some r0" for r0
  proof -
    have "rel_option (borrowed es k) (map_of (hs_entries s0) k) (map_of (hs_entries s) k)"
      using loan unfolding onLoan_def by blast
    then show ?thesis using that get zero by (auto simp: borrowed_def)
  qed
  have some: "\<exists>r0. map_of (hs_entries s0) k = Some r0"
  proof -
    have "rel_option (borrowed es k) (map_of (hs_entries s0) k) (map_of (hs_entries s) k)"
      using loan unfolding onLoan_def by blast
    then show ?thesis using get by (cases "map_of (hs_entries s0) k") auto
  qed
  have "onLoan s0 (es @ [?e]) (putRecord k (?f r) (s\<lparr>hs_nextToken := ?n\<rparr>))"
    by (rule onLoan_put [where es = es])
      (use loan get free some in \<open>auto simp: borrowed_def permitCore_def heldBy_def\<close>)
  then show ?thesis using True by (simp add: grantEntry_def Let_def)
qed

lemma acquire_loop_loan:
  "onLoan s0 es s \<Longrightarrow> health_inv s \<Longrightarrow>
   case snd (acquireLoop t keys es s) of
     None \<Rightarrow> onLoan s0 [] (fst (acquireLoop t keys es s))
   | Some es' \<Rightarrow> onLoan s0 es' (fst (acquireLoop t keys es s))"
proof (induction keys es s rule: acquire_induct [where t = t])
  case (2 key0 keys es s)
  then show ?case
    unfolding acquire_missing [OF 2(1)] using onLoan_free [OF 2(4)] by (simp add: freeEntry_def)
next
  case (3 key0 k r keys es s)
  have "onLoan s0 es (putRecord k (fst (availableLocked r t)) s)"
    by (rule onLoan_put [where f = "\<lambda>r. fst (availableLocked r t)", OF 3(4,2)])
      (simp_all add: borrowed_available)
  then show ?case
    unfolding acquire_refused [OF 3(1,3)] by (simp add: onLoan_release_all)
next
  case (4 key0 k r keys es s)
  then show ?case
    unfolding acquire_granted [OF 4(1,3)] using onLoan_grant inv_grant by blast
qed simp

definition acquisitionView :: "health_record \<Rightarrow> nat \<times> nat \<times> gotime \<times> int \<times> int \<times> int" where
  \<comment> \<open>the owner token and everything the breaker decides by\<close>
  "acquisitionView r = (hr_halfOpenToken r, permitCore r)"

lemma loan_settled:
  "onLoan s0 [] s \<Longrightarrow> map_option acquisitionView (map_of (hs_entries s) k) =
     map_option acquisitionView (map_of (hs_entries s0) k)"
proof -
  assume "onLoan s0 [] s"
  then have "rel_option (borrowed [] k) (map_of (hs_entries s0) k) (map_of (hs_entries s) k)"
    unfolding onLoan_def by blast
  then show ?thesis by cases (auto simp: borrowed_def acquisitionView_def)
qed

lemma acquire_None:
  "snd (tryAcquirePermit keys t s) = None \<longleftrightarrow> snd (acquireLoop t keys [] s) = None"
  by (simp add: tryAcquirePermit_def case_prod_unfold split: option.split)

text \<open>An acquisition is all or nothing: when any of its keys is refused, every token taken on
  the way is given back, so each record has the owner token, version, opening instant and
  counters it had before, no record has appeared or gone, and the recency order is the same.\<close>

theorem refused_acquisition_releases:
  assumes "health_inv s" and "snd (tryAcquirePermit keys t s) = None"
  shows "map_option acquisitionView (map_of (hs_entries (fst (tryAcquirePermit keys t s))) k) =
      map_option acquisitionView (map_of (hs_entries s) k)
    \<and> hs_lru (fst (tryAcquirePermit keys t s)) = hs_lru s"
proof -
  have "onLoan s [] (fst (tryAcquirePermit keys t s))"
    using acquire_loop_loan [OF onLoan_refl assms(1), of t keys] assms(2)
    by (simp add: acquire_None tryAcquire_fst)
  then show ?thesis using loan_settled by (auto simp: onLoan_def)
qed

definition transportKey :: health_key where
  "transportKey = handleKey sampleHandle DomainTransport ''tcp/ipv4'' []"

definition blockedStore :: health_store where
  \<comment> \<open>the endpoint may be tried again at 20 s, the transport may not before 29 s\<close>
  "blockedStore = Observe ((sampleObservation OutcomeFailure (19 * second))
     \<lparr>ob_Scope := DomainTransport, ob_Transport := ''tcp/ipv4''\<rparr>) openStore"

lemma blockedStore_inv: "health_inv blockedStore"
  by (simp add: blockedStore_def Observe_def inv_observe_evidence openStore_inv)

theorem refused_acquisition_releases_witness:
  "map_option acquisitionView (map_of (hs_entries
      (fst (tryAcquirePermit [sampleKey, transportKey] (20 * second) blockedStore))) sampleKey)
    = map_option acquisitionView (map_of (hs_entries blockedStore) sampleKey)
   \<and> hs_lru (fst (tryAcquirePermit [sampleKey, transportKey] (20 * second) blockedStore)) = hs_lru blockedStore"
  by (rule refused_acquisition_releases [OF blockedStore_inv]) code_simp

section \<open>A granted acquisition\<close>

definition heldToken :: "health_store \<Rightarrow> health_key \<Rightarrow> nat \<Rightarrow> bool" where
  "heldToken s k n \<longleftrightarrow>
     (case map_of (hs_entries s) k of
        None \<Rightarrow> False
      | Some r \<Rightarrow> record_breaker r = BreakerHalfOpen \<and> hr_halfOpenToken r = n \<and> n \<noteq> 0)"

lemma held_refuses:
  "heldToken s k n \<Longrightarrow> \<exists>r. recordForKeyLocked s k = (Some r, k) \<and> map_of (hs_entries s) k = Some r
     \<and> \<not> availableReadOnly r t"
  by (auto simp: heldToken_def recordForKeyLocked_def availableReadOnly_def split: option.splits)

lemma held_grant:
  assumes "heldToken s k n" and "map_of (hs_entries s) k' = Some r" and "availableReadOnly r t"
  shows "heldToken (fst (grantEntry k' r s)) k n"
proof -
  have "k \<noteq> k'" using assms by (auto simp: heldToken_def availableReadOnly_def)
  then show ?thesis using assms by (simp add: heldToken_def grant_lookup)
qed

lemma held_blocks:
  "heldToken s k n \<Longrightarrow> k \<in> set keys \<Longrightarrow> snd (acquireLoop t keys es s) = None"
proof (induction keys es s rule: acquire_induct [where t = t])
  case (2 key0 keys es s)
  have "k \<noteq> key0" using held_refuses [OF 2(4), of t] 2(1) by auto
  then show ?case unfolding acquire_missing [OF 2(1)] using 2 by simp
next
  case (3 key0 k' r keys es s)
  then show ?case unfolding acquire_refused [OF 3(1,3)] by simp
next
  case (4 key0 k' r keys es s)
  have "k \<noteq> key0" using held_refuses [OF 4(5), of t] 4(1,3) by auto
  then show ?case
    unfolding acquire_granted [OF 4(1,3)] using 4 held_grant [OF 4(5,2,3)] by simp
qed simp

lemma grant_held:
  assumes "map_of (hs_entries s) k = Some r" and "pe_halfOpenToken (snd (grantEntry k r s)) \<noteq> 0"
  shows "heldToken (fst (grantEntry k r s)) k (pe_halfOpenToken (snd (grantEntry k r s)))"
  using assms by (auto simp: grantEntry_def heldToken_def Let_def putRecord_def gomap_simps split: if_splits)

lemma grant_key: "pe_key (snd (grantEntry k r s)) = k"
  by (simp add: grantEntry_def Let_def)

lemma acquire_held:
  "\<forall>e \<in> set es. pe_halfOpenToken e \<noteq> 0 \<longrightarrow> heldToken s (pe_key e) (pe_halfOpenToken e) \<Longrightarrow>
   snd (acquireLoop t keys es s) = Some es' \<Longrightarrow> e \<in> set es' \<Longrightarrow> pe_halfOpenToken e \<noteq> 0 \<Longrightarrow>
   heldToken (fst (acquireLoop t keys es s)) (pe_key e) (pe_halfOpenToken e)"
proof (induction keys es s rule: acquire_induct [where t = t])
  case (2 key0 keys es s)
  show ?case
    unfolding acquire_missing [OF 2(1)]
    by (rule 2(3)) (use 2(4-7) in \<open>auto simp: acquire_missing [OF 2(1)] freeEntry_def simp del: acquireLoop.simps\<close>)
next
  case (3 key0 k' r keys es s)
  then show ?case by (simp add: acquire_refused [OF 3(1,3)] del: acquireLoop.simps)
next
  case (4 key0 k r keys es s)
  show ?case
    unfolding acquire_granted [OF 4(1,3)]
  proof (rule 4(4))
    show "\<forall>e \<in> set (es @ [snd (grantEntry k r s)]). pe_halfOpenToken e \<noteq> 0 \<longrightarrow>
        heldToken (fst (grantEntry k r s)) (pe_key e) (pe_halfOpenToken e)"
      using 4(5) held_grant [OF _ 4(2,3)] grant_held [OF 4(2)] by (auto simp: grant_key)
  qed (use 4(6-8) in \<open>auto simp: acquire_granted [OF 4(1,3)] simp del: acquireLoop.simps\<close>)
qed simp

lemma acquire_permit:
  "tryAcquirePermit keys t s = (s', Some p) \<longleftrightarrow>
   acquireLoop t keys [] s = (s', Some (ap_entries p)) \<and> p = newPermit (ap_entries p)"
  by (auto simp: tryAcquirePermit_def newPermit_def split: prod.splits option.splits)

text \<open>A half-open token has one owner: once a permit with a token for a record has been
  granted, every later acquisition that names the record's key is refused, until the owner
  settles.\<close>

theorem token_excludes_second_owner:
  assumes "tryAcquirePermit keys t s = (s', Some p)"
    and "e \<in> set (ap_entries p)" and "pe_halfOpenToken e \<noteq> 0" and "pe_key e \<in> set keys'"
  shows "snd (tryAcquirePermit keys' t' s') = None"
proof -
  have "heldToken s' (pe_key e) (pe_halfOpenToken e)"
    using acquire_held [of "[]" s t keys "ap_entries p" e] assms(1-3) by (simp add: acquire_permit)
  then show ?thesis using held_blocks [OF _ assms(4)] by (simp add: acquire_None)
qed

definition halfOpenPermit :: attempt_permit where
  "halfOpenPermit = the (snd (tryAcquirePermit [sampleKey] (20 * second) openStore))"

lemma halfOpenPermit_granted:
  "tryAcquirePermit [sampleKey] (20 * second) openStore = (halfOpenStore, Some halfOpenPermit)"
proof (rule prod_eqI)
  show "snd (tryAcquirePermit [sampleKey] (20 * second) openStore) = snd (halfOpenStore, Some halfOpenPermit)"
    by code_simp
qed (simp add: halfOpenStore_def)

theorem token_excludes_second_owner_witness:
  "snd (tryAcquirePermit [transportKey, sampleKey] (40 * second) halfOpenStore) = None"
  by (rule token_excludes_second_owner [OF halfOpenPermit_granted,
        where e = "hd (ap_entries halfOpenPermit)"]) code_simp+

section \<open>Asking without acquiring\<close>

text \<open>The two availability tests agree: the one that may relabel an open breaker answers as
  the read-only one, and its only effect is on the label of the breaker it was refused by, so
  no owner token, version, opening instant or counter changes.\<close>

theorem can_attempt_agrees:
  "snd (CanAttemptHandle h service t s) = CanAttemptHandleReadOnly s h service t
   \<and> map_option acquisitionView (map_of (hs_entries (fst (CanAttemptHandle h service t s))) k)
     = map_option acquisitionView (map_of (hs_entries s) k)"
proof (cases "transportPathEligible s h (serviceHealthTransport service) (atOrClock s t)")
  case True
  let ?keys = "serviceKeys h service" and ?t = "atOrClock s t"
  have view: "acquisitionView (fst (availableLocked r ?t)) = acquisitionView r" for r
    using available_core [of r ?t] availableLocked_frame(1) [OF prod.collapse [symmetric], of r ?t]
    by (simp add: acquisitionView_def)
  show ?thesis
    by (rule attempt_cases [of ?t ?keys s])
      (use True in \<open>auto simp: CanAttemptHandle_def CanAttemptHandleReadOnly_def lookup_simps view\<close>)
qed (simp add: CanAttemptHandle_def CanAttemptHandleReadOnly_def)

end
