(* ===== verification/Health_System.thy ===== *)
theory Health_System
  imports Permit_Owner
begin

text \<open>
  The health store and the permits issued from it as a state machine: one step per locked
  operation of \<^verbatim>\<open>health.go\<close>, in any order and with any arguments, so that the
  interleavings of concurrent callers are the runs of the machine. Two facts hold in every
  reachable state: the store invariant, and that a held token was issued to one permit only.
  A counter of 64 bits names the tokens; a step that would use up the last one is left out.
\<close>

section \<open>Steps\<close>

record health_sys =
  sys_store :: health_store
  sys_permits :: "attempt_permit list"

definition addPermit :: "attempt_permit option \<Rightarrow> attempt_permit list \<Rightarrow> attempt_permit list" where
  "addPermit m ps = (case m of None \<Rightarrow> ps | Some p \<Rightarrow> ps @ [p])"

inductive health_step :: "health_sys \<Rightarrow> health_sys \<Rightarrow> bool" where
  observe: "health_step y (y\<lparr>sys_store := ObserveEvidence obs elig w (sys_store y)\<rparr>)"
| retire: "health_step y (y\<lparr>sys_store := RetireNodeHandle h (sys_store y)\<rparr>)"
| clock: "health_step y (y\<lparr>sys_store := (sys_store y)\<lparr>hs_clock := t\<rparr>\<rparr>)"
| attempt: "health_step y (y\<lparr>sys_store := fst (attemptLoop t keys (sys_store y))\<rparr>)"
| acquire: "hs_nextToken (sys_store y) + length keys < 2 ^ 64 \<Longrightarrow>
    tryAcquirePermit keys t (sys_store y) = (s', m) \<Longrightarrow>
    health_step y \<lparr>sys_store = s', sys_permits = addPermit m (sys_permits y)\<rparr>"
| domain: "hs_nextToken (sys_store y) + 1 < 2 ^ 64 \<Longrightarrow>
    TryAcquireDomainPermitHandle h dm tr sv t (sys_store y) = (s', m) \<Longrightarrow>
    health_step y \<lparr>sys_store = s', sys_permits = addPermit m (sys_permits y)\<rparr>"
| fallback: "health_step y (y\<lparr>sys_permits :=
    addPermit (TryAcquireConnectionFallbackPermitHandle h tr (sys_store y)) (sys_permits y)\<rparr>)"
| complete: "i < length (sys_permits y) \<Longrightarrow>
    CompleteDomains ocs t d m (sys_permits y ! i, sys_store y) = (p', s') \<Longrightarrow>
    health_step y \<lparr>sys_store = s', sys_permits = (sys_permits y)[i := p']\<rparr>"
| release: "i < length (sys_permits y) \<Longrightarrow>
    ReleaseDeferred (sys_permits y ! i, sys_store y) = (p', s') \<Longrightarrow>
    health_step y \<lparr>sys_store = s', sys_permits = (sys_permits y)[i := p']\<rparr>"

inductive health_reach :: "health_sys \<Rightarrow> bool" where
  start: "health_reach \<lparr>sys_store = NewHealthStoreWithClock r n c b f g, sys_permits = []\<rparr>"
| step: "health_reach y \<Longrightarrow> health_step y y' \<Longrightarrow> health_reach y'"

inductive_cases health_stepE: "health_step y y'"

section \<open>Tokens never appear by themselves\<close>

definition sameHolder :: "health_store \<Rightarrow> health_key \<Rightarrow> health_record \<Rightarrow> bool" where
  "sameHolder s k r' \<longleftrightarrow> (\<exists>r. map_of (hs_entries s) k = Some r
     \<and> hr_halfOpenToken r = hr_halfOpenToken r' \<and> hr_version r = hr_version r')"

definition keeps :: "health_store \<Rightarrow> health_store \<Rightarrow> bool" where
  "keeps s s' \<longleftrightarrow>
     hs_nextToken s \<le> hs_nextToken s'
     \<and> (\<forall>k r'. map_of (hs_entries s') k = Some r' \<longrightarrow> hr_halfOpenToken r' \<noteq> 0 \<longrightarrow> sameHolder s k r')"

lemma keeps_refl [simp]: "keeps s s"
  by (auto simp: keeps_def sameHolder_def)

lemma keeps_trans: "keeps s s' \<Longrightarrow> keeps s' s'' \<Longrightarrow> keeps s s''"
  by (fastforce simp: keeps_def sameHolder_def)

lemma keeps_put:
  assumes "hr_halfOpenToken r' \<noteq> 0 \<Longrightarrow> sameHolder s k r'"
  shows "keeps s (putRecord k r' s)"
  using assms by (auto simp: keeps_def lookup_simps sameHolder_def)

lemma keeps_sub:
  assumes "\<And>k r. map_of (hs_entries s') k = Some r \<Longrightarrow> map_of (hs_entries s) k = Some r"
    and "hs_nextToken s' = hs_nextToken s"
  shows "keeps s s'"
  using assms by (auto simp: keeps_def sameHolder_def)

lemma keeps_prune: "keeps s (pruneExpiredLocked t s)"
  by (rule keeps_sub) (auto intro: prune_sub)

lemma evict_next [simp]: "hs_nextToken (evictLocked s) = hs_nextToken s"
  by (rule htab.evict_induct [where P = "\<lambda>t. hs_nextToken t = hs_nextToken s"])
    (simp_all add: removeOldestLocked_def)

lemma keeps_evict: "keeps s (evictLocked s)"
  by (rule keeps_sub) (auto dest: htab.evict_lookup_sub)

lemma keeps_touch: "keeps s (touchRecord k s)"
  by (rule keeps_sub) simp_all

lemma keeps_draws: "keeps s (s\<lparr>hs_draws := n\<rparr>)"
  by (rule keeps_sub) simp_all

lemma keeps_insert: "hr_halfOpenToken r = 0 \<Longrightarrow> keeps s (insertRecord k r s)"
  by (auto simp: keeps_def lookup_simps sameHolder_def)

lemma keeps_apply:
  assumes "map_of (hs_entries s) k = Some r"
  shows "keeps s (applyOutcome k r oc t d m s)"
proof -
  have put: "keeps s (putRecord k x (s\<lparr>hs_draws := n\<rparr>))"
    if "hr_halfOpenToken x = 0 \<or> hr_halfOpenToken x = hr_halfOpenToken r \<and> hr_version x = hr_version r" for x n
    using that assms by (auto simp: keeps_def lookup_simps sameHolder_def put_lookup_draws)
  have evict: "keeps s (evictLocked u)" if "keeps s u" for u
    using keeps_trans [OF that keeps_evict] .
  let ?x = "stampOutcome r oc t d m"
  have "hr_halfOpenToken (fst (recordSuccess ?x)) = 0"
    by (simp add: recordSuccess_def Let_def)
  moreover have "hr_halfOpenToken (recordFailure c n t ?x) = 0
      \<or> hr_halfOpenToken (recordFailure c n t ?x) = hr_halfOpenToken r
        \<and> hr_version (recordFailure c n t ?x) = hr_version r" for c n
    by (simp add: recordFailure_def openBreakerRecordLocked_def Let_def)
  ultimately show ?thesis
    using put [of "fst (recordSuccess ?x)" "hs_draws s"] put [of "recordFailure (hs_breaker s) (hs_draws s) t ?x"]
      put [of "recordFailure (hs_breaker s) (hs_draws s) t ?x" "hs_draws s"]
    by (auto simp: applyOutcome_def case_prod_unfold Let_def intro!: evict)
qed

lemma keeps_observe: "keeps s (observeLocked k oc t d m v tok act s)"
proof -
  let ?p = "pruneExpiredLocked t s" and ?n = "newHealthRecord k"
  note via = keeps_trans [OF keeps_prune [of s t]]
  have new: "keeps ?p (insertRecord k ?n ?p)" by (rule keeps_insert) (simp add: newHealthRecord_def)
  have "keeps ?p (applyOutcome k ?n oc t d m (insertRecord k ?n ?p))"
    by (rule keeps_trans [OF new keeps_apply]) (simp add: lookup_simps)
  moreover have "keeps ?p (applyOutcome k r oc t d m (touchRecord k ?p))"
    if "map_of (hs_entries ?p) k = Some r" for r
    by (rule keeps_trans [OF keeps_touch keeps_apply]) (simp add: that)
  ultimately show ?thesis
    using new keeps_touch [of ?p k]
    by (auto simp: observeLocked_def Let_def intro!: via keeps_refl split: option.split)
qed

lemma keeps_quality: "keeps s (observeQualityLocked k obs w s)"
proof -
  let ?p = "pruneExpiredLocked (ob_At obs) s"
  note via = keeps_trans [OF keeps_prune [of s "ob_At obs"]]
  have token: "hr_halfOpenToken (applyQuality r obs w ?p) = hr_halfOpenToken r"
    "hr_version (applyQuality r obs w ?p) = hr_version r" for r
    using quality_core [of r obs w ?p] by (simp_all add: breakerCore_def)
  have known: "keeps ?p (evictLocked (putRecord k (applyQuality r obs w ?p) (touchRecord k ?p)))"
    if "map_of (hs_entries ?p) k = Some r" for r
    by (rule keeps_trans [OF keeps_trans [OF keeps_touch keeps_put] keeps_evict])
      (simp add: sameHolder_def that token)
  have new: "keeps ?p (evictLocked (insertRecord k (applyQuality
      ((newHealthRecord k)\<lparr>hr_status := emptyStatus\<lparr>st_Breaker := BreakerClosed\<rparr>\<rparr>) obs w ?p) ?p))"
    by (rule keeps_trans [OF keeps_insert keeps_evict]) (simp add: token newHealthRecord_def)
  show ?thesis
    using new known by (auto simp: observeQualityLocked_def Let_def intro!: via split: option.split)
qed

lemma keeps_evidence: "keeps s (ObserveEvidence obs elig w s)"
  by (rule evidence_cases [of obs elig w s]) (simp_all add: keeps_observe keeps_quality)

lemma keeps_release: "keeps s (releaseTokenLocked e s)"
  by (auto simp: keeps_def release_map released_def sameHolder_def split: if_splits)

lemma keeps_release_fold: "keeps s (fold releaseTokenLocked es s)"
  by (induction es arbitrary: s) (auto intro: keeps_trans [OF keeps_release])

lemma keeps_complete: "keeps s (completePermitDomains es ocs t d m s)"
proof -
  have entry: "keeps s (completeEntry ocs u d m e s)" for u e s
    by (simp add: completeEntry_def keeps_release keeps_observe split: option.split)
  have "keeps s (fold (completeEntry ocs u d m) es s)" for u s
    by (induction es arbitrary: s) (auto intro: keeps_trans [OF entry])
  then show ?thesis by (simp add: completePermitDomains_def)
qed

lemma keeps_retire: "keeps s (RetireNodeHandle h s)"
proof -
  have rm: "keeps s (removeLocked k s)" for k s
    by (rule keeps_sub) (auto simp: lookup_simps split: if_splits)
  have "keeps s (fold removeLocked ks s)" for ks s
    by (induction ks arbitrary: s) (auto intro: keeps_trans [OF rm])
  then show ?thesis by (simp add: RetireNodeHandle_def)
qed

lemma keeps_available: "map_of (hs_entries s) k = Some r \<Longrightarrow> keeps s (putRecord k (fst (availableLocked r t)) s)"
  using availableLocked_frame(1,2) [OF prod.collapse [symmetric], of r t]
  by (intro keeps_put) (simp add: sameHolder_def)

lemma keeps_attempt: "keeps s (fst (attemptLoop t keys s))"
  by (rule attempt_cases [of t keys s]) (simp_all add: keeps_available)

section \<open>What an acquisition issues\<close>

definition tokens :: "permit_entry list \<Rightarrow> nat list" where
  "tokens es = filter (\<lambda>n. n \<noteq> 0) (map pe_halfOpenToken es)"

definition backs :: "permit_entry \<Rightarrow> health_key \<Rightarrow> health_record \<Rightarrow> bool" where
  "backs e k r \<longleftrightarrow> pe_key e = k \<and> pe_version e = hr_version r \<and> pe_halfOpenToken e = hr_halfOpenToken r"

definition grows :: "health_store \<Rightarrow> permit_entry list \<Rightarrow> health_store \<Rightarrow> bool" where
  "grows s es s' \<longleftrightarrow>
     hs_nextToken s \<le> hs_nextToken s' \<and> distinct (tokens es)
     \<and> (\<forall>n \<in> set (tokens es). hs_nextToken s < n \<and> n \<le> hs_nextToken s')
     \<and> (\<forall>k r'. map_of (hs_entries s') k = Some r' \<longrightarrow> hr_halfOpenToken r' \<noteq> 0 \<longrightarrow>
          sameHolder s k r' \<or> (\<exists>e \<in> set es. backs e k r'))"

lemma tokens_simps [simp]:
  "tokens [] = []"
  "tokens (es @ es') = tokens es @ tokens es'"
  "tokens [freeEntry k] = []"
  by (simp_all add: tokens_def freeEntry_def)

lemma grows_refl: "grows s [] s"
  by (auto simp: grows_def sameHolder_def)

lemma grows_free: "grows s es s' \<Longrightarrow> tokens [e] = [] \<Longrightarrow> grows s (es @ [e]) s'"
  by (fastforce simp: grows_def)

lemma grows_grant:
  assumes g: "grows s0 es s" and get: "map_of (hs_entries s) k = Some r" and "hs_nextToken s + 1 < 2 ^ 64"
  shows "grows s0 (es @ [snd (grantEntry k r s)]) (fst (grantEntry k r s))"
proof (cases "record_breaker r \<in> {BreakerOpen, BreakerCooldown, BreakerHalfOpen}")
  case False
  then show ?thesis using grows_free [OF g] by (simp add: grantEntry_def tokens_def)
next
  case True
  have next': "inc64 (hs_nextToken s) = Suc (hs_nextToken s)" using assms(3) by simp
  let ?s = "fst (grantEntry k r s)" and ?e = "snd (grantEntry k r s)"
  have s: "hs_nextToken ?s = Suc (hs_nextToken s)" "tokens [?e] = [Suc (hs_nextToken s)]"
    using True by (auto simp: grantEntry_def Let_def next' tokens_def)
  have "sameHolder s0 k' r' \<or> (\<exists>e \<in> set (es @ [?e]). backs e k' r')"
    if "map_of (hs_entries ?s) k' = Some r'" "hr_halfOpenToken r' \<noteq> 0" for k' r'
  proof (cases "k' = k")
    case k: True
    have "hr_version r' = hr_version r" "hr_halfOpenToken r' = inc64 (hs_nextToken s)"
      using that(1) True k unfolding grant_lookup [OF get] by auto
    then have "backs ?e k' r'"
      using True k by (auto simp: grantEntry_def Let_def backs_def)
    then show ?thesis by simp
  next
    case False
    then show ?thesis using that g by (auto simp: grant_lookup [OF get] grows_def)
  qed
  then show ?thesis using g s unfolding grows_def by fastforce
qed

lemma grant_next: "hs_nextToken s + 1 < 2 ^ 64 \<Longrightarrow> hs_nextToken (fst (grantEntry k r s)) \<le> hs_nextToken s + 1
    \<and> hs_nextToken s \<le> hs_nextToken (fst (grantEntry k r s))"
  by (simp add: grantEntry_def Let_def)

lemma acquire_grows:
  "grows s0 es s \<Longrightarrow> hs_nextToken s + length keys < 2 ^ 64 \<Longrightarrow>
   snd (acquireLoop t keys es s) = Some es' \<Longrightarrow> grows s0 es' (fst (acquireLoop t keys es s))"
proof (induction keys es s rule: acquire_induct [where t = t])
  case (2 key0 keys es s)
  then show ?case unfolding acquire_missing [OF 2(1)] using grows_free [OF 2(4), of "freeEntry key0"] by simp
next
  case (3 key0 k r keys es s)
  then show ?case unfolding acquire_refused [OF 3(1,3)] by simp
next
  case (4 key0 k r keys es s)
  then show ?case
    unfolding acquire_granted [OF 4(1,3)] using grows_grant [OF 4(5,2)] grant_next [of s k r] by simp
qed simp

lemma acquire_next:
  "hs_nextToken s + length keys < 2 ^ 64 \<Longrightarrow> hs_nextToken s \<le> hs_nextToken (fst (acquireLoop t keys es s))"
proof (induction keys es s rule: acquire_induct [where t = t])
  case (2 key0 keys es s)
  then show ?case unfolding acquire_missing [OF 2(1)] by simp
next
  case (3 key0 k r keys es s)
  then show ?case unfolding acquire_refused [OF 3(1,3)] by simp
next
  case (4 key0 k r keys es s)
  then show ?case
    unfolding acquire_granted [OF 4(1,3)] using grant_next [of s k r] by simp
qed simp

lemma refused_keeps:
  assumes "health_inv s" and "hs_nextToken s + length keys < 2 ^ 64"
    and "tryAcquirePermit keys t s = (s', None)"
  shows "keeps s s'"
proof -
  have s': "s' = fst (acquireLoop t keys [] s)" "snd (acquireLoop t keys [] s) = None"
    using assms(3) tryAcquire_fst [of keys t s] acquire_None [of keys t s] by simp_all
  have "onLoan s [] s'"
    using acquire_loop_loan [OF onLoan_refl assms(1), of t keys] s' by simp
  from loan_settled [OF this]
  have "map_option acquisitionView (map_of (hs_entries s') k) = map_option acquisitionView (map_of (hs_entries s) k)" for k .
  then have "sameHolder s k r'" if "map_of (hs_entries s') k = Some r'" for k r'
    using that by (metis (mono_tags, lifting) acquisitionView_def map_option_eq_Some permitCore_def
        prod.inject sameHolder_def)
  then show ?thesis using acquire_next [OF assms(2), of t "[]"] s'(1) by (simp add: keeps_def)
qed

section \<open>The ownership invariant\<close>

definition issued :: "attempt_permit list \<Rightarrow> permit_entry list" where
  "issued ps = concat (map ap_entries ps)"

definition owner_inv :: "health_sys \<Rightarrow> bool" where
  "owner_inv y \<longleftrightarrow>
     health_inv (sys_store y) \<and> distinct (tokens (issued (sys_permits y)))
     \<and> (\<forall>n \<in> set (tokens (issued (sys_permits y))). n \<le> hs_nextToken (sys_store y))
     \<and> (\<forall>k r. map_of (hs_entries (sys_store y)) k = Some r \<longrightarrow> hr_halfOpenToken r \<noteq> 0 \<longrightarrow>
          (\<exists>e \<in> set (issued (sys_permits y)). backs e k r))"

lemma backs_same: "sameHolder s k r' \<Longrightarrow> \<exists>r. map_of (hs_entries s) k = Some r
    \<and> hr_halfOpenToken r = hr_halfOpenToken r' \<and> (\<forall>e. backs e k r = backs e k r')"
  by (auto simp: sameHolder_def backs_def)

lemma owner_keeps:
  assumes "owner_inv y" and "health_inv s'" and "keeps (sys_store y) s'"
    and "issued ps' = issued (sys_permits y)"
  shows "owner_inv \<lparr>sys_store = s', sys_permits = ps'\<rparr>"
proof -
  have "\<exists>e \<in> set (issued (sys_permits y)). backs e k r'"
    if held: "map_of (hs_entries s') k = Some r'" "hr_halfOpenToken r' \<noteq> 0" for k r'
  proof -
    obtain r where "map_of (hs_entries (sys_store y)) k = Some r" "hr_halfOpenToken r = hr_halfOpenToken r'"
        "\<forall>e. backs e k r = backs e k r'"
      using held assms(3) backs_same unfolding keeps_def by blast
    then show ?thesis using assms(1) held(2) unfolding owner_inv_def by metis
  qed
  then show ?thesis using assms by (force simp: owner_inv_def keeps_def)
qed

lemma owner_grows:
  assumes y: "owner_inv y" and "health_inv s'" and g: "grows (sys_store y) es s'"
  shows "owner_inv \<lparr>sys_store = s', sys_permits = addPermit (Some (newPermit es)) (sys_permits y)\<rparr>"
proof -
  let ?old = "issued (sys_permits y)"
  have new: "issued (addPermit (Some (newPermit es)) (sys_permits y)) = ?old @ es"
    by (simp add: issued_def addPermit_def newPermit_def)
  have "distinct (tokens (?old @ es))"
    using y g unfolding owner_inv_def grows_def by fastforce
  moreover have "\<forall>n \<in> set (tokens (?old @ es)). n \<le> hs_nextToken s'"
    using y g unfolding owner_inv_def grows_def by fastforce
  moreover have "\<exists>e \<in> set (?old @ es). backs e k r'"
    if "map_of (hs_entries s') k = Some r'" "hr_halfOpenToken r' \<noteq> 0" for k r'
  proof (cases "sameHolder (sys_store y) k r'")
    case True
    then obtain r where "map_of (hs_entries (sys_store y)) k = Some r" "hr_halfOpenToken r = hr_halfOpenToken r'"
        "\<forall>e. backs e k r = backs e k r'"
      using backs_same by blast
    then have "\<exists>e \<in> set ?old. backs e k r'" using y that(2) unfolding owner_inv_def by metis
    then show ?thesis by auto
  next
    case False
    then show ?thesis using g that unfolding grows_def by fastforce
  qed
  ultimately show ?thesis using assms(2) by (simp add: owner_inv_def new)
qed

lemma domain_cases:
  assumes "gm_wf (hs_entries s)"
  obtains k where "TryAcquireDomainPermitHandle h dm tr sv t s = (s, Some (newPermit [freeEntry k]))"
  | k r u where "map_of (hs_entries s) k = Some r"
      "TryAcquireDomainPermitHandle h dm tr sv t s = (putRecord k (fst (availableLocked r u)) s, None)"
  | k r where "map_of (hs_entries s) k = Some r"
      "TryAcquireDomainPermitHandle h dm tr sv t s =
         (fst (grantEntry k r s), Some (newPermit [snd (grantEntry k r s)]))"
proof -
  let ?tr = "if dm = DomainTransport then transportLedgerKey tr else tr" and ?t = "atOrClock s t"
  obtain m k where mk: "domainRecord s h dm ?tr sv = (m, k)" by (cases "domainRecord s h dm ?tr sv")
  show thesis
  proof (cases m)
    case None
    then show ?thesis using mk that(1) [of k] by (simp add: TryAcquireDomainPermitHandle_def)
  next
    case (Some r)
    then have get: "map_of (hs_entries s) k = Some r" using domainRecord_lookup [OF assms] mk by simp
    show ?thesis
      using that(2) [OF get, of ?t] that(3) [OF get] mk Some
      by (cases "snd (availableLocked r ?t)")
        (simp_all add: TryAcquireDomainPermitHandle_def case_prod_unfold Let_def)
  qed
qed

lemma fallback_tokens: "fallbackEntries s keys = Some es \<Longrightarrow> tokens es = []"
proof (induction keys arbitrary: es)
  case (Cons key keys)
  then show ?case
    by (auto simp: tokens_def freeEntry_def split: option.splits if_splits)
qed simp

lemma grows_untokened: "tokens es = [] \<Longrightarrow> grows s es s"
  by (auto simp: grows_def sameHolder_def)

lemma settle_entries:
  "CompleteDomains ocs t d m (p, s) = (p', s') \<Longrightarrow> ap_entries p' = ap_entries p"
  "ReleaseDeferred (p, s) = (p', s') \<Longrightarrow> ap_entries p' = ap_entries p"
  by (auto simp: CompleteDomains_def ReleaseDeferred_def split: if_splits)

lemma issued_update:
  "i < length ps \<Longrightarrow> ap_entries p' = ap_entries (ps ! i) \<Longrightarrow> issued (ps[i := p']) = issued ps"
proof -
  assume "i < length ps" "ap_entries p' = ap_entries (ps ! i)"
  then have "map ap_entries (ps[i := p']) = map ap_entries ps"
    by (simp add: map_update list_update_same_conv)
  then show ?thesis by (simp only: issued_def)
qed

lemma owner_store:
  "owner_inv y \<Longrightarrow> health_inv s' \<Longrightarrow> keeps (sys_store y) s' \<Longrightarrow> owner_inv (y\<lparr>sys_store := s'\<rparr>)"
  using owner_keeps [of y s' "sys_permits y"] by (cases y) simp

lemma owner_acquire:
  assumes y: "owner_inv y" and "hs_nextToken (sys_store y) + length keys < 2 ^ 64"
    and acq: "tryAcquirePermit keys t (sys_store y) = (s', m)"
  shows "owner_inv \<lparr>sys_store = s', sys_permits = addPermit m (sys_permits y)\<rparr>"
proof -
  have inv: "health_inv (sys_store y)" using y by (simp add: owner_inv_def)
  have inv': "health_inv s'" using inv_acquire [OF inv, of keys t] acq by simp
  show ?thesis
  proof (cases m)
    case None
    then show ?thesis
      using owner_keeps [OF y inv' refused_keeps [OF inv assms(2)]] acq by (simp add: addPermit_def)
  next
    case (Some p)
    then have loop: "acquireLoop t keys [] (sys_store y) = (s', Some (ap_entries p))"
      and p: "newPermit (ap_entries p) = p"
      using acq by (simp_all add: acquire_permit)
    have "grows (sys_store y) (ap_entries p) s'"
      using acquire_grows [OF grows_refl assms(2), of t "ap_entries p"] loop by simp
    from owner_grows [OF y inv' this] show ?thesis by (simp only: p Some)
  qed
qed

lemma owner_domain:
  assumes y: "owner_inv y" and "hs_nextToken (sys_store y) + 1 < 2 ^ 64"
    and acq: "TryAcquireDomainPermitHandle h dm tr sv t (sys_store y) = (s', m)"
  shows "owner_inv \<lparr>sys_store = s', sys_permits = addPermit m (sys_permits y)\<rparr>"
proof -
  have inv: "health_inv (sys_store y)" using y by (simp add: owner_inv_def)
  from domain_cases [OF inv_wf [OF inv], of h dm tr sv t] show ?thesis
  proof cases
    case (1 k)
    then show ?thesis using acq owner_grows [OF y inv grows_untokened [of "[freeEntry k]"]] by simp
  next
    case (2 k r u)
    then show ?thesis
      using acq owner_keeps [OF y inv_available [OF inv 2(1)] keeps_available [OF 2(1)]]
      by (simp add: addPermit_def)
  next
    case (3 k r)
    have "grows (sys_store y) [snd (grantEntry k r (sys_store y))] (fst (grantEntry k r (sys_store y)))"
      using grows_grant [OF grows_refl 3(1) assms(2)] by simp
    from owner_grows [OF y inv_grant [OF inv 3(1)] this] show ?thesis using acq 3(2) by auto
  qed
qed

lemma owner_step:
  assumes "health_step y y'" and y: "owner_inv y"
  shows "owner_inv y'"
proof -
  have inv: "health_inv (sys_store y)" using y by (simp add: owner_inv_def)
  note store = owner_store [OF y]
  from assms(1) show ?thesis
  proof (cases rule: health_step.cases)
    case (observe obs elig w)
    show ?thesis unfolding observe by (rule store [OF inv_observe_evidence [OF inv] keeps_evidence])
  next
    case (retire h)
    show ?thesis unfolding retire by (rule store [OF inv_retire [OF inv] keeps_retire])
  next
    case (clock t)
    have "keeps (sys_store y) ((sys_store y)\<lparr>hs_clock := t\<rparr>)" by (rule keeps_sub) simp_all
    then show ?thesis unfolding clock by (intro store) (simp_all add: inv)
  next
    case (attempt t keys)
    show ?thesis unfolding attempt by (rule store [OF inv_attempt_loop [OF inv] keeps_attempt])
  next
    case (acquire keys t s' m)
    show ?thesis unfolding acquire(1) by (rule owner_acquire [OF y acquire(2,3)])
  next
    case (domain h dm tr sv t s' m)
    show ?thesis unfolding domain(1) by (rule owner_domain [OF y domain(2,3)])
  next
    case (fallback h tr)
    let ?es = "fallbackEntries (sys_store y) [handleKey h DomainEndpoint [] [],
          handleKey h DomainTransport (transportLedgerKey tr) []]"
    show ?thesis
    proof (cases ?es)
      case None
      then show ?thesis
        using y unfolding fallback by (simp add: TryAcquireConnectionFallbackPermitHandle_def addPermit_def)
    next
      case (Some es)
      then show ?thesis
        using owner_grows [OF y inv grows_untokened [OF fallback_tokens [OF Some]]] unfolding fallback
        by (cases y) (simp add: TryAcquireConnectionFallbackPermitHandle_def)
    qed
  next
    case (complete i ocs t d m p' s')
    then have "health_inv s' \<and> keeps (sys_store y) s'"
      using inv by (auto simp: CompleteDomains_def inv_complete keeps_complete split: if_splits)
    then show ?thesis
      unfolding complete(1)
      using owner_keeps [OF y] issued_update [OF complete(2) settle_entries(1) [OF complete(3)]] by blast
  next
    case (release i p' s')
    then have "health_inv s' \<and> keeps (sys_store y) s'"
      using inv by (auto simp: ReleaseDeferred_def releasePermit_def inv_release_fold
          keeps_release_fold split: if_splits)
    then show ?thesis
      unfolding release(1)
      using owner_keeps [OF y] issued_update [OF release(2) settle_entries(2) [OF release(3)]] by blast
  qed
qed

lemma owner_reach: "health_reach y \<Longrightarrow> owner_inv y"
proof (induction rule: health_reach.induct)
  case (start r n c b f g)
  then show ?case
    using health_inv_new [of r n c b f g] by (simp add: owner_inv_def issued_def NewHealthStoreWithClock_def)
qed (rule owner_step)

text \<open>C2. In every state the store can reach, whatever the order in which observations,
  acquisitions, settlements and retirements arrive, the store is within its capacity, the map
  and the recency list hold the same keys, and every record is consistent: a token is held
  only in the half-open state, the flag tells that state and a blocked record publishes its
  own opening instant.\<close>

theorem reachable_store_invariant:
  assumes "health_reach y"
  shows "health_inv (sys_store y)"
  using owner_reach [OF assms] by (simp add: owner_inv_def)

definition sampleSystem :: health_sys where
  "sampleSystem = \<lparr>sys_store = halfOpenStore, sys_permits = [halfOpenPermit]\<rparr>"

lemma sampleSystem_reach: "health_reach sampleSystem"
proof -
  have s0: "health_reach \<lparr>sys_store = sampleStore, sys_permits = []\<rparr>"
    unfolding sampleStore_def by (rule start)
  have s1: "health_reach \<lparr>sys_store = openStore, sys_permits = []\<rparr>"
    using step [OF s0 observe] by (simp add: openStore_def Observe_def)
  have "hs_nextToken openStore = 0" by code_simp
  then have "hs_nextToken (sys_store \<lparr>sys_store = openStore, sys_permits = []\<rparr>) + length [sampleKey] < 2 ^ 64"
    by simp
  from step [OF s1 acquire [OF this, of "20 * second" halfOpenStore "Some halfOpenPermit"]]
  show ?thesis using halfOpenPermit_granted by (simp add: sampleSystem_def addPermit_def)
qed

theorem reachable_store_invariant_witness: "health_inv (sys_store sampleSystem)"
  by (rule reachable_store_invariant [OF sampleSystem_reach])

lemma distinct_tokens:
  assumes "distinct (tokens (concat xss))" and "i < j" "j < length xss"
    and "x \<in> set (xss ! i)" "z \<in> set (xss ! j)" and "pe_halfOpenToken x = n" "pe_halfOpenToken z = n" "n \<noteq> 0"
  shows False
proof -
  have "xss ! i \<in> set (take j xss)" using assms(2,3) by (metis in_set_conv_nth length_take min.absorb2
        less_imp_le nth_take)
  then have "n \<in> set (tokens (concat (take j xss)))" using assms(4,6,8) by (auto simp: tokens_def)
  moreover have "xss ! j \<in> set (drop j xss)" using assms(3) by (metis hd_drop_conv_nth hd_in_set drop_eq_Nil not_le)
  then have "n \<in> set (tokens (concat (drop j xss)))" using assms(5,7,8) by (auto simp: tokens_def)
  moreover have "tokens (concat xss) = tokens (concat (take j xss)) @ tokens (concat (drop j xss))"
    by (metis append_take_drop_id concat_append tokens_simps(2))
  ultimately show False using assms(1) by auto
qed

text \<open>C1. In every reachable state a half-open token that a record holds was issued to exactly one
  permit: there is one, and no other permit ever issued carries it.\<close>

theorem reachable_single_owner:
  assumes "health_reach y" and "map_of (hs_entries (sys_store y)) k = Some r" and "hr_halfOpenToken r \<noteq> 0"
  shows "\<exists>!i. i < length (sys_permits y)
    \<and> (\<exists>e \<in> set (ap_entries (sys_permits y ! i)). pe_halfOpenToken e = hr_halfOpenToken r)"
proof -
  have inv: "owner_inv y" by (rule owner_reach [OF assms(1)])
  then obtain e where "e \<in> set (issued (sys_permits y))" "backs e k r"
    using assms(2,3) unfolding owner_inv_def by blast
  then have "\<exists>i < length (sys_permits y). \<exists>e \<in> set (ap_entries (sys_permits y ! i)). pe_halfOpenToken e = hr_halfOpenToken r"
    by (simp add: issued_def backs_def) (metis in_set_conv_nth)
  moreover have "i = j" if ij: "i < length (sys_permits y)" "j < length (sys_permits y)"
      "e \<in> set (ap_entries (sys_permits y ! i))" "pe_halfOpenToken e = hr_halfOpenToken r"
      "e' \<in> set (ap_entries (sys_permits y ! j))" "pe_halfOpenToken e' = hr_halfOpenToken r" for i j e e'
  proof -
    have d: "distinct (tokens (concat (map ap_entries (sys_permits y))))"
      using inv by (simp add: owner_inv_def issued_def)
    have "\<not> i < j" using distinct_tokens [OF d, of i j e e'] ij assms(3) by auto
    moreover have "\<not> j < i" using distinct_tokens [OF d, of j i e' e] ij assms(3) by auto
    ultimately show ?thesis by simp
  qed
  ultimately show ?thesis by blast
qed

theorem reachable_single_owner_witness:
  "\<exists>!i. i < length (sys_permits sampleSystem)
    \<and> (\<exists>e \<in> set (ap_entries (sys_permits sampleSystem ! i)). pe_halfOpenToken e = hr_halfOpenToken halfOpenRecord)"
proof (rule reachable_single_owner [OF sampleSystem_reach])
  show "map_of (hs_entries (sys_store sampleSystem)) sampleKey = Some halfOpenRecord"
    by (simp add: sampleSystem_def halfOpenRecord_get)
  show "hr_halfOpenToken halfOpenRecord \<noteq> 0" by code_simp
qed

section \<open>Eviction\<close>

lemma apply_new_form:
  assumes "record_breaker r \<noteq> BreakerHalfOpen"
  obtains x n where "applyOutcome k r oc t d m s = evictLocked (putRecord k x (s\<lparr>hs_draws := n\<rparr>))"
proof (cases "oc = OutcomeSuccess")
  case True
  let ?r = "recordSuccess (stampOutcome r oc t d m)"
  have "\<not> snd ?r" using assms early_success_half_open [of "stampOutcome r oc t d m"] by auto
  then show ?thesis
    using that [of "fst ?r" "hs_draws s"] True by (simp add: applyOutcome_def case_prod_unfold)
next
  case False
  then show ?thesis using that by (auto simp: applyOutcome_def Let_def)
qed

text \<open>A new ledger key enters at the front of the recency order and pushes out exactly the keys
  beyond the capacity, least recently used first; every record that stays is unchanged.\<close>

theorem new_key_evicts_least_recent:
  assumes inv: "health_inv s" and none: "map_of (hs_entries s) k = None"
  shows "hs_lru (observeLocked k oc t d m 0 0 False s) =
      take (hs_maxEntries s) (k # hs_lru (pruneExpiredLocked t s))
    \<and> (\<forall>k' \<in> set (take (hs_maxEntries s) (k # hs_lru (pruneExpiredLocked t s))). k' \<noteq> k \<longrightarrow>
         map_of (hs_entries (observeLocked k oc t d m 0 0 False s)) k' = map_of (hs_entries s) k')"
proof -
  let ?p = "pruneExpiredLocked t s" and ?n = "newHealthRecord k"
  have pn: "map_of (hs_entries ?p) k = None" by (rule prune_none [OF none])
  have closed: "record_breaker ?n = BreakerEmpty" "hr_version ?n = 0"
    by (simp_all add: newHealthRecord_def emptyStatus_def)
  obtain x n where form: "observeLocked k oc t d m 0 0 False s
      = evictLocked (putRecord k x ((insertRecord k ?n ?p)\<lparr>hs_draws := n\<rparr>))" (is "_ = evictLocked ?u")
    using pn closed apply_new_form [of ?n k oc t d m "insertRecord k ?n ?p"]
    by (auto simp: observeLocked_def Let_def observeRefused_def)
  have lru: "hs_lru ?u = k # hs_lru ?p" "hs_maxEntries ?u = hs_maxEntries s"
    by (simp_all add: putRecord_def insertRecord_def)
  have wf: "lru_wf (hs_entries ?u) (hs_lru ?u)"
    using lru_wf_insert [OF _ pn, of "hs_lru ?p" x] inv_prune [OF inv, of t]
    by (simp add: putRecord_def health_inv_def insertRecord_def)
  have same: "map_of (hs_entries ?u) k' = map_of (hs_entries s) k'"
    if "k' \<noteq> k" "k' \<in> set (hs_lru ?p)" for k'
  proof -
    have "map_of (hs_entries ?p) k' \<noteq> None"
      using that(2) inv_prune [OF inv, of t] by (auto simp: health_inv_def lru_wf_def gm_in_keys_iff)
    then obtain r where "map_of (hs_entries ?p) k' = Some r" by blast
    then show ?thesis using that(1) prune_sub [of t s k' r] by (simp add: put_lookup_draws lookup_simps)
  qed
  show ?thesis
    using htab.evict_lru [OF wf] htab.evict_lookup [OF wf] same set_take_subset [of "hs_maxEntries s" "k # hs_lru ?p"]
    unfolding form lru by force
qed

theorem new_key_evicts_least_recent_witness:
  "hs_lru (observeLocked transportKey OutcomeSuccess (8 * second) 0 [] 0 0 False openStore) =
      take (hs_maxEntries openStore) (transportKey # hs_lru (pruneExpiredLocked (8 * second) openStore))"
  by (rule new_key_evicts_least_recent [OF openStore_inv, THEN conjunct1]) code_simp

section \<open>Where the code departs from its comments\<close>


definition lateStore :: health_store where
  \<comment> \<open>while the token is held, a measurement taken at 30 s is recorded\<close>
  "lateStore = ObserveEvidence (sampleObservation OutcomeSuccess (30 * second)) False 1 halfOpenStore"

lemma lateStore_inv: "health_inv lateStore"
  by (simp add: lateStore_def inv_observe_evidence halfOpenStore_inv)


text \<open>Between the two successes of a recovery the record is half open and no token is held, and
  an entry without a token passes for its owner: a permit granted as a last resort while the
  breaker was open carries the version and no token, and its success alone completes the
  recovery.\<close>

theorem tokenless_entry_completes_recovery:
  assumes inv: "health_inv s" and get: "map_of (hs_entries s) (pe_key e) = Some r"
    and half: "record_breaker r = BreakerHalfOpen" "hr_recoverySuccesses r = 1" "hr_halfOpenToken r = 0"
    and e: "pe_version e = hr_version r" "pe_halfOpenToken e = 0"
    and t: "fresh s t r" "\<not> outdated t r"
    and ocs: "map_of ocs (hk_domain (pe_key e)) = Some OutcomeSuccess"
  shows "\<exists>r'. map_of (hs_entries (completeEntry ocs t d m e s)) (pe_key e) = Some r' \<and> recovered r'"
proof -
  have "map_of (hs_entries (completeEntry ocs t d m e s)) (pe_key e) =
      Some (fst (recordSuccess (stampOutcome r OutcomeSuccess t d m)))"
    using observe_known [OF inv get t(1), of OutcomeSuccess d m "pe_version e" "pe_halfOpenToken e" True] t(2) half e
    by (simp add: completeEntry_def ocs observeRefused_def outcomeRecord_def)
  then show ?thesis using success_closes [of "stampOutcome r OutcomeSuccess t d m"] half by simp
qed

definition fallbackPermit :: attempt_permit where
  "fallbackPermit = the (TryAcquireConnectionFallbackPermitHandle sampleHandle ''tcp'' openStore)"

definition recoveringStore :: health_store where
  "recoveringStore = snd (CompleteDomains [(DomainEndpoint, OutcomeSuccess)] (21 * second) 0 []
     (halfOpenPermit, halfOpenStore))"

lemma recoveringStore_inv: "health_inv recoveringStore"
  by (simp add: recoveringStore_def CompleteDomains_def inv_complete halfOpenStore_inv)

theorem tokenless_entry_completes_recovery_witness:
  "\<exists>r'. map_of (hs_entries (completeEntry [(DomainEndpoint, OutcomeSuccess)] (22 * second) 0 []
      (hd (ap_entries fallbackPermit)) recoveringStore)) (pe_key (hd (ap_entries fallbackPermit))) = Some r'
    \<and> recovered r'"
  by (rule tokenless_entry_completes_recovery [OF recoveringStore_inv,
        where r = "the (map_of (hs_entries recoveringStore) sampleKey)"]) code_simp+

end
