(* ===== verification/Capability_Policy.thy ===== *)
theory Capability_Policy
  imports Health_System
begin

text \<open>
  What the path capabilities promise to the planner and to the status views: the dual-stack rule,
  the fail-open treatment of paths never measured, the agreement of the explanations with the
  admission test, and two divergences between the capability report and that test.
\<close>

section \<open>Eligibility\<close>

text \<open>A dual-stack path is refused in two cases only: both concrete families are known to be
  bad, or neither family is known to be good and the ledger of the collapsed path itself is
  known to be bad. One known-good family keeps the node, whatever the collapsed ledger says.\<close>

theorem dual_stack_refusal:
  assumes "dualStackFamilyPaths path = Some (a, b)"
  shows "\<not> transportPathEligible s h path t \<longleftrightarrow>
    knownBad s h t a \<and> knownBad s h t b
    \<or> \<not> knownGood s h t a \<and> \<not> knownGood s h t b \<and> knownBad s h t path"
  using assms unfolding eligible_dual [OF assms] by (auto simp: knownBad_def knownGood_def)

theorem dual_stack_refusal_witness:
  "\<not> transportPathEligible blockedStore sampleHandle ''tcp/any'' (20 * second) \<longleftrightarrow>
    knownBad blockedStore sampleHandle (20 * second) ''tcp/ipv4''
      \<and> knownBad blockedStore sampleHandle (20 * second) ''tcp/ipv6''
    \<or> \<not> knownGood blockedStore sampleHandle (20 * second) ''tcp/ipv4''
      \<and> \<not> knownGood blockedStore sampleHandle (20 * second) ''tcp/ipv6''
      \<and> knownBad blockedStore sampleHandle (20 * second) ''tcp/any''"
  by (rule dual_stack_refusal) code_simp

lemma unprobed_not_bad:
  assumes "\<And>k. keyHasHandle h k \<Longrightarrow> hk_domain k = DomainTransport \<Longrightarrow> map_of (hs_entries s) k = None"
    and "path \<noteq> []"
  shows "\<not> pc_Known (pathCapability s h path t)"
  using status_None [OF assms(1)] assms(2) by (simp add: pathCapability_known)

text \<open>A path that was never measured fails open: a node without any transport record is
  eligible for every path, at every instant.\<close>

theorem unprobed_paths_stay_eligible:
  assumes "\<forall>k. keyHasHandle h k \<and> hk_domain k = DomainTransport \<longrightarrow> map_of (hs_entries s) k = None"
    and "path \<noteq> []"
  shows "transportPathEligible s h path t"
proof -
  have unknown: "\<not> pc_Known (pathCapability s h p t)" if "p \<noteq> []" for p
    by (rule unprobed_not_bad) (use assms that in auto)
  show ?thesis
  proof (cases "dualStackFamilyPaths path")
    case None
    then show ?thesis using unknown [OF assms(2)] by (simp add: eligible_single knownBad_def)
  next
    case (Some q)
    obtain a b where q: "q = (a, b)" by (cases q)
    have "a \<noteq> []" "b \<noteq> []"
      using Some q by (auto simp: dualStackFamilyPaths_def split: if_splits)
    then show ?thesis
      using Some q unknown assms(2) by (simp add: eligible_dual knownBad_def)
  qed
qed

theorem unprobed_paths_stay_eligible_witness:
  "transportPathEligible sampleStore sampleHandle ''udp_dns/ipv6'' 9"
  by (rule unprobed_paths_stay_eligible) (simp_all add: sampleStore_def NewHealthStoreWithClock_def)

section \<open>Explanations\<close>

text \<open>A status view explains an exclusion exactly when there is one: the explanation is empty
  if and only if the read-only admission test accepts the node for the service.\<close>

theorem explanation_iff_excluded:
  "ExplainExclusion s h service t = [] \<longleftrightarrow> CanAttemptHandleReadOnly s h service t"
proof -
  have "CanAttemptHandleReadOnly s h service (atOrClock s t) = CanAttemptHandleReadOnly s h service t"
    by (simp add: CanAttemptHandleReadOnly_def)
  then show ?thesis
    by (simp add: ExplainExclusion_def Let_def exclusionLabel_nonempty)
qed

definition sampleService :: "string \<Rightarrow> service_context" where
  "sampleService path = \<lparr>sc_ID = ''video'', sc_AffinityID = [], sc_Session = 1, sc_Mode = ModeAdaptive,
     sc_Host = [], sc_Transport = ''tcp'', sc_HealthTransport = path, sc_ExpectUDPResponse = False\<rparr>"

definition collapsedStore :: health_store where
  \<comment> \<open>the only transport record is an open breaker of the collapsed path\<close>
  "collapsedStore = Observe ((sampleObservation OutcomeFailure (6 * second))
     \<lparr>ob_Scope := DomainTransport, ob_Transport := ''tcp/any''\<rparr>) sampleStore"

lemma collapsedStore_inv: "health_inv collapsedStore"
  by (simp add: collapsedStore_def Observe_def inv_observe_evidence sampleStore_inv)

lemma profile_misses_collapsed_ledger:
  "\<exists>s h service t. health_inv s \<and> RequiredPathForService service = ''tcp/any''
     \<and> \<not> transportPathEligible s h (RequiredPathForService service) t
     \<and> fst (SupportsService (BuildCapabilityProfile s h t) service)"
proof (intro exI conjI)
  show "health_inv collapsedStore" by (rule collapsedStore_inv)
  show "RequiredPathForService (sampleService ''tcp/any'') = ''tcp/any''" by code_simp
  show "\<not> transportPathEligible collapsedStore sampleHandle
      (RequiredPathForService (sampleService ''tcp/any'')) (7 * second)" by code_simp
  show "fst (SupportsService (BuildCapabilityProfile collapsedStore sampleHandle (7 * second))
      (sampleService ''tcp/any''))" by code_simp
qed



section \<open>Divergences\<close>

definition familyObservation :: "node_handle \<Rightarrow> string \<Rightarrow> observation_outcome \<Rightarrow> gotime \<Rightarrow> observation" where
  "familyObservation h path oc t =
     \<lparr>ob_NodeID = nh_NodeID h, ob_NodeSlot = nh_Slot h, ob_NodeVersion = nh_Version h,
      ob_Scope = DomainTransport, ob_Transport = path, ob_Service = [], ob_Outcome = oc, ob_Delay = 0,
      ob_ThroughputBPS = 0, ob_At = t, ob_Reason = ''timeout''\<rparr>"

lemma family_normal:
  assumes "path \<in> set familyPaths"
  shows "normalizeHealthTransportPath path = path"
proof -
  have "list_all (\<lambda>p. normalizeHealthTransportPath p = p) familyPaths" by code_simp
  then show ?thesis using assms by (auto simp: list_all_iff)
qed

lemma observe_quality_new:
  assumes inv: "health_inv s" and none: "map_of (hs_entries s) k = None" and cap: "0 < hs_maxEntries s"
  shows "\<exists>u. map_of (hs_entries (observeQualityLocked k obs w s)) k =
    Some (applyQuality ((newHealthRecord k)\<lparr>hr_status := emptyStatus\<lparr>st_Breaker := BreakerClosed\<rparr>\<rparr>) obs w u)"
proof -
  let ?p = "pruneExpiredLocked (ob_At obs) s"
  let ?x = "applyQuality ((newHealthRecord k)\<lparr>hr_status := emptyStatus\<lparr>st_Breaker := BreakerClosed\<rparr>\<rparr>) obs w ?p"
  have pn: "map_of (hs_entries ?p) k = None" by (rule prune_none [OF none])
  have "lru_wf (hs_entries (insertRecord k ?x ?p)) (hs_lru (insertRecord k ?x ?p))"
    using lru_wf_insert [OF _ pn, of "hs_lru ?p" ?x] inv_prune [OF inv, of "ob_At obs"]
    by (simp add: health_inv_def insertRecord_def)
  moreover have "hs_lru (insertRecord k ?x ?p) = k # hs_lru ?p" by (simp add: insertRecord_def)
  ultimately have "map_of (hs_entries (evictLocked (insertRecord k ?x ?p))) k = Some ?x"
    using cap htab.evict_lookup [of "insertRecord k ?x ?p" k] by (simp add: lookup_simps lru_take_front)
  then show ?thesis using pn by (auto simp: observeQualityLocked_def Let_def)
qed

text \<open>Evidence of low weight, meant to leave the health of a node alone, does not: the first
  such observation of a concrete family path, even a failure, creates a record whose health is
  neither unknown nor bad, so the path counts as known and available and the collapsed path
  of that family becomes eligible.\<close>

theorem metrics_only_failure_marks_path_good:
  assumes inv: "health_inv s" and cap: "0 < hs_maxEntries s" and path: "path \<in> set familyPaths"
    and none: "map_of (hs_entries s) (handleKey h DomainTransport path []) = None"
    and w: "0 < w" "w < 1 / 2" and t: "t \<noteq> 0"
  shows "knownGood (ObserveEvidence (familyObservation h path OutcomeFailure t) False w s) h u path"
proof -
  let ?obs = "familyObservation h path OutcomeFailure t" and ?k = "handleKey h DomainTransport path []"
  have ne: "path \<noteq> []" using path by (auto simp: familyPaths_def)
  have ev: "ObserveEvidence ?obs False w s = observeQualityLocked ?k ?obs w s"
    using t family_normal [OF path]
    by (simp add: ObserveEvidence_def familyObservation_def observationKey_def handleKey_def is_zero_def Let_def)
  obtain v where r: "map_of (hs_entries (observeQualityLocked ?k ?obs w s)) ?k =
      Some (applyQuality ((newHealthRecord ?k)\<lparr>hr_status := emptyStatus\<lparr>st_Breaker := BreakerClosed\<rparr>\<rparr>) ?obs w v)"
    using observe_quality_new [OF inv none cap] by blast
  have st: "StatusHandle (observeQualityLocked ?k ?obs w s) h DomainTransport path [] =
      hr_status (applyQuality ((newHealthRecord ?k)\<lparr>hr_status := emptyStatus\<lparr>st_Breaker := BreakerClosed\<rparr>\<rparr>) ?obs w v)"
    using r by (simp add: StatusHandle_def recordForKeyLocked_def)
  have "st_Health (StatusHandle (observeQualityLocked ?k ?obs w s) h DomainTransport path []) = HealthEmpty"
    "st_Breaker (StatusHandle (observeQualityLocked ?k ?obs w s) h DomainTransport path []) = BreakerClosed"
    using w unfolding st
    by (simp_all add: applyQuality_def Let_def qualityHealth_def recordThroughput_def familyObservation_def
        newHealthRecord_def emptyStatus_def)
  then show ?thesis
    by (simp add: knownGood_def path_capability_simps ne ev statusKnown_def classifyPathCapability_def)
qed

theorem metrics_only_failure_marks_path_good_witness:
  "\<not> transportPathEligible collapsedStore sampleHandle ''tcp/any'' (7 * second)
   \<and> transportPathEligible (ObserveEvidence (familyObservation sampleHandle ''tcp/ipv4'' OutcomeFailure (7 * second))
       False (1 / 4) collapsedStore) sampleHandle ''tcp/any'' (7 * second)"
proof
  show "\<not> transportPathEligible collapsedStore sampleHandle ''tcp/any'' (7 * second)" by code_simp
  have good: "knownGood (ObserveEvidence (familyObservation sampleHandle ''tcp/ipv4'' OutcomeFailure (7 * second))
      False (1 / 4) collapsedStore) sampleHandle (7 * second) ''tcp/ipv4''"
    by (rule metrics_only_failure_marks_path_good [OF collapsedStore_inv]) (code_simp | simp)+
  have dual: "dualStackFamilyPaths ''tcp/any'' = Some (''tcp/ipv4'', ''tcp/ipv6'')" by code_simp
  show "transportPathEligible (ObserveEvidence (familyObservation sampleHandle ''tcp/ipv4'' OutcomeFailure (7 * second))
       False (1 / 4) collapsedStore) sampleHandle ''tcp/any'' (7 * second)"
    using good by (simp add: eligible_dual [OF dual])
qed

end
