(* ===== verification/Lease.thy ===== *)
theory Lease
  imports Transport
begin

text \<open>
  Session leases (\<^verbatim>\<open>protocol/group/adaptive/lease.go\<close>): which node a session is
  pinned to, one reservation at a time per session, bounded by recency. The Go map and the
  recency list share record pointers, and one operation can leave a list element whose record
  the map no longer holds; the model therefore keeps a heap of records: the map and the list
  hold addresses. A reservation and its \<open>sync.Once\<close> are a value of their own. The channel of
  a pending record is named by the token of the record and is closed once, so the set of
  closed tokens tells which waiters may go on. One iteration of the loop of \<open>Reserve\<close> is
  one locked step.
\<close>

section \<open>Data\<close>

record session_lease =
  sl_Key :: session_key
  sl_NodeID :: node_id
  sl_NodeSlot :: nat
  sl_NodeVersion :: nat
  sl_ServiceID :: string
  sl_Mode :: policy_mode
  sl_ExpiresAt :: gotime
  sl_UpdatedAt :: gotime

definition emptyLease :: session_lease where
  "emptyLease = \<lparr>sl_Key = 0, sl_NodeID = 0, sl_NodeSlot = 0, sl_NodeVersion = 0, sl_ServiceID = [],
     sl_Mode = ModeUnset, sl_ExpiresAt = 0, sl_UpdatedAt = 0\<rparr>"

record pending_record =
  pr_generation :: nat
  pr_token :: nat
  pr_waiters :: int

record lease_reservation =
  lr_key :: session_key
  lr_generation :: nat
  lr_token :: nat
  lr_done :: bool  \<comment> \<open>the \<open>sync.Once\<close> has run\<close>

record lease_manager =
  lm_leases :: "(session_key, nat) gomap"
  lm_heap :: "(nat, session_lease) gomap"  \<comment> \<open>address to the lease of the record\<close>
  lm_pending :: "(session_key, pending_record) gomap"
  lm_lru :: "nat list"
  lm_maxEntries :: nat
  lm_evictions :: nat
  lm_generation :: nat
  lm_nextToken :: nat
  lm_nextAddress :: nat
  lm_closed :: "nat list"  \<comment> \<open>tokens whose wait channel is closed\<close>

datatype reserve_result =
  ReserveLease session_lease
| ReserveWait nat
| ReserveOwner lease_reservation

section \<open>Records\<close>

definition NewSessionLeaseManager :: "int \<Rightarrow> lease_manager" where
  "NewSessionLeaseManager maxEntries =
     \<lparr>lm_leases = [], lm_heap = [], lm_pending = [], lm_lru = [],
      lm_maxEntries = (if maxEntries \<le> 0 then 8192 else nat maxEntries), lm_evictions = 0,
      lm_generation = 0, lm_nextToken = 0, lm_nextAddress = 0, lm_closed = []\<rparr>"

definition leaseAt :: "lease_manager \<Rightarrow> nat \<Rightarrow> session_lease" where
  "leaseAt m a = (case map_of (lm_heap m) a of None \<Rightarrow> emptyLease | Some lease \<Rightarrow> lease)"

definition removeLease :: "nat \<Rightarrow> lease_manager \<Rightarrow> lease_manager" where
  "removeLease a m =
     m\<lparr>lm_leases := AList.delete (sl_Key (leaseAt m a)) (lm_leases m), lm_lru := remove1 a (lm_lru m),
       lm_evictions := inc64 (lm_evictions m)\<rparr>"

definition removeOldestLease :: "lease_manager \<Rightarrow> lease_manager" where
  "removeOldestLease m = (if lm_lru m = [] then m else removeLease (last (lm_lru m)) m)"

function evictLeases :: "lease_manager \<Rightarrow> lease_manager" where
  \<comment> \<open>the source would spin on an empty list; \<open>evict_leases_bounded\<close> excludes that\<close>
  "evictLeases m =
     (if length (lm_leases m) > lm_maxEntries m \<and> lm_lru m \<noteq> []
      then evictLeases (removeOldestLease m) else m)"
  by pat_completeness auto
termination
proof (relation "measure (\<lambda>m. length (lm_lru m))")
  fix m :: lease_manager
  assume "length (lm_leases m) > lm_maxEntries m \<and> lm_lru m \<noteq> []"
  then show "(removeOldestLease m, m) \<in> measure (\<lambda>m. length (lm_lru m))"
    by (simp add: removeOldestLease_def removeLease_def length_remove1)
qed simp

declare evictLeases.simps [simp del]

definition pushLease :: "session_lease \<Rightarrow> lease_manager \<Rightarrow> lease_manager" where
  \<comment> \<open>a new record at the front of the list, under its key in the map\<close>
  "pushLease lease m =
     (let a = lm_nextAddress m in
      m\<lparr>lm_heap := AList.update a lease (lm_heap m), lm_lru := a # lm_lru m,
        lm_leases := AList.update (sl_Key lease) a (lm_leases m), lm_nextAddress := a + 1\<rparr>)"

definition touchLease :: "nat \<Rightarrow> lease_manager \<Rightarrow> lease_manager" where
  "touchLease a m = m\<lparr>lm_lru := (if a \<in> set (lm_lru m) then move_front a (lm_lru m) else lm_lru m)\<rparr>"

definition putLease :: "nat \<Rightarrow> session_lease \<Rightarrow> lease_manager \<Rightarrow> lease_manager" where
  "putLease a lease m = m\<lparr>lm_heap := AList.update a lease (lm_heap m)\<rparr>"

section \<open>Reservations\<close>

definition pendingOwnedBy :: "session_key \<Rightarrow> nat \<Rightarrow> nat \<Rightarrow> lease_manager \<Rightarrow> bool" where
  "pendingOwnedBy key generation token m =
     (case map_of (lm_pending m) key of
        None \<Rightarrow> False
      | Some pending \<Rightarrow> pr_generation pending = generation \<and> pr_token pending = token)"

definition finishPending :: "session_key \<Rightarrow> nat \<Rightarrow> nat \<Rightarrow> lease_manager \<Rightarrow> lease_manager" where
  "finishPending key generation token m =
     (if pendingOwnedBy key generation token m
      then m\<lparr>lm_pending := AList.delete key (lm_pending m), lm_closed := token # lm_closed m\<rparr>
      else m)"

definition reserveFresh :: "session_key \<Rightarrow> lease_manager \<Rightarrow> lease_manager \<times> reserve_result" where
  \<comment> \<open>the rest of an iteration that found no live lease: wait for the owner, or become it\<close>
  "reserveFresh key m =
     (case map_of (lm_pending m) key of
        Some pending \<Rightarrow>
          (m\<lparr>lm_pending := AList.update key (pending\<lparr>pr_waiters := inc_int (pr_waiters pending)\<rparr>) (lm_pending m)\<rparr>,
           ReserveWait (pr_token pending))
      | None \<Rightarrow>
          (m\<lparr>lm_nextToken := inc64 (lm_nextToken m), lm_pending := AList.update key
               \<lparr>pr_generation = lm_generation m, pr_token = inc64 (lm_nextToken m), pr_waiters = 0\<rparr> (lm_pending m)\<rparr>,
           ReserveOwner \<lparr>lr_key = key, lr_generation = lm_generation m, lr_token = inc64 (lm_nextToken m),
             lr_done = False\<rparr>))"

definition reserveOnce ::
  "session_key \<Rightarrow> gotime \<Rightarrow> lease_manager \<Rightarrow> lease_manager \<times> reserve_result" where
  \<comment> \<open>one iteration of the loop of \<open>Reserve\<close>\<close>
  "reserveOnce key now m =
     (case map_of (lm_leases m) key of
        Some a \<Rightarrow>
          if sl_ExpiresAt (leaseAt m a) > now then (touchLease a m, ReserveLease (leaseAt m a))
          else reserveFresh key (removeLease a m)
      | None \<Rightarrow> reserveFresh key m)"

definition Peek :: "session_key \<Rightarrow> gotime \<Rightarrow> lease_manager \<Rightarrow> lease_manager \<times> session_lease option" where
  "Peek key now m =
     (case map_of (lm_leases m) key of
        None \<Rightarrow> (m, None)
      | Some a \<Rightarrow>
          if \<not> sl_ExpiresAt (leaseAt m a) > now then (removeLease a m, None)
          else (touchLease a m, Some (leaseAt m a)))"

definition leaseTTL :: "duration \<Rightarrow> duration" where
  "leaseTTL ttl = (if ttl \<le> 0 then 10 * minute else ttl)"

definition newLease ::
  "session_key \<Rightarrow> node_handle \<Rightarrow> string \<Rightarrow> policy_mode \<Rightarrow> duration \<Rightarrow> gotime \<Rightarrow> session_lease" where
  "newLease key handle serviceID mode ttl now =
     \<lparr>sl_Key = key, sl_NodeID = nh_NodeID handle, sl_NodeSlot = nh_Slot handle,
      sl_NodeVersion = nh_Version handle, sl_ServiceID = serviceID, sl_Mode = mode,
      sl_ExpiresAt = now + leaseTTL ttl, sl_UpdatedAt = now\<rparr>"

definition CommitHandle ::
  "node_handle \<Rightarrow> string \<Rightarrow> policy_mode \<Rightarrow> duration \<Rightarrow> gotime \<Rightarrow> lease_reservation \<times> lease_manager \<Rightarrow>
   (lease_reservation \<times> lease_manager) \<times> session_lease" where
  "CommitHandle handle serviceID mode ttl now = (\<lambda>(r, m).
     if lr_done r then ((r, m), emptyLease)
     else let r' = r\<lparr>lr_done := True\<rparr> in
       if lr_generation r \<noteq> lm_generation m \<or> \<not> pendingOwnedBy (lr_key r) (lr_generation r) (lr_token r) m
       then ((r', m), emptyLease)
       else let committed = newLease (lr_key r) handle serviceID mode ttl now in
         ((r', finishPending (lr_key r) (lr_generation r) (lr_token r)
                 (evictLeases (pushLease committed m))), committed))"

definition Abort :: "lease_reservation \<times> lease_manager \<Rightarrow> lease_reservation \<times> lease_manager" where
  "Abort = (\<lambda>(r, m).
     if lr_done r then (r, m)
     else (r\<lparr>lr_done := True\<rparr>, finishPending (lr_key r) (lr_generation r) (lr_token r) m))"

section \<open>Changing a lease\<close>

definition Invalidate :: "session_key \<Rightarrow> node_id \<Rightarrow> lease_manager \<Rightarrow> lease_manager" where
  "Invalidate key expected m =
     (case map_of (lm_leases m) key of
        None \<Rightarrow> m
      | Some a \<Rightarrow> if expected = 0 \<or> sl_NodeID (leaseAt m a) = expected then removeLease a m else m)"

definition leaseHasHandle :: "node_handle \<Rightarrow> session_lease \<Rightarrow> bool" where
  "leaseHasHandle h lease \<longleftrightarrow>
     sl_NodeID lease = nh_NodeID h \<and> sl_NodeSlot lease = nh_Slot h \<and> sl_NodeVersion lease = nh_Version h"

definition ReplaceHandle ::
  "session_key \<Rightarrow> node_handle \<Rightarrow> node_handle \<Rightarrow> string \<Rightarrow> policy_mode \<Rightarrow> duration \<Rightarrow> gotime \<Rightarrow>
   lease_manager \<Rightarrow> lease_manager \<times> session_lease" where
  "ReplaceHandle key expected nxt serviceID mode ttl now m =
     (case map_of (lm_leases m) key of
        Some a \<Rightarrow>
          if nh_NodeID expected \<noteq> 0 \<and> \<not> leaseHasHandle expected (leaseAt m a) then (m, leaseAt m a)
          else let lease = (newLease key nxt serviceID mode ttl now)\<lparr>sl_Key := sl_Key (leaseAt m a)\<rparr>
            in (touchLease a (putLease a lease m), lease)
      | None \<Rightarrow>
          if nh_NodeID expected \<noteq> 0 then (m, emptyLease)
          else let lease = newLease key nxt serviceID mode ttl now
            in (evictLeases (pushLease lease m), lease))"

definition RenewHandle ::
  "session_key \<Rightarrow> node_handle \<Rightarrow> duration \<Rightarrow> gotime \<Rightarrow> lease_manager \<Rightarrow> lease_manager \<times> session_lease" where
  "RenewHandle key expected ttl now m =
     (case map_of (lm_leases m) key of
        None \<Rightarrow> (m, emptyLease)
      | Some a \<Rightarrow>
          if \<not> leaseHasHandle expected (leaseAt m a) then (m, emptyLease)
          else let lease = (leaseAt m a)\<lparr>sl_ExpiresAt := now + leaseTTL ttl, sl_UpdatedAt := now\<rparr>
            in (touchLease a (putLease a lease m), lease))"

definition RetireLeases :: "node_handle \<Rightarrow> lease_manager \<Rightarrow> lease_manager" where
  \<comment> \<open>\<open>SessionLeaseManager.RetireNodeHandle\<close>\<close>
  "RetireLeases handle m =
     fold removeLease (filter (\<lambda>a. leaseHasHandle handle (leaseAt m a)) (map snd (lm_leases m))) m"

definition Clear :: "lease_manager \<Rightarrow> lease_manager" where
  "Clear m =
     m\<lparr>lm_generation := inc64 (lm_generation m), lm_leases := [], lm_lru := [], lm_pending := [],
       lm_closed := map (pr_token \<circ> snd) (lm_pending m) @ lm_closed m\<rparr>"

definition leaseStats :: "lease_manager \<Rightarrow> nat \<times> nat" where
  "leaseStats m = (length (lm_leases m), lm_evictions m)"

section \<open>Persistence\<close>

definition PersistenceSnapshot :: "gotime \<Rightarrow> lease_manager \<Rightarrow> session_lease list" where
  "PersistenceSnapshot now m =
     filter (\<lambda>lease. sl_ExpiresAt lease > now) (map (leaseAt m \<circ> snd) (lm_leases m))"

definition restorable :: "gotime \<Rightarrow> session_lease \<Rightarrow> bool" where
  "restorable now lease \<longleftrightarrow>
     sl_Key lease \<noteq> 0 \<and> sl_NodeID lease \<noteq> 0 \<and> sl_NodeSlot lease \<noteq> 0 \<and> sl_NodeVersion lease \<noteq> 0
     \<and> sl_ExpiresAt lease > now"

definition restoreLease :: "gotime \<Rightarrow> session_lease \<Rightarrow> lease_manager \<Rightarrow> lease_manager" where
  "restoreLease now lease m =
     (if \<not> restorable now lease then m
      else case map_of (lm_leases m) (sl_Key lease) of
          Some a \<Rightarrow>
            if sl_UpdatedAt (leaseAt m a) > sl_UpdatedAt lease then m
            else pushLease lease (removeLease a m)
        | None \<Rightarrow> pushLease lease m)"

definition RestorePersistence :: "session_lease list \<Rightarrow> gotime \<Rightarrow> lease_manager \<Rightarrow> lease_manager" where
  "RestorePersistence leases now m = evictLeases (fold (restoreLease now) leases m)"

end
