(* ===== verification/Lease_System.thy ===== *)
theory Lease_System
  imports Lease
begin

text \<open>
  The invariant of the lease manager and its runs: the manager, the reservations it has handed
  out and the callers that wait for one. In every reachable state the table is bounded, a
  session has at most one unfinished reservation that \<open>Clear\<close> has not voided, and no waiter is
  forgotten.
\<close>

declare map_of_eq_Some_iff [simp del]

section \<open>The table\<close>

definition lease_wf :: "lease_manager \<Rightarrow> bool" where
  "lease_wf m \<longleftrightarrow>
     gm_wf (lm_leases m) \<and> distinct (lm_lru m)
     \<and> (\<forall>a \<in> set (lm_lru m). a < lm_nextAddress m \<and> map_of (lm_heap m) a \<noteq> None)
     \<and> (\<forall>k a. map_of (lm_leases m) k = Some a \<longrightarrow> a \<in> set (lm_lru m) \<and> sl_Key (leaseAt m a) = k)"

lemma lease_wfD:
  assumes "lease_wf m"
  shows "gm_wf (lm_leases m)" "distinct (lm_lru m)"
    and "a \<in> set (lm_lru m) \<Longrightarrow> a < lm_nextAddress m"
    and "a \<in> set (lm_lru m) \<Longrightarrow> map_of (lm_heap m) a \<noteq> None"
    and "map_of (lm_leases m) k = Some a \<Longrightarrow> a \<in> set (lm_lru m)"
    and "map_of (lm_leases m) k = Some a \<Longrightarrow> sl_Key (leaseAt m a) = k"
  using assms by (auto simp: lease_wf_def)

lemma leaseAt_push:
  "leaseAt (pushLease l m) a = (if a = lm_nextAddress m then l else leaseAt m a)"
  by (simp add: leaseAt_def pushLease_def Let_def gomap_simps)

lemma leaseAt_put: "leaseAt (putLease a l m) b = (if b = a then l else leaseAt m b)"
  by (simp add: leaseAt_def putLease_def gomap_simps)

lemma leaseAt_frame [simp]:
  "leaseAt (removeLease a m) = leaseAt m"
  "leaseAt (touchLease a m) = leaseAt m"
  "leaseAt (m\<lparr>lm_pending := x\<rparr>) = leaseAt m"
  "leaseAt (m\<lparr>lm_closed := z\<rparr>) = leaseAt m"
  "leaseAt (m\<lparr>lm_nextToken := n\<rparr>) = leaseAt m"
  "leaseAt (m\<lparr>lm_nextToken := n, lm_pending := x\<rparr>) = leaseAt m"
  "leaseAt (m\<lparr>lm_pending := x, lm_closed := z\<rparr>) = leaseAt m"
  by (simp_all add: fun_eq_iff leaseAt_def removeLease_def touchLease_def)

lemma wf_remove: "lease_wf m \<Longrightarrow> lease_wf (removeLease a m)"
  unfolding lease_wf_def
  by (auto simp: removeLease_def gomap_simps leaseAt_def split: if_splits dest: in_set_remove1 [THEN iffD1, rotated])

lemma wf_push: "lease_wf m \<Longrightarrow> lease_wf (pushLease l m)"
  unfolding lease_wf_def
  by (auto simp: leaseAt_push) (auto simp: pushLease_def Let_def gomap_simps split: if_splits)

lemma wf_touch: "lease_wf m \<Longrightarrow> lease_wf (touchLease a m)"
  unfolding lease_wf_def by (auto simp: touchLease_def move_front_def leaseAt_def)

lemma wf_put:
  assumes "lease_wf m" and "sl_Key l = sl_Key (leaseAt m a)" and "a \<in> set (lm_lru m)"
  shows "lease_wf (putLease a l m)"
  using assms unfolding lease_wf_def
  by (auto simp: leaseAt_put) (auto simp: putLease_def gomap_simps)

lemma evict_leases_induct:
  assumes "P m" and "\<And>m. P m \<Longrightarrow> lm_lru m \<noteq> [] \<Longrightarrow> P (removeLease (last (lm_lru m)) m)"
  shows "P (evictLeases m)"
  using assms(1)
proof (induction m rule: evictLeases.induct)
  case (1 m)
  show ?case
    using 1 assms(2) [of m] by (subst evictLeases.simps) (auto simp: removeOldestLease_def)
qed

lemma wf_evict: "lease_wf m \<Longrightarrow> lease_wf (evictLeases m)"
  by (rule evict_leases_induct [where P = lease_wf]) (simp_all add: wf_remove)

lemma evict_leases_cap [simp]: "lm_maxEntries (evictLeases m) = lm_maxEntries m"
  by (rule evict_leases_induct [where P = "\<lambda>x. lm_maxEntries x = lm_maxEntries m"]) (simp_all add: removeLease_def)

lemma evict_leases_bounded: "lease_wf m \<Longrightarrow> length (lm_leases (evictLeases m)) \<le> lm_maxEntries m"
proof (induction m rule: evictLeases.induct)
  case (1 m)
  show ?case
  proof (cases "length (lm_leases m) > lm_maxEntries m \<and> lm_lru m \<noteq> []")
    case True
    then have "removeOldestLease m = removeLease (last (lm_lru m)) m" by (simp add: removeOldestLease_def)
    then show ?thesis
      using 1 True wf_remove [of m "last (lm_lru m)"] by (subst evictLeases.simps) (simp add: removeLease_def)
  next
    case False
    have "lm_lru m = [] \<Longrightarrow> lm_leases m = []"
      using lease_wfD(5) [OF 1(2)] by (cases "lm_leases m") (auto split: if_splits, metis map_of_Cons_code(2) surj_pair)
    then show ?thesis using False by (subst evictLeases.simps) auto
  qed
qed

section \<open>Pending reservations\<close>

definition pending_ok :: "lease_manager \<Rightarrow> bool" where
  "pending_ok m \<longleftrightarrow>
     gm_wf (lm_pending m)
     \<and> (\<forall>k p. map_of (lm_pending m) k = Some p \<longrightarrow>
          pr_generation p = lm_generation m \<and> pr_token p \<le> lm_nextToken m \<and> pr_token p \<notin> set (lm_closed m))
     \<and> (\<forall>k k' p p'. map_of (lm_pending m) k = Some p \<longrightarrow> map_of (lm_pending m) k' = Some p' \<longrightarrow>
          pr_token p = pr_token p' \<longrightarrow> k = k')
     \<and> (\<forall>n \<in> set (lm_closed m). n \<le> lm_nextToken m)"

definition lease_inv :: "lease_manager \<Rightarrow> bool" where
  "lease_inv m \<longleftrightarrow> lease_wf m \<and> pending_ok m \<and> length (lm_leases m) \<le> lm_maxEntries m"

definition pendingView :: "lease_manager \<Rightarrow> (session_key, pending_record) gomap \<times> nat \<times> nat \<times> nat list" where
  "pendingView m = (lm_pending m, lm_generation m, lm_nextToken m, lm_closed m)"

lemma pending_view [simp]:
  "pendingView (removeLease a m) = pendingView m"
  "pendingView (pushLease l m) = pendingView m"
  "pendingView (touchLease a m) = pendingView m"
  "pendingView (putLease a l m) = pendingView m"
  by (simp_all add: pendingView_def removeLease_def pushLease_def touchLease_def putLease_def Let_def)

lemma pending_view_evict [simp]: "pendingView (evictLeases m) = pendingView m"
  by (rule evict_leases_induct [where P = "\<lambda>x. pendingView x = pendingView m"]) simp_all

lemma pending_view_restore [simp]: "pendingView (restoreLease now l m) = pendingView m"
  by (simp add: restoreLease_def split: option.split)

lemma pending_view_restore_fold [simp]: "pendingView (fold (restoreLease now) ls m) = pendingView m"
  by (induction ls arbitrary: m) simp_all

lemma pending_view_retire [simp]: "pendingView (RetireLeases h m) = pendingView m"
proof -
  have "pendingView (fold removeLease as m) = pendingView m" for as m
    by (induction as arbitrary: m) simp_all
  then show ?thesis by (simp add: RetireLeases_def)
qed

lemma pending_ok_view: "pendingView m' = pendingView m \<Longrightarrow> pending_ok m' = pending_ok m"
  by (simp add: pending_ok_def pendingView_def)

lemma pending_finish: "pending_ok m \<Longrightarrow> pending_ok (finishPending k g n m)"
  by (auto simp: finishPending_def pendingOwnedBy_def pending_ok_def gomap_simps
      split: option.splits if_splits)

lemma pending_waiter:
  "pending_ok m \<Longrightarrow> map_of (lm_pending m) k = Some p \<Longrightarrow>
   pending_ok (m\<lparr>lm_pending := AList.update k (p\<lparr>pr_waiters := w\<rparr>) (lm_pending m)\<rparr>)"
  by (auto simp: pending_ok_def gomap_simps split: if_splits)

lemma pending_owner:
  assumes "pending_ok m" and "lm_nextToken m < 2 ^ 64 - 1" and "map_of (lm_pending m) k = None"
  shows "pending_ok (m\<lparr>lm_nextToken := inc64 (lm_nextToken m), lm_pending :=
    AList.update k \<lparr>pr_generation = lm_generation m, pr_token = inc64 (lm_nextToken m), pr_waiters = 0\<rparr> (lm_pending m)\<rparr>)"
proof -
  have n: "inc64 (lm_nextToken m) = Suc (lm_nextToken m)" by (rule inc64_less [OF assms(2)])
  show ?thesis
    using assms(1,3) unfolding pending_ok_def n
    by (fastforce simp: gomap_simps split: if_splits)
qed

lemma pending_clear: "pending_ok m \<Longrightarrow> pending_ok (Clear m)"
  by (auto simp: pending_ok_def Clear_def) (metis gm_in_keys_iff image_eqI map_of_eq_Some_iff snd_conv)

section \<open>Every operation keeps the invariant\<close>

lemma length_remove: "lease_wf m \<Longrightarrow> length (lm_leases m) \<le> n \<Longrightarrow> length (lm_leases (removeLease a m)) \<le> n"
  using gm_len_del [OF lease_wfD(1), of m "sl_Key (leaseAt m a)"] by (simp add: removeLease_def split: if_splits)

lemma lease_frame [simp]:
  "lm_maxEntries (removeLease a m) = lm_maxEntries m"
  "lm_maxEntries (pushLease l m) = lm_maxEntries m"
  "lm_maxEntries (touchLease a m) = lm_maxEntries m"
  "lm_maxEntries (putLease a l m) = lm_maxEntries m"
  "lm_nextToken (removeLease a m) = lm_nextToken m"
  "lm_leases (touchLease a m) = lm_leases m"
  "lm_leases (putLease a l m) = lm_leases m"
  "lm_lru (putLease a l m) = lm_lru m"
  by (simp_all add: removeLease_def pushLease_def touchLease_def putLease_def Let_def)

lemma inv_lease_remove: "lease_inv m \<Longrightarrow> lease_inv (removeLease a m)"
  using length_remove [of m "lm_maxEntries m" a] pending_ok_view [of "removeLease a m" m]
  by (simp add: lease_inv_def wf_remove)

lemma inv_lease_touch: "lease_inv m \<Longrightarrow> lease_inv (touchLease a m)"
  using pending_ok_view [of "touchLease a m" m] by (simp add: lease_inv_def wf_touch)

lemma inv_lease_push: "lease_inv m \<Longrightarrow> lease_inv (evictLeases (pushLease l m))"
  using evict_leases_bounded [of "pushLease l m"] pending_ok_view [of "evictLeases (pushLease l m)" m]
  by (simp add: lease_inv_def wf_evict wf_push)

lemma inv_lease_put:
  "lease_inv m \<Longrightarrow> sl_Key l = sl_Key (leaseAt m a) \<Longrightarrow> a \<in> set (lm_lru m) \<Longrightarrow> lease_inv (putLease a l m)"
  using pending_ok_view [of "putLease a l m" m] by (simp add: lease_inv_def wf_put)

lemma lease_inv_lookup:
  "lease_inv m \<Longrightarrow> map_of (lm_leases m) k = Some a \<Longrightarrow> a \<in> set (lm_lru m) \<and> sl_Key (leaseAt m a) = k"
  by (simp add: lease_inv_def lease_wfD)

lemma lease_inv_pending:
  "lease_inv m \<Longrightarrow> pending_ok (m\<lparr>lm_nextToken := n, lm_pending := ps\<rparr>) \<Longrightarrow> lease_inv (m\<lparr>lm_nextToken := n, lm_pending := ps\<rparr>)"
  "lease_inv m \<Longrightarrow> pending_ok (m\<lparr>lm_pending := ps\<rparr>) \<Longrightarrow> lease_inv (m\<lparr>lm_pending := ps\<rparr>)"
  "lease_inv m \<Longrightarrow> pending_ok (m\<lparr>lm_pending := ps, lm_closed := cs\<rparr>) \<Longrightarrow> lease_inv (m\<lparr>lm_pending := ps, lm_closed := cs\<rparr>)"
  by (simp_all add: lease_inv_def lease_wf_def)

lemma inv_finish: "lease_inv m \<Longrightarrow> lease_inv (finishPending k g n m)"
  using pending_finish [of m k g n] lease_inv_pending(3) [of m]
  by (auto simp: finishPending_def lease_inv_def)

lemma inv_reserveFresh:
  assumes "lease_inv m" and "lm_nextToken m < 2 ^ 64 - 1"
  shows "lease_inv (fst (reserveFresh key m))"
proof (cases "map_of (lm_pending m) key")
  case None
  then show ?thesis
    using pending_owner [OF _ assms(2) None] lease_inv_pending(1) [OF assms(1)] assms(1)
    by (simp add: reserveFresh_def lease_inv_def)
next
  case (Some p)
  then show ?thesis
    using pending_waiter [OF _ Some] lease_inv_pending(2) [OF assms(1)] assms(1)
    by (simp add: reserveFresh_def lease_inv_def)
qed

lemma inv_reserve:
  "lease_inv m \<Longrightarrow> lm_nextToken m < 2 ^ 64 - 1 \<Longrightarrow> lease_inv (fst (reserveOnce key now m))"
  by (simp add: reserveOnce_def inv_lease_touch inv_lease_remove inv_reserveFresh split: option.split)

lemma inv_peek: "lease_inv m \<Longrightarrow> lease_inv (fst (Peek key now m))"
  by (simp add: Peek_def inv_lease_remove inv_lease_touch split: option.split)

lemma inv_commit: "lease_inv m \<Longrightarrow> lease_inv (snd (fst (CommitHandle h sv md ttl now (r, m))))"
  by (simp add: CommitHandle_def Let_def inv_finish inv_lease_push)

lemma inv_abort: "lease_inv m \<Longrightarrow> lease_inv (snd (Abort (r, m)))"
  by (simp add: Abort_def inv_finish)

lemma inv_invalidate: "lease_inv m \<Longrightarrow> lease_inv (Invalidate key n m)"
  by (simp add: Invalidate_def inv_lease_remove split: option.split)

lemma inv_replace: "lease_inv m \<Longrightarrow> lease_inv (fst (ReplaceHandle key e n sv md ttl now m))"
  using lease_inv_lookup [of m key]
  by (auto simp: ReplaceHandle_def Let_def inv_lease_push intro!: inv_lease_touch inv_lease_put split: option.split)

lemma inv_renew: "lease_inv m \<Longrightarrow> lease_inv (fst (RenewHandle key e ttl now m))"
  using lease_inv_lookup [of m key]
  by (auto simp: RenewHandle_def Let_def intro!: inv_lease_touch inv_lease_put split: option.split)

lemma inv_retire_leases: "lease_inv m \<Longrightarrow> lease_inv (RetireLeases h m)"
proof -
  have "lease_inv m \<Longrightarrow> lease_inv (fold removeLease as m)" for as m
    by (induction as arbitrary: m) (simp_all add: inv_lease_remove)
  then show "lease_inv m \<Longrightarrow> lease_inv (RetireLeases h m)" by (simp add: RetireLeases_def)
qed

lemma inv_clear: "lease_inv m \<Longrightarrow> lease_inv (Clear m)"
  using pending_clear [of m] by (simp add: lease_inv_def lease_wf_def) (simp add: Clear_def)

lemma wf_restore: "lease_wf m \<Longrightarrow> lease_wf (restoreLease now l m)"
  by (simp add: restoreLease_def wf_push wf_remove split: option.split)

lemma restore_cap [simp]: "lm_maxEntries (restoreLease now l m) = lm_maxEntries m"
  by (simp add: restoreLease_def split: option.split)

lemma inv_restore: "lease_inv m \<Longrightarrow> lease_inv (RestorePersistence ls now m)"
proof -
  let ?m = "fold (restoreLease now) ls m"
  have "lease_wf m \<Longrightarrow> lease_wf (fold (restoreLease now) ls m)" for m
    by (induction ls arbitrary: m) (simp_all add: wf_restore)
  moreover have cap: "lm_maxEntries (fold (restoreLease now) ls m) = lm_maxEntries m" for m
    by (induction ls arbitrary: m) simp_all
  moreover have "pending_ok (evictLeases ?m) = pending_ok m"
    by (rule pending_ok_view) simp
  ultimately show "lease_inv m \<Longrightarrow> lease_inv (RestorePersistence ls now m)"
    using evict_leases_bounded [of ?m] by (simp add: lease_inv_def RestorePersistence_def wf_evict)
qed

lemma inv_new_manager: "lease_inv (NewSessionLeaseManager n)"
  by (simp add: lease_inv_def lease_wf_def pending_ok_def NewSessionLeaseManager_def)

section \<open>Runs\<close>

text \<open>
  The manager with the reservations handed out so far and the callers blocked in \<open>Reserve\<close>,
  each with the session and the token of the channel it waits on. A blocked caller goes on when
  the channel is closed or gives up when its context ends. A counter of 64 bits names the
  tokens; the step that would use up the last one is left out.
\<close>

record lease_sys =
  ls_manager :: lease_manager
  ls_reservations :: "lease_reservation list"
  ls_waiters :: "(session_key \<times> nat) list"

fun reserved :: "session_key \<Rightarrow> reserve_result \<Rightarrow> lease_sys \<Rightarrow> lease_sys" where
  "reserved key (ReserveLease l) y = y"
| "reserved key (ReserveWait n) y = y\<lparr>ls_waiters := ls_waiters y @ [(key, n)]\<rparr>"
| "reserved key (ReserveOwner r) y = y\<lparr>ls_reservations := ls_reservations y @ [r]\<rparr>"

definition withManager :: "lease_manager \<Rightarrow> lease_sys \<Rightarrow> lease_sys" where
  "withManager m y = y\<lparr>ls_manager := m\<rparr>"

inductive lease_step :: "lease_sys \<Rightarrow> lease_sys \<Rightarrow> bool" where
  reserve: "lm_nextToken (ls_manager y) < 2 ^ 64 - 1 \<Longrightarrow> reserveOnce key now (ls_manager y) = (m', res) \<Longrightarrow>
    lease_step y (reserved key res (withManager m' y))"
| wake: "i < length (ls_waiters y) \<Longrightarrow> snd (ls_waiters y ! i) \<in> set (lm_closed (ls_manager y)) \<Longrightarrow>
    lease_step y (y\<lparr>ls_waiters := take i (ls_waiters y) @ drop (Suc i) (ls_waiters y)\<rparr>)"
| cancel: "i < length (ls_waiters y) \<Longrightarrow>
    lease_step y (y\<lparr>ls_waiters := take i (ls_waiters y) @ drop (Suc i) (ls_waiters y)\<rparr>)"
| commit: "i < length (ls_reservations y) \<Longrightarrow>
    CommitHandle h sv md ttl now (ls_reservations y ! i, ls_manager y) = ((r', m'), l) \<Longrightarrow>
    lease_step y (withManager m' (y\<lparr>ls_reservations := (ls_reservations y)[i := r']\<rparr>))"
| abort: "i < length (ls_reservations y) \<Longrightarrow> Abort (ls_reservations y ! i, ls_manager y) = (r', m') \<Longrightarrow>
    lease_step y (withManager m' (y\<lparr>ls_reservations := (ls_reservations y)[i := r']\<rparr>))"
| peek: "lease_step y (withManager (fst (Peek key now (ls_manager y))) y)"
| invalidate: "lease_step y (withManager (Invalidate key n (ls_manager y)) y)"
| replace: "lease_step y (withManager (fst (ReplaceHandle key e nx sv md ttl now (ls_manager y))) y)"
| renew: "lease_step y (withManager (fst (RenewHandle key e ttl now (ls_manager y))) y)"
| retire: "lease_step y (withManager (RetireLeases h (ls_manager y)) y)"
| clear: "lease_step y (withManager (Clear (ls_manager y)) y)"
| restore: "lease_step y (withManager (RestorePersistence ls now (ls_manager y)) y)"

definition lease_init :: "lease_sys \<Rightarrow> bool" where
  "lease_init y \<longleftrightarrow> (\<exists>n. y = \<lparr>ls_manager = NewSessionLeaseManager n, ls_reservations = [], ls_waiters = []\<rparr>)"

definition owns :: "lease_reservation \<Rightarrow> session_key \<Rightarrow> pending_record \<Rightarrow> bool" where
  "owns r k p \<longleftrightarrow> lr_key r = k \<and> lr_token r = pr_token p \<and> lr_generation r = pr_generation p"

definition owners_ok :: "lease_sys \<Rightarrow> bool" where
  \<comment> \<open>tokens were issued once, and a pending record has its unfinished reservation\<close>
  "owners_ok y \<longleftrightarrow>
     distinct (map lr_token (ls_reservations y))
     \<and> (\<forall>r \<in> set (ls_reservations y). lr_token r \<le> lm_nextToken (ls_manager y))
     \<and> (\<forall>k p. map_of (lm_pending (ls_manager y)) k = Some p \<longrightarrow>
          (\<exists>r \<in> set (ls_reservations y). owns r k p \<and> \<not> lr_done r))"

definition single_ok :: "lease_sys \<Rightarrow> bool" where
  \<comment> \<open>an unfinished reservation owns the pending record of its session, unless \<open>Clear\<close> closed it\<close>
  "single_ok y \<longleftrightarrow>
     (\<forall>r \<in> set (ls_reservations y). \<not> lr_done r \<longrightarrow> lr_token r \<in> set (lm_closed (ls_manager y))
        \<or> pendingOwnedBy (lr_key r) (lr_generation r) (lr_token r) (ls_manager y))"

definition waiters_ok :: "lease_sys \<Rightarrow> bool" where
  \<comment> \<open>a blocked caller waits on a closed channel or on the channel of a pending record\<close>
  "waiters_ok y \<longleftrightarrow>
     (\<forall>(k, n) \<in> set (ls_waiters y). n \<in> set (lm_closed (ls_manager y))
        \<or> (\<exists>p. map_of (lm_pending (ls_manager y)) k = Some p \<and> pr_token p = n))"

definition sys_ok :: "lease_sys \<Rightarrow> bool" where
  "sys_ok y \<longleftrightarrow> lease_inv (ls_manager y) \<and> owners_ok y \<and> single_ok y \<and> waiters_ok y"

lemma sys_ok_view:
  assumes "sys_ok y" and "lease_inv m" and "pendingView m = pendingView (ls_manager y)"
  shows "sys_ok (withManager m y)"
  using assms
  by (simp add: sys_ok_def owners_ok_def single_ok_def waiters_ok_def withManager_def pendingView_def pendingOwnedBy_def)

lemma peek_view [simp]: "pendingView (fst (Peek key now m)) = pendingView m"
  by (simp add: Peek_def split: option.split)

lemma invalidate_view [simp]: "pendingView (Invalidate key n m) = pendingView m"
  by (simp add: Invalidate_def split: option.split)

lemma replace_view [simp]: "pendingView (fst (ReplaceHandle key e nx sv md ttl now m)) = pendingView m"
  by (simp add: ReplaceHandle_def Let_def split: option.split)

lemma renew_view [simp]: "pendingView (fst (RenewHandle key e ttl now m)) = pendingView m"
  by (simp add: RenewHandle_def Let_def split: option.split)

lemma restore_view [simp]: "pendingView (RestorePersistence ls now m) = pendingView m"
  by (simp add: RestorePersistence_def)

section \<open>Finishing a reservation\<close>

lemma finish_pending:
  "map_of (lm_pending (finishPending k g n m)) k' =
     (if k' = k \<and> pendingOwnedBy k g n m then None else map_of (lm_pending m) k')"
  by (simp add: finishPending_def gomap_simps)

lemma finish_closed:
  "set (lm_closed (finishPending k g n m)) =
     (if pendingOwnedBy k g n m then insert n (set (lm_closed m)) else set (lm_closed m))"
  by (simp add: finishPending_def)

lemma finish_next [simp]: "lm_nextToken (finishPending k g n m) = lm_nextToken m"
  by (simp add: finishPending_def)

lemma owned_iff:
  "pendingOwnedBy (lr_key r) (lr_generation r) (lr_token r) m \<longleftrightarrow>
     (\<exists>p. map_of (lm_pending m) (lr_key r) = Some p \<and> owns r (lr_key r) p)"
  by (auto simp: pendingOwnedBy_def owns_def split: option.split)

lemma other_owner:
  assumes "i < length rs" "r2 \<in> set rs" "r2 \<noteq> rs ! i"
  shows "r2 \<in> set (rs[i := x])"
  using assms by (metis in_set_conv_nth length_list_update nth_list_update_neq)

lemma finish_owners:
  assumes ok: "owners_ok y" and i: "i < length (ls_reservations y)" and r: "r = ls_reservations y ! i"
  shows "owners_ok (withManager (finishPending (lr_key r) (lr_generation r) (lr_token r) (ls_manager y))
    (y\<lparr>ls_reservations := (ls_reservations y)[i := r\<lparr>lr_done := True\<rparr>]\<rparr>))"
proof -
  let ?rs = "ls_reservations y" and ?m = "ls_manager y"
  have tokens: "map lr_token (?rs[i := r\<lparr>lr_done := True\<rparr>]) = map lr_token ?rs"
    using i r by (simp add: map_update list_update_same_conv)
  have "\<exists>r2 \<in> set (?rs[i := r\<lparr>lr_done := True\<rparr>]). owns r2 k p \<and> \<not> lr_done r2"
    if p: "map_of (lm_pending (finishPending (lr_key r) (lr_generation r) (lr_token r) ?m)) k = Some p" for k p
  proof -
    have k: "map_of (lm_pending ?m) k = Some p"
        "k = lr_key r \<Longrightarrow> \<not> pendingOwnedBy (lr_key r) (lr_generation r) (lr_token r) ?m"
      using p by (auto simp: finish_pending split: if_splits)
    obtain r2 where r2: "r2 \<in> set ?rs" "owns r2 k p" "\<not> lr_done r2"
      using ok k(1) unfolding owners_ok_def by blast
    have "r2 \<noteq> r" using r2(2) k owned_iff [of r ?m] by (auto simp: owns_def)
    then show ?thesis using other_owner [OF i r2(1)] r r2 by blast
  qed
  moreover have "\<forall>x \<in> set (?rs[i := r\<lparr>lr_done := True\<rparr>]). lr_token x \<le> lm_nextToken ?m"
  proof
    fix x assume "x \<in> set (?rs[i := r\<lparr>lr_done := True\<rparr>])"
    then have "lr_token x \<in> set (map lr_token ?rs)" unfolding tokens [symmetric] by simp
    then show "lr_token x \<le> lm_nextToken ?m" using ok by (auto simp: owners_ok_def)
  qed
  ultimately show ?thesis
    using ok by (simp add: owners_ok_def withManager_def tokens)
qed

lemma finish_single:
  assumes own: "owners_ok y" and ok: "single_ok y" and i: "i < length (ls_reservations y)"
    and r: "r = ls_reservations y ! i"
  shows "single_ok (withManager (finishPending (lr_key r) (lr_generation r) (lr_token r) (ls_manager y))
    (y\<lparr>ls_reservations := (ls_reservations y)[i := r\<lparr>lr_done := True\<rparr>]\<rparr>))"
proof -
  let ?rs = "ls_reservations y" and ?m = "ls_manager y"
  let ?m' = "finishPending (lr_key r) (lr_generation r) (lr_token r) ?m"
  have "lr_token x \<in> set (lm_closed ?m') \<or> pendingOwnedBy (lr_key x) (lr_generation x) (lr_token x) ?m'"
    if x: "x \<in> set (?rs[i := r\<lparr>lr_done := True\<rparr>])" "\<not> lr_done x" for x
  proof -
    obtain j where j: "j < length ?rs" "x = ?rs[i := r\<lparr>lr_done := True\<rparr>] ! j" using x(1) by (auto simp: in_set_conv_nth)
    then have "j \<noteq> i" using x(2) by auto
    then have j: "j < length ?rs" "j \<noteq> i" "x = ?rs ! j" using j by simp_all
    have "lr_token x \<noteq> lr_token r"
      using own i r j nth_eq_iff_index_eq [of "map lr_token ?rs" i j] by (simp add: owners_ok_def)
    moreover have "lr_token x \<in> set (lm_closed ?m) \<or> pendingOwnedBy (lr_key x) (lr_generation x) (lr_token x) ?m"
      using ok j x(2) unfolding single_ok_def by simp
    ultimately show ?thesis
      by (auto simp: finish_closed finish_pending pendingOwnedBy_def split: option.splits)
  qed
  then show ?thesis by (simp add: single_ok_def withManager_def)
qed

lemma finish_waiters:
  assumes "waiters_ok y"
  shows "waiters_ok (withManager (finishPending k g n (ls_manager y)) (y\<lparr>ls_reservations := rs\<rparr>))"
proof -
  let ?m = "ls_manager y"
  have "b \<in> set (lm_closed (finishPending k g n ?m))
      \<or> (\<exists>p. map_of (lm_pending (finishPending k g n ?m)) a = Some p \<and> pr_token p = b)"
    if w: "(a, b) \<in> set (ls_waiters y)" for a b
  proof -
    consider "b \<in> set (lm_closed ?m)" | p where "map_of (lm_pending ?m) a = Some p" "pr_token p = b"
      using assms w unfolding waiters_ok_def by fastforce
    then show ?thesis
      by cases (auto simp: finish_pending finish_closed pendingOwnedBy_def)
  qed
  then show ?thesis by (auto simp: waiters_ok_def withManager_def)
qed

lemma finish_ok:
  assumes ok: "sys_ok y" and i: "i < length (ls_reservations y)" and r: "r = ls_reservations y ! i"
    and m: "lease_inv m" "pendingView m = pendingView (ls_manager y)"
  shows "sys_ok (withManager (finishPending (lr_key r) (lr_generation r) (lr_token r) m)
    (y\<lparr>ls_reservations := (ls_reservations y)[i := r\<lparr>lr_done := True\<rparr>]\<rparr>))"
proof -
  have y: "sys_ok (withManager m y)" by (rule sys_ok_view [OF ok m])
  have "owners_ok (withManager m y)" "single_ok (withManager m y)" "waiters_ok (withManager m y)"
    using y by (simp_all add: sys_ok_def)
  from finish_owners [OF this(1), of i r] finish_single [OF this(1,2), of i r] finish_waiters [OF this(3)]
  show ?thesis
    using i r inv_finish [OF m(1)] by (simp add: sys_ok_def withManager_def)
qed

lemma unowned_finish: "\<not> pendingOwnedBy k g n m \<Longrightarrow> finishPending k g n m = m"
  by (simp add: finishPending_def)

lemma commit_form:
  assumes "lease_inv m" and "CommitHandle h sv md ttl now (r, m) = ((r', m'), l)" and "\<not> lr_done r"
  obtains m1 where "lease_inv m1" "pendingView m1 = pendingView m" "r' = r\<lparr>lr_done := True\<rparr>"
    "m' = finishPending (lr_key r) (lr_generation r) (lr_token r) m1"
proof (cases "pendingOwnedBy (lr_key r) (lr_generation r) (lr_token r) m")
  case True
  then obtain p where "map_of (lm_pending m) (lr_key r) = Some p" "pr_generation p = lr_generation r"
    by (auto simp: owned_iff owns_def)
  then have "lr_generation r = lm_generation m"
    using assms(1) unfolding lease_inv_def pending_ok_def by metis
  then show ?thesis
    using assms True that [OF inv_lease_push [OF assms(1)]] by (auto simp: CommitHandle_def Let_def)
next
  case False
  then show ?thesis
    using assms that [OF assms(1) refl] by (auto simp: CommitHandle_def Let_def unowned_finish split: if_splits)
qed

lemma ok_commit:
  assumes ok: "sys_ok y" and i: "i < length (ls_reservations y)"
    and c: "CommitHandle h sv md ttl now (ls_reservations y ! i, ls_manager y) = ((r', m'), l)"
  shows "sys_ok (withManager m' (y\<lparr>ls_reservations := (ls_reservations y)[i := r']\<rparr>))"
proof (cases "lr_done (ls_reservations y ! i)")
  case True
  then show ?thesis using c ok by (auto simp: CommitHandle_def withManager_def)
next
  case False
  have "lease_inv (ls_manager y)" using ok by (simp add: sys_ok_def)
  from commit_form [OF this c False] show ?thesis using finish_ok [OF ok i refl] by metis
qed

lemma ok_abort:
  assumes ok: "sys_ok y" and i: "i < length (ls_reservations y)"
    and c: "Abort (ls_reservations y ! i, ls_manager y) = (r', m')"
  shows "sys_ok (withManager m' (y\<lparr>ls_reservations := (ls_reservations y)[i := r']\<rparr>))"
proof (cases "lr_done (ls_reservations y ! i)")
  case True
  then show ?thesis using c ok by (auto simp: Abort_def withManager_def)
next
  case False
  then show ?thesis using c finish_ok [OF ok i refl _ refl] ok by (auto simp: Abort_def sys_ok_def)
qed

lemma single_clear: "single_ok y \<Longrightarrow> single_ok (withManager (Clear (ls_manager y)) y)"
  by (force simp: single_ok_def withManager_def Clear_def owned_iff owns_def dest: map_of_SomeD)

lemma ok_clear: "sys_ok y \<Longrightarrow> sys_ok (withManager (Clear (ls_manager y)) y)"
proof -
  assume ok: "sys_ok y"
  have "n \<in> set (lm_closed (Clear (ls_manager y)))" if w: "(k, n) \<in> set (ls_waiters y)" for k n
  proof -
    consider "n \<in> set (lm_closed (ls_manager y))"
      | p where "map_of (lm_pending (ls_manager y)) k = Some p" "pr_token p = n"
      using ok w unfolding sys_ok_def waiters_ok_def by fastforce
    then show ?thesis by cases (auto simp: Clear_def dest!: map_of_SomeD intro!: rev_image_eqI)
  qed
  then have "waiters_ok (withManager (Clear (ls_manager y)) y)" by (auto simp: waiters_ok_def withManager_def)
  moreover have "owners_ok (withManager (Clear (ls_manager y)) y)"
    using ok by (simp add: sys_ok_def owners_ok_def withManager_def Clear_def)
  moreover have "single_ok (withManager (Clear (ls_manager y)) y)" by (rule single_clear) (use ok in \<open>simp add: sys_ok_def\<close>)
  ultimately show ?thesis using ok inv_clear by (simp add: sys_ok_def withManager_def)
qed

lemma ok_fewer:
  assumes "sys_ok y" and "set ws \<subseteq> set (ls_waiters y)"
  shows "sys_ok (y\<lparr>ls_waiters := ws\<rparr>)"
  using assms by (auto simp: sys_ok_def owners_ok_def single_ok_def waiters_ok_def)

lemma single_reserveFresh:
  assumes "single_ok y" and res: "reserveFresh key (ls_manager y) = (m', res)"
  shows "single_ok (reserved key res (withManager m' y))"
proof -
  have "pendingOwnedBy (lr_key r) (lr_generation r) (lr_token r) (ls_manager y) \<Longrightarrow>
      pendingOwnedBy (lr_key r) (lr_generation r) (lr_token r) m'" for r
    using res by (auto simp: reserveFresh_def pendingOwnedBy_def gomap_simps split: option.splits if_splits)
  then show ?thesis
    using assms
    by (auto simp: single_ok_def reserveFresh_def withManager_def split: option.splits)
      (auto simp: pendingOwnedBy_def gomap_simps)
qed

lemma ok_reserveFresh:
  assumes ok: "sys_ok y" and next': "lm_nextToken (ls_manager y) < 2 ^ 64 - 1"
    and res: "reserveFresh key (ls_manager y) = (m', res)"
  shows "sys_ok (reserved key res (withManager m' y))"
proof (cases "map_of (lm_pending (ls_manager y)) key")
  case (Some p)
  have "lease_inv m'" using inv_reserveFresh [OF _ next', of key] ok res by (simp add: sys_ok_def)
  moreover have "owners_ok (reserved key res (withManager m' y))"
    using ok res Some
    by (auto simp: reserveFresh_def sys_ok_def owners_ok_def withManager_def gomap_simps owns_def split: if_splits)
  moreover have "waiters_ok (reserved key res (withManager m' y))"
    using ok res Some
    by (fastforce simp: reserveFresh_def sys_ok_def waiters_ok_def withManager_def gomap_simps split: if_splits)
  moreover have "single_ok (reserved key res (withManager m' y))"
    using single_reserveFresh [OF _ res] ok by (simp add: sys_ok_def)
  ultimately show ?thesis using res Some by (auto simp: sys_ok_def reserveFresh_def withManager_def)
next
  case None
  let ?n = "Suc (lm_nextToken (ls_manager y))"
  have n: "inc64 (lm_nextToken (ls_manager y)) = ?n" by (rule inc64_less [OF next'])
  have "lease_inv m'" using inv_reserveFresh [OF _ next', of key] ok res by (simp add: sys_ok_def)
  moreover have "owners_ok (reserved key res (withManager m' y))"
    using ok res None
    by (fastforce simp: reserveFresh_def sys_ok_def owners_ok_def withManager_def gomap_simps owns_def n split: if_splits)
  moreover have "waiters_ok (reserved key res (withManager m' y))"
    using ok res None
    by (fastforce simp: reserveFresh_def sys_ok_def waiters_ok_def withManager_def gomap_simps split: if_splits)
  moreover have "single_ok (reserved key res (withManager m' y))"
    using single_reserveFresh [OF _ res] ok by (simp add: sys_ok_def)
  ultimately show ?thesis using res None by (auto simp: sys_ok_def reserveFresh_def withManager_def)
qed

lemma ok_reserve:
  assumes ok: "sys_ok y" and n: "lm_nextToken (ls_manager y) < 2 ^ 64 - 1"
    and res: "reserveOnce key now (ls_manager y) = (m', res)"
  shows "sys_ok (reserved key res (withManager m' y))"
proof (cases "map_of (lm_leases (ls_manager y)) key")
  case None
  then show ?thesis using res ok_reserveFresh [OF ok n] by (simp add: reserveOnce_def)
next
  case (Some a)
  have inv: "lease_inv (ls_manager y)" using ok by (simp add: sys_ok_def)
  show ?thesis
  proof (cases "sl_ExpiresAt (leaseAt (ls_manager y) a) > now")
    case True
    then show ?thesis
      using res Some sys_ok_view [OF ok inv_lease_touch [OF inv]] by (auto simp: reserveOnce_def)
  next
    case False
    let ?y = "withManager (removeLease a (ls_manager y)) y"
    have "sys_ok ?y" by (rule sys_ok_view [OF ok inv_lease_remove [OF inv]]) simp
    then have "sys_ok (reserved key res (withManager m' ?y))"
      using ok_reserveFresh [of ?y key m' res] res Some False n by (simp add: reserveOnce_def withManager_def)
    then show ?thesis by (simp add: withManager_def)
  qed
qed

lemma ok_step:
  assumes "lease_step y y'" and ok: "sys_ok y"
  shows "sys_ok y'"
proof -
  have inv: "lease_inv (ls_manager y)" using ok by (simp add: sys_ok_def)
  note view = sys_ok_view [OF ok]
  have sub: "set (take i ws @ drop (Suc i) ws) \<subseteq> set ws" for i and ws :: "(session_key \<times> nat) list"
    by (auto dest: in_set_takeD in_set_dropD)
  from assms(1) show ?thesis
  proof (cases rule: lease_step.cases)
    case (reserve key now m' res)
    then show ?thesis using ok_reserve [OF ok] by simp
  next
    case (wake i)
    then show ?thesis using ok_fewer [OF ok sub] by simp
  next
    case (cancel i)
    then show ?thesis using ok_fewer [OF ok sub] by simp
  next
    case (commit i h sv md ttl now r' m' l)
    then show ?thesis using ok_commit [OF ok] by simp
  next
    case (abort i r' m')
    then show ?thesis using ok_abort [OF ok] by simp
  next
    case (peek key now)
    then show ?thesis using view [OF inv_peek [OF inv]] by simp
  next
    case (invalidate key n)
    then show ?thesis using view [OF inv_invalidate [OF inv]] by simp
  next
    case (replace key e nx sv md ttl now)
    then show ?thesis using view [OF inv_replace [OF inv]] by simp
  next
    case (renew key e ttl now)
    then show ?thesis using view [OF inv_renew [OF inv]] by simp
  next
    case (retire h)
    then show ?thesis using view [OF inv_retire_leases [OF inv]] by simp
  next
    case clear
    then show ?thesis using ok_clear [OF ok] by simp
  next
    case (restore ls now)
    then show ?thesis using view [OF inv_restore [OF inv]] by simp
  qed
qed

interpretation lease_run: transition_system lease_init lease_step sys_ok
proof unfold_locales
  show "sys_ok y" if "lease_init y" for y
    using that inv_new_manager
    by (auto simp: lease_init_def sys_ok_def owners_ok_def single_ok_def waiters_ok_def NewSessionLeaseManager_def)
qed (rule ok_step)

end
