(* ===== verification/Lease_Props.thy ===== *)
theory Lease_Props
  imports Lease_System
begin

text \<open>
  What the lease manager promises: one reservation per session and no forgotten waiter over every
  run, the recency list of leases as its abstract specification, the round trip through the
  persisted snapshot, the termination of its eviction loop, and the one case in which a commit
  breaks the recency order.
\<close>

section \<open>Runs\<close>

definition voided :: "lease_manager \<Rightarrow> lease_reservation \<Rightarrow> bool" where
  \<comment> \<open>the channel of the reservation is closed although it is not finished: \<open>Clear\<close> did it\<close>
  "voided m r \<longleftrightarrow> \<not> lr_done r \<and> lr_token r \<in> set (lm_closed m)"

lemma single_owner:
  assumes ok: "sys_ok y" and i: "i < length (ls_reservations y)" and j: "j < length (ls_reservations y)"
    and key: "lr_key (ls_reservations y ! i) = lr_key (ls_reservations y ! j)"
    and open_i: "\<not> lr_done (ls_reservations y ! i)" "\<not> voided (ls_manager y) (ls_reservations y ! i)"
    and open_j: "\<not> lr_done (ls_reservations y ! j)" "\<not> voided (ls_manager y) (ls_reservations y ! j)"
  shows "i = j"
proof -
  have owned: "pendingOwnedBy (lr_key r) (lr_generation r) (lr_token r) (ls_manager y)"
    if "r \<in> set (ls_reservations y)" "\<not> lr_done r" "\<not> voided (ls_manager y) r" for r
    using ok that unfolding sys_ok_def single_ok_def voided_def by blast
  have "lr_token (ls_reservations y ! i) = lr_token (ls_reservations y ! j)"
    using owned [OF nth_mem [OF i] open_i] owned [OF nth_mem [OF j] open_j] key
    by (auto simp: pendingOwnedBy_def split: option.splits)
  then show ?thesis
    using ok i j nth_eq_iff_index_eq [of "map lr_token (ls_reservations y)" i j]
    by (simp add: sys_ok_def owners_ok_def)
qed

lemma voided_commit:
  assumes "lease_inv m" and "voided m r"
  shows "CommitHandle h sv md ttl now (r, m) = ((r\<lparr>lr_done := True\<rparr>, m), emptyLease)"
proof -
  have "\<not> pendingOwnedBy (lr_key r) (lr_generation r) (lr_token r) m"
    using assms unfolding pendingOwnedBy_def voided_def lease_inv_def pending_ok_def by (auto split: option.splits) metis
  then show ?thesis using assms(2) by (auto simp: voided_def CommitHandle_def Let_def)
qed

text \<open>C3. In every run of the lease manager the table stays within its capacity; a session has at
  most one unfinished reservation that Clear has not voided, and a session with a pending record has
  one; a voided reservation commits nothing: it gets the empty lease and the manager stays as it is.\<close>

theorem reachable_single_reservation:
  assumes "lease_init y0" and "lease_step\<^sup>*\<^sup>* y0 y"
  shows "length (lm_leases (ls_manager y)) \<le> lm_maxEntries (ls_manager y)
    \<and> (\<forall>i j. i < length (ls_reservations y) \<and> j < length (ls_reservations y)
         \<and> lr_key (ls_reservations y ! i) = lr_key (ls_reservations y ! j)
         \<and> \<not> lr_done (ls_reservations y ! i) \<and> \<not> voided (ls_manager y) (ls_reservations y ! i)
         \<and> \<not> lr_done (ls_reservations y ! j) \<and> \<not> voided (ls_manager y) (ls_reservations y ! j) \<longrightarrow> i = j)
    \<and> (\<forall>k p. map_of (lm_pending (ls_manager y)) k = Some p \<longrightarrow>
         (\<exists>r \<in> set (ls_reservations y). owns r k p \<and> \<not> lr_done r \<and> \<not> voided (ls_manager y) r))
    \<and> (\<forall>r h sv md ttl now. r \<in> set (ls_reservations y) \<and> voided (ls_manager y) r \<longrightarrow>
         CommitHandle h sv md ttl now (r, ls_manager y) = ((r\<lparr>lr_done := True\<rparr>, ls_manager y), emptyLease))"
proof (intro conjI allI impI)
  have ok: "sys_ok y" by (rule lease_run.reach_inv [OF assms])
  then have inv: "lease_inv (ls_manager y)" by (simp add: sys_ok_def)
  show "length (lm_leases (ls_manager y)) \<le> lm_maxEntries (ls_manager y)" using inv by (simp add: lease_inv_def)
  show "\<exists>r \<in> set (ls_reservations y). owns r k p \<and> \<not> lr_done r \<and> \<not> voided (ls_manager y) r"
    if "map_of (lm_pending (ls_manager y)) k = Some p" for k p
  proof -
    obtain r where "r \<in> set (ls_reservations y)" "owns r k p" "\<not> lr_done r"
      using ok \<open>map_of _ k = Some p\<close> unfolding sys_ok_def owners_ok_def by blast
    moreover have "pr_token p \<notin> set (lm_closed (ls_manager y))"
      using inv \<open>map_of _ k = Some p\<close> unfolding lease_inv_def pending_ok_def by blast
    ultimately show ?thesis by (auto simp: owns_def voided_def)
  qed
  show "i = j" if "i < length (ls_reservations y) \<and> j < length (ls_reservations y)
         \<and> lr_key (ls_reservations y ! i) = lr_key (ls_reservations y ! j)
         \<and> \<not> lr_done (ls_reservations y ! i) \<and> \<not> voided (ls_manager y) (ls_reservations y ! i)
         \<and> \<not> lr_done (ls_reservations y ! j) \<and> \<not> voided (ls_manager y) (ls_reservations y ! j)" for i j
    by (rule single_owner [OF ok]) (use that in simp_all)
  show "CommitHandle h sv md ttl now (r, ls_manager y) = ((r\<lparr>lr_done := True\<rparr>, ls_manager y), emptyLease)"
    if "r \<in> set (ls_reservations y) \<and> voided (ls_manager y) r" for r h sv md ttl now
    using voided_commit [OF inv] that by blast
qed

text \<open>C4. No waiter is forgotten: in every run, a caller blocked in Reserve waits on a channel
  that is closed already, or there is an unfinished reservation of its session and both its
  commit, whatever it commits, and its abort close the channel.\<close>

theorem waiter_is_woken_by_owner:
  assumes "lease_init y0" and "lease_step\<^sup>*\<^sup>* y0 y" and "(k, n) \<in> set (ls_waiters y)"
  shows "n \<in> set (lm_closed (ls_manager y))
    \<or> (\<exists>r \<in> set (ls_reservations y). lr_key r = k \<and> \<not> lr_done r
         \<and> n \<in> set (lm_closed (snd (Abort (r, ls_manager y))))
         \<and> (\<forall>h sv md ttl now. n \<in> set (lm_closed (snd (fst (CommitHandle h sv md ttl now (r, ls_manager y)))))))"
proof -
  have ok: "sys_ok y" by (rule lease_run.reach_inv [OF assms(1,2)])
  show ?thesis
  proof (cases "n \<in> set (lm_closed (ls_manager y))")
    case False
    then obtain p where p: "map_of (lm_pending (ls_manager y)) k = Some p" "pr_token p = n"
      using ok assms(3) unfolding sys_ok_def waiters_ok_def by fastforce
    then obtain r where r: "r \<in> set (ls_reservations y)" "owns r k p" "\<not> lr_done r"
      using ok unfolding sys_ok_def owners_ok_def by blast
    have own: "pendingOwnedBy (lr_key r) (lr_generation r) (lr_token r) (ls_manager y)"
      using p r by (auto simp: pendingOwnedBy_def owns_def)
    have gen: "lr_generation r = lm_generation (ls_manager y)"
      using ok p r unfolding sys_ok_def lease_inv_def pending_ok_def owns_def by metis
    have closes: "n \<in> set (lm_closed (finishPending (lr_key r) (lr_generation r) (lr_token r) m))"
      if "pendingView m = pendingView (ls_manager y)" for m
      using own p r that by (auto simp: finish_closed pendingOwnedBy_def pendingView_def owns_def)
    have "n \<in> set (lm_closed (snd (Abort (r, ls_manager y))))"
      using r closes by (simp add: Abort_def)
    moreover have "n \<in> set (lm_closed (snd (fst (CommitHandle h sv md ttl now (r, ls_manager y)))))" for h sv md ttl now
      using r own gen closes by (simp add: CommitHandle_def Let_def)
    ultimately show ?thesis using r by (auto simp: owns_def)
  qed simp
qed

definition sampleManager :: lease_manager where
  "sampleManager = NewSessionLeaseManager 2"

definition waitingSystem :: lease_sys where
  \<comment> \<open>session 5 is reserved by one caller and a second one waits\<close>
  "waitingSystem = (let (m1, r1) = reserveOnce 5 9 sampleManager; (m2, r2) = reserveOnce 5 9 m1 in
     reserved 5 r2 (withManager m2 (reserved 5 r1 (withManager m1
       \<lparr>ls_manager = sampleManager, ls_reservations = [], ls_waiters = []\<rparr>))))"

definition sampleStart :: lease_sys where
  "sampleStart = \<lparr>ls_manager = sampleManager, ls_reservations = [], ls_waiters = []\<rparr>"

lemma sampleStart_init: "lease_init sampleStart"
  by (auto simp: lease_init_def sampleStart_def sampleManager_def)

lemma waitingSystem_reach: "lease_step\<^sup>*\<^sup>* sampleStart waitingSystem"
proof -
  let ?y1 = "reserved 5 (snd (reserveOnce 5 9 sampleManager)) (withManager (fst (reserveOnce 5 9 sampleManager)) sampleStart)"
  have n0: "lm_nextToken (ls_manager sampleStart) = 0" by code_simp
  have n1: "lm_nextToken (fst (reserveOnce 5 9 sampleManager)) = 1" by code_simp
  have m1: "ls_manager ?y1 = fst (reserveOnce 5 9 sampleManager)"
    by (cases "snd (reserveOnce 5 9 sampleManager)") (simp_all add: withManager_def)
  have "lease_step sampleStart ?y1"
    by (rule lease_step.reserve [where now = 9]) (simp_all add: n0, simp add: sampleStart_def)
  moreover have "lease_step ?y1 waitingSystem"
    using lease_step.reserve [of ?y1 5 9 "fst (reserveOnce 5 9 (ls_manager ?y1))" "snd (reserveOnce 5 9 (ls_manager ?y1))"]
    unfolding m1 n1 by (simp add: waitingSystem_def case_prod_unfold Let_def sampleStart_def)
  ultimately show ?thesis by (meson rtranclp.simps)
qed

definition clearedSystem :: lease_sys where
  \<comment> \<open>the manager is cleared and session 5 is reserved again: two unfinished reservations\<close>
  "clearedSystem = (let m1 = Clear (ls_manager waitingSystem); (m2, r) = reserveOnce 5 20 m1 in
     reserved 5 r (withManager m2 (withManager m1 waitingSystem)))"

lemma clearedSystem_reach: "lease_step\<^sup>*\<^sup>* sampleStart clearedSystem"
proof -
  let ?y = "withManager (Clear (ls_manager waitingSystem)) waitingSystem"
  have n: "lm_nextToken (ls_manager ?y) = 1" by code_simp
  have "lease_step ?y clearedSystem"
    using lease_step.reserve [of ?y 5 20 "fst (reserveOnce 5 20 (ls_manager ?y))" "snd (reserveOnce 5 20 (ls_manager ?y))"] n
    by (simp add: clearedSystem_def case_prod_unfold Let_def withManager_def)
  moreover have "lease_step\<^sup>*\<^sup>* sampleStart ?y"
    by (rule rtranclp.rtrancl_into_rtrancl [OF waitingSystem_reach lease_step.clear])
  ultimately show ?thesis by (rule rtranclp.rtrancl_into_rtrancl [rotated])
qed

lemma clearedSystem_reservations:
  "ls_reservations clearedSystem =
     [\<lparr>lr_key = 5, lr_generation = 0, lr_token = 1, lr_done = False\<rparr>,
      \<lparr>lr_key = 5, lr_generation = 1, lr_token = 2, lr_done = False\<rparr>]"
  by code_simp

theorem reachable_single_reservation_witness:
  "(\<exists>r \<in> set (ls_reservations clearedSystem). \<not> lr_done r \<and> \<not> voided (ls_manager clearedSystem) r)
   \<and> CommitHandle \<lparr>nh_NodeID = 8, nh_Slot = 2, nh_Version = 1, nh_BornRevision = 1\<rparr> ''video'' ModeAdaptive 0 30
       (ls_reservations clearedSystem ! 0, ls_manager clearedSystem) =
     (((ls_reservations clearedSystem ! 0)\<lparr>lr_done := True\<rparr>, ls_manager clearedSystem), emptyLease)"
proof -
  note c = reachable_single_reservation [OF sampleStart_init clearedSystem_reach]
  have "voided (ls_manager clearedSystem) (ls_reservations clearedSystem ! 0)"
    "map_of (lm_pending (ls_manager clearedSystem)) 5 = Some \<lparr>pr_generation = 1, pr_token = 2, pr_waiters = 0\<rparr>"
    by code_simp+
  moreover have "ls_reservations clearedSystem ! 0 \<in> set (ls_reservations clearedSystem)"
    by (simp add: clearedSystem_reservations)
  ultimately show ?thesis using c by blast
qed

theorem waiter_is_woken_by_owner_witness:
  "1 \<in> set (lm_closed (ls_manager waitingSystem))
    \<or> (\<exists>r \<in> set (ls_reservations waitingSystem). lr_key r = 5 \<and> \<not> lr_done r
         \<and> 1 \<in> set (lm_closed (snd (Abort (r, ls_manager waitingSystem))))
         \<and> (\<forall>h sv md ttl now. 1 \<in> set (lm_closed (snd (fst (CommitHandle h sv md ttl now (r, ls_manager waitingSystem)))))))"
  by (rule waiter_is_woken_by_owner [OF sampleStart_init waitingSystem_reach]) code_simp

section \<open>Clearing\<close>

text \<open>Clearing the manager voids every reservation handed out before: a later commit returns the
  empty lease and changes nothing.\<close>

theorem commit_after_clear_is_void:
  "snd (CommitHandle h sv md ttl now (r, Clear m)) = emptyLease
   \<and> snd (fst (CommitHandle h sv md ttl now (r, Clear m))) = Clear m"
  by (simp add: CommitHandle_def Let_def pendingOwnedBy_def Clear_def)

section \<open>The eviction loop ends\<close>

partial_function (option) evictLoop :: "lease_manager \<Rightarrow> lease_manager option" where
  \<comment> \<open>the loop as the source has it: it tests the size only\<close>
  "evictLoop m = (if length (lm_leases m) > lm_maxEntries m then evictLoop (removeOldestLease m) else Some m)"

lemma nonempty_lru: "lease_wf m \<Longrightarrow> lm_maxEntries m < length (lm_leases m) \<Longrightarrow> lm_lru m \<noteq> []"
  using evict_leases_bounded [of m] by (subst (asm) evictLeases.simps) (auto split: if_splits)

text \<open>The eviction loop of the source, which tests only the size of the table and would spin on
  an empty recency list, ends on every well-formed manager, with the result of the model.\<close>

theorem lease_eviction_terminates:
  assumes "lease_wf m"
  shows "evictLoop m = Some (evictLeases m)"
  using assms
proof (induction m rule: evictLeases.induct)
  case (1 m)
  show ?case
  proof (cases "length (lm_leases m) > lm_maxEntries m")
    case True
    have ne: "lm_lru m \<noteq> []" by (rule nonempty_lru [OF 1(2) True])
    then have "lease_wf (removeOldestLease m)" using wf_remove [OF 1(2)] by (simp add: removeOldestLease_def)
    then show ?thesis
      using 1(1) True ne by (subst evictLoop.simps, subst evictLeases.simps) simp
  next
    case False
    then show ?thesis by (subst evictLoop.simps, subst evictLeases.simps) simp
  qed
qed

definition sampleLease :: "session_key \<Rightarrow> node_id \<Rightarrow> session_lease" where
  "sampleLease k n = newLease k \<lparr>nh_NodeID = n, nh_Slot = 1, nh_Version = 1, nh_BornRevision = 1\<rparr>
     ''video'' ModeAdaptive minute 9"

theorem lease_eviction_terminates_witness:
  "evictLoop (pushLease (sampleLease 5 7) sampleManager) = Some (evictLeases (pushLease (sampleLease 5 7) sampleManager))"
  by (rule lease_eviction_terminates, rule wf_push)
    (use inv_new_manager in \<open>simp add: sampleManager_def lease_inv_def\<close>)

section \<open>The recency list of leases\<close>

text \<open>
  The contract of the manager, without addresses: the leases in the order of their last use, one
  per session. It holds on tidy managers, whose recency list has no element the table lost; only
  a commit over a live lease of its session makes a manager untidy.
\<close>

definition lease_tidy :: "lease_manager \<Rightarrow> bool" where
  "lease_tidy m \<longleftrightarrow> lease_wf m \<and> (\<forall>a \<in> set (lm_lru m). map_of (lm_leases m) (sl_Key (leaseAt m a)) = Some a)"

definition leaseList :: "lease_manager \<Rightarrow> session_lease list" where
  "leaseList m = map (leaseAt m) (lm_lru m)"

definition lookupLease :: "lease_manager \<Rightarrow> session_key \<Rightarrow> session_lease option" where
  "lookupLease m k = map_option (leaseAt m) (map_of (lm_leases m) k)"

definition dropKey :: "session_key \<Rightarrow> session_lease list \<Rightarrow> session_lease list" where
  "dropKey k = filter (\<lambda>l. sl_Key l \<noteq> k)"

definition specPeek :: "session_key \<Rightarrow> gotime \<Rightarrow> session_lease list \<Rightarrow> session_lease list \<times> session_lease option" where
  "specPeek k now ls =
     (case find (\<lambda>l. sl_Key l = k) ls of
        None \<Rightarrow> (ls, None)
      | Some l \<Rightarrow> if sl_ExpiresAt l > now then (l # dropKey k ls, Some l) else (dropKey k ls, None))"

definition specCommit :: "nat \<Rightarrow> session_lease \<Rightarrow> session_lease list \<Rightarrow> session_lease list" where
  "specCommit cap l ls = take cap (l # ls)"

definition specInvalidate :: "session_key \<Rightarrow> node_id \<Rightarrow> session_lease list \<Rightarrow> session_lease list" where
  "specInvalidate k n ls =
     (case find (\<lambda>l. sl_Key l = k) ls of
        None \<Rightarrow> ls
      | Some l \<Rightarrow> if n = 0 \<or> sl_NodeID l = n then dropKey k ls else ls)"

definition specReplace :: "nat \<Rightarrow> node_handle \<Rightarrow> session_lease \<Rightarrow> session_lease list \<Rightarrow> session_lease list" where
  "specReplace cap expected l ls =
     (case find (\<lambda>x. sl_Key x = sl_Key l) ls of
        None \<Rightarrow> if nh_NodeID expected \<noteq> 0 then ls else specCommit cap l ls
      | Some old \<Rightarrow>
          if nh_NodeID expected \<noteq> 0 \<and> \<not> leaseHasHandle expected old then ls
          else l # dropKey (sl_Key l) ls)"

definition specRenew :: "session_key \<Rightarrow> node_handle \<Rightarrow> gotime \<Rightarrow> gotime \<Rightarrow> session_lease list \<Rightarrow> session_lease list" where
  "specRenew k expected until now ls =
     (case find (\<lambda>l. sl_Key l = k) ls of
        None \<Rightarrow> ls
      | Some l \<Rightarrow>
          if leaseHasHandle expected l then l\<lparr>sl_ExpiresAt := until, sl_UpdatedAt := now\<rparr> # dropKey k ls
          else ls)"

definition specRestore :: "gotime \<Rightarrow> session_lease \<Rightarrow> session_lease list \<Rightarrow> session_lease list" where
  "specRestore now l ls =
     (if \<not> restorable now l then ls
      else case find (\<lambda>x. sl_Key x = sl_Key l) ls of
          None \<Rightarrow> l # ls
        | Some old \<Rightarrow> if sl_UpdatedAt old > sl_UpdatedAt l then ls else l # dropKey (sl_Key l) ls)"

lemma tidyD: "lease_tidy m \<Longrightarrow> a \<in> set (lm_lru m) \<Longrightarrow> map_of (lm_leases m) (sl_Key (leaseAt m a)) = Some a"
  by (simp add: lease_tidy_def)

lemma tidy_wf: "lease_tidy m \<Longrightarrow> lease_wf m"
  by (simp add: lease_tidy_def)

lemma tidy_key_inj:
  "lease_tidy m \<Longrightarrow> a \<in> set (lm_lru m) \<Longrightarrow> b \<in> set (lm_lru m) \<Longrightarrow> sl_Key (leaseAt m a) = sl_Key (leaseAt m b) \<Longrightarrow> a = b"
  by (metis tidyD option.inject)

lemma tidy_find:
  assumes "lease_tidy m"
  shows "find (\<lambda>l. sl_Key l = k) (leaseList m) = lookupLease m k"
proof (cases "map_of (lm_leases m) k")
  case None
  then have "\<forall>a \<in> set (lm_lru m). sl_Key (leaseAt m a) \<noteq> k" using tidyD [OF assms] by fastforce
  then show ?thesis using None by (simp add: lookupLease_def leaseList_def find_None_iff)
next
  case (Some a)
  have a: "a \<in> set (lm_lru m)" "sl_Key (leaseAt m a) = k"
    using lease_wfD(5,6) [OF tidy_wf [OF assms] Some] by auto
  then obtain l where l: "find (\<lambda>l. sl_Key l = k) (leaseList m) = Some l"
    by (cases "find (\<lambda>l. sl_Key l = k) (leaseList m)") (auto simp: find_None_iff leaseList_def)
  then obtain b where "b \<in> set (lm_lru m)" "l = leaseAt m b" "sl_Key l = k"
    by (auto simp: leaseList_def dest!: find_SomeD)
  then have "leaseAt m b = leaseAt m a" using tidy_key_inj [OF assms, of b a] a by metis
  then show ?thesis using l Some \<open>l = leaseAt m b\<close> by (simp add: lookupLease_def)
qed

lemma list_dropKey:
  assumes "lease_tidy m" and "a \<in> set (lm_lru m)"
  shows "map (leaseAt m) (remove1 a (lm_lru m)) = dropKey (sl_Key (leaseAt m a)) (leaseList m)"
proof -
  have "remove1 a (lm_lru m) = filter (\<lambda>b. b \<noteq> a) (lm_lru m)"
    using lease_wfD(2) [OF tidy_wf [OF assms(1)]] by (simp add: distinct_remove1_removeAll removeAll_filter_not_eq) metis
  moreover have "filter (\<lambda>b. b \<noteq> a) (lm_lru m) = filter (\<lambda>b. sl_Key (leaseAt m b) \<noteq> sl_Key (leaseAt m a)) (lm_lru m)"
    by (rule filter_cong) (use tidy_key_inj [OF assms(1) _ assms(2)] in auto)
  ultimately show ?thesis by (simp add: dropKey_def leaseList_def filter_map comp_def)
qed

lemma lru_remove: "lm_lru (removeLease a m) = remove1 a (lm_lru m)"
  by (simp add: removeLease_def)

lemma tidy_remove:
  assumes "lease_tidy m" and "a \<in> set (lm_lru m)"
  shows "lease_tidy (removeLease a m)" "leaseList (removeLease a m) = dropKey (sl_Key (leaseAt m a)) (leaseList m)"
proof -
  have d: "distinct (lm_lru m)" by (rule lease_wfD(2) [OF tidy_wf [OF assms(1)]])
  have "map_of (lm_leases (removeLease a m)) (sl_Key (leaseAt m b)) = Some b"
    if b: "b \<in> set (lm_lru (removeLease a m))" for b
  proof -
    have "b \<in> set (lm_lru m)" "b \<noteq> a" using b d by (auto simp: removeLease_def)
    then have "sl_Key (leaseAt m b) \<noteq> sl_Key (leaseAt m a)" using tidy_key_inj [OF assms(1) _ assms(2), of b] by blast
    then show ?thesis
      using tidyD [OF assms(1) \<open>b \<in> set (lm_lru m)\<close>] by (simp add: removeLease_def gomap_simps)
  qed
  then show "lease_tidy (removeLease a m)" using wf_remove [OF tidy_wf [OF assms(1)]] by (simp add: lease_tidy_def)
  show "leaseList (removeLease a m) = dropKey (sl_Key (leaseAt m a)) (leaseList m)"
    unfolding list_dropKey [OF assms, symmetric] by (simp add: leaseList_def removeLease_def leaseAt_def)
qed

lemma tidy_touch:
  assumes "lease_tidy m" and "a \<in> set (lm_lru m)"
  shows "lease_tidy (touchLease a m)"
    "leaseList (touchLease a m) = leaseAt m a # dropKey (sl_Key (leaseAt m a)) (leaseList m)"
proof -
  have s: "set (lm_lru (touchLease a m)) = set (lm_lru m)"
    using assms(2) lease_wfD(2) [OF tidy_wf [OF assms(1)]] by (auto simp: touchLease_def move_front_def)
  show "lease_tidy (touchLease a m)"
    using assms(1) wf_touch [OF tidy_wf [OF assms(1)]] s by (simp add: lease_tidy_def)
  show "leaseList (touchLease a m) = leaseAt m a # dropKey (sl_Key (leaseAt m a)) (leaseList m)"
    unfolding list_dropKey [OF assms, symmetric] using assms(2)
    by (simp add: leaseList_def touchLease_def move_front_def leaseAt_def)
qed

lemma tidy_push:
  assumes "lease_tidy m" and "map_of (lm_leases m) (sl_Key l) = None"
  shows "lease_tidy (pushLease l m)" "leaseList (pushLease l m) = l # leaseList m"
proof -
  have fresh: "lm_nextAddress m \<notin> set (lm_lru m)" using lease_wfD(3) [OF tidy_wf [OF assms(1)]] by blast
  have "map_of (lm_leases (pushLease l m)) (sl_Key (leaseAt (pushLease l m) b)) = Some b"
    if b: "b \<in> set (lm_lru (pushLease l m))" for b
  proof (cases "b = lm_nextAddress m")
    case False
    then have "b \<in> set (lm_lru m)" using b by (simp add: pushLease_def Let_def)
    from tidyD [OF assms(1) this] have k: "map_of (lm_leases m) (sl_Key (leaseAt m b)) = Some b" .
    then have "sl_Key (leaseAt m b) \<noteq> sl_Key l" using assms(2) by (metis option.distinct(1))
    then show ?thesis
      using k False unfolding leaseAt_push by (simp add: pushLease_def Let_def gomap_simps)
  qed (simp add: leaseAt_push, simp add: pushLease_def Let_def gomap_simps)
  then show "lease_tidy (pushLease l m)" using wf_push [OF tidy_wf [OF assms(1)]] by (simp add: lease_tidy_def)
  have "map (leaseAt (pushLease l m)) (lm_lru m) = map (leaseAt m) (lm_lru m)"
    using fresh by (auto simp: leaseAt_push)
  moreover have "lm_lru (pushLease l m) = lm_nextAddress m # lm_lru m" by (simp add: pushLease_def Let_def)
  ultimately show "leaseList (pushLease l m) = l # leaseList m" by (simp add: leaseList_def leaseAt_push)
qed

lemma tidy_length: "lease_tidy m \<Longrightarrow> length (lm_leases m) = length (lm_lru m)"
proof -
  assume t: "lease_tidy m"
  have w: "gm_wf (lm_leases m)" "distinct (lm_lru m)" using lease_wfD(1,2) [OF tidy_wf [OF t]] by auto
  have "bij_betw (\<lambda>a. sl_Key (leaseAt m a)) (set (lm_lru m)) (fst ` set (lm_leases m))"
  proof (rule bij_betwI')
    show "(sl_Key (leaseAt m a) = sl_Key (leaseAt m b)) = (a = b)" if "a \<in> set (lm_lru m)" "b \<in> set (lm_lru m)" for a b
      using tidy_key_inj [OF t that] by auto
    show "sl_Key (leaseAt m a) \<in> fst ` set (lm_leases m)" if "a \<in> set (lm_lru m)" for a
      using map_of_SomeD [OF tidyD [OF t that]] by force
    show "\<exists>a \<in> set (lm_lru m). k = sl_Key (leaseAt m a)" if k: "k \<in> fst ` set (lm_leases m)" for k
    proof -
      obtain a where "map_of (lm_leases m) k = Some a"
        using k by (cases "map_of (lm_leases m) k") (auto simp: map_of_eq_None_iff)
      then show ?thesis using lease_wfD(5,6) [OF tidy_wf [OF t]] by metis
    qed
  qed
  then have "card (set (lm_lru m)) = card (set (map fst (lm_leases m)))" by (simp add: bij_betw_same_card)
  moreover have "distinct (map fst (lm_leases m))" using w(1) by simp
  ultimately show ?thesis using w(2) distinct_card length_map by metis
qed

lemma tidy_evict: "lease_tidy m \<Longrightarrow> lease_tidy (evictLeases m) \<and> leaseList (evictLeases m) = take (lm_maxEntries m) (leaseList m)"
proof (induction m rule: evictLeases.induct)
  case (1 m)
  show ?case
  proof (cases "length (lm_leases m) > lm_maxEntries m \<and> lm_lru m \<noteq> []")
    case True
    let ?a = "last (lm_lru m)"
    have a: "?a \<in> set (lm_lru m)" using True by simp
    have d: "distinct (lm_lru m)" by (rule lease_wfD(2) [OF tidy_wf [OF 1(2)]])
    have "remove1 ?a (lm_lru m) = butlast (lm_lru m)"
      using True d by (simp add: remove1_last)
    then have "leaseList (removeLease ?a m) = butlast (leaseList m)"
      by (simp add: leaseList_def lru_remove map_butlast)
    moreover have "lm_maxEntries m < length (leaseList m)"
      using True tidy_length [OF 1(2)] by (simp add: leaseList_def)
    moreover have "lease_tidy (evictLeases (removeLease ?a m)) \<and>
        leaseList (evictLeases (removeLease ?a m)) = take (lm_maxEntries m) (leaseList (removeLease ?a m))"
      using 1(1) [OF True] tidy_remove(1) [OF 1(2) a] True by (simp add: removeOldestLease_def)
    ultimately show ?thesis
      using True by (subst (1 2) evictLeases.simps) (simp add: removeOldestLease_def take_butlast)
  next
    case False
    then have "length (leaseList m) \<le> lm_maxEntries m" using tidy_length [OF 1(2)] by (auto simp: leaseList_def)
    moreover have "evictLeases m = m" using False by (subst evictLeases.simps) auto
    ultimately show ?thesis using 1(2) by simp
  qed
qed

lemma tidy_lookup:
  assumes "lease_tidy m" and "map_of (lm_leases m) k = Some a"
  shows "a \<in> set (lm_lru m)" "sl_Key (leaseAt m a) = k"
  using lease_wfD(5,6) [OF tidy_wf [OF assms(1)] assms(2)] by auto

lemma tidy_read:
  assumes "lease_tidy m" and "map_of (lm_leases m) k = Some a"
  shows "find (\<lambda>l. sl_Key l = k) (leaseList m) = Some (leaseAt m a)"
    and "lease_tidy (removeLease a m)" and "leaseList (removeLease a m) = dropKey k (leaseList m)"
    and "lease_tidy (touchLease a m)" and "leaseList (touchLease a m) = leaseAt m a # dropKey k (leaseList m)"
proof -
  note a = tidy_lookup [OF assms]
  show "find (\<lambda>l. sl_Key l = k) (leaseList m) = Some (leaseAt m a)"
    using tidy_find [OF assms(1)] assms(2) by (simp add: lookupLease_def)
  show "lease_tidy (removeLease a m)" by (rule tidy_remove(1) [OF assms(1) a(1)])
  show "lease_tidy (touchLease a m)" by (rule tidy_touch(1) [OF assms(1) a(1)])
  show "leaseList (removeLease a m) = dropKey k (leaseList m)" using tidy_remove(2) [OF assms(1) a(1)] a(2) by simp
  show "leaseList (touchLease a m) = leaseAt m a # dropKey k (leaseList m)"
    using tidy_touch(2) [OF assms(1) a(1)] a(2) by simp
qed

lemma tidy_absent:
  "lease_tidy m \<Longrightarrow> map_of (lm_leases m) k = None \<Longrightarrow> find (\<lambda>l. sl_Key l = k) (leaseList m) = None"
  by (simp add: tidy_find lookupLease_def)

lemma tidy_same:
  assumes "lm_leases m' = lm_leases m" "lm_lru m' = lm_lru m" "lm_heap m' = lm_heap m"
    "lm_nextAddress m' = lm_nextAddress m"
  shows "lease_tidy m' = lease_tidy m" "leaseList m' = leaseList m"
  using assms by (simp_all add: lease_tidy_def lease_wf_def leaseAt_def leaseList_def)

lemma tidy_finish [simp]:
  "lease_tidy (finishPending k g n m) = lease_tidy m" "leaseList (finishPending k g n m) = leaseList m"
  by (rule tidy_same; simp add: finishPending_def)+

lemma tidy_fresh [simp]:
  "lease_tidy (fst (reserveFresh k m)) = lease_tidy m" "leaseList (fst (reserveFresh k m)) = leaseList m"
  by (rule tidy_same; simp add: reserveFresh_def split: option.split)+

lemma tidy_peek:
  assumes "lease_tidy m"
  shows "lease_tidy (fst (Peek k now m)) \<and> map_prod leaseList id (Peek k now m) = specPeek k now (leaseList m)"
  using assms tidy_read [OF assms, of k] tidy_absent [OF assms, of k]
  by (cases "map_of (lm_leases m) k") (simp_all add: Peek_def specPeek_def)

lemma tidy_reserve:
  assumes "lease_tidy m"
  shows "lease_tidy (fst (reserveOnce k now m)) \<and> leaseList (fst (reserveOnce k now m)) = fst (specPeek k now (leaseList m))"
  using assms tidy_read [OF assms, of k] tidy_absent [OF assms, of k]
  by (cases "map_of (lm_leases m) k") (simp_all add: reserveOnce_def specPeek_def)

lemma tidy_insert:
  assumes "lease_tidy m" and "map_of (lm_leases m) (sl_Key l) = None"
  shows "lease_tidy (evictLeases (pushLease l m)) \<and>
    leaseList (evictLeases (pushLease l m)) = specCommit (lm_maxEntries m) l (leaseList m)"
  using tidy_evict [OF tidy_push(1) [OF assms]] tidy_push(2) [OF assms] by (simp add: specCommit_def)

lemma tidy_commit:
  assumes "lease_tidy m" and "lookupLease m (lr_key r) = None"
    and "\<not> lr_done r" and "lr_generation r = lm_generation m"
    and "pendingOwnedBy (lr_key r) (lr_generation r) (lr_token r) m"
  shows "lease_tidy (snd (fst (CommitHandle h sv md ttl now (r, m)))) \<and>
    leaseList (snd (fst (CommitHandle h sv md ttl now (r, m)))) =
    specCommit (lm_maxEntries m) (newLease (lr_key r) h sv md ttl now) (leaseList m)"
  using tidy_insert [OF assms(1), of "newLease (lr_key r) h sv md ttl now"] assms(2-5)
  by (simp add: CommitHandle_def Let_def lookupLease_def newLease_def)

lemma tidy_invalidate:
  assumes "lease_tidy m"
  shows "lease_tidy (Invalidate k n m) \<and> leaseList (Invalidate k n m) = specInvalidate k n (leaseList m)"
  using assms tidy_read [OF assms, of k] tidy_absent [OF assms, of k]
  by (cases "map_of (lm_leases m) k") (simp_all add: Invalidate_def specInvalidate_def)

lemma tidy_put:
  assumes "lease_tidy m" and "map_of (lm_leases m) k = Some a" and "sl_Key l = k"
  shows "lease_tidy (touchLease a (putLease a l m)) \<and>
    leaseList (touchLease a (putLease a l m)) = l # dropKey k (leaseList m)"
proof -
  let ?m = "putLease a l m"
  note a = tidy_lookup [OF assms(1,2)]
  have wf: "lease_wf ?m" by (rule wf_put) (use a assms tidy_wf in simp_all)
  have t: "lease_tidy ?m"
    using assms(1) a assms(3) wf by (auto simp: lease_tidy_def leaseAt_put)
  have get: "map_of (lm_leases ?m) k = Some a" using assms(2) by simp
  have "dropKey k (leaseList ?m) = dropKey k (leaseList m)"
    using a assms(3) by (auto simp: dropKey_def leaseList_def leaseAt_put filter_map comp_def intro!: map_cong filter_cong)
  then show ?thesis using tidy_read(4,5) [OF t get] by (simp add: leaseAt_put)
qed

lemma tidy_replace:
  assumes "lease_tidy m"
  shows "lease_tidy (fst (ReplaceHandle k e nx sv md ttl now m)) \<and>
    leaseList (fst (ReplaceHandle k e nx sv md ttl now m)) =
      specReplace (lm_maxEntries m) e (newLease k nx sv md ttl now) (leaseList m)"
proof (cases "map_of (lm_leases m) k")
  case None
  then show ?thesis
    using assms tidy_absent [OF assms None] tidy_insert [OF assms, of "newLease k nx sv md ttl now"]
    by (simp add: ReplaceHandle_def specReplace_def newLease_def Let_def)
next
  case (Some a)
  have "sl_Key (leaseAt m a) = k" by (rule tidy_lookup(2) [OF assms Some])
  then show ?thesis
    using Some assms tidy_read(1) [OF assms Some] tidy_put [OF assms Some, of "newLease k nx sv md ttl now"]
    by (simp add: ReplaceHandle_def specReplace_def newLease_def Let_def)
qed

lemma tidy_renew:
  assumes "lease_tidy m"
  shows "lease_tidy (fst (RenewHandle k e ttl now m)) \<and>
    leaseList (fst (RenewHandle k e ttl now m)) = specRenew k e (now + leaseTTL ttl) now (leaseList m)"
proof (cases "map_of (lm_leases m) k")
  case None
  then show ?thesis using assms tidy_absent [OF assms None] by (simp add: RenewHandle_def specRenew_def)
next
  case (Some a)
  have "sl_Key (leaseAt m a) = k" by (rule tidy_lookup(2) [OF assms Some])
  then show ?thesis
    using Some assms tidy_read(1) [OF assms Some]
      tidy_put [OF assms Some, of "(leaseAt m a)\<lparr>sl_ExpiresAt := now + leaseTTL ttl, sl_UpdatedAt := now\<rparr>"]
    by (simp add: RenewHandle_def specRenew_def Let_def)
qed

lemma tidy_removes:
  "lease_tidy m \<Longrightarrow> distinct as \<Longrightarrow> set as \<subseteq> set (lm_lru m) \<Longrightarrow>
   lease_tidy (fold removeLease as m) \<and> lm_lru (fold removeLease as m) = filter (\<lambda>a. a \<notin> set as) (lm_lru m)
   \<and> leaseAt (fold removeLease as m) = leaseAt m"
proof (induction as arbitrary: m)
  case (Cons a as)
  have d: "distinct (lm_lru m)" by (rule lease_wfD(2) [OF tidy_wf [OF Cons.prems(1)]])
  then have l: "lm_lru (removeLease a m) = filter (\<lambda>b. b \<noteq> a) (lm_lru m)"
    by (simp add: lru_remove distinct_remove1_removeAll removeAll_filter_not_eq) metis
  have "lease_tidy (removeLease a m)" using Cons.prems by (intro tidy_remove(1)) auto
  from Cons.IH [OF this] show ?case using Cons.prems l by (auto intro!: filter_cong)
qed simp

lemma tidy_retire:
  assumes "lease_tidy m"
  shows "lease_tidy (RetireLeases h m) \<and> leaseList (RetireLeases h m) = filter (\<lambda>l. \<not> leaseHasHandle h l) (leaseList m)"
proof -
  let ?as = "filter (\<lambda>a. leaseHasHandle h (leaseAt m a)) (map snd (lm_leases m))"
  have wf: "gm_wf (lm_leases m)" by (rule lease_wfD(1) [OF tidy_wf [OF assms]])
  have entry: "map_of (lm_leases m) k = Some a" if "(k, a) \<in> set (lm_leases m)" for k a
    using wf that by (simp add: map_of_eq_Some_iff)
  have "inj_on snd (set (lm_leases m))"
    by (rule inj_onI) (metis entry tidy_lookup(2) [OF assms] prod.collapse)
  then have "distinct ?as" using wf by (auto simp: distinct_map intro!: distinct_filter)
  moreover have "set ?as \<subseteq> set (lm_lru m)" using entry tidy_lookup(1) [OF assms] by fastforce
  ultimately have r: "lease_tidy (RetireLeases h m)" "lm_lru (RetireLeases h m) = filter (\<lambda>a. a \<notin> set ?as) (lm_lru m)"
      "leaseAt (RetireLeases h m) = leaseAt m"
    using tidy_removes [OF assms] unfolding RetireLeases_def by blast+
  have "a \<notin> set ?as \<longleftrightarrow> \<not> leaseHasHandle h (leaseAt m a)" if "a \<in> set (lm_lru m)" for a
    using map_of_SomeD [OF tidyD [OF assms that]] by force
  then have "filter (\<lambda>a. a \<notin> set ?as) (lm_lru m) = filter (\<lambda>a. \<not> leaseHasHandle h (leaseAt m a)) (lm_lru m)"
    by (rule filter_cong [OF refl])
  then show ?thesis using r by (simp add: leaseList_def filter_map comp_def)
qed

lemma tidy_clear: "lease_tidy (Clear m) \<and> leaseList (Clear m) = []"
  by (simp add: lease_tidy_def lease_wf_def leaseList_def Clear_def)

lemma tidy_restore:
  assumes "lease_tidy m"
  shows "lease_tidy (restoreLease now l m) \<and> leaseList (restoreLease now l m) = specRestore now l (leaseList m)"
proof (cases "map_of (lm_leases m) (sl_Key l)")
  case None
  then show ?thesis
    using assms tidy_absent [OF assms None] tidy_push [OF assms None] by (simp add: restoreLease_def specRestore_def)
next
  case (Some a)
  note read = tidy_read [OF assms Some]
  have "map_of (lm_leases (removeLease a m)) (sl_Key l) = None"
    using tidy_lookup(2) [OF assms Some] by (simp add: removeLease_def gomap_simps)
  then show ?thesis
    using assms Some read tidy_push [OF read(2)] by (simp add: restoreLease_def specRestore_def)
qed

lemma tidy_restores:
  assumes "lease_tidy m"
  shows "lease_tidy (RestorePersistence ls now m) \<and>
    leaseList (RestorePersistence ls now m) = take (lm_maxEntries m) (fold (specRestore now) ls (leaseList m))"
proof -
  have "lease_tidy (fold (restoreLease now) ls m) \<and> leaseList (fold (restoreLease now) ls m) = fold (specRestore now) ls (leaseList m)
      \<and> lm_maxEntries (fold (restoreLease now) ls m) = lm_maxEntries m"
    using assms
  proof (induction ls arbitrary: m)
    case (Cons l ls)
    show ?case using Cons.IH [of "restoreLease now l m"] tidy_restore [OF Cons.prems, of now l] by simp
  qed simp
  then show ?thesis using tidy_evict [of "fold (restoreLease now) ls m"] by (simp add: RestorePersistence_def)
qed

subsection \<open>Runs in which no lease appears under a reservation\<close>

definition undisturbed :: "lease_manager \<Rightarrow> bool" where
  \<comment> \<open>no session holds a lease while it is being reserved\<close>
  "undisturbed m \<longleftrightarrow> (\<forall>(k, p) \<in> set (lm_pending m). lookupLease m k = None)"

definition orderly_step :: "lease_sys \<Rightarrow> lease_sys \<Rightarrow> bool" where
  "orderly_step y y' \<longleftrightarrow> undisturbed (ls_manager y) \<and> lease_step y y'"

lemma owned_undisturbed:
  fixes r :: lease_reservation
  assumes "lease_inv m" and "pendingOwnedBy (lr_key r) (lr_generation r) (lr_token r) m"
  shows "lr_generation r = lm_generation m" and "undisturbed m \<Longrightarrow> lookupLease m (lr_key r) = None"
proof -
  obtain p where p: "map_of (lm_pending m) (lr_key r) = Some p" "owns r (lr_key r) p"
    using assms(2) by (auto simp: owned_iff)
  show "lr_generation r = lm_generation m"
    using assms(1) p unfolding lease_inv_def pending_ok_def owns_def by metis
  show "undisturbed m \<Longrightarrow> lookupLease m (lr_key r) = None"
    using map_of_SomeD [OF p(1)] by (auto simp: undisturbed_def)
qed

lemma tidy_finishing:
  fixes r :: lease_reservation
  assumes "lease_inv m" and "lease_tidy m" and "undisturbed m"
  shows "lease_tidy (snd (fst (CommitHandle h sv md ttl now (r, m))))" and "lease_tidy (snd (Abort (r, m)))"
proof -
  show "lease_tidy (snd (Abort (r, m)))" using assms(2) by (simp add: Abort_def)
  show "lease_tidy (snd (fst (CommitHandle h sv md ttl now (r, m))))"
  proof (cases "lr_done r \<or> \<not> pendingOwnedBy (lr_key r) (lr_generation r) (lr_token r) m")
    case False
    then show ?thesis using tidy_commit [OF assms(2)] owned_undisturbed [OF assms(1)] assms(3) by blast
  qed (use assms(2) in \<open>auto simp: CommitHandle_def Let_def\<close>)
qed

lemma reserved_manager [simp]: "ls_manager (reserved k res y) = ls_manager y"
  by (cases res) simp_all

lemma orderly_tidy:
  assumes "orderly_step y y'" and "sys_ok y" and "lease_tidy (ls_manager y)"
  shows "lease_tidy (ls_manager y')"
proof -
  note t = assms(3)
  have inv: "lease_inv (ls_manager y)" using assms(2) by (simp add: sys_ok_def)
  have u: "undisturbed (ls_manager y)" and step: "lease_step y y'" using assms(1) by (simp_all add: orderly_step_def)
  note fin = tidy_finishing [OF inv t u]
  from step show ?thesis
  proof (cases rule: lease_step.cases)
    case (reserve key now m' res)
    then show ?thesis using tidy_reserve [OF t, of key now] by (simp add: withManager_def)
  next
    case (commit i h sv md ttl now r' m' l)
    then show ?thesis using fin(1) [of h sv md ttl now "ls_reservations y ! i"] by (simp add: withManager_def)
  next
    case (abort i r' m')
    then show ?thesis using fin(2) [of "ls_reservations y ! i"] by (simp add: withManager_def)
  qed (use t tidy_peek tidy_invalidate tidy_replace tidy_renew tidy_retire tidy_clear tidy_restores
    in \<open>simp_all add: withManager_def\<close>)
qed

lemma orderly_run:
  assumes "lease_init y0" and "orderly_step\<^sup>*\<^sup>* y0 y"
  shows "sys_ok y \<and> lease_tidy (ls_manager y)"
  using assms(2)
proof (induction rule: rtranclp_induct)
  case base
  have "sys_ok y0" by (rule lease_run.reach_inv [OF assms(1) rtranclp.rtrancl_refl])
  then show ?case
    using assms(1) by (auto simp: lease_init_def lease_tidy_def sys_ok_def lease_inv_def) (simp add: NewSessionLeaseManager_def)
next
  case (step y z)
  then show ?case using orderly_tidy ok_step by (auto simp: orderly_step_def)
qed


definition busyReservation :: lease_reservation where
  "busyReservation = \<lparr>lr_key = 5, lr_generation = 0, lr_token = 1, lr_done = False\<rparr>"

definition sampleTarget :: node_handle where
  "sampleTarget = \<lparr>nh_NodeID = 8, nh_Slot = 2, nh_Version = 1, nh_BornRevision = 1\<rparr>"

definition busySystem :: lease_sys where
  \<comment> \<open>leases of the sessions 3 and 4 are restored, then session 5 is reserved\<close>
  "busySystem = (let m1 = RestorePersistence [sampleLease 3 6, sampleLease 4 7] 9 sampleManager;
       (m2, r) = reserveOnce 5 9 m1 in
     reserved 5 r (withManager m2 (withManager m1 sampleStart)))"

lemma busySystem_reach: "orderly_step\<^sup>*\<^sup>* sampleStart busySystem"
proof -
  let ?m = "RestorePersistence [sampleLease 3 6, sampleLease 4 7] 9 sampleManager"
  let ?y = "withManager ?m sampleStart"
  have "lease_step sampleStart ?y"
    using lease_step.restore [of sampleStart "[sampleLease 3 6, sampleLease 4 7]" 9] by (simp add: sampleStart_def)
  then have 1: "orderly_step sampleStart ?y"
    by (simp add: orderly_step_def undisturbed_def sampleStart_def sampleManager_def NewSessionLeaseManager_def)
  have n: "lm_nextToken ?m = 0" "lm_pending ?m = []" by code_simp+
  have "lease_step ?y busySystem"
    using lease_step.reserve [of ?y 5 9 "fst (reserveOnce 5 9 (ls_manager ?y))" "snd (reserveOnce 5 9 (ls_manager ?y))"] n
    by (simp add: busySystem_def case_prod_unfold Let_def withManager_def)
  then have "orderly_step ?y busySystem" using n by (simp add: orderly_step_def undisturbed_def withManager_def)
  with 1 show ?thesis by (meson rtranclp.simps)
qed


section \<open>A commit over a live lease\<close>

text \<open>A commit does not look for a lease that appeared while the session was reserved (by a
  restore or an unconditional replace): the old record stays in the recency list, the table holds
  the new one, and when the old record reaches the end of the list its removal deletes the new
  lease.\<close>

theorem commit_over_live_lease_orphans:
  fixes h sv md ttl now
  assumes wf: "lease_wf m" and live: "map_of (lm_leases m) (lr_key r) = Some a"
    and room: "length (lm_leases m) \<le> lm_maxEntries m"
    and own: "\<not> lr_done r" "lr_generation r = lm_generation m"
      "pendingOwnedBy (lr_key r) (lr_generation r) (lr_token r) m"
  defines "m' \<equiv> snd (fst (CommitHandle h sv md ttl now (r, m)))"
  shows "a \<in> set (lm_lru m')
    \<and> lookupLease m' (lr_key r) = Some (newLease (lr_key r) h sv md ttl now)
    \<and> lookupLease (removeLease a m') (lr_key r) = None"
proof -
  let ?l = "newLease (lr_key r) h sv md ttl now"
  have k: "sl_Key ?l = lr_key r" by (simp add: newLease_def)
  have "length (lm_leases (pushLease ?l m)) = length (lm_leases m)"
    using live k by (simp add: pushLease_def Let_def gm_len_put)
  then have ev: "evictLeases (pushLease ?l m) = pushLease ?l m"
    using room by (subst evictLeases.simps) simp
  have m': "m' = finishPending (lr_key r) (lr_generation r) (lr_token r) (pushLease ?l m)"
    using own ev by (simp add: m'_def CommitHandle_def Let_def)
  have f: "leaseAt m' = leaseAt (pushLease ?l m)" "lm_leases m' = lm_leases (pushLease ?l m)"
      "lm_lru m' = lm_lru (pushLease ?l m)"
    by (simp_all add: m' finishPending_def fun_eq_iff leaseAt_def)
  have a: "a \<in> set (lm_lru m)" "sl_Key (leaseAt m a) = lr_key r" "a \<noteq> lm_nextAddress m"
    using lease_wfD(3,5,6) [OF wf] live by (metis, metis, metis less_irrefl)
  have ka: "sl_Key (leaseAt m' a) = lr_key r" using a by (simp add: f leaseAt_push)
  show ?thesis
  proof (intro conjI)
    show "a \<in> set (lm_lru m')" using a by (simp add: f pushLease_def Let_def)
    have "map_of (lm_leases m') (lr_key r) = Some (lm_nextAddress m)"
      unfolding f by (simp add: pushLease_def Let_def k gm_get_put)
    then show "lookupLease m' (lr_key r) = Some ?l" by (simp add: lookupLease_def f leaseAt_push)
    show "lookupLease (removeLease a m') (lr_key r) = None"
      by (simp add: lookupLease_def removeLease_def ka gm_get_del)
  qed
qed

definition restoredManager :: lease_manager where
  \<comment> \<open>session 5 is reserved, then a persisted lease of it is restored\<close>
  "restoredManager = RestorePersistence [sampleLease 5 6] 9 (fst (reserveOnce 5 9 sampleManager))"

theorem commit_over_live_lease_orphans_witness:
  "let m' = snd (fst (CommitHandle sampleTarget ''video'' ModeAdaptive 0 20 (busyReservation, restoredManager))) in
   0 \<in> set (lm_lru m')
    \<and> lookupLease m' (lr_key busyReservation) = Some (newLease (lr_key busyReservation) sampleTarget ''video'' ModeAdaptive 0 20)
    \<and> lookupLease (removeLease 0 m') (lr_key busyReservation) = None"
proof -
  have w: "lease_wf restoredManager"
    using inv_restore [OF inv_reserve [OF inv_new_manager [of 2], of 5 9], of "[sampleLease 5 6]" 9]
    by (simp add: restoredManager_def sampleManager_def lease_inv_def) (simp add: NewSessionLeaseManager_def)
  show ?thesis
    unfolding Let_def by (rule commit_over_live_lease_orphans [OF w]) code_simp+
qed

section \<open>Persistence\<close>

lemma lookup_push: "lookupLease (pushLease l m) k = (if k = sl_Key l then Some l else lookupLease m k)"
  if "lease_wf m"
proof -
  have "a \<noteq> lm_nextAddress m" if "map_of (lm_leases m) k = Some a" for a
    using lease_wfD(3,5) [OF \<open>lease_wf m\<close>] that by (metis less_irrefl)
  moreover have "map_of (lm_leases (pushLease l m)) k = (if k = sl_Key l then Some (lm_nextAddress m) else map_of (lm_leases m) k)"
    by (simp add: pushLease_def Let_def gm_get_put)
  ultimately show ?thesis by (cases "map_of (lm_leases m) k") (simp_all add: lookupLease_def leaseAt_push)
qed

lemma lookup_restore:
  assumes "lease_wf m" and "map_of (lm_leases m) (sl_Key l) = None"
  shows "lookupLease (restoreLease now l m) k = (if k = sl_Key l \<and> restorable now l then Some l else lookupLease m k)"
    and "length (lm_leases (restoreLease now l m)) \<le> Suc (length (lm_leases m))"
  using assms by (simp_all add: restoreLease_def lookup_push) (simp add: pushLease_def Let_def gm_len_put)

lemma lookup_none: "lookupLease m k = None \<longleftrightarrow> map_of (lm_leases m) k = None"
  by (simp add: lookupLease_def)

lemma lookup_restores:
  assumes "lease_wf m" and "distinct (map sl_Key ls)" and "\<forall>l \<in> set ls. lookupLease m (sl_Key l) = None"
  shows "lookupLease (fold (restoreLease now) ls m) k =
      (case find (\<lambda>l. sl_Key l = k \<and> restorable now l) ls of Some l \<Rightarrow> Some l | None \<Rightarrow> lookupLease m k)
    \<and> length (lm_leases (fold (restoreLease now) ls m)) \<le> length ls + length (lm_leases m)"
  using assms
proof (induction ls arbitrary: m)
  case (Cons l ls)
  have n: "map_of (lm_leases m) (sl_Key l) = None" using Cons.prems(3) by (simp add: lookup_none)
  note step = lookup_restore [OF Cons.prems(1) n, of now]
  have "\<forall>x \<in> set ls. lookupLease (restoreLease now l m) (sl_Key x) = None"
    using Cons.prems(2,3) by (simp add: step(1)) (metis imageI)
  note IH = Cons.IH [OF wf_restore [OF Cons.prems(1)] _ this]
  have "find (\<lambda>x. sl_Key x = sl_Key l \<and> restorable now x) ls = None"
    using Cons.prems(2) by (simp add: find_None_iff) (metis imageI)
  then show ?case using IH Cons.prems(2) step by (auto split: option.split)
qed simp

lemma restores_cap: "lm_maxEntries (fold (restoreLease now) ls m) = lm_maxEntries m"
  by (induction ls arbitrary: m) simp_all

lemma snapshot_member:
  assumes "lease_wf m"
  shows "l \<in> set (PersistenceSnapshot now m) \<longleftrightarrow> lookupLease m (sl_Key l) = Some l \<and> sl_ExpiresAt l > now"
proof -
  have at: "(k, a) \<in> set (lm_leases m) \<longleftrightarrow> map_of (lm_leases m) k = Some a" for k a
    using lease_wfD(1) [OF assms] by (simp add: map_of_eq_Some_iff)
  have "l \<in> set (PersistenceSnapshot now m) \<longleftrightarrow> (\<exists>e \<in> set (lm_leases m). l = leaseAt m (snd e)) \<and> sl_ExpiresAt l > now"
    unfolding PersistenceSnapshot_def by auto
  moreover have "(\<exists>e \<in> set (lm_leases m). l = leaseAt m (snd e)) \<longleftrightarrow> (\<exists>k a. map_of (lm_leases m) k = Some a \<and> l = leaseAt m a)"
    by (metis at prod.collapse snd_conv)
  moreover have "(\<exists>k a. map_of (lm_leases m) k = Some a \<and> l = leaseAt m a) \<longleftrightarrow> lookupLease m (sl_Key l) = Some l"
  proof
    assume "\<exists>k a. map_of (lm_leases m) k = Some a \<and> l = leaseAt m a"
    then obtain k a where a: "map_of (lm_leases m) k = Some a" "l = leaseAt m a" by blast
    then have "sl_Key l = k" using lease_wfD(6) [OF assms a(1)] by simp
    then show "lookupLease m (sl_Key l) = Some l" using a by (simp add: lookupLease_def)
  qed (auto simp: lookupLease_def)
  ultimately show ?thesis by blast
qed

lemma snapshot_keys: "lease_wf m \<Longrightarrow> distinct (map sl_Key (PersistenceSnapshot now m))"
proof -
  assume wf: "lease_wf m"
  have "map sl_Key (map (leaseAt m \<circ> snd) (lm_leases m)) = map fst (lm_leases m)"
    using lease_wfD(6) [OF wf] lease_wfD(1) [OF wf] by (auto simp: map_of_eq_Some_iff)
  then show ?thesis
    using lease_wfD(1) [OF wf] unfolding PersistenceSnapshot_def by (metis distinct_map_filter)
qed

lemma snapshot_find:
  assumes "lease_wf m"
  shows "find (\<lambda>l. sl_Key l = k \<and> restorable now l) (PersistenceSnapshot now m) =
    (case lookupLease m k of Some l \<Rightarrow> if restorable now l then Some l else None | None \<Rightarrow> None)"
    (is "find ?P ?ls = _")
proof (cases "find ?P ?ls")
  case None
  have "\<not> restorable now l" if l: "lookupLease m k = Some l" for l
  proof
    assume r: "restorable now l"
    have "sl_Key l = k" using l lease_wfD(6) [OF assms] by (auto simp: lookupLease_def)
    then have "l \<in> set ?ls" using l r snapshot_member [OF assms, of l now] by (simp add: restorable_def)
    then show False using None r \<open>sl_Key l = k\<close> by (auto simp: find_None_iff)
  qed
  then show ?thesis using None by (simp split: option.split)
next
  case (Some l)
  then have "l \<in> set ?ls" "sl_Key l = k" "restorable now l" by (blast dest: find_SomeD)+
  then have "lookupLease m k = Some l" using snapshot_member [OF assms, of l now] by simp
  then show ?thesis using Some \<open>restorable now l\<close> by simp
qed

text \<open>The persisted snapshot brings the leases back: restored into a new manager with room for
  them, every session has exactly the lease it had, unless that had expired or had no valid node
  handle.\<close>

theorem restore_after_snapshot:
  assumes wf: "lease_wf m" and room: "length (lm_leases m) \<le> nat cap" and "0 < cap"
  shows "lookupLease (RestorePersistence (PersistenceSnapshot now m) now (NewSessionLeaseManager cap)) k =
    (case lookupLease m k of
       Some l \<Rightarrow> if restorable now l then Some l else None
     | None \<Rightarrow> None)"
proof -
  let ?ls = "PersistenceSnapshot now m" and ?n = "NewSessionLeaseManager cap"
  let ?f = "fold (restoreLease now) ?ls ?n"
  have n: "lease_wf ?n" using inv_new_manager by (simp add: lease_inv_def)
  have e: "lm_leases ?n = []" "lm_maxEntries ?n = nat cap" using assms(3) by (simp_all add: NewSessionLeaseManager_def)
  have none: "lookupLease ?n x = None" for x by (simp add: lookupLease_def e)
  have res: "lookupLease ?f k = (case find (\<lambda>l. sl_Key l = k \<and> restorable now l) ?ls of Some l \<Rightarrow> Some l | None \<Rightarrow> None)"
      "length (lm_leases ?f) \<le> length ?ls"
    using lookup_restores [OF n snapshot_keys [OF wf], of now now k] unfolding none e by simp_all
  have "length ?ls \<le> length (lm_leases m)" unfolding PersistenceSnapshot_def by (metis length_filter_le length_map)
  then have "length (lm_leases ?f) \<le> lm_maxEntries ?f" using res(2) room unfolding restores_cap e by linarith
  then have "evictLeases ?f = ?f" by (subst evictLeases.simps) simp
  then show ?thesis
    using res(1) unfolding snapshot_find [OF wf] RestorePersistence_def by (simp split: option.split)
qed

theorem restore_after_snapshot_witness:
  "lookupLease (RestorePersistence (PersistenceSnapshot 20 (ls_manager busySystem)) 20 (NewSessionLeaseManager 4)) 3 =
    (case lookupLease (ls_manager busySystem) 3 of
       Some l \<Rightarrow> if restorable 20 l then Some l else None
     | None \<Rightarrow> None)"
  by (rule restore_after_snapshot [OF tidy_wf [OF orderly_run [OF sampleStart_init busySystem_reach, THEN conjunct2]]])
    code_simp+

end
