(* ===== verification/Scheduler_Owner.thy ===== *)
theory Scheduler_Owner
  imports Transport
begin

text \<open>
  Which runtime epoch may run probes (\<^verbatim>\<open>SchedulerCoordinator\<close> of
  \<^verbatim>\<open>protocol/group/adaptive/scheduler.go\<close>). A claim hands out an ownership token and
  revokes the one before. The four channels of a token are only ever closed, so each is a flag.
  A token is named by its index in the list of all tokens issued, and the channel a coordinator
  or a goroutine holds by the token it belongs to. The two goroutines a claim starts are steps of
  their own. The main result: the scheduler of a new owner may dispatch only once the scheduler
  of every earlier owner has ended, and it may then.
\<close>

section \<open>Data\<close>

type_synonym epoch_id = nat

record scheduler_stats =
  ss_accepted :: nat
  ss_coalesced :: nat
  ss_deferred :: nat
  ss_rejected :: nat
  ss_completed :: nat
  ss_stalled :: nat

definition zeroStats :: scheduler_stats where
  "zeroStats = \<lparr>ss_accepted = 0, ss_coalesced = 0, ss_deferred = 0, ss_rejected = 0, ss_completed = 0, ss_stalled = 0\<rparr>"

record owner_token =
  ot_EpochID :: epoch_id
  ot_Generation :: nat
  ot_revoke :: bool
  ot_done :: bool
  ot_ready :: bool
  ot_drained :: bool
  ot_waits :: "nat option"  \<comment> \<open>the token whose \<open>drained\<close> channel the first goroutine waits on\<close>

record coordinator =
  sc_owner :: epoch_id
  sc_generation :: nat
  sc_token :: "nat option"
  sc_drain :: "nat option"
  sc_stats :: scheduler_stats
  sc_tokens :: "owner_token list"  \<comment> \<open>every token issued, oldest first\<close>

definition newCoordinator :: coordinator where
  "newCoordinator = \<lparr>sc_owner = 0, sc_generation = 0, sc_token = None, sc_drain = None, sc_stats = zeroStats, sc_tokens = []\<rparr>"

section \<open>Operations\<close>

definition tokenDrained :: "coordinator \<Rightarrow> nat \<Rightarrow> bool" where
  "tokenDrained c i \<longleftrightarrow> i < length (sc_tokens c) \<and> ot_drained (sc_tokens c ! i)"

definition cleanupState :: "coordinator \<Rightarrow> nat option \<times> bool" where
  "cleanupState c =
     (if sc_owner c \<noteq> 0 \<or> sc_token c \<noteq> None then (sc_drain c, False)
      else case sc_drain c of
          None \<Rightarrow> (None, True)
        | Some i \<Rightarrow> (Some i, tokenDrained c i))"

definition updateToken :: "nat \<Rightarrow> (owner_token \<Rightarrow> owner_token) \<Rightarrow> coordinator \<Rightarrow> coordinator" where
  "updateToken i f c = (if i < length (sc_tokens c) then c\<lparr>sc_tokens := (sc_tokens c)[i := f (sc_tokens c ! i)]\<rparr> else c)"

definition markDone :: "nat \<Rightarrow> coordinator \<Rightarrow> coordinator" where
  "markDone i = updateToken i (ot_done_update (\<lambda>_. True))"

definition revokeOwner :: "nat \<Rightarrow> coordinator \<Rightarrow> coordinator" where
  "revokeOwner i = updateToken i (ot_revoke_update (\<lambda>_. True))"

definition claimToken :: "epoch_id \<Rightarrow> nat \<Rightarrow> nat option \<Rightarrow> owner_token" where
  "claimToken epochID generation previousDrain =
     \<lparr>ot_EpochID = epochID, ot_Generation = generation, ot_revoke = False, ot_done = False,
      ot_ready = (previousDrain = None), ot_drained = False, ot_waits = previousDrain\<rparr>"

definition Claim :: "epoch_id \<Rightarrow> coordinator \<Rightarrow> coordinator \<times> nat option" where
  \<comment> \<open>no token: the epoch is zero\<close>
  "Claim epochID c =
     (if epochID = 0 then (c, None)
      else if sc_owner c = epochID \<and> sc_token c \<noteq> None then (c, sc_token c)
      else
        let c1 = (case sc_token c of None \<Rightarrow> c | Some i \<Rightarrow> revokeOwner i c);
            generation = inc64 (sc_generation c1);
            nxt = length (sc_tokens c1)
        in (c1\<lparr>sc_generation := generation, sc_owner := epochID, sc_token := Some nxt, sc_drain := Some nxt,
              sc_tokens := sc_tokens c1 @ [claimToken epochID generation (sc_drain c)]\<rparr>, Some nxt))"

definition ReleaseOwner :: "epoch_id \<Rightarrow> nat \<Rightarrow> coordinator \<Rightarrow> coordinator" where
  \<comment> \<open>\<open>SchedulerCoordinator.Release\<close>\<close>
  "ReleaseOwner epochID generation c =
     (case sc_token c of
        None \<Rightarrow> c
      | Some i \<Rightarrow>
          if sc_owner c = epochID \<and> sc_generation c = generation
          then (revokeOwner i c)\<lparr>sc_owner := 0, sc_token := None\<rparr> else c)"

definition IsOwner :: "nat option \<Rightarrow> coordinator \<Rightarrow> bool" where
  "IsOwner token c \<longleftrightarrow>
     (case token of
        None \<Rightarrow> False
      | Some i \<Rightarrow> sc_token c = Some i \<and> i < length (sc_tokens c)
          \<and> sc_owner c = ot_EpochID (sc_tokens c ! i) \<and> sc_generation c = ot_Generation (sc_tokens c ! i))"

definition coordinatorStats :: "coordinator \<Rightarrow> epoch_id \<times> nat \<times> scheduler_stats" where
  "coordinatorStats c = (sc_owner c, sc_generation c, sc_stats c)"

definition openReady :: "nat \<Rightarrow> coordinator \<Rightarrow> coordinator" where
  \<comment> \<open>\<open><-previousDrain; close(next.ready)\<close>\<close>
  "openReady i = updateToken i (ot_ready_update (\<lambda>_. True))"

definition closeDrained :: "nat \<Rightarrow> coordinator \<Rightarrow> coordinator" where
  \<comment> \<open>\<open><-next.ready; <-next.done; close(next.drained)\<close>\<close>
  "closeDrained i = updateToken i (ot_drained_update (\<lambda>_. True))"

section \<open>Steps\<close>

inductive goroutine_step :: "coordinator \<Rightarrow> coordinator \<Rightarrow> bool" where
  ready: "i < length (sc_tokens c) \<Longrightarrow> ot_waits (sc_tokens c ! i) = Some j \<Longrightarrow> tokenDrained c j \<Longrightarrow>
    goroutine_step c (openReady i c)"
| drained: "i < length (sc_tokens c) \<Longrightarrow> ot_ready (sc_tokens c ! i) \<Longrightarrow> ot_done (sc_tokens c ! i) \<Longrightarrow>
    goroutine_step c (closeDrained i c)"

inductive owner_step :: "coordinator \<Rightarrow> coordinator \<Rightarrow> bool" where
  claim: "sc_generation c < 2 ^ 64 - 1 \<Longrightarrow> owner_step c (fst (Claim e c))"
| release: "owner_step c (ReleaseOwner e g c)"
| finish: "owner_step c (markDone i c)"
| background: "goroutine_step c c' \<Longrightarrow> owner_step c c'"

inductive_cases goroutine_stepE: "goroutine_step c c'"

section \<open>The invariant\<close>

definition token_ok :: "coordinator \<Rightarrow> nat \<Rightarrow> bool" where
  "token_ok c i \<longleftrightarrow>
     (let t = sc_tokens c ! i in
      ot_waits t = (if i = 0 then None else Some (i - 1)) \<and> ot_Generation t = Suc i \<and> ot_EpochID t \<noteq> 0
      \<and> (ot_ready t \<longrightarrow> i = 0 \<or> ot_drained (sc_tokens c ! (i - 1)))
      \<and> (ot_drained t \<longrightarrow> ot_ready t \<and> ot_done t))"

definition coord_ok :: "coordinator \<Rightarrow> bool" where
  "coord_ok c \<longleftrightarrow>
     (\<forall>i < length (sc_tokens c). token_ok c i)
     \<and> sc_generation c = length (sc_tokens c)
     \<and> sc_drain c = (if sc_tokens c = [] then None else Some (length (sc_tokens c) - 1))
     \<and> (\<forall>i. sc_token c = Some i \<longrightarrow> Suc i = length (sc_tokens c) \<and> sc_owner c = ot_EpochID (sc_tokens c ! i))
     \<and> (sc_token c = None \<longrightarrow> sc_owner c = 0)
     \<and> (sc_tokens c \<noteq> [] \<longrightarrow> ot_ready (sc_tokens c ! 0))
     \<and> (\<forall>i < length (sc_tokens c). sc_token c \<noteq> Some i \<longrightarrow> ot_revoke (sc_tokens c ! i))"

lemma coord_tokens:
  "coord_ok c \<Longrightarrow> i < length (sc_tokens c) \<Longrightarrow> token_ok c i"
  by (simp add: coord_ok_def)

lemma update_fields [simp]:
  "sc_owner (updateToken i f c) = sc_owner c" "sc_generation (updateToken i f c) = sc_generation c"
  "sc_token (updateToken i f c) = sc_token c" "sc_drain (updateToken i f c) = sc_drain c"
  "length (sc_tokens (updateToken i f c)) = length (sc_tokens c)" "sc_stats (updateToken i f c) = sc_stats c"
  by (simp_all add: updateToken_def)

lemma update_nth:
  "j < length (sc_tokens c) \<Longrightarrow> sc_tokens (updateToken i f c) ! j = (if j = i then f (sc_tokens c ! j) else sc_tokens c ! j)"
  by (simp add: updateToken_def nth_list_update)

lemma update_empty [simp]: "sc_tokens (updateToken i f c) = [] \<longleftrightarrow> sc_tokens c = []"
  by (metis update_fields(5) length_0_conv)

lemma coord_update:
  assumes ok: "coord_ok c"
    and f: "\<And>t. ot_waits (f t) = ot_waits t \<and> ot_Generation (f t) = ot_Generation t \<and> ot_EpochID (f t) = ot_EpochID t
        \<and> (ot_revoke t \<longrightarrow> ot_revoke (f t)) \<and> (ot_done t \<longrightarrow> ot_done (f t)) \<and> (ot_ready t \<longrightarrow> ot_ready (f t)) \<and> (ot_drained t \<longrightarrow> ot_drained (f t))"
    and ready: "\<And>t. i < length (sc_tokens c) \<Longrightarrow> t = sc_tokens c ! i \<Longrightarrow> ot_ready (f t) \<Longrightarrow> ot_ready t \<or> 0 < i \<and> ot_drained (sc_tokens c ! (i - 1))"
    and drained: "\<And>t. i < length (sc_tokens c) \<Longrightarrow> t = sc_tokens c ! i \<Longrightarrow> ot_drained (f t) \<Longrightarrow> ot_ready t \<and> ot_done t"
  shows "coord_ok (updateToken i f c)"
proof -
  let ?old = "\<lambda>k. sc_tokens c ! k" and ?new = "\<lambda>k. sc_tokens (updateToken i f c) ! k"
  have mono: "ot_waits (?new k) = ot_waits (?old k) \<and> ot_Generation (?new k) = ot_Generation (?old k)
      \<and> ot_EpochID (?new k) = ot_EpochID (?old k) \<and> (ot_revoke (?old k) \<longrightarrow> ot_revoke (?new k)) \<and> (ot_done (?old k) \<longrightarrow> ot_done (?new k))
      \<and> (ot_ready (?old k) \<longrightarrow> ot_ready (?new k)) \<and> (ot_drained (?old k) \<longrightarrow> ot_drained (?new k))"
    if "k < length (sc_tokens c)" for k
    using f [of "?old k"] that by (cases "k = i") (simp_all add: update_nth)
  have grow: "ot_ready (?new k) \<longrightarrow> ot_ready (?old k) \<or> 0 < k \<and> ot_drained (?old (k - 1))"
      "ot_drained (?new k) \<longrightarrow> ot_drained (?old k) \<or> ot_ready (?old k) \<and> ot_done (?old k)"
    if "k < length (sc_tokens c)" for k
    using ready [OF _ refl] drained [OF _ refl] that by (cases "k = i"; simp add: update_nth)+
  have "token_ok (updateToken i f c) j" if j: "j < length (sc_tokens c)" for j
  proof -
    have j1: "j - 1 < length (sc_tokens c)" using j by simp
    show ?thesis
      using coord_tokens [OF ok j] mono [OF j] mono [OF j1] grow [OF j] unfolding token_ok_def Let_def by metis
  qed
  moreover have "ot_revoke (sc_tokens (updateToken i f c) ! j)" if "j < length (sc_tokens c)" "sc_token c \<noteq> Some j" for j
    using ok mono [of j] that by (auto simp: coord_ok_def)
  moreover have "sc_owner c = ot_EpochID (sc_tokens (updateToken i f c) ! j)" if "sc_token c = Some j" for j
  proof -
    have "j < length (sc_tokens c)" "sc_owner c = ot_EpochID (sc_tokens c ! j)" using ok that by (auto simp: coord_ok_def)
    then show ?thesis using mono [of j] by metis
  qed
  moreover have "ot_ready (sc_tokens (updateToken i f c) ! 0)" if "sc_tokens c \<noteq> []"
    using ok mono [of 0] that by (auto simp: coord_ok_def)
  ultimately show ?thesis using ok by (simp add: coord_ok_def)
qed

lemma coord_revoke: "coord_ok c \<Longrightarrow> coord_ok (revokeOwner i c)"
  unfolding revokeOwner_def by (rule coord_update) (auto simp: coord_ok_def token_ok_def Let_def)

lemma coord_done: "coord_ok c \<Longrightarrow> coord_ok (markDone i c)"
  unfolding markDone_def by (rule coord_update) (auto simp: coord_ok_def token_ok_def Let_def)

lemma coord_goroutine:
  assumes "goroutine_step c c'" and ok: "coord_ok c"
  shows "coord_ok c'"
  using assms(1)
proof (cases rule: goroutine_step.cases)
  case (ready i j)
  have "token_ok c i" by (rule coord_tokens [OF ok ready(2)])
  then have j: "0 < i" "j = i - 1" using ready(3) by (auto simp: token_ok_def Let_def split: if_splits)
  have d: "ot_drained (sc_tokens c ! (i - 1))" using ready(4) j by (simp add: tokenDrained_def)
  show ?thesis
    unfolding ready(1) openReady_def using coord_tokens [OF ok ready(2)] j d
    by (intro coord_update [OF ok]) (auto simp: token_ok_def Let_def)
next
  case (drained i)
  show ?thesis
    unfolding drained(1) closeDrained_def using coord_tokens [OF ok drained(2)] drained(3,4)
    by (intro coord_update [OF ok]) (auto simp: token_ok_def Let_def)
qed

lemma coord_claim:
  assumes ok: "coord_ok c" and g: "sc_generation c < 2 ^ 64 - 1"
  shows "coord_ok (fst (Claim e c))"
proof (cases "e = 0 \<or> sc_owner c = e \<and> sc_token c \<noteq> None")
  case True
  then show ?thesis using ok by (auto simp: Claim_def)
next
  case False
  define c1 where "c1 = (case sc_token c of None \<Rightarrow> c | Some i \<Rightarrow> revokeOwner i c)"
  have c1: "coord_ok c1" "sc_drain c1 = sc_drain c" "sc_generation c1 = sc_generation c"
      "length (sc_tokens c1) = length (sc_tokens c)"
    using coord_revoke [OF ok] ok by (auto simp: c1_def revokeOwner_def split: option.split)
  have rev: "ot_revoke (sc_tokens c1 ! i)" if i: "i < length (sc_tokens c1)" for i
  proof (cases "sc_token c = Some i")
    case True
    then show ?thesis using i c1(4) by (simp add: c1_def revokeOwner_def update_nth)
  next
    case False
    moreover have "sc_token c1 = sc_token c" by (simp add: c1_def revokeOwner_def split: option.split)
    ultimately show ?thesis using c1(1) i by (simp add: coord_ok_def)
  qed
  let ?t = "claimToken e (inc64 (sc_generation c)) (sc_drain c)"
  let ?c = "c1\<lparr>sc_generation := inc64 (sc_generation c), sc_owner := e, sc_token := Some (length (sc_tokens c1)),
    sc_drain := Some (length (sc_tokens c1)), sc_tokens := sc_tokens c1 @ [?t]\<rparr>"
  have eq: "fst (Claim e c) = ?c"
    unfolding c1(3) [symmetric] using False unfolding Claim_def Let_def c1_def [symmetric] by auto
  have n: "inc64 (sc_generation c) = Suc (length (sc_tokens c1))"
    using inc64_less [OF g] ok c1(4) by (simp add: coord_ok_def)
  have nth: "sc_tokens ?c ! i = sc_tokens c1 ! i" if "i < length (sc_tokens c1)" for i
    using that by (simp add: nth_append)
  have old: "token_ok ?c i" if i: "i < length (sc_tokens c1)" for i
  proof -
    have "i - 1 < length (sc_tokens c1)" using i by simp
    then show ?thesis using coord_tokens [OF c1(1) i] unfolding token_ok_def nth [OF i] by (simp only: nth)
  qed
  have last: "sc_tokens ?c ! length (sc_tokens c1) = ?t" by simp
  have drain: "sc_drain c = (if length (sc_tokens c1) = 0 then None else Some (length (sc_tokens c1) - 1))"
    using ok c1(4) by (auto simp: coord_ok_def)
  have new: "token_ok ?c (length (sc_tokens c1))"
    unfolding token_ok_def last Let_def using False n drain by (auto simp: claimToken_def)
  have "token_ok ?c i" if "i < length (sc_tokens ?c)" for i
    using old new that by (cases "i < length (sc_tokens c1)") (auto simp: less_Suc_eq)
  moreover have "ot_ready (sc_tokens ?c ! 0)"
  proof (cases "sc_tokens c1 = []")
    case True
    then have "sc_drain c = None" using ok c1(4) by (simp add: coord_ok_def)
    then show ?thesis using True by (simp add: claimToken_def)
  next
    case False
    then show ?thesis using c1(1) by (simp add: coord_ok_def nth_append)
  qed
  moreover have "ot_revoke (sc_tokens ?c ! i)" if "i < length (sc_tokens ?c)" "sc_token ?c \<noteq> Some i" for i
    using rev [of i] that by (simp add: nth_append)
  ultimately have "coord_ok ?c" unfolding coord_ok_def using n by (simp add: nth_append claimToken_def)
  then show ?thesis unfolding eq .
qed

lemma coord_release: "coord_ok c \<Longrightarrow> coord_ok (ReleaseOwner e g c)"
proof (cases "sc_token c")
  case (Some i)
  assume ok: "coord_ok c"
  have i: "Suc i = length (sc_tokens c)" using ok Some by (simp add: coord_ok_def)
  let ?c = "(revokeOwner i c)\<lparr>sc_owner := 0, sc_token := None\<rparr>"
  have r: "coord_ok (revokeOwner i c)" by (rule coord_revoke [OF ok])
  have t: "token_ok ?c j = token_ok (revokeOwner i c) j" for j by (simp add: token_ok_def Let_def)
  have "ot_revoke (sc_tokens (revokeOwner i c) ! j)" if "j < length (sc_tokens c)" for j
    using ok that Some by (cases "j = i") (auto simp: coord_ok_def revokeOwner_def update_nth)
  then have "coord_ok ?c" using r unfolding coord_ok_def t by (simp add: revokeOwner_def)
  then show ?thesis using ok Some by (simp add: ReleaseOwner_def)
qed (simp add: ReleaseOwner_def)

interpretation owner_run: transition_system "\<lambda>c. c = newCoordinator" owner_step coord_ok
proof unfold_locales
  show "coord_ok c" if "c = newCoordinator" for c using that by (simp add: coord_ok_def newCoordinator_def)
  show "coord_ok c'" if "owner_step c c'" "coord_ok c" for c c'
    using that by (cases rule: owner_step.cases)
      (auto intro: coord_claim coord_release coord_done coord_goroutine)
qed

section \<open>One owner at a time\<close>

lemma ready_drained:
  assumes ok: "coord_ok c" and "j < length (sc_tokens c)" and "ot_ready (sc_tokens c ! j)" and "i < j"
  shows "ot_drained (sc_tokens c ! i) \<and> ot_done (sc_tokens c ! i)"
  using assms(2-4)
proof (induction j)
  case (Suc j)
  have "ot_drained (sc_tokens c ! j)" using coord_tokens [OF ok Suc.prems(1)] Suc.prems(2) by (simp add: token_ok_def Let_def)
  then have "ot_ready (sc_tokens c ! j)" "ot_done (sc_tokens c ! j)" "ot_drained (sc_tokens c ! j)"
    using coord_tokens [OF ok, of j] Suc.prems(1) by (auto simp: token_ok_def Let_def)
  then show ?case using Suc by (cases "i = j") auto
qed simp

text \<open>C13. Ownership of the probe schedulers is exclusive: in every run of a coordinator, when the
  scheduler of a token may dispatch, the scheduler and the workers of every token issued before
  have ended, and only the newest token can be the owner.\<close>

theorem scheduler_owners_exclusive:
  assumes "owner_step\<^sup>*\<^sup>* newCoordinator c" and "j < length (sc_tokens c)" and "i < j"
  shows "(ot_ready (sc_tokens c ! j) \<longrightarrow> ot_done (sc_tokens c ! i) \<and> ot_revoke (sc_tokens c ! i))
    \<and> \<not> IsOwner (Some i) c"
proof -
  have ok: "coord_ok c" by (rule owner_run.reach_inv [OF refl assms(1)])
  have "sc_token c \<noteq> Some i" using ok assms(2,3) by (auto simp: coord_ok_def)
  moreover from this have "ot_revoke (sc_tokens c ! i)" using ok assms(2,3) by (simp add: coord_ok_def)
  ultimately show ?thesis using ready_drained [OF ok assms(2) _ assms(3)] by (auto simp: IsOwner_def)
qed

definition twoOwners :: coordinator where
  "twoOwners = fst (Claim 2 (fst (Claim 1 newCoordinator)))"

lemma twoOwners_reach: "owner_step\<^sup>*\<^sup>* newCoordinator twoOwners"
proof -
  have "owner_step newCoordinator (fst (Claim 1 newCoordinator))"
    by (rule owner_step.claim) (simp add: newCoordinator_def)
  moreover have "owner_step (fst (Claim 1 newCoordinator)) twoOwners"
    unfolding twoOwners_def by (rule owner_step.claim) (simp add: newCoordinator_def Claim_def inc64_def)
  ultimately show ?thesis by (meson rtranclp.simps)
qed

definition finishedOwner :: coordinator where
  "finishedOwner = markDone 0 twoOwners"

lemma finishedOwner_reach: "owner_step\<^sup>*\<^sup>* newCoordinator finishedOwner"
  unfolding finishedOwner_def using twoOwners_reach owner_step.finish [of twoOwners 0] by simp

definition drainedOwner :: coordinator where
  "drainedOwner = closeDrained 0 finishedOwner"

definition secondReady :: coordinator where
  "secondReady = openReady 1 drainedOwner"

lemma secondReady_reach: "owner_step\<^sup>*\<^sup>* newCoordinator secondReady"
proof -
  have "goroutine_step finishedOwner drainedOwner"
    unfolding drainedOwner_def by (rule goroutine_step.drained) code_simp+
  moreover have "goroutine_step drainedOwner secondReady"
    unfolding secondReady_def by (rule goroutine_step.ready [where j = 0]) code_simp+
  ultimately show ?thesis using finishedOwner_reach by (meson owner_step.background rtranclp.rtrancl_into_rtrancl)
qed

theorem scheduler_owners_exclusive_witness:
  "ot_ready (sc_tokens secondReady ! 1) \<and> ot_done (sc_tokens secondReady ! 0) \<and> ot_revoke (sc_tokens secondReady ! 0)
    \<and> \<not> IsOwner (Some 0) secondReady"
proof -
  have "1 < length (sc_tokens secondReady)" and "ot_ready (sc_tokens secondReady ! 1)" by code_simp+
  then show ?thesis using scheduler_owners_exclusive [OF secondReady_reach, of 1 0] by simp
qed

section \<open>Every owner gets its turn\<close>

lemma drain_next:
  assumes ok: "coord_ok c" and i: "i < length (sc_tokens c)" and "ot_done (sc_tokens c ! i)"
    and "\<forall>k < i. ot_drained (sc_tokens c ! k)"
  shows "\<exists>c'. goroutine_step\<^sup>*\<^sup>* c c' \<and> ot_drained (sc_tokens c' ! i) \<and> ot_ready (sc_tokens c' ! i)
    \<and> length (sc_tokens c') = length (sc_tokens c) \<and> (\<forall>k. k \<noteq> i \<longrightarrow> k < length (sc_tokens c) \<longrightarrow> sc_tokens c' ! k = sc_tokens c ! k)"
proof -
  let ?c1 = "openReady i c"
  have 1: "goroutine_step\<^sup>*\<^sup>* c ?c1 \<or> (i = 0 \<and> ot_ready (sc_tokens c ! 0))"
  proof (cases i)
    case 0
    then show ?thesis using ok i by (auto simp: coord_ok_def)
  next
    case (Suc k)
    have "ot_waits (sc_tokens c ! i) = Some k" using coord_tokens [OF ok i] Suc by (simp add: token_ok_def Let_def)
    then show ?thesis using assms(4) i Suc by (auto intro!: goroutine_step.ready simp: tokenDrained_def)
  qed
  have eq: "?c1 = c" if "ot_ready (sc_tokens c ! i)"
    using that i by (cases c) (simp add: openReady_def updateToken_def list_update_same_conv)
  have r: "goroutine_step\<^sup>*\<^sup>* c ?c1" using 1 eq by auto
  have "goroutine_step ?c1 (closeDrained i ?c1)"
    using i assms(3) by (intro goroutine_step.drained) (simp_all add: openReady_def update_nth)
  with r have "goroutine_step\<^sup>*\<^sup>* c (closeDrained i ?c1)" by simp
  then show ?thesis using i by (intro exI [of _ "closeDrained i ?c1"]) (simp add: closeDrained_def openReady_def update_nth)
qed

lemma goroutine_ok: "goroutine_step\<^sup>*\<^sup>* c c' \<Longrightarrow> coord_ok c \<Longrightarrow> coord_ok c'"
  by (induction rule: rtranclp_induct) (auto intro: coord_goroutine)

lemma drain_all:
  assumes "coord_ok c" and "n \<le> length (sc_tokens c)" and "\<forall>i < n. ot_done (sc_tokens c ! i)"
  shows "\<exists>c'. goroutine_step\<^sup>*\<^sup>* c c' \<and> (\<forall>i < n. ot_drained (sc_tokens c' ! i)) \<and> length (sc_tokens c') = length (sc_tokens c)
    \<and> (\<forall>k. n \<le> k \<longrightarrow> k < length (sc_tokens c) \<longrightarrow> sc_tokens c' ! k = sc_tokens c ! k)"
  using assms
proof (induction n)
  case (Suc n)
  then obtain c1 where c1: "goroutine_step\<^sup>*\<^sup>* c c1" "\<forall>i < n. ot_drained (sc_tokens c1 ! i)" "length (sc_tokens c1) = length (sc_tokens c)"
      "\<forall>k. n \<le> k \<longrightarrow> k < length (sc_tokens c) \<longrightarrow> sc_tokens c1 ! k = sc_tokens c ! k"
    by auto
  have "coord_ok c1" by (rule goroutine_ok [OF c1(1) Suc.prems(1)])
  moreover have "ot_done (sc_tokens c1 ! n)" using Suc.prems(2,3) c1(4) by simp
  ultimately obtain c2 where c2: "goroutine_step\<^sup>*\<^sup>* c1 c2" "ot_drained (sc_tokens c2 ! n)" "length (sc_tokens c2) = length (sc_tokens c1)"
      "\<forall>k. k \<noteq> n \<longrightarrow> k < length (sc_tokens c1) \<longrightarrow> sc_tokens c2 ! k = sc_tokens c1 ! k"
    using drain_next [of c1 n] c1 Suc.prems(2) by auto
  have "goroutine_step\<^sup>*\<^sup>* c c2" using c1(1) c2(1) by simp
  moreover have "\<forall>i < Suc n. ot_drained (sc_tokens c2 ! i)" using c1 c2 Suc.prems(2) by (simp add: less_Suc_eq)
  moreover have "\<forall>k. Suc n \<le> k \<longrightarrow> k < length (sc_tokens c) \<longrightarrow> sc_tokens c2 ! k = sc_tokens c ! k"
    using c1 c2 by simp
  ultimately show ?case using c1(3) c2(3) by (intro exI [of _ c2]) simp
qed auto

text \<open>C32. Ownership is handed over without a deadlock: in every run, once the schedulers of all
  earlier tokens have ended, the goroutines of the coordinator alone, without any further call,
  can make the scheduler of a token ready.\<close>

theorem scheduler_owner_gets_turn:
  assumes "owner_step\<^sup>*\<^sup>* newCoordinator c" and j: "j < length (sc_tokens c)"
    and "\<forall>i < j. ot_done (sc_tokens c ! i)"
  shows "\<exists>c'. goroutine_step\<^sup>*\<^sup>* c c' \<and> ot_ready (sc_tokens c' ! j)"
proof -
  have ok: "coord_ok c" by (rule owner_run.reach_inv [OF refl assms(1)])
  obtain c1 where c1: "goroutine_step\<^sup>*\<^sup>* c c1" "\<forall>i < j. ot_drained (sc_tokens c1 ! i)" "length (sc_tokens c1) = length (sc_tokens c)"
    using drain_all [OF ok _ assms(3)] j by auto
  have ok1: "coord_ok c1" by (rule goroutine_ok [OF c1(1) ok])
  show ?thesis
  proof (cases j)
    case 0
    then show ?thesis using ok j by (auto simp: coord_ok_def)
  next
    case (Suc k)
    have "ot_waits (sc_tokens c1 ! j) = Some k" using coord_tokens [OF ok1, of j] j c1(3) Suc by (simp add: token_ok_def Let_def)
    then have "goroutine_step c1 (openReady j c1)"
      using c1 j Suc by (intro goroutine_step.ready) (auto simp: tokenDrained_def)
    moreover have "ot_ready (sc_tokens (openReady j c1) ! j)" using j c1(3) by (simp add: openReady_def update_nth)
    ultimately show ?thesis using c1(1) by (meson rtranclp.rtrancl_into_rtrancl)
  qed
qed

theorem scheduler_owner_gets_turn_witness:
  "\<not> ot_ready (sc_tokens finishedOwner ! 1) \<and> (\<exists>c'. goroutine_step\<^sup>*\<^sup>* finishedOwner c' \<and> ot_ready (sc_tokens c' ! 1))"
proof
  show "\<not> ot_ready (sc_tokens finishedOwner ! 1)" by code_simp
  have "ot_done (sc_tokens finishedOwner ! 0)" by code_simp
  then show "\<exists>c'. goroutine_step\<^sup>*\<^sup>* finishedOwner c' \<and> ot_ready (sc_tokens c' ! 1)"
    by (intro scheduler_owner_gets_turn [OF finishedOwner_reach]) (code_simp, simp)
qed

end
