(* ===== verification/Runtime_Identity.thy ===== *)
theory Runtime_Identity
  imports Scheduler_Owner
begin

text \<open>
  Stable node identities (\<^verbatim>\<open>protocol/group/adaptive/runtime_manager.go\<close>): how a new
  catalog snapshot is turned into node handles. A node keeps its slot as long as its lineage is
  remembered, its version grows whenever it comes back or changed, and the lineage of nodes that
  left is kept in a bounded queue. The main results: slots are unique, the queue is bounded, and a
  handle that was retired never becomes current again.
\<close>

section \<open>Data\<close>

type_synonym catalog_revision = nat

record identity_node =
  in_NodeID :: node_id
  in_IdentityStable :: bool

record identity_snapshot =
  is_SourceGeneration :: nat
  is_Nodes :: "identity_node list"

record version_transition =
  vt_Previous :: node_handle
  vt_Current :: node_handle

record runtime_identity =
  ri_EpochID :: epoch_id
  ri_Revision :: catalog_revision
  ri_SourceGeneration :: nat
  ri_Handles :: "(node_id, node_handle) gomap"
  ri_RetiredHandles :: "node_handle list"
  ri_VersionTransitions :: "version_transition list"

record node_lineage =
  nl_handle :: node_handle
  nl_presentInLatest :: bool

record retired_item =
  rt_nodeID :: node_id
  rt_revision :: catalog_revision

record stable_identity =
  si_nextEpoch :: epoch_id
  si_nextRevision :: catalog_revision
  si_nextSlot :: nat
  si_currentEpoch :: epoch_id
  si_lineage :: "(node_id, node_lineage) gomap"
  si_retired :: "retired_item list"
  si_retiredHead :: nat
  si_retiredQueued :: "(node_id, catalog_revision) gomap"
  si_maxRetired :: nat

datatype identity_error =
  SourceGenerationRequired | EmptyNode | DuplicateNode | StableGroupRequired | EpochNotCurrent
| EpochNotActive | SourceGenerationOutOfOrder | PreparedIdentityStale | NotCommittable | GroupNotPublished
| PersistedDependencyInvalid | PersistedCountersInvalid | PersistedLineageInvalid | PersistedDuplicateNode
| PersistedDuplicateSlot | PersistedRetiredExceedsBound

definition newStableIdentityState :: stable_identity where
  "newStableIdentityState =
     \<lparr>si_nextEpoch = 0, si_nextRevision = 0, si_nextSlot = 0, si_currentEpoch = 0, si_lineage = [],
      si_retired = [], si_retiredHead = 0, si_retiredQueued = [], si_maxRetired = 16384\<rparr>"

section \<open>Validation\<close>

fun validateNodes :: "node_id list \<Rightarrow> identity_node list \<Rightarrow> identity_error option" where
  "validateNodes seen [] = None"
| "validateNodes seen (node # nodes) =
     (if in_NodeID node = 0 then Some EmptyNode
      else if in_NodeID node \<in> set seen then Some DuplicateNode
      else validateNodes (in_NodeID node # seen) nodes)"

definition validateIdentitySnapshot :: "identity_snapshot \<Rightarrow> identity_error option" where
  "validateIdentitySnapshot snapshot =
     (if is_SourceGeneration snapshot = 0 then Some SourceGenerationRequired
      else validateNodes [] (is_Nodes snapshot))"

section \<open>Publishing a snapshot\<close>

record publish_state =
  ps_state :: stable_identity
  ps_handles :: "(node_id, node_handle) gomap"
  ps_retired :: "node_handle list"
  ps_transitions :: "version_transition list"

definition storeLineage :: "node_id \<Rightarrow> node_handle \<Rightarrow> publish_state \<Rightarrow> publish_state" where
  \<comment> \<open>the end of the loop body: the node is present and no longer queued\<close>
  "storeLineage nodeID handle p =
     p\<lparr>ps_state := (ps_state p)\<lparr>si_lineage := AList.update nodeID \<lparr>nl_handle = handle, nl_presentInLatest = True\<rparr> (si_lineage (ps_state p)),
         si_retiredQueued := AList.delete nodeID (si_retiredQueued (ps_state p))\<rparr>,
       ps_handles := AList.update nodeID handle (ps_handles p)\<rparr>"

definition publishNode :: "catalog_revision \<Rightarrow> identity_node \<Rightarrow> publish_state \<Rightarrow> publish_state" where
  "publishNode revision node p =
     (let s = ps_state p; nodeID = in_NodeID node in
      case map_of (si_lineage s) nodeID of
        None \<Rightarrow>
          let slot = inc64 (si_nextSlot s) in
          storeLineage nodeID \<lparr>nh_NodeID = nodeID, nh_Slot = slot, nh_Version = 1, nh_BornRevision = revision\<rparr>
            (p\<lparr>ps_state := s\<lparr>si_nextSlot := slot\<rparr>\<rparr>)
      | Some lineage \<Rightarrow>
          let previous = nl_handle lineage in
          if \<not> nl_presentInLatest lineage \<or> \<not> in_IdentityStable node
          then let current = previous\<lparr>nh_Version := inc64 (nh_Version previous), nh_BornRevision := revision\<rparr> in
            storeLineage nodeID current
              (p\<lparr>ps_retired := ps_retired p @ [previous],
                 ps_transitions := ps_transitions p @ [\<lparr>vt_Previous = previous, vt_Current = current\<rparr>]\<rparr>)
          else storeLineage nodeID previous p)"

definition retireNode :: "node_id set \<Rightarrow> catalog_revision \<Rightarrow> node_id \<Rightarrow> publish_state \<Rightarrow> publish_state" where
  \<comment> \<open>the body of the loop over the lineage: a node the snapshot no longer has\<close>
  "retireNode seen revision nodeID p =
     (let s = ps_state p in
      case map_of (si_lineage s) nodeID of
        None \<Rightarrow> p
      | Some lineage \<Rightarrow>
          if nodeID \<notin> seen \<and> nl_presentInLatest lineage
          then p\<lparr>ps_state := s\<lparr>si_lineage := AList.update nodeID (lineage\<lparr>nl_presentInLatest := False\<rparr>) (si_lineage s),
                   si_retired := si_retired s @ [\<lparr>rt_nodeID = nodeID, rt_revision = revision\<rparr>],
                   si_retiredQueued := AList.update nodeID revision (si_retiredQueued s)\<rparr>,
                 ps_retired := ps_retired p @ [nl_handle lineage]\<rparr>
          else p)"

definition forgetItem :: "retired_item \<Rightarrow> stable_identity \<Rightarrow> stable_identity" where
  \<comment> \<open>the body of the trimming loop, after the head moved on\<close>
  "forgetItem item s =
     (if (case map_of (si_retiredQueued s) (rt_nodeID item) of None \<Rightarrow> 0 | Some r \<Rightarrow> r) \<noteq> rt_revision item then s
      else
        let s1 = s\<lparr>si_retiredQueued := AList.delete (rt_nodeID item) (si_retiredQueued s)\<rparr> in
        case map_of (si_lineage s1) (rt_nodeID item) of
          None \<Rightarrow> s1
        | Some lineage \<Rightarrow>
            if \<not> nl_presentInLatest lineage then s1\<lparr>si_lineage := AList.delete (rt_nodeID item) (si_lineage s1)\<rparr> else s1)"

lemma forget_fields [simp]:
  "si_retired (forgetItem i s) = si_retired s" "si_retiredHead (forgetItem i s) = si_retiredHead s"
  "si_maxRetired (forgetItem i s) = si_maxRetired s" "si_nextSlot (forgetItem i s) = si_nextSlot s"
  "si_nextRevision (forgetItem i s) = si_nextRevision s" "si_nextEpoch (forgetItem i s) = si_nextEpoch s"
  "si_currentEpoch (forgetItem i s) = si_currentEpoch s"
  by (simp_all add: forgetItem_def Let_def split: option.split)

function trimRetired :: "stable_identity \<Rightarrow> stable_identity" where
  "trimRetired s =
     (if length (si_retired s) - si_retiredHead s > si_maxRetired s
      then trimRetired (forgetItem (si_retired s ! si_retiredHead s) (s\<lparr>si_retiredHead := si_retiredHead s + 1\<rparr>))
      else s)"
  by pat_completeness auto
termination
  by (relation "measure (\<lambda>s. length (si_retired s) - si_retiredHead s)") simp_all

declare trimRetired.simps [simp del]

definition compactRetired :: "stable_identity \<Rightarrow> stable_identity" where
  "compactRetired s =
     (if si_retiredHead s > 1024 \<and> si_retiredHead s * 2 > length (si_retired s)
      then s\<lparr>si_retired := drop (si_retiredHead s) (si_retired s), si_retiredHead := 0\<rparr> else s)"

definition beginPublish :: "bool \<Rightarrow> stable_identity \<Rightarrow> stable_identity" where
  "beginPublish newEpoch s =
     (let s1 = s\<lparr>si_nextRevision := inc64 (si_nextRevision s)\<rparr> in
      if newEpoch then s1\<lparr>si_nextEpoch := inc64 (si_nextEpoch s1), si_currentEpoch := inc64 (si_nextEpoch s1)\<rparr> else s1)"

definition publishNodes :: "identity_snapshot \<Rightarrow> bool \<Rightarrow> stable_identity \<Rightarrow> publish_state" where
  \<comment> \<open>both loops over the nodes; the second ranges over a Go map, whose order is open: the model takes
      the order of the association list, and no theorem depends on the order of the retired handles\<close>
  "publishNodes snapshot newEpoch s =
     (let s1 = beginPublish newEpoch s; revision = si_nextRevision s1;
          p = fold (publishNode revision) (is_Nodes snapshot) \<lparr>ps_state = s1, ps_handles = [], ps_retired = [], ps_transitions = []\<rparr>
      in fold (retireNode (in_NodeID ` set (is_Nodes snapshot)) revision) (map fst (si_lineage (ps_state p))) p)"

definition preparePublish :: "identity_snapshot \<Rightarrow> bool \<Rightarrow> stable_identity \<Rightarrow> stable_identity \<times> runtime_identity" where
  "preparePublish snapshot newEpoch s =
     (let p = publishNodes snapshot newEpoch s; s' = compactRetired (trimRetired (ps_state p)) in
      (s', \<lparr>ri_EpochID = si_currentEpoch s', ri_Revision = si_nextRevision (beginPublish newEpoch s),
            ri_SourceGeneration = is_SourceGeneration snapshot, ri_Handles = ps_handles p,
            ri_RetiredHandles = ps_retired p, ri_VersionTransitions = ps_transitions p\<rparr>))"

section \<open>Persistence\<close>

record persisted_lineage =
  pl_NodeID :: node_id
  pl_Handle :: node_handle
  pl_PresentInLatest :: bool

record persisted_identity =
  pi_NextEpoch :: epoch_id
  pi_NextRevision :: catalog_revision
  pi_NextSlot :: nat
  pi_Lineage :: "persisted_lineage list"

definition snapshotIdentity :: "stable_identity \<Rightarrow> persisted_identity" where
  \<comment> \<open>\<open>RuntimeManager.PersistenceSnapshot\<close> on a published group; comparing the bytes of two node
    identifiers compares the words\<close>
  "snapshotIdentity s =
     \<lparr>pi_NextEpoch = si_nextEpoch s, pi_NextRevision = si_nextRevision s, pi_NextSlot = si_nextSlot s,
      pi_Lineage = sort_key pl_NodeID
        (map (\<lambda>(nodeID, l). \<lparr>pl_NodeID = nodeID, pl_Handle = nl_handle l, pl_PresentInLatest = nl_presentInLatest l\<rparr>) (si_lineage s))\<rparr>"

definition persistedItemInvalid :: "persisted_identity \<Rightarrow> persisted_lineage \<Rightarrow> bool" where
  "persistedItemInvalid persisted item \<longleftrightarrow>
     (let handle = pl_Handle item in
      pl_NodeID item = 0 \<or> nh_NodeID handle \<noteq> pl_NodeID item \<or> nh_Slot handle = 0 \<or> nh_Slot handle > pi_NextSlot persisted
      \<or> nh_Version handle = 0 \<or> nh_BornRevision handle = 0 \<or> nh_BornRevision handle > pi_NextRevision persisted)"

fun restoreLineage :: "persisted_identity \<Rightarrow> nat list \<Rightarrow> persisted_lineage list \<Rightarrow> stable_identity \<Rightarrow> identity_error + stable_identity" where
  "restoreLineage persisted usedSlots [] s = Inr s"
| "restoreLineage persisted usedSlots (item # items) s =
     (if persistedItemInvalid persisted item then Inl PersistedLineageInvalid
      else if map_of (si_lineage s) (pl_NodeID item) \<noteq> None then Inl PersistedDuplicateNode
      else if nh_Slot (pl_Handle item) \<in> set usedSlots then Inl PersistedDuplicateSlot
      else
        let s1 = s\<lparr>si_lineage := AList.update (pl_NodeID item)
               \<lparr>nl_handle = pl_Handle item, nl_presentInLatest = pl_PresentInLatest item\<rparr> (si_lineage s)\<rparr> in
        if pl_PresentInLatest item then restoreLineage persisted (nh_Slot (pl_Handle item) # usedSlots) items s1
        else if length (si_retired s1) \<ge> si_maxRetired s1 then Inl PersistedRetiredExceedsBound
        else restoreLineage persisted (nh_Slot (pl_Handle item) # usedSlots) items
          (s1\<lparr>si_retired := si_retired s1 @ [\<lparr>rt_nodeID = pl_NodeID item, rt_revision = pi_NextRevision persisted\<rparr>],
             si_retiredQueued := AList.update (pl_NodeID item) (pi_NextRevision persisted) (si_retiredQueued s1)\<rparr>))"

definition restoreStableIdentityState :: "persisted_identity \<Rightarrow> identity_error + stable_identity" where
  "restoreStableIdentityState persisted =
     (if pi_NextEpoch persisted = 0 \<or> pi_NextRevision persisted = 0 \<or> length (pi_Lineage persisted) > 1048576
      then Inl PersistedCountersInvalid
      else restoreLineage persisted [] (pi_Lineage persisted)
        (newStableIdentityState\<lparr>si_nextEpoch := pi_NextEpoch persisted, si_currentEpoch := pi_NextEpoch persisted,
           si_nextRevision := pi_NextRevision persisted, si_nextSlot := pi_NextSlot persisted\<rparr>))"

section \<open>The invariant\<close>

declare map_of_eq_Some_iff [simp del]

definition lineage_ok :: "nat \<Rightarrow> nat \<Rightarrow> (node_id, node_lineage) gomap \<Rightarrow> bool" where
  "lineage_ok slot revision m \<longleftrightarrow>
     gm_wf m
     \<and> (\<forall>n l. map_of m n = Some l \<longrightarrow> nh_NodeID (nl_handle l) = n \<and> n \<noteq> 0
          \<and> 0 < nh_Slot (nl_handle l) \<and> nh_Slot (nl_handle l) \<le> slot
          \<and> 0 < nh_Version (nl_handle l) \<and> nh_Version (nl_handle l) \<le> revision
          \<and> 0 < nh_BornRevision (nl_handle l) \<and> nh_BornRevision (nl_handle l) \<le> revision)
     \<and> (\<forall>n n' l l'. map_of m n = Some l \<longrightarrow> map_of m n' = Some l' \<longrightarrow>
          nh_Slot (nl_handle l) = nh_Slot (nl_handle l') \<longrightarrow> n = n')"

definition queue_ok :: "stable_identity \<Rightarrow> bool" where
  \<comment> \<open>every node that left is queued, with its item still ahead of the head\<close>
  "queue_ok s \<longleftrightarrow>
     si_retiredHead s \<le> length (si_retired s)
     \<and> (\<forall>n l. map_of (si_lineage s) n = Some l \<longrightarrow> \<not> nl_presentInLatest l \<longrightarrow>
          (\<exists>r. map_of (si_retiredQueued s) n = Some r
             \<and> \<lparr>rt_nodeID = n, rt_revision = r\<rparr> \<in> set (drop (si_retiredHead s) (si_retired s))))"

definition identity_ok :: "stable_identity \<Rightarrow> bool" where
  "identity_ok s \<longleftrightarrow>
     lineage_ok (si_nextSlot s) (si_nextRevision s) (si_lineage s) \<and> queue_ok s
     \<and> length (si_retired s) - si_retiredHead s \<le> si_maxRetired s"

lemma identity_new: "identity_ok newStableIdentityState"
  by (simp add: identity_ok_def lineage_ok_def queue_ok_def newStableIdentityState_def)

section \<open>Publishing keeps the invariant\<close>

definition handle_dead :: "node_handle \<Rightarrow> stable_identity \<Rightarrow> bool" where
  \<comment> \<open>no lineage has the slot of the handle at its version, unless its node has left\<close>
  "handle_dead h s \<longleftrightarrow>
     nh_Slot h \<le> si_nextSlot s
     \<and> (\<forall>l. map_of (si_lineage s) (nh_NodeID h) = Some l \<longrightarrow> nh_Slot (nl_handle l) = nh_Slot h \<longrightarrow>
          nh_Version h < nh_Version (nl_handle l) \<or> nh_Version h = nh_Version (nl_handle l) \<and> \<not> nl_presentInLatest l)"

definition pub_ok :: "nat \<Rightarrow> identity_node list \<Rightarrow> publish_state \<Rightarrow> bool" where
  \<comment> \<open>the invariant of the loop over the nodes, with the nodes still to come\<close>
  "pub_ok revision todo p \<longleftrightarrow>
     lineage_ok (si_nextSlot (ps_state p)) revision (si_lineage (ps_state p)) \<and> queue_ok (ps_state p)
     \<and> (\<forall>node \<in> set todo. in_NodeID node \<noteq> 0
          \<and> (\<forall>l. map_of (si_lineage (ps_state p)) (in_NodeID node) = Some l \<longrightarrow> nh_Version (nl_handle l) < revision))
     \<and> distinct (map in_NodeID todo)
     \<and> si_nextSlot (ps_state p) + length todo < 2 ^ 64 \<and> 0 < revision \<and> revision < 2 ^ 64
     \<and> (\<forall>h \<in> set (ps_retired p). handle_dead h (ps_state p))"

lemma store_fields [simp]:
  "si_nextSlot (ps_state (storeLineage n h p)) = si_nextSlot (ps_state p)"
  "si_retired (ps_state (storeLineage n h p)) = si_retired (ps_state p)"
  "si_retiredHead (ps_state (storeLineage n h p)) = si_retiredHead (ps_state p)"
  "si_maxRetired (ps_state (storeLineage n h p)) = si_maxRetired (ps_state p)"
  "si_nextRevision (ps_state (storeLineage n h p)) = si_nextRevision (ps_state p)"
  "si_nextEpoch (ps_state (storeLineage n h p)) = si_nextEpoch (ps_state p)"
  "si_currentEpoch (ps_state (storeLineage n h p)) = si_currentEpoch (ps_state p)"
  "ps_retired (storeLineage n h p) = ps_retired p"
  by (simp_all add: storeLineage_def)

lemma store_lineage:
  "si_lineage (ps_state (storeLineage n h p)) = AList.update n \<lparr>nl_handle = h, nl_presentInLatest = True\<rparr> (si_lineage (ps_state p))"
  by (simp add: storeLineage_def)

lemma store_queued: "si_retiredQueued (ps_state (storeLineage n h p)) = AList.delete n (si_retiredQueued (ps_state p))"
  by (simp add: storeLineage_def)

lemma queue_store: "queue_ok (ps_state p) \<Longrightarrow> queue_ok (ps_state (storeLineage n h p))"
  by (auto simp: queue_ok_def store_lineage store_queued gomap_simps split: if_splits)

lemma dead_store:
  assumes "handle_dead h0 (ps_state p)"
    and "nh_NodeID h0 = n \<Longrightarrow> nh_Slot h = nh_Slot h0 \<Longrightarrow> nh_Version h0 < nh_Version h"
  shows "handle_dead h0 (ps_state (storeLineage n h p))"
  using assms by (auto simp: handle_dead_def store_lineage gomap_simps split: if_splits)

text \<open>A node of the snapshot is new, or comes back or changed, or stays as it is.\<close>

lemma publishNode_cases:
  assumes "si_nextSlot (ps_state p) + 1 < 2 ^ 64"
    and "\<forall>l. map_of (si_lineage (ps_state p)) (in_NodeID node) = Some l \<longrightarrow> nh_Version (nl_handle l) + 1 < 2 ^ 64"
  obtains (fresh) p1 where "map_of (si_lineage (ps_state p)) (in_NodeID node) = None"
      "p1 = p\<lparr>ps_state := (ps_state p)\<lparr>si_nextSlot := Suc (si_nextSlot (ps_state p))\<rparr>\<rparr>"
      "publishNode revision node p = storeLineage (in_NodeID node)
         \<lparr>nh_NodeID = in_NodeID node, nh_Slot = Suc (si_nextSlot (ps_state p)), nh_Version = 1, nh_BornRevision = revision\<rparr> p1"
  | (bump) l p1 where "map_of (si_lineage (ps_state p)) (in_NodeID node) = Some l" "ps_state p1 = ps_state p"
      "ps_retired p1 = ps_retired p @ [nl_handle l]"
      "publishNode revision node p = storeLineage (in_NodeID node)
         ((nl_handle l)\<lparr>nh_Version := Suc (nh_Version (nl_handle l)), nh_BornRevision := revision\<rparr>) p1"
  | (keep) l where "map_of (si_lineage (ps_state p)) (in_NodeID node) = Some l" "nl_presentInLatest l"
      "publishNode revision node p = storeLineage (in_NodeID node) (nl_handle l) p"
proof (cases "map_of (si_lineage (ps_state p)) (in_NodeID node)")
  case None
  have "inc64 (si_nextSlot (ps_state p)) = Suc (si_nextSlot (ps_state p))" using assms(1) by simp
  then show ?thesis using fresh None by (simp add: publishNode_def Let_def)
next
  case (Some l)
  have v: "inc64 (nh_Version (nl_handle l)) = Suc (nh_Version (nl_handle l))" using assms(2) Some by simp
  show ?thesis
  proof (cases "\<not> nl_presentInLatest l \<or> \<not> in_IdentityStable node")
    case True
    show ?thesis
      by (rule bump [OF Some, of "p\<lparr>ps_retired := ps_retired p @ [nl_handle l],
            ps_transitions := ps_transitions p @ [\<lparr>vt_Previous = nl_handle l,
              vt_Current = (nl_handle l)\<lparr>nh_Version := Suc (nh_Version (nl_handle l)), nh_BornRevision := revision\<rparr>\<rparr>]\<rparr>"])
        (use True Some v in \<open>simp_all add: publishNode_def Let_def\<close>)
  next
    case False
    then show ?thesis using keep [OF Some] Some by (simp add: publishNode_def Let_def)
  qed
qed

lemma lineage_okD:
  assumes "lineage_ok slot rv m" and "map_of m n = Some l"
  shows "nh_NodeID (nl_handle l) = n" "n \<noteq> 0" "0 < nh_Slot (nl_handle l)" "nh_Slot (nl_handle l) \<le> slot"
    "0 < nh_Version (nl_handle l)" "nh_Version (nl_handle l) \<le> rv"
    "0 < nh_BornRevision (nl_handle l)" "nh_BornRevision (nl_handle l) \<le> rv"
  using assms unfolding lineage_ok_def by blast+

lemma lineage_slot_inj:
  "lineage_ok slot rv m \<Longrightarrow> map_of m n = Some l \<Longrightarrow> map_of m n' = Some l' \<Longrightarrow>
   nh_Slot (nl_handle l) = nh_Slot (nl_handle l') \<Longrightarrow> n = n'"
  unfolding lineage_ok_def by blast

lemma lineage_update:
  assumes ok: "lineage_ok slot rv m" and h: "nh_NodeID h = n" "n \<noteq> 0" "0 < nh_Slot h" "nh_Slot h \<le> slot'" "0 < nh_Version h" "nh_Version h \<le> rv"
      "0 < nh_BornRevision h" "nh_BornRevision h \<le> rv" and le: "slot \<le> slot'"
    and uniq: "\<And>n' l. map_of m n' = Some l \<Longrightarrow> nh_Slot (nl_handle l) = nh_Slot h \<Longrightarrow> n' = n"
  shows "lineage_ok slot' rv (AList.update n \<lparr>nl_handle = h, nl_presentInLatest = b\<rparr> m)" (is "lineage_ok _ _ ?m")
proof -
  have get: "map_of ?m n' = (if n' = n then Some \<lparr>nl_handle = h, nl_presentInLatest = b\<rparr> else map_of m n')" for n'
    by (simp add: gm_get_put)
  have each: "nh_NodeID (nl_handle l) = n' \<and> n' \<noteq> 0 \<and> 0 < nh_Slot (nl_handle l) \<and> nh_Slot (nl_handle l) \<le> slot'
      \<and> 0 < nh_Version (nl_handle l) \<and> nh_Version (nl_handle l) \<le> rv
      \<and> 0 < nh_BornRevision (nl_handle l) \<and> nh_BornRevision (nl_handle l) \<le> rv"
    if "map_of ?m n' = Some l" for n' l
  proof (cases "n' = n")
    case True
    then show ?thesis using that h by (auto simp: get)
  next
    case False
    then have "map_of m n' = Some l" using that by (simp add: get)
    from lineage_okD [OF ok this] show ?thesis using le by simp
  qed
  have "n1 = n2" if "map_of ?m n1 = Some l1" "map_of ?m n2 = Some l2" "nh_Slot (nl_handle l1) = nh_Slot (nl_handle l2)" for n1 n2 l1 l2
  proof (cases "n1 = n"; cases "n2 = n")
    assume "n1 = n" "n2 \<noteq> n"
    then show ?thesis using that uniq [of n2 l2] unfolding get by auto
  next
    assume "n1 \<noteq> n" "n2 = n"
    then show ?thesis using that uniq [of n1 l1] unfolding get by auto
  next
    assume "n1 \<noteq> n" "n2 \<noteq> n"
    then show ?thesis using that lineage_slot_inj [OF ok, of n1 l1 n2 l2] unfolding get by simp
  qed simp
  moreover have "gm_wf ?m" using ok by (simp add: lineage_ok_def)
  ultimately show ?thesis unfolding lineage_ok_def using each by blast
qed

lemma pub_step_dead:
  assumes ok: "pub_ok rv (node # nodes) p" and d: "handle_dead h (ps_state p)"
  shows "handle_dead h (ps_state (publishNode rv node p))"
proof -
  have slot: "si_nextSlot (ps_state p) + 1 < 2 ^ 64" using ok by (simp add: pub_ok_def)
  have ver: "\<forall>l. map_of (si_lineage (ps_state p)) (in_NodeID node) = Some l \<longrightarrow> nh_Version (nl_handle l) + 1 < 2 ^ 64"
    using ok by (fastforce simp: pub_ok_def)
  show ?thesis
  proof (cases rule: publishNode_cases [where revision = rv and p = p and node = node, OF slot ver, case_names fresh bump keep])
    case (fresh p1)
    then show ?thesis unfolding fresh(3) using d by (intro dead_store) (auto simp: handle_dead_def)
  next
    case (bump l p1)
    then show ?thesis unfolding bump(4) using d by (intro dead_store) (auto simp: handle_dead_def)
  next
    case (keep l)
    then show ?thesis unfolding keep(3) using d by (intro dead_store) (auto simp: handle_dead_def)
  qed
qed

lemma dead_retired:
  \<comment> \<open>the handle a bump replaces\<close>
  assumes "lineage_ok slot rv (si_lineage (ps_state p))" and "slot = si_nextSlot (ps_state p)"
    and "map_of (si_lineage (ps_state p)) n = Some l" and "nh_Version (nl_handle l) < nh_Version h"
  shows "handle_dead (nl_handle l) (ps_state (storeLineage n h p))"
  using lineage_okD [OF assms(1,3)] assms(2,4) by (simp add: handle_dead_def store_lineage gm_get_put)

lemma pub_step_ok:
  assumes ok: "pub_ok rv (node # nodes) p"
  shows "pub_ok rv nodes (publishNode rv node p)"
proof -
  let ?n = "in_NodeID node" and ?s = "ps_state p"
  have lin: "lineage_ok (si_nextSlot ?s) rv (si_lineage ?s)" and q: "queue_ok ?s" and rv: "0 < rv" "rv < 2 ^ 64"
    and n0: "?n \<noteq> 0" and slots: "si_nextSlot ?s + Suc (length nodes) < 2 ^ 64"
    and notin: "?n \<notin> in_NodeID ` set nodes" and dist: "distinct (map in_NodeID nodes)"
    and retired: "\<forall>h \<in> set (ps_retired p). handle_dead h ?s"
    and young: "\<And>x l. x \<in> set (node # nodes) \<Longrightarrow> map_of (si_lineage ?s) (in_NodeID x) = Some l \<Longrightarrow> nh_Version (nl_handle l) < rv"
    and todo: "\<forall>x \<in> set nodes. in_NodeID x \<noteq> 0"
    using ok by (auto simp: pub_ok_def)
  have slot: "si_nextSlot ?s + 1 < 2 ^ 64" using slots by simp
  have ver: "\<forall>l. map_of (si_lineage ?s) ?n = Some l \<longrightarrow> nh_Version (nl_handle l) + 1 < 2 ^ 64"
    using young [of node] rv by fastforce
  have young': "nh_Version (nl_handle l) < rv"
    if "x \<in> set nodes" "map_of (si_lineage (ps_state (storeLineage ?n h p1))) (in_NodeID x) = Some l" "si_lineage (ps_state p1) = si_lineage ?s" for x l h p1
  proof -
    have "in_NodeID x \<noteq> ?n" using notin that(1) by (metis imageI)
    then show ?thesis using young [of x l] that by (simp add: store_lineage gm_get_put)
  qed
  have dead: "handle_dead h (ps_state (publishNode rv node p))" if "h \<in> set (ps_retired p)" for h
    using pub_step_dead [OF ok] retired that by blast
  show ?thesis
  proof (cases rule: publishNode_cases [where revision = rv and p = p and node = node, OF slot ver, case_names fresh bump keep])
    case (fresh p1)
    have "lineage_ok (Suc (si_nextSlot ?s)) rv (si_lineage (ps_state (publishNode rv node p)))"
      unfolding fresh(3) store_lineage fresh(2)
      using lineage_okD(4) [OF lin] n0 rv by (simp, intro lineage_update [OF lin]) (auto, metis Suc_n_not_le_n)
    moreover have "queue_ok (ps_state p1)" using q by (simp add: fresh(2) queue_ok_def)
    moreover have "si_nextSlot (ps_state p1) = Suc (si_nextSlot ?s)" "ps_retired p1 = ps_retired p" "si_lineage (ps_state p1) = si_lineage ?s"
      by (simp_all add: fresh(2))
    ultimately show ?thesis
      using dead slots rv dist todo young' unfolding pub_ok_def fresh(3) by (simp add: queue_store)
  next
    case (bump l p1)
    have l: "nh_Version (nl_handle l) < rv" using young [of node l] bump(1) by simp
    have "lineage_ok (si_nextSlot ?s) rv (si_lineage (ps_state (publishNode rv node p)))"
      unfolding bump(4) store_lineage bump(2)
      using lineage_okD [OF lin bump(1)] lineage_slot_inj [OF lin _ bump(1)] rv l by (intro lineage_update [OF lin]) auto
    moreover have "handle_dead (nl_handle l) (ps_state (publishNode rv node p))"
      unfolding bump(4) using lin bump(1) by (intro dead_retired [where slot = "si_nextSlot ?s" and rv = rv]) (simp_all add: bump(2))
    ultimately show ?thesis
      using dead slots rv dist todo q young' bump(2,3) unfolding pub_ok_def bump(4) by (auto simp: queue_store)
  next
    case (keep l)
    have "lineage_ok (si_nextSlot ?s) rv (si_lineage (ps_state (publishNode rv node p)))"
      unfolding keep(3) store_lineage
      using lineage_okD [OF lin keep(1)] lineage_slot_inj [OF lin _ keep(1)] by (intro lineage_update [OF lin]) auto
    then show ?thesis
      using dead slots rv dist todo q young' unfolding pub_ok_def keep(3) by (auto simp: queue_store)
  qed
qed

lemma pub_fold:
  assumes "pub_ok rv nodes p"
  shows "pub_ok rv [] (fold (publishNode rv) nodes p)"
    and "handle_dead h (ps_state p) \<Longrightarrow> handle_dead h (ps_state (fold (publishNode rv) nodes p))"
  using assms
proof (induction nodes arbitrary: p)
  case (Cons node nodes)
  { case 1
    then show ?case using Cons.IH(1) [OF pub_step_ok] by simp
  next
    case 2
    then show ?case using Cons.IH(2) [OF _ pub_step_ok] pub_step_dead by simp
  }
qed simp_all

section \<open>Nodes that left\<close>

lemma retire_step:
  assumes ok: "pub_ok rv [] p"
  shows "pub_ok rv [] (retireNode seen rv n p)"
    and "handle_dead h (ps_state p) \<Longrightarrow> handle_dead h (ps_state (retireNode seen rv n p))"
proof -
  let ?s = "ps_state p"
  have lin: "lineage_ok (si_nextSlot ?s) rv (si_lineage ?s)" and q: "queue_ok ?s" using ok by (simp_all add: pub_ok_def)
  have "pub_ok rv [] (retireNode seen rv n p) \<and> (handle_dead h ?s \<longrightarrow> handle_dead h (ps_state (retireNode seen rv n p)))"
  proof (cases "\<exists>l. map_of (si_lineage ?s) n = Some l \<and> n \<notin> seen \<and> nl_presentInLatest l")
    case False
    then have "retireNode seen rv n p = p" by (auto simp: retireNode_def Let_def split: option.split)
    then show ?thesis using ok by simp
  next
    case True
    then obtain l where l: "map_of (si_lineage ?s) n = Some l" "n \<notin> seen" "nl_presentInLatest l" by blast
    let ?s' = "?s\<lparr>si_lineage := AList.update n (l\<lparr>nl_presentInLatest := False\<rparr>) (si_lineage ?s),
         si_retired := si_retired ?s @ [\<lparr>rt_nodeID = n, rt_revision = rv\<rparr>],
         si_retiredQueued := AList.update n rv (si_retiredQueued ?s)\<rparr>"
    have eq: "retireNode seen rv n p = p\<lparr>ps_state := ?s', ps_retired := ps_retired p @ [nl_handle l]\<rparr>"
      using l by (simp add: retireNode_def Let_def)
    have dead: "handle_dead h' ?s'" if "handle_dead h' ?s" for h'
      using that l by (auto simp: handle_dead_def gm_get_put)
    have upd: "l\<lparr>nl_presentInLatest := False\<rparr> = \<lparr>nl_handle = nl_handle l, nl_presentInLatest = False\<rparr>"
      by (rule node_lineage.equality) simp_all
    have "lineage_ok (si_nextSlot ?s) rv (AList.update n (l\<lparr>nl_presentInLatest := False\<rparr>) (si_lineage ?s))"
      unfolding upd using lineage_okD [OF lin l(1)] lineage_slot_inj [OF lin _ l(1)] by (intro lineage_update [OF lin]) auto
    then have "lineage_ok (si_nextSlot ?s) rv (si_lineage ?s')" by simp
    moreover have "queue_ok ?s'" using q by (auto simp: queue_ok_def gm_get_put split: if_splits)
    moreover have "handle_dead (nl_handle l) ?s'" using lineage_okD [OF lin l(1)] by (simp add: handle_dead_def gm_get_put)
    ultimately show ?thesis using ok dead unfolding eq pub_ok_def by auto
  qed
  then show "pub_ok rv [] (retireNode seen rv n p)"
    and "handle_dead h (ps_state p) \<Longrightarrow> handle_dead h (ps_state (retireNode seen rv n p))" by blast+
qed

lemma retire_fold:
  assumes "pub_ok rv [] p"
  shows "pub_ok rv [] (fold (retireNode seen rv) ns p)"
    and "handle_dead h (ps_state p) \<Longrightarrow> handle_dead h (ps_state (fold (retireNode seen rv) ns p))"
  using assms
proof (induction ns arbitrary: p)
  case (Cons n ns)
  { case 1
    then show ?case using Cons.IH(1) [OF retire_step(1)] by simp
  next
    case 2
    then show ?case using Cons.IH(2) [OF _ retire_step(1)] retire_step(2) by simp
  }
qed simp_all

end
