(* ===== verification/Identity_Run.thy ===== *)
theory Identity_Run
  imports Runtime_Identity
begin

text \<open>
  Sequences of published snapshots: every publish keeps the identity state well formed, a retired
  handle stays retired over all later publishes, and the persisted form of a state restores it.
\<close>

section \<open>Trimming the queue of retired nodes\<close>

lemma forget_lineage:
  "map_of (si_lineage (forgetItem i s)) n = Some l \<Longrightarrow> map_of (si_lineage s) n = Some l"
  by (auto simp: forgetItem_def Let_def gomap_simps split: option.splits if_splits)

lemma forget_wf: "gm_wf (si_lineage s) \<Longrightarrow> gm_wf (si_lineage (forgetItem i s))"
  by (auto simp: forgetItem_def Let_def split: option.split)

lemma lineage_sub:
  assumes "lineage_ok slot rv m" and "gm_wf m'" and "\<And>n l. map_of m' n = Some l \<Longrightarrow> map_of m n = Some l"
  shows "lineage_ok slot rv m'"
  unfolding lineage_ok_def using assms(2) lineage_okD [OF assms(1) assms(3)] lineage_slot_inj [OF assms(1) assms(3) assms(3)]
  by blast

lemma lineage_revision:
  assumes "lineage_ok slot rv m" and "rv \<le> rv'"
  shows "lineage_ok slot rv' m"
proof -
  have "gm_wf m" using assms(1) by (simp add: lineage_ok_def)
  moreover have "nh_Version (nl_handle l) \<le> rv'" "nh_BornRevision (nl_handle l) \<le> rv'" if "map_of m n = Some l" for n l
    using lineage_okD(6,8) [OF assms(1) that] assms(2) by simp_all
  ultimately show ?thesis
    unfolding lineage_ok_def using lineage_okD(1-5,7) [OF assms(1)] lineage_slot_inj [OF assms(1)] by blast
qed

lemma dead_sub:
  assumes "handle_dead h s" and "\<And>n l. map_of (si_lineage s') n = Some l \<Longrightarrow> map_of (si_lineage s) n = Some l"
    and "si_nextSlot s' = si_nextSlot s"
  shows "handle_dead h s'"
  using assms unfolding handle_dead_def by metis

lemma forget_queue:
  assumes q: "queue_ok s" and i: "si_retiredHead s < length (si_retired s)"
  shows "queue_ok (forgetItem (si_retired s ! si_retiredHead s) (s\<lparr>si_retiredHead := si_retiredHead s + 1\<rparr>))"
proof -
  let ?item = "si_retired s ! si_retiredHead s" and ?s1 = "s\<lparr>si_retiredHead := si_retiredHead s + 1\<rparr>"
  let ?s2 = "forgetItem ?item ?s1"
  have split: "drop (si_retiredHead s) (si_retired s) = ?item # drop (Suc (si_retiredHead s)) (si_retired s)"
    using i by (simp add: Cons_nth_drop_Suc)
  have "\<exists>r. map_of (si_retiredQueued ?s2) n = Some r \<and> \<lparr>rt_nodeID = n, rt_revision = r\<rparr> \<in> set (drop (Suc (si_retiredHead s)) (si_retired s))"
    if l: "map_of (si_lineage ?s2) n = Some l" "\<not> nl_presentInLatest l" for n l
  proof -
    have "map_of (si_lineage s) n = Some l" using forget_lineage [OF l(1)] by simp
    then obtain r where r: "map_of (si_retiredQueued s) n = Some r" "\<lparr>rt_nodeID = n, rt_revision = r\<rparr> \<in> set (drop (si_retiredHead s) (si_retired s))"
      using q l(2) unfolding queue_ok_def by blast
    have gone: "rt_nodeID ?item \<noteq> n" if hit: "(case map_of (si_retiredQueued s) (rt_nodeID ?item) of None \<Rightarrow> 0 | Some r \<Rightarrow> r) = rt_revision ?item"
      using l hit \<open>map_of (si_lineage s) n = Some l\<close> by (auto simp: forgetItem_def Let_def gomap_simps)
    have "?item \<noteq> \<lparr>rt_nodeID = n, rt_revision = r\<rparr>" using gone r(1) by (metis option.simps(5) retired_item.select_convs)
    then have "\<lparr>rt_nodeID = n, rt_revision = r\<rparr> \<in> set (drop (Suc (si_retiredHead s)) (si_retired s))"
      using r(2) unfolding split by simp
    moreover have "map_of (si_retiredQueued ?s2) n = Some r"
      using r(1) gone by (auto simp: forgetItem_def Let_def gomap_simps split: option.split)
    ultimately show ?thesis by blast
  qed
  then show ?thesis using i unfolding queue_ok_def by (simp add: Suc_leI)
qed

lemma trim_ok:
  assumes "lineage_ok slot rv (si_lineage s)" and "queue_ok s"
  shows "lineage_ok slot rv (si_lineage (trimRetired s)) \<and> queue_ok (trimRetired s)
    \<and> length (si_retired (trimRetired s)) - si_retiredHead (trimRetired s) \<le> si_maxRetired s
    \<and> (handle_dead h s \<longrightarrow> handle_dead h (trimRetired s))"
  using assms
proof (induction s rule: trimRetired.induct)
  case (1 s)
  show ?case
  proof (cases "length (si_retired s) - si_retiredHead s > si_maxRetired s")
    case True
    let ?s1 = "s\<lparr>si_retiredHead := si_retiredHead s + 1\<rparr>"
    let ?s2 = "forgetItem (si_retired s ! si_retiredHead s) ?s1"
    have sub: "map_of (si_lineage ?s2) n = Some l \<Longrightarrow> map_of (si_lineage s) n = Some l" for n l
      using forget_lineage [of "si_retired s ! si_retiredHead s" ?s1 n l] by simp
    have "gm_wf (si_lineage s)" using 1(2) by (simp add: lineage_ok_def)
    then have wf: "gm_wf (si_lineage ?s2)" using forget_wf [of ?s1] by simp
    have "handle_dead h s \<longrightarrow> handle_dead h ?s2"
    proof
      assume "handle_dead h s"
      then show "handle_dead h ?s2" by (rule dead_sub) (simp_all add: sub)
    qed
    moreover have "queue_ok ?s2" using forget_queue [OF 1(3)] True by simp
    ultimately show ?thesis
      using 1(1) [OF True lineage_sub [OF 1(2) wf sub]] True by (subst (1 2 3 4 5) trimRetired.simps) simp
  next
    case False
    then show ?thesis using 1(2,3) by (simp add: trimRetired.simps)
  qed
qed

lemma trim_fields [simp]:
  "si_nextSlot (trimRetired s) = si_nextSlot s" "si_nextRevision (trimRetired s) = si_nextRevision s"
  "si_maxRetired (trimRetired s) = si_maxRetired s" "si_nextEpoch (trimRetired s) = si_nextEpoch s"
  "si_currentEpoch (trimRetired s) = si_currentEpoch s"
proof -
  have "si_nextSlot (trimRetired s) = si_nextSlot s \<and> si_nextRevision (trimRetired s) = si_nextRevision s
      \<and> si_maxRetired (trimRetired s) = si_maxRetired s \<and> si_nextEpoch (trimRetired s) = si_nextEpoch s
      \<and> si_currentEpoch (trimRetired s) = si_currentEpoch s"
  proof (induction s rule: trimRetired.induct)
    case (1 s)
    then show ?case
      by (cases "length (si_retired s) - si_retiredHead s > si_maxRetired s") (simp_all add: trimRetired.simps [of s])
  qed
  then show "si_nextSlot (trimRetired s) = si_nextSlot s" "si_nextRevision (trimRetired s) = si_nextRevision s"
    "si_maxRetired (trimRetired s) = si_maxRetired s" "si_nextEpoch (trimRetired s) = si_nextEpoch s"
    "si_currentEpoch (trimRetired s) = si_currentEpoch s"
    by auto
qed

lemma compact_fields [simp]:
  "si_lineage (compactRetired s) = si_lineage s" "si_nextSlot (compactRetired s) = si_nextSlot s"
  "si_nextRevision (compactRetired s) = si_nextRevision s" "si_maxRetired (compactRetired s) = si_maxRetired s"
  "si_retiredQueued (compactRetired s) = si_retiredQueued s" "si_nextEpoch (compactRetired s) = si_nextEpoch s"
  "si_currentEpoch (compactRetired s) = si_currentEpoch s"
  "drop (si_retiredHead (compactRetired s)) (si_retired (compactRetired s)) = drop (si_retiredHead s) (si_retired s)"
  "length (si_retired (compactRetired s)) - si_retiredHead (compactRetired s) = length (si_retired s) - si_retiredHead s"
  by (simp_all add: compactRetired_def)

lemma compact_ok: "queue_ok s \<Longrightarrow> queue_ok (compactRetired s)" "handle_dead h (compactRetired s) = handle_dead h s"
  by (simp_all add: queue_ok_def handle_dead_def) (simp add: compactRetired_def)

section \<open>A publish\<close>

definition publishable :: "identity_snapshot \<Rightarrow> stable_identity \<Rightarrow> bool" where
  \<comment> \<open>the snapshot passes the validation and the 64-bit counters do not wrap\<close>
  "publishable snapshot s \<longleftrightarrow>
     validateIdentitySnapshot snapshot = None \<and> si_nextRevision s + 1 < 2 ^ 64
     \<and> si_nextSlot s + length (is_Nodes snapshot) < 2 ^ 64"

lemma validateNodes_iff:
  "validateNodes seen nodes = None \<longleftrightarrow>
     0 \<notin> in_NodeID ` set nodes \<and> distinct (map in_NodeID nodes) \<and> set seen \<inter> in_NodeID ` set nodes = {}"
  by (induction nodes arbitrary: seen) auto

lemma begin_fields [simp]:
  "si_lineage (beginPublish e s) = si_lineage s" "si_nextSlot (beginPublish e s) = si_nextSlot s"
  "si_retired (beginPublish e s) = si_retired s" "si_retiredHead (beginPublish e s) = si_retiredHead s"
  "si_retiredQueued (beginPublish e s) = si_retiredQueued s" "si_maxRetired (beginPublish e s) = si_maxRetired s"
  "si_nextRevision (beginPublish e s) = inc64 (si_nextRevision s)"
  by (simp_all add: beginPublish_def Let_def)

lemma publish_begin:
  assumes "identity_ok s" and "publishable snapshot s"
  shows "pub_ok (Suc (si_nextRevision s)) (is_Nodes snapshot)
    \<lparr>ps_state = beginPublish e s, ps_handles = [], ps_retired = [], ps_transitions = []\<rparr>"
proof -
  have lin: "lineage_ok (si_nextSlot s) (si_nextRevision s) (si_lineage s)" using assms(1) by (simp add: identity_ok_def)
  then have "lineage_ok (si_nextSlot s) (Suc (si_nextRevision s)) (si_lineage s)" by (rule lineage_revision) simp
  moreover have "nh_Version (nl_handle l) < Suc (si_nextRevision s)" if "map_of (si_lineage s) n = Some l" for n l
    using lineage_okD(6) [OF lin that] by simp
  moreover have "queue_ok (beginPublish e s)" using assms(1) by (simp add: identity_ok_def queue_ok_def)
  ultimately show ?thesis
    using assms(2) by (auto simp: pub_ok_def publishable_def validateIdentitySnapshot_def validateNodes_iff split: if_splits)
qed

lemma retire_fields [simp]:
  "si_nextRevision (ps_state (retireNode seen rv n p)) = si_nextRevision (ps_state p)"
  "si_maxRetired (ps_state (retireNode seen rv n p)) = si_maxRetired (ps_state p)"
  "si_nextEpoch (ps_state (retireNode seen rv n p)) = si_nextEpoch (ps_state p)"
  "si_currentEpoch (ps_state (retireNode seen rv n p)) = si_currentEpoch (ps_state p)"
  "ps_handles (retireNode seen rv n p) = ps_handles p"
  by (simp_all add: retireNode_def Let_def split: option.split)

lemma publishNode_fields [simp]:
  "si_nextRevision (ps_state (publishNode rv x p)) = si_nextRevision (ps_state p)"
  "si_maxRetired (ps_state (publishNode rv x p)) = si_maxRetired (ps_state p)"
  "si_nextEpoch (ps_state (publishNode rv x p)) = si_nextEpoch (ps_state p)"
  "si_currentEpoch (ps_state (publishNode rv x p)) = si_currentEpoch (ps_state p)"
  by (simp_all add: publishNode_def Let_def split: option.split)

lemma fold_frame: "(\<And>x p. x \<in> set xs \<Longrightarrow> g (f x p) = g p) \<Longrightarrow> g (fold f xs p) = g p"
  by (induction xs arbitrary: p) auto

lemma publishNodes_fields [simp]:
  "si_nextRevision (ps_state (publishNodes snap e s)) = inc64 (si_nextRevision s)"
  "si_maxRetired (ps_state (publishNodes snap e s)) = si_maxRetired s"
  "si_nextEpoch (ps_state (publishNodes snap e s)) = si_nextEpoch (beginPublish e s)"
  "si_currentEpoch (ps_state (publishNodes snap e s)) = si_currentEpoch (beginPublish e s)"
  unfolding publishNodes_def Let_def
  by (subst fold_frame [where g = "\<lambda>p. si_nextRevision (ps_state p)"] fold_frame [where g = "\<lambda>p. si_maxRetired (ps_state p)"]
      fold_frame [where g = "\<lambda>p. si_nextEpoch (ps_state p)"] fold_frame [where g = "\<lambda>p. si_currentEpoch (ps_state p)"]; simp)+

lemma publishNodes_ok:
  assumes "identity_ok s" and "publishable snap s"
  shows "pub_ok (Suc (si_nextRevision s)) [] (publishNodes snap e s)"
    and "handle_dead h s \<Longrightarrow> handle_dead h (ps_state (publishNodes snap e s))"
proof -
  have n: "inc64 (si_nextRevision s) = Suc (si_nextRevision s)" using assms(2) by (simp add: publishable_def)
  note fold = pub_fold [OF publish_begin [OF assms, of e]]
  note all = retire_fold [OF fold(1)]
  show "pub_ok (Suc (si_nextRevision s)) [] (publishNodes snap e s)"
    using all(1) by (simp add: publishNodes_def Let_def n)
  have "handle_dead h s = handle_dead h (beginPublish e s)" by (simp add: handle_dead_def)
  then show "handle_dead h s \<Longrightarrow> handle_dead h (ps_state (publishNodes snap e s))"
    using all(2) [OF fold(2)] by (simp add: publishNodes_def Let_def n)
qed

lemma publish_ok:
  assumes "identity_ok s" and "publishable snap s"
  shows "identity_ok (fst (preparePublish snap e s))"
    and "handle_dead h s \<Longrightarrow> handle_dead h (fst (preparePublish snap e s))"
    and "h \<in> set (ri_RetiredHandles (snd (preparePublish snap e s))) \<Longrightarrow> handle_dead h (fst (preparePublish snap e s))"
proof -
  let ?p = "publishNodes snap e s"
  have n: "inc64 (si_nextRevision s) = Suc (si_nextRevision s)" using assms(2) by (simp add: publishable_def)
  have p: "lineage_ok (si_nextSlot (ps_state ?p)) (Suc (si_nextRevision s)) (si_lineage (ps_state ?p))" "queue_ok (ps_state ?p)"
      "\<And>h. h \<in> set (ps_retired ?p) \<Longrightarrow> handle_dead h (ps_state ?p)"
    using publishNodes_ok(1) [OF assms, of e] by (simp_all add: pub_ok_def)
  note trim = trim_ok [OF p(1,2)]
  show "identity_ok (fst (preparePublish snap e s))"
    using trim n by (simp add: identity_ok_def preparePublish_def Let_def compact_ok)
  show "handle_dead h s \<Longrightarrow> handle_dead h (fst (preparePublish snap e s))"
    using trim publishNodes_ok(2) [OF assms] by (simp add: preparePublish_def Let_def compact_ok)
  show "h \<in> set (ri_RetiredHandles (snd (preparePublish snap e s))) \<Longrightarrow> handle_dead h (fst (preparePublish snap e s))"
    using trim p(3) by (simp add: preparePublish_def Let_def compact_ok)
qed

section \<open>Sequences of publishes\<close>

inductive publish_step :: "stable_identity \<Rightarrow> stable_identity \<Rightarrow> bool" where
  publish: "publishable snapshot s \<Longrightarrow> publish_step s (fst (preparePublish snapshot newEpoch s))"

interpretation publish_run: transition_system "\<lambda>s. s = newStableIdentityState" publish_step identity_ok
  by unfold_locales (auto simp: identity_new publish_ok(1) elim!: publish_step.cases)

lemma dead_run:
  assumes "publish_step\<^sup>*\<^sup>* s s'" and "identity_ok s" and "handle_dead h s"
  shows "handle_dead h s' \<and> identity_ok s'"
  using assms
  by (induction rule: rtranclp_induct) (auto elim!: publish_step.cases intro: publish_ok)

lemma absent_bound:
  assumes "identity_ok s"
  shows "card {n. \<exists>l. map_of (si_lineage s) n = Some l \<and> \<not> nl_presentInLatest l} \<le> si_maxRetired s"
proof -
  let ?q = "drop (si_retiredHead s) (si_retired s)"
  have "{n. \<exists>l. map_of (si_lineage s) n = Some l \<and> \<not> nl_presentInLatest l} \<subseteq> rt_nodeID ` set ?q"
    using assms unfolding identity_ok_def queue_ok_def by (force intro: rev_image_eqI)
  then have "card {n. \<exists>l. map_of (si_lineage s) n = Some l \<and> \<not> nl_presentInLatest l} \<le> card (rt_nodeID ` set ?q)"
    by (intro card_mono) auto
  also have "\<dots> \<le> length ?q" using card_image_le [of "set ?q" rt_nodeID] card_length [of ?q] by simp
  also have "\<dots> \<le> si_maxRetired s" using assms by (simp add: identity_ok_def)
  finally show ?thesis .
qed

text \<open>C23. Whatever snapshots are published, two nodes never share a slot, every handle belongs to its
  node with a slot and a version that were issued, and the nodes that left and are
  still remembered are bounded.\<close>

theorem published_identity_well_formed:
  assumes "publish_step\<^sup>*\<^sup>* newStableIdentityState s"
  shows "lineage_ok (si_nextSlot s) (si_nextRevision s) (si_lineage s)
    \<and> card {n. \<exists>l. map_of (si_lineage s) n = Some l \<and> \<not> nl_presentInLatest l} \<le> si_maxRetired s"
  using publish_run.reach_inv [OF refl assms] absent_bound by (simp add: identity_ok_def)

definition sampleSnapshot :: "nat \<Rightarrow> node_id list \<Rightarrow> identity_snapshot" where
  "sampleSnapshot g ns = \<lparr>is_SourceGeneration = g, is_Nodes = map (\<lambda>n. \<lparr>in_NodeID = n, in_IdentityStable = True\<rparr>) ns\<rparr>"

definition sampleIdentity :: stable_identity where
  "sampleIdentity = fst (preparePublish (sampleSnapshot 1 [3, 4]) True newStableIdentityState)"

lemma trim_small: "length (si_retired s) - si_retiredHead s \<le> si_maxRetired s \<Longrightarrow> trimRetired s = s"
  by (subst trimRetired.simps) simp

lemmas identity_eval =
  preparePublish_def publishNodes_def publishNode_def retireNode_def storeLineage_def beginPublish_def
  trim_small compactRetired_def newStableIdentityState_def sampleSnapshot_def Let_def inc64_def

lemma sampleIdentity_eval:
  "sampleIdentity = \<lparr>si_nextEpoch = 1, si_nextRevision = 1, si_nextSlot = 2, si_currentEpoch = 1,
     si_lineage = [(3, \<lparr>nl_handle = \<lparr>nh_NodeID = 3, nh_Slot = 1, nh_Version = 1, nh_BornRevision = 1\<rparr>, nl_presentInLatest = True\<rparr>),
       (4, \<lparr>nl_handle = \<lparr>nh_NodeID = 4, nh_Slot = 2, nh_Version = 1, nh_BornRevision = 1\<rparr>, nl_presentInLatest = True\<rparr>)],
     si_retired = [], si_retiredHead = 0, si_retiredQueued = [], si_maxRetired = 16384\<rparr>"
  by (simp add: sampleIdentity_def identity_eval)

lemma sample_publishable:
  "publishable (sampleSnapshot 1 [3, 4]) newStableIdentityState" "publishable (sampleSnapshot 2 [4]) sampleIdentity"
proof -
  have "si_nextRevision sampleIdentity = 1" "si_nextSlot sampleIdentity = 2" by (simp_all add: sampleIdentity_eval)
  moreover have "validateIdentitySnapshot (sampleSnapshot 2 [4]) = None" "validateIdentitySnapshot (sampleSnapshot 1 [3, 4]) = None" by code_simp+
  ultimately show "publishable (sampleSnapshot 1 [3, 4]) newStableIdentityState" "publishable (sampleSnapshot 2 [4]) sampleIdentity"
    by (simp_all add: publishable_def sampleSnapshot_def newStableIdentityState_def)
qed

lemma sampleIdentity_reach: "publish_step\<^sup>*\<^sup>* newStableIdentityState sampleIdentity"
  unfolding sampleIdentity_def by (rule r_into_rtranclp, rule publish_step.publish, rule sample_publishable(1))

theorem published_identity_well_formed_witness:
  "lineage_ok (si_nextSlot sampleIdentity) (si_nextRevision sampleIdentity) (si_lineage sampleIdentity)
    \<and> card {n. \<exists>l. map_of (si_lineage sampleIdentity) n = Some l \<and> \<not> nl_presentInLatest l} \<le> si_maxRetired sampleIdentity"
  by (rule published_identity_well_formed [OF sampleIdentity_reach])

section \<open>Restoring a persisted identity\<close>

abbreviation itemLineage :: "persisted_lineage \<Rightarrow> node_lineage" where
  "itemLineage i \<equiv> \<lparr>nl_handle = pl_Handle i, nl_presentInLatest = pl_PresentInLatest i\<rparr>"

abbreviation itemSlot :: "persisted_lineage \<Rightarrow> nat" where
  "itemSlot i \<equiv> nh_Slot (pl_Handle i)"

definition restoreState :: "persisted_identity \<Rightarrow> persisted_lineage \<Rightarrow> stable_identity \<Rightarrow> stable_identity" where
  \<comment> \<open>the state after one item that is accepted\<close>
  "restoreState persisted item s =
     (let s1 = s\<lparr>si_lineage := AList.update (pl_NodeID item) (itemLineage item) (si_lineage s)\<rparr> in
      if pl_PresentInLatest item then s1
      else s1\<lparr>si_retired := si_retired s1 @ [\<lparr>rt_nodeID = pl_NodeID item, rt_revision = pi_NextRevision persisted\<rparr>],
             si_retiredQueued := AList.update (pl_NodeID item) (pi_NextRevision persisted) (si_retiredQueued s1)\<rparr>)"

lemma restore_state_fields [simp]:
  "si_lineage (restoreState p i s) = AList.update (pl_NodeID i) (itemLineage i) (si_lineage s)"
  "si_maxRetired (restoreState p i s) = si_maxRetired s" "si_retiredHead (restoreState p i s) = si_retiredHead s"
  "si_nextSlot (restoreState p i s) = si_nextSlot s" "si_nextRevision (restoreState p i s) = si_nextRevision s"
  "si_nextEpoch (restoreState p i s) = si_nextEpoch s" "si_currentEpoch (restoreState p i s) = si_currentEpoch s"
  "length (si_retired (restoreState p i s)) = length (si_retired s) + (if pl_PresentInLatest i then 0 else 1)"
  by (simp_all add: restoreState_def Let_def)

lemma restore_state_queue:
  "queue_ok s \<Longrightarrow> map_of (si_lineage s) (pl_NodeID i) = None \<Longrightarrow> queue_ok (restoreState p i s)"
  by (auto simp: queue_ok_def) (auto simp: restoreState_def Let_def gm_get_put split: if_splits)

lemma restoreLineage_step:
  assumes "\<not> persistedItemInvalid p i" and "map_of (si_lineage s) (pl_NodeID i) = None" and "itemSlot i \<notin> set used"
    and "\<not> pl_PresentInLatest i \<Longrightarrow> length (si_retired s) < si_maxRetired s"
  shows "restoreLineage p used (i # items) s = restoreLineage p (itemSlot i # used) items (restoreState p i s)"
  using assms by (cases "pl_PresentInLatest i") (simp_all add: restoreState_def Let_def)

lemma restoreLineage_ok:
  assumes "\<forall>i \<in> set items. \<not> persistedItemInvalid p i" and "distinct (map pl_NodeID items)" and "distinct (map itemSlot items)"
    and "set used \<inter> itemSlot ` set items = {}" and "\<forall>i \<in> set items. map_of (si_lineage s) (pl_NodeID i) = None"
    and "length (si_retired s) + length (filter (\<lambda>i. \<not> pl_PresentInLatest i) items) \<le> si_maxRetired s" and "queue_ok s"
  shows "restoreLineage p used items s = Inr (fold (restoreState p) items s)
    \<and> queue_ok (fold (restoreState p) items s)
    \<and> length (si_retired (fold (restoreState p) items s)) = length (si_retired s) + length (filter (\<lambda>i. \<not> pl_PresentInLatest i) items)"
  using assms
proof (induction items arbitrary: used s)
  case (Cons i items)
  have i: "\<not> persistedItemInvalid p i" "map_of (si_lineage s) (pl_NodeID i) = None" "itemSlot i \<notin> set used"
    using Cons.prems(1,4,5) by auto
  have "restoreLineage p used (i # items) s = restoreLineage p (itemSlot i # used) items (restoreState p i s)"
    by (rule restoreLineage_step [OF i]) (use Cons.prems(6) in auto)
  moreover have "\<forall>j \<in> set items. map_of (si_lineage (restoreState p i s)) (pl_NodeID j) = None"
    using Cons.prems(2,5) by (auto simp: gm_get_put) (metis imageI)
  moreover have "set (itemSlot i # used) \<inter> itemSlot ` set items = {}" using Cons.prems(3,4) by auto
  ultimately show ?case
    using Cons.IH [of "itemSlot i # used" "restoreState p i s"] Cons.prems(1,2,3,6,7) restore_state_queue [OF Cons.prems(7) i(2)]
    by (cases "pl_PresentInLatest i") simp_all
qed simp

lemma restore_fold_lookup:
  "distinct (map pl_NodeID items) \<Longrightarrow>
   map_of (si_lineage (fold (restoreState p) items s)) n =
     (case find (\<lambda>i. pl_NodeID i = n) items of Some i \<Rightarrow> Some (itemLineage i) | None \<Rightarrow> map_of (si_lineage s) n)"
proof (induction items arbitrary: s)
  case (Cons i items)
  have "find (\<lambda>j. pl_NodeID j = pl_NodeID i) items = None"
    using Cons.prems by (simp add: find_None_iff) (metis imageI)
  then show ?case using Cons.IH [of "restoreState p i s"] Cons.prems by (auto simp: gm_get_put split: option.split)
qed simp

lemma restore_fold_fields:
  "gm_wf (si_lineage s) \<Longrightarrow> gm_wf (si_lineage (fold (restoreState p) items s))"
  "si_nextSlot (fold (restoreState p) items s) = si_nextSlot s" "si_nextRevision (fold (restoreState p) items s) = si_nextRevision s"
  "si_nextEpoch (fold (restoreState p) items s) = si_nextEpoch s" "si_currentEpoch (fold (restoreState p) items s) = si_currentEpoch s"
  "si_maxRetired (fold (restoreState p) items s) = si_maxRetired s" "si_retiredHead (fold (restoreState p) items s) = si_retiredHead s"
  by (induction items arbitrary: s) simp_all

definition identityItems :: "stable_identity \<Rightarrow> persisted_lineage list" where
  "identityItems s = map (\<lambda>(n, l). \<lparr>pl_NodeID = n, pl_Handle = nl_handle l, pl_PresentInLatest = nl_presentInLatest l\<rparr>) (si_lineage s)"

lemma snapshot_items: "pi_Lineage (snapshotIdentity s) = sort_key pl_NodeID (identityItems s)"
  by (simp add: snapshotIdentity_def identityItems_def)

lemma item_lineage:
  assumes "gm_wf (si_lineage s)" and "i \<in> set (identityItems s)"
  shows "map_of (si_lineage s) (pl_NodeID i) = Some (itemLineage i)"
proof -
  obtain n l where l: "(n, l) \<in> set (si_lineage s)"
      "i = \<lparr>pl_NodeID = n, pl_Handle = nl_handle l, pl_PresentInLatest = nl_presentInLatest l\<rparr>"
    using assms(2) by (auto simp: identityItems_def)
  have "itemLineage i = l" by (rule node_lineage.equality) (simp_all add: l(2))
  then show ?thesis using assms(1) l by (simp add: map_of_eq_Some_iff)
qed

lemma items_find:
  assumes wf: "gm_wf (si_lineage s)"
  shows "(case find (\<lambda>i. pl_NodeID i = n) (sort_key pl_NodeID (identityItems s)) of Some i \<Rightarrow> Some (itemLineage i) | None \<Rightarrow> None)
    = map_of (si_lineage s) n"
proof (cases "find (\<lambda>i. pl_NodeID i = n) (sort_key pl_NodeID (identityItems s))")
  case None
  then have "n \<notin> fst ` set (si_lineage s)" by (auto simp: find_None_iff identityItems_def)
  then show ?thesis using None by (simp add: gm_in_keys_iff)
next
  case (Some i)
  then have "i \<in> set (identityItems s)" "pl_NodeID i = n" by (auto dest: find_SomeD)
  then show ?thesis using Some item_lineage [OF wf, of i] by simp
qed

lemma absent_length:
  assumes "gm_wf (si_lineage s)"
  shows "length (filter (\<lambda>i. \<not> pl_PresentInLatest i) (identityItems s)) =
    card {n. \<exists>l. map_of (si_lineage s) n = Some l \<and> \<not> nl_presentInLatest l}"
proof -
  let ?f = "filter (\<lambda>e. \<not> nl_presentInLatest (snd e)) (si_lineage s)"
  have "length (filter (\<lambda>i. \<not> pl_PresentInLatest i) (identityItems s)) = length (map fst ?f)"
    by (simp add: identityItems_def filter_map comp_def case_prod_unfold)
  also have "\<dots> = card (fst ` set ?f)" using distinct_map_filter [OF assms] distinct_card [of "map fst ?f"] by simp
  also have "fst ` set ?f = {n. \<exists>l. map_of (si_lineage s) n = Some l \<and> \<not> nl_presentInLatest l}"
    using assms by (force simp: map_of_eq_Some_iff)
  finally show ?thesis .
qed

lemma items_valid:
  assumes "identity_ok s" and "i \<in> set (identityItems s)"
  shows "\<not> persistedItemInvalid (snapshotIdentity s) i"
proof -
  have lin: "lineage_ok (si_nextSlot s) (si_nextRevision s) (si_lineage s)" using assms(1) by (simp add: identity_ok_def)
  then have "gm_wf (si_lineage s)" by (simp add: lineage_ok_def)
  from lineage_okD [OF lin item_lineage [OF this assms(2)]] show ?thesis
    by (simp add: persistedItemInvalid_def snapshotIdentity_def)
qed

lemma items_distinct:
  assumes "identity_ok s"
  shows "distinct (map pl_NodeID (identityItems s))" "distinct (map itemSlot (identityItems s))"
proof -
  have lin: "lineage_ok (si_nextSlot s) (si_nextRevision s) (si_lineage s)" using assms by (simp add: identity_ok_def)
  then have wf: "gm_wf (si_lineage s)" by (simp add: lineage_ok_def)
  show d: "distinct (map pl_NodeID (identityItems s))" using wf by (simp add: identityItems_def comp_def case_prod_unfold)
  have "inj_on itemSlot (set (identityItems s))"
  proof (rule inj_onI)
    fix i j assume ij: "i \<in> set (identityItems s)" "j \<in> set (identityItems s)" "itemSlot i = itemSlot j"
    have "pl_NodeID i = pl_NodeID j"
      using lineage_slot_inj [OF lin item_lineage [OF wf ij(1)] item_lineage [OF wf ij(2)]] ij(3) by simp
    then show "i = j" using d ij by (metis distinct_map inj_onD)
  qed
  then show "distinct (map itemSlot (identityItems s))" using d by (simp add: distinct_map)
qed

text \<open>C24. A persisted identity restores: the snapshot of a well-formed identity is accepted, and the
  restored state has the same counters and, for every node, the same lineage, and is well formed.\<close>

theorem restore_identity_snapshot:
  assumes ok: "identity_ok s" and max: "si_maxRetired s = 16384" and counters: "si_nextEpoch s \<noteq> 0" "si_nextRevision s \<noteq> 0"
    and size: "length (si_lineage s) \<le> 1048576"
  shows "\<exists>s'. restoreStableIdentityState (snapshotIdentity s) = Inr s' \<and> identity_ok s'
    \<and> (\<forall>n. map_of (si_lineage s') n = map_of (si_lineage s) n)
    \<and> (si_nextEpoch s', si_nextRevision s', si_nextSlot s') = (si_nextEpoch s, si_nextRevision s, si_nextSlot s)"
proof -
  let ?p = "snapshotIdentity s" and ?items = "sort_key pl_NodeID (identityItems s)"
  let ?start = "newStableIdentityState\<lparr>si_nextEpoch := si_nextEpoch s, si_currentEpoch := si_nextEpoch s,
    si_nextRevision := si_nextRevision s, si_nextSlot := si_nextSlot s\<rparr>"
  let ?res = "fold (restoreState ?p) ?items ?start"
  have wf: "gm_wf (si_lineage s)" using ok by (simp add: identity_ok_def lineage_ok_def)
  have d: "distinct (map pl_NodeID ?items)" "distinct (map itemSlot ?items)"
    using items_distinct [OF ok] by (simp_all add: distinct_map)
  have absent: "length (filter (\<lambda>i. \<not> pl_PresentInLatest i) ?items) \<le> 16384"
    using absent_bound [OF ok] absent_length [OF wf] max by (simp add: filter_sort)
  have s0: "queue_ok ?start" "si_lineage ?start = []" "si_retired ?start = []" "si_maxRetired ?start = 16384" "si_retiredHead ?start = 0"
    by (simp_all add: queue_ok_def newStableIdentityState_def)
  have res: "restoreLineage ?p [] ?items ?start = Inr ?res" "queue_ok ?res" "length (si_retired ?res) \<le> 16384"
    using restoreLineage_ok [of ?items ?p "[]" ?start] items_valid [OF ok] d absent s0 by simp_all
  have look: "map_of (si_lineage ?res) n = map_of (si_lineage s) n" for n
    unfolding restore_fold_lookup [OF d(1)] s0(2) items_find [OF wf, of n, symmetric] by (simp split: option.split)
  have len: "length (pi_Lineage ?p) \<le> 1048576" using size by (simp add: snapshot_items) (simp add: identityItems_def)
  have c: "pi_NextEpoch ?p = si_nextEpoch s" "pi_NextRevision ?p = si_nextRevision s" "pi_NextSlot ?p = si_nextSlot s"
    by (simp_all add: snapshotIdentity_def)
  have "\<not> (pi_NextEpoch ?p = 0 \<or> pi_NextRevision ?p = 0 \<or> length (pi_Lineage ?p) > 1048576)"
    using counters len by (simp add: c)
  then have "restoreStableIdentityState ?p = Inr ?res"
    using res(1) unfolding restoreStableIdentityState_def by (simp only: if_False c snapshot_items)
  moreover have "gm_wf (si_lineage ?start)" unfolding s0(2) by simp
  then have gm: "gm_wf (si_lineage ?res)" by (rule restore_fold_fields(1))
  have lin: "lineage_ok (si_nextSlot s) (si_nextRevision s) (si_lineage ?res)"
  proof (rule lineage_sub [OF _ gm])
    show "lineage_ok (si_nextSlot s) (si_nextRevision s) (si_lineage s)" using ok by (simp add: identity_ok_def)
    show "map_of (si_lineage s) n = Some l" if "map_of (si_lineage ?res) n = Some l" for n l using that unfolding look .
  qed
  have f: "si_nextSlot ?res = si_nextSlot s" "si_nextRevision ?res = si_nextRevision s" "si_nextEpoch ?res = si_nextEpoch s"
      "si_maxRetired ?res = 16384"
    unfolding restore_fold_fields using s0(4) by simp_all
  have "identity_ok ?res" unfolding identity_ok_def f using lin res(2,3) by simp
  moreover have "(si_nextEpoch ?res, si_nextRevision ?res, si_nextSlot ?res) = (si_nextEpoch s, si_nextRevision s, si_nextSlot s)"
    unfolding f ..
  ultimately show ?thesis using look by blast
qed

theorem restore_identity_snapshot_witness:
  "\<exists>s'. restoreStableIdentityState (snapshotIdentity sampleIdentity) = Inr s' \<and> identity_ok s'
    \<and> (\<forall>n. map_of (si_lineage s') n = map_of (si_lineage sampleIdentity) n)
    \<and> (si_nextEpoch s', si_nextRevision s', si_nextSlot s') =
        (si_nextEpoch sampleIdentity, si_nextRevision sampleIdentity, si_nextSlot sampleIdentity)"
proof (rule restore_identity_snapshot)
  show "identity_ok sampleIdentity" by (rule publish_run.reach_inv [OF refl sampleIdentity_reach])
qed (simp_all add: sampleIdentity_eval)

end
