(* ===== verification/Runtime_Manager.thy ===== *)
theory Runtime_Manager
  imports Identity_Run
begin

text \<open>
  The runtime manager (\<^verbatim>\<open>protocol/group/adaptive/runtime_manager.go\<close>): the published
  state of every pool, its epochs and the leases on them, and the optimistic publication of a new
  identity. An identity state is never changed once it is reachable from the manager, so the
  pointer comparisons of the source compare the address an identity state was allocated at; the
  model pairs a state with its address. Every group the table holds has an identity: the source
  assigns it before it releases the lock. The health store, the lease manager and the control
  state of a group are addresses.
\<close>

section \<open>Data\<close>

datatype epoch_lifecycle = EpochActive | EpochRetiring | EpochRetired

record stable_epoch =
  ep_lifecycle :: epoch_lifecycle
  ep_revision :: catalog_revision
  ep_lastSourceGeneration :: nat
  ep_refCount :: int
  ep_handles :: "(node_id, node_handle) gomap"

type_synonym identity_ref = "nat \<times> stable_identity"

record shared_group =
  sg_health :: nat
  sg_leases :: nat
  sg_control :: nat
  sg_identity :: identity_ref
  sg_epochs :: "(epoch_id, stable_epoch) gomap"

record runtime_manager =
  rm_groups :: "(string, shared_group) gomap"
  rm_groupUsers :: "(string, int) gomap"
  rm_schedulers :: "(string, nat) gomap"
  rm_schedulerWaiter :: "(string, nat) gomap"
  rm_coordinators :: "(nat, coordinator) gomap"  \<comment> \<open>the coordinators by their address\<close>
  rm_waiting :: "(string \<times> nat \<times> nat) list"  \<comment> \<open>cleanup goroutines: group, coordinator, token they wait for\<close>
  rm_nextRef :: nat

record prepared_identity =
  pp_groupID :: string
  pp_baseRevision :: catalog_revision
  pp_baseState :: "identity_ref option"
  pp_nextState :: identity_ref
  pp_identity :: runtime_identity
  pp_health :: nat
  pp_leases :: nat
  pp_control :: nat
  pp_newEpoch :: bool
  pp_committed :: bool
  pp_rolledBack :: bool
  pp_previousEpoch :: "stable_epoch option"

record epoch_lease =
  el_groupID :: string
  el_epochID :: epoch_id
  el_released :: bool

definition NewRuntimeManager :: runtime_manager where
  "NewRuntimeManager =
     \<lparr>rm_groups = [], rm_groupUsers = [], rm_schedulers = [], rm_schedulerWaiter = [], rm_coordinators = [],
      rm_waiting = [], rm_nextRef = 0\<rparr>"

section \<open>Users and cleanup\<close>

definition groupUsers :: "runtime_manager \<Rightarrow> string \<Rightarrow> int" where
  "groupUsers m groupID = (case map_of (rm_groupUsers m) groupID of None \<Rightarrow> 0 | Some n \<Rightarrow> n)"

definition RegisterGroup :: "string \<Rightarrow> runtime_manager \<Rightarrow> runtime_manager" where
  "RegisterGroup groupID m =
     (if groupID = [] then m
      else m\<lparr>rm_groupUsers := AList.update groupID (inc_int (groupUsers m groupID)) (rm_groupUsers m)\<rparr>)"

definition tryCleanupGroupLocked :: "string \<Rightarrow> runtime_manager \<Rightarrow> runtime_manager" where
  "tryCleanupGroupLocked groupID m =
     (if groupUsers m groupID \<noteq> 0 then m
      else case map_of (rm_groups m) groupID of
          None \<Rightarrow> m
        | Some state \<Rightarrow> if sg_epochs state = [] then m\<lparr>rm_groups := AList.delete groupID (rm_groups m)\<rparr> else m)"

definition groupRemovable :: "runtime_manager \<Rightarrow> string \<Rightarrow> bool" where
  "groupRemovable m groupID \<longleftrightarrow>
     groupUsers m groupID = 0
     \<and> (case map_of (rm_groups m) groupID of None \<Rightarrow> True | Some state \<Rightarrow> sg_epochs state = [])"

definition coordinatorAt :: "runtime_manager \<Rightarrow> nat \<Rightarrow> coordinator" where
  "coordinatorAt m a = (case map_of (rm_coordinators m) a of None \<Rightarrow> newCoordinator | Some c \<Rightarrow> c)"

definition tryCleanupScheduler :: "string \<Rightarrow> runtime_manager \<Rightarrow> runtime_manager" where
  "tryCleanupScheduler groupID m =
     (if groupID = [] \<or> \<not> groupRemovable m groupID then m
      else case map_of (rm_schedulers m) groupID of
          None \<Rightarrow> m
        | Some a \<Rightarrow>
            (case cleanupState (coordinatorAt m a) of
               (drain, True) \<Rightarrow> m\<lparr>rm_schedulers := AList.delete groupID (rm_schedulers m),
                                   rm_schedulerWaiter := AList.delete groupID (rm_schedulerWaiter m)\<rparr>
             | (None, False) \<Rightarrow> m
             | (Some t, False) \<Rightarrow>
                 if map_of (rm_schedulerWaiter m) groupID = Some a then m
                 else m\<lparr>rm_schedulerWaiter := AList.update groupID a (rm_schedulerWaiter m),
                        rm_waiting := (groupID, a, t) # rm_waiting m\<rparr>))"

definition cleanupGoroutine :: "string \<Rightarrow> nat \<Rightarrow> runtime_manager \<Rightarrow> runtime_manager" where
  \<comment> \<open>the goroutine of \<open>tryCleanupScheduler\<close> once its drain channel is closed\<close>
  "cleanupGoroutine groupID expected m =
     (let m1 = (if map_of (rm_schedulerWaiter m) groupID = Some expected
                then m\<lparr>rm_schedulerWaiter := AList.delete groupID (rm_schedulerWaiter m)\<rparr> else m) in
      if map_of (rm_schedulers m1) groupID \<noteq> Some expected then m1
      else if groupRemovable m1 groupID \<and> snd (cleanupState (coordinatorAt m1 expected))
      then m1\<lparr>rm_schedulers := AList.delete groupID (rm_schedulers m1)\<rparr> else m1)"

definition UnregisterGroup :: "string \<Rightarrow> runtime_manager \<Rightarrow> runtime_manager" where
  "UnregisterGroup groupID m =
     (if groupID = [] then m
      else if groupUsers m groupID > 1
      then m\<lparr>rm_groupUsers := AList.update groupID (groupUsers m groupID - 1) (rm_groupUsers m)\<rparr>
      else tryCleanupScheduler groupID
        (tryCleanupGroupLocked groupID (m\<lparr>rm_groupUsers := AList.delete groupID (rm_groupUsers m)\<rparr>)))"

definition RuntimeStats :: "runtime_manager \<Rightarrow> nat \<times> nat \<times> nat" where
  "RuntimeStats m = (length (rm_groups m), length (rm_schedulers m), length (rm_groupUsers m))"

definition schedulerCoordinator :: "string \<Rightarrow> runtime_manager \<Rightarrow> runtime_manager \<times> nat" where
  \<comment> \<open>\<open>RuntimeManager.SchedulerCoordinator\<close>\<close>
  "schedulerCoordinator groupID m =
     (case map_of (rm_schedulers m) groupID of
        Some a \<Rightarrow> (m, a)
      | None \<Rightarrow>
          let a = rm_nextRef m in
          (m\<lparr>rm_schedulers := AList.update groupID a (rm_schedulers m), rm_nextRef := a + 1,
             rm_coordinators := AList.update a newCoordinator (rm_coordinators m)\<rparr>, a))"

section \<open>Persistence\<close>

definition groupPersistenceSnapshot :: "string \<Rightarrow> runtime_manager \<Rightarrow> persisted_identity option" where
  \<comment> \<open>\<open>RuntimeManager.PersistenceSnapshot\<close>\<close>
  "groupPersistenceSnapshot groupID m =
     map_option (\<lambda>state. snapshotIdentity (snd (sg_identity state))) (map_of (rm_groups m) groupID)"

definition groupRestorePersistence ::
  "string \<Rightarrow> nat \<Rightarrow> nat \<Rightarrow> nat \<Rightarrow> persisted_identity \<Rightarrow> runtime_manager \<Rightarrow> runtime_manager \<times> identity_error option" where
  \<comment> \<open>\<open>RuntimeManager.RestorePersistence\<close>\<close>
  "groupRestorePersistence groupID health leases control persisted m =
     (if groupID = [] then (m, Some PersistedDependencyInvalid)
      else if map_of (rm_groups m) groupID \<noteq> None then (m, None)
      else case restoreStableIdentityState persisted of
          Inl e \<Rightarrow> (m, Some e)
        | Inr identity \<Rightarrow>
            (m\<lparr>rm_groups := AList.update groupID
                 \<lparr>sg_health = health, sg_leases = leases, sg_control = control, sg_identity = (rm_nextRef m, identity),
                  sg_epochs = []\<rparr> (rm_groups m),
               rm_nextRef := rm_nextRef m + 1\<rparr>, None))"

section \<open>Publishing\<close>

definition PrepareEpoch ::
  "string \<Rightarrow> nat \<Rightarrow> nat \<Rightarrow> nat \<Rightarrow> identity_snapshot \<Rightarrow> runtime_manager \<Rightarrow>
   runtime_manager \<times> (identity_error + prepared_identity)" where
  "PrepareEpoch groupID health leases control snapshot m =
     (if groupID = [] then (m, Inl StableGroupRequired)
      else case validateIdentitySnapshot snapshot of
          Some e \<Rightarrow> (m, Inl e)
        | None \<Rightarrow>
            let baseRef = map_option sg_identity (map_of (rm_groups m) groupID);
                base = (case baseRef of None \<Rightarrow> newStableIdentityState | Some (a, s) \<Rightarrow> s);
                (nxt, identity) = preparePublish snapshot True base
            in (m\<lparr>rm_nextRef := rm_nextRef m + 1\<rparr>,
                Inr \<lparr>pp_groupID = groupID, pp_baseRevision = si_nextRevision base, pp_baseState = baseRef,
                     pp_nextState = (rm_nextRef m, nxt), pp_identity = identity, pp_health = health, pp_leases = leases,
                     pp_control = control, pp_newEpoch = True, pp_committed = False, pp_rolledBack = False,
                     pp_previousEpoch = None\<rparr>))"

definition PrepareRevision ::
  "string \<Rightarrow> epoch_id \<Rightarrow> identity_snapshot \<Rightarrow> runtime_manager \<Rightarrow>
   runtime_manager \<times> (identity_error + prepared_identity)" where
  "PrepareRevision groupID epochID snapshot m =
     (case validateIdentitySnapshot snapshot of
        Some e \<Rightarrow> (m, Inl e)
      | None \<Rightarrow>
          (case map_of (rm_groups m) groupID of
             None \<Rightarrow> (m, Inl EpochNotCurrent)
           | Some state \<Rightarrow>
               let base = snd (sg_identity state) in
               if si_currentEpoch base \<noteq> epochID then (m, Inl EpochNotCurrent)
               else (case map_of (sg_epochs state) epochID of
                   None \<Rightarrow> (m, Inl EpochNotActive)
                 | Some epoch \<Rightarrow>
                     if ep_lifecycle epoch \<noteq> EpochActive then (m, Inl EpochNotActive)
                     else if is_SourceGeneration snapshot \<le> ep_lastSourceGeneration epoch then (m, Inl SourceGenerationOutOfOrder)
                     else
                       let (nxt, identity) = preparePublish snapshot False base in
                       (m\<lparr>rm_nextRef := rm_nextRef m + 1\<rparr>,
                        Inr \<lparr>pp_groupID = groupID, pp_baseRevision = si_nextRevision base, pp_baseState = Some (sg_identity state),
                             pp_nextState = (rm_nextRef m, nxt), pp_identity = identity, pp_health = 0, pp_leases = 0,
                             pp_control = 0, pp_newEpoch = False, pp_committed = False, pp_rolledBack = False,
                             pp_previousEpoch = Some epoch\<rparr>))))"

definition commitBase :: "prepared_identity \<Rightarrow> runtime_manager \<Rightarrow> shared_group option" where
  \<comment> \<open>the group a commit continues from; none when the preparation is stale\<close>
  "commitBase p m =
     (case pp_baseState p of
        None \<Rightarrow>
          (case map_of (rm_groups m) (pp_groupID p) of
             Some state \<Rightarrow> None
           | None \<Rightarrow> Some \<lparr>sg_health = pp_health p, sg_leases = pp_leases p, sg_control = pp_control p,
                sg_identity = pp_nextState p, sg_epochs = []\<rparr>)
      | Some (a, base) \<Rightarrow>
          (case map_of (rm_groups m) (pp_groupID p) of
             None \<Rightarrow> None
           | Some state \<Rightarrow>
               if fst (sg_identity state) \<noteq> a \<or> si_nextRevision (snd (sg_identity state)) \<noteq> pp_baseRevision p
               then None else Some state))"

definition revisionStale :: "prepared_identity \<Rightarrow> shared_group \<Rightarrow> bool" where
  "revisionStale p state \<longleftrightarrow>
     \<not> pp_newEpoch p \<and>
     (case map_of (sg_epochs state) (ri_EpochID (pp_identity p)) of
        None \<Rightarrow> True
      | Some epoch \<Rightarrow> ep_lifecycle epoch \<noteq> EpochActive
          \<or> ep_lastSourceGeneration epoch \<ge> ri_SourceGeneration (pp_identity p))"

definition publishedEpoch :: "prepared_identity \<Rightarrow> stable_epoch option \<Rightarrow> stable_epoch" where
  \<comment> \<open>a new epoch, or the revision of the one there is, which keeps its life cycle and its leases\<close>
  "publishedEpoch p previous =
     (let identity = pp_identity p in
      case (if pp_newEpoch p then None else previous) of
        None \<Rightarrow> \<lparr>ep_lifecycle = EpochActive, ep_revision = ri_Revision identity,
             ep_lastSourceGeneration = ri_SourceGeneration identity, ep_refCount = 0, ep_handles = ri_Handles identity\<rparr>
      | Some epoch \<Rightarrow> epoch\<lparr>ep_revision := ri_Revision identity, ep_lastSourceGeneration := ri_SourceGeneration identity,
             ep_handles := ri_Handles identity\<rparr>)"

definition Commit ::
  "prepared_identity \<times> runtime_manager \<Rightarrow> (prepared_identity \<times> runtime_manager) \<times> (identity_error + runtime_identity)" where
  "Commit = (\<lambda>(p, m).
     if pp_committed p \<or> pp_rolledBack p then ((p, m), Inl NotCommittable)
     else case commitBase p m of
         None \<Rightarrow> ((p, m), Inl PreparedIdentityStale)
       | Some state \<Rightarrow>
           if revisionStale p state then ((p, m), Inl PreparedIdentityStale)
           else
             let epochID = ri_EpochID (pp_identity p);
                 epoch = publishedEpoch p (map_of (sg_epochs state) epochID);
                 state' = state\<lparr>sg_identity := pp_nextState p, sg_epochs := AList.update epochID epoch (sg_epochs state)\<rparr>
             in ((p\<lparr>pp_committed := True\<rparr>, m\<lparr>rm_groups := AList.update (pp_groupID p) state' (rm_groups m)\<rparr>),
                 Inr (pp_identity p)))"

definition Rollback ::
  "prepared_identity \<times> runtime_manager \<Rightarrow> (prepared_identity \<times> runtime_manager) \<times> identity_error option" where
  "Rollback = (\<lambda>(p, m).
     if \<not> pp_committed p \<or> pp_rolledBack p then ((p, m), None)
     else
       let p' = p\<lparr>pp_rolledBack := True\<rparr> in
       case map_of (rm_groups m) (pp_groupID p) of
         None \<Rightarrow> ((p', m), Some PreparedIdentityStale)
       | Some state \<Rightarrow>
           if fst (sg_identity state) \<noteq> fst (pp_nextState p) then ((p', m), Some PreparedIdentityStale)
           else case pp_baseState p of
               None \<Rightarrow> ((p', m\<lparr>rm_groups := AList.delete (pp_groupID p) (rm_groups m)\<rparr>), None)
             | Some base \<Rightarrow>
                 let epochID = ri_EpochID (pp_identity p);
                     epochs = (if pp_newEpoch p then AList.delete epochID (sg_epochs state)
                               else case pp_previousEpoch p of
                                   None \<Rightarrow> sg_epochs state
                                 | Some previous \<Rightarrow> AList.update epochID previous (sg_epochs state));
                     state' = state\<lparr>sg_identity := base, sg_epochs := epochs\<rparr>
                 in ((p', m\<lparr>rm_groups := AList.update (pp_groupID p) state' (rm_groups m)\<rparr>), None))"

section \<open>Epoch leases\<close>

definition putEpoch :: "string \<Rightarrow> shared_group \<Rightarrow> epoch_id \<Rightarrow> stable_epoch \<Rightarrow> runtime_manager \<Rightarrow> runtime_manager" where
  "putEpoch groupID state epochID epoch m =
     m\<lparr>rm_groups := AList.update groupID (state\<lparr>sg_epochs := AList.update epochID epoch (sg_epochs state)\<rparr>) (rm_groups m)\<rparr>"

definition dropEpoch :: "string \<Rightarrow> shared_group \<Rightarrow> epoch_id \<Rightarrow> runtime_manager \<Rightarrow> runtime_manager" where
  \<comment> \<open>the epoch is retired: removed from its group, which may go as well\<close>
  "dropEpoch groupID state epochID m =
     tryCleanupGroupLocked groupID
       (m\<lparr>rm_groups := AList.update groupID (state\<lparr>sg_epochs := AList.delete epochID (sg_epochs state)\<rparr>) (rm_groups m)\<rparr>)"

definition AcquireEpoch :: "string \<Rightarrow> epoch_id \<Rightarrow> runtime_manager \<Rightarrow> runtime_manager \<times> (identity_error + epoch_lease)" where
  "AcquireEpoch groupID epochID m =
     (case map_of (rm_groups m) groupID of
        None \<Rightarrow> (m, Inl GroupNotPublished)
      | Some state \<Rightarrow>
          (case map_of (sg_epochs state) epochID of
             None \<Rightarrow> (m, Inl EpochNotActive)
           | Some epoch \<Rightarrow>
               if ep_lifecycle epoch \<noteq> EpochActive then (m, Inl EpochNotActive)
               else (putEpoch groupID state epochID (epoch\<lparr>ep_refCount := inc_int (ep_refCount epoch)\<rparr>) m,
                     Inr \<lparr>el_groupID = groupID, el_epochID = epochID, el_released = False\<rparr>)))"

definition Release :: "epoch_lease \<times> runtime_manager \<Rightarrow> epoch_lease \<times> runtime_manager" where
  "Release = (\<lambda>(l, m).
     if el_released l then (l, m)
     else
       (l\<lparr>el_released := True\<rparr>,
        case map_of (rm_groups m) (el_groupID l) of
          None \<Rightarrow> m
        | Some state \<Rightarrow>
            (case map_of (sg_epochs state) (el_epochID l) of
               None \<Rightarrow> m
             | Some epoch \<Rightarrow>
                 let refCount = (if ep_refCount epoch > 0 then ep_refCount epoch - 1 else ep_refCount epoch) in
                 tryCleanupScheduler (el_groupID l)
                   (if ep_lifecycle epoch = EpochRetiring \<and> refCount = 0
                    then dropEpoch (el_groupID l) state (el_epochID l) m
                    else putEpoch (el_groupID l) state (el_epochID l) (epoch\<lparr>ep_refCount := refCount\<rparr>) m))))"

definition RetireEpoch :: "string \<Rightarrow> epoch_id \<Rightarrow> runtime_manager \<Rightarrow> runtime_manager" where
  "RetireEpoch groupID epochID m =
     (case map_of (rm_groups m) groupID of
        None \<Rightarrow> m
      | Some state \<Rightarrow>
          (case map_of (sg_epochs state) epochID of
             None \<Rightarrow> m
           | Some epoch \<Rightarrow>
               if ep_lifecycle epoch = EpochRetired then m
               else tryCleanupScheduler groupID
                 (if ep_refCount epoch = 0 then dropEpoch groupID state epochID m
                  else putEpoch groupID state epochID (epoch\<lparr>ep_lifecycle := EpochRetiring\<rparr>) m)))"

definition validateEpochObservation ::
  "shared_group option \<Rightarrow> epoch_id \<Rightarrow> catalog_revision \<Rightarrow> nat \<Rightarrow> node_id \<Rightarrow> nat \<Rightarrow> nat \<Rightarrow> bool \<Rightarrow> bool" where
  "validateEpochObservation state0 epochID revision sourceGeneration nodeID slot version allowRetiring =
     (case state0 of
        None \<Rightarrow> False
      | Some state \<Rightarrow>
          if revision = 0 \<or> sourceGeneration = 0 \<or> slot = 0 \<or> version = 0 then False
          else case map_of (sg_epochs state) epochID of
              None \<Rightarrow> False
            | Some epoch \<Rightarrow>
                if ep_lifecycle epoch = EpochRetired \<or> (ep_lifecycle epoch = EpochRetiring \<and> \<not> allowRetiring)
                   \<or> revision > ep_revision epoch \<or> sourceGeneration > ep_lastSourceGeneration epoch
                then False
                else case (map_of (ep_handles epoch) nodeID, map_of (si_lineage (snd (sg_identity state))) nodeID) of
                    (Some handle, Some lineage) \<Rightarrow>
                      nl_presentInLatest lineage \<and> nh_Slot (nl_handle lineage) = slot
                      \<and> nh_Version (nl_handle lineage) = version \<and> nh_Slot handle = slot \<and> nh_Version handle = version
                      \<and> revision \<ge> nh_BornRevision handle
                  | _ \<Rightarrow> False)"

definition ValidateEvidence ::
  "epoch_lease \<Rightarrow> epoch_id \<Rightarrow> catalog_revision \<Rightarrow> nat \<Rightarrow> node_handle \<Rightarrow> runtime_manager \<Rightarrow> bool" where
  "ValidateEvidence l epochID revision sourceGeneration handle m \<longleftrightarrow>
     \<not> el_released l \<and> epochID = el_epochID l
     \<and> validateEpochObservation (map_of (rm_groups m) (el_groupID l)) (el_epochID l) revision sourceGeneration
         (nh_NodeID handle) (nh_Slot handle) (nh_Version handle) True"

definition leaseValidateObservation :: "epoch_lease \<Rightarrow> catalog_revision \<Rightarrow> node_id \<Rightarrow> nat \<Rightarrow> nat \<Rightarrow> runtime_manager \<Rightarrow> bool" where
  \<comment> \<open>\<open>RuntimeEpochIdentityLease.ValidateObservation\<close>\<close>
  "leaseValidateObservation l revision nodeID slot version m \<longleftrightarrow>
     ValidateEvidence l (el_epochID l) revision 1
       \<lparr>nh_NodeID = nodeID, nh_Slot = slot, nh_Version = version, nh_BornRevision = 0\<rparr> m"

definition ValidateObservation ::
  "string \<Rightarrow> epoch_id \<Rightarrow> catalog_revision \<Rightarrow> node_id \<Rightarrow> nat \<Rightarrow> nat \<Rightarrow> runtime_manager \<Rightarrow> bool" where
  "ValidateObservation groupID epochID revision nodeID slot version m \<longleftrightarrow>
     validateEpochObservation (map_of (rm_groups m) groupID) epochID revision 1 nodeID slot version False"

end
