(* ===== verification/Runtime_System.thy ===== *)
theory Runtime_System
  imports Runtime_Manager
begin

text \<open>
  Runs of the runtime manager with the preparations and the epoch leases it handed out. Of two
  preparations of the same state only one is published while the group stays, an epoch stays as long
  as a lease on it is held, and a retired handle is never accepted again. A rollback is not among the steps of a
  run: it restores the lease count of an epoch as it was at the preparation, and
  \<open>rollback_loses_lease\<close> shows a lease lost that way.
\<close>

section \<open>Lookups\<close>

definition epochAt :: "runtime_manager \<Rightarrow> string \<Rightarrow> epoch_id \<Rightarrow> stable_epoch option" where
  "epochAt m g e = (case map_of (rm_groups m) g of None \<Rightarrow> None | Some state \<Rightarrow> map_of (sg_epochs state) e)"

definition identityAt :: "runtime_manager \<Rightarrow> string \<Rightarrow> identity_ref option" where
  "identityAt m g = map_option sg_identity (map_of (rm_groups m) g)"

lemma cleanup_group:
  "epochAt (tryCleanupGroupLocked g m) g' e = epochAt m g' e"
  "identityAt (tryCleanupGroupLocked g m) g' = Some i \<Longrightarrow> identityAt m g' = Some i"
  by (auto simp: tryCleanupGroupLocked_def epochAt_def identityAt_def gomap_simps split: option.splits if_splits)

lemma cleanup_identity:
  "epochAt m g e = Some ep \<Longrightarrow> identityAt (tryCleanupGroupLocked g' m) g = identityAt m g"
  by (auto simp: tryCleanupGroupLocked_def epochAt_def identityAt_def gomap_simps split: option.splits if_splits)

lemma cleanup_scheduler_groups [simp]: "rm_groups (tryCleanupScheduler g m) = rm_groups m"
  by (auto simp: tryCleanupScheduler_def split: option.splits prod.splits bool.splits)

lemma cleanup_goroutine_groups [simp]: "rm_groups (cleanupGoroutine g a m) = rm_groups m"
  by (simp add: cleanupGoroutine_def Let_def)

lemma cleanup_refs [simp]:
  "rm_nextRef (tryCleanupGroupLocked g m) = rm_nextRef m" "rm_nextRef (tryCleanupScheduler g m) = rm_nextRef m"
  "rm_nextRef (cleanupGoroutine g a m) = rm_nextRef m"
  by (auto simp: tryCleanupGroupLocked_def tryCleanupScheduler_def cleanupGoroutine_def Let_def split: option.splits prod.splits bool.splits)

lemma cleanup_scheduler_lookups [simp]:
  "epochAt (tryCleanupScheduler g m) = epochAt m" "identityAt (tryCleanupScheduler g m) = identityAt m"
  "epochAt (cleanupGoroutine g a m) = epochAt m" "identityAt (cleanupGoroutine g a m) = identityAt m"
  by (simp_all add: fun_eq_iff epochAt_def identityAt_def)

lemma put_epoch:
  assumes "map_of (rm_groups m) g = Some state"
  shows "epochAt (putEpoch g state e ep m) g' e' = (if g' = g \<and> e' = e then Some ep else epochAt m g' e')"
    "identityAt (putEpoch g state e ep m) = identityAt m" "rm_nextRef (putEpoch g state e ep m) = rm_nextRef m"
  using assms by (auto simp: putEpoch_def epochAt_def identityAt_def gomap_simps)

lemma drop_epoch:
  assumes "map_of (rm_groups m) g = Some state"
  shows "epochAt (dropEpoch g state e m) g' e' = (if g' = g \<and> e' = e then None else epochAt m g' e')"
    "identityAt (dropEpoch g state e m) g' = Some i \<Longrightarrow> identityAt m g' = Some i"
    "epochAt (dropEpoch g state e m) g' e' = Some ep \<Longrightarrow> identityAt (dropEpoch g state e m) g' = identityAt m g'"
    "rm_nextRef (dropEpoch g state e m) = rm_nextRef m"
proof -
  let ?m = "m\<lparr>rm_groups := AList.update g (state\<lparr>sg_epochs := AList.delete e (sg_epochs state)\<rparr>) (rm_groups m)\<rparr>"
  have e: "epochAt ?m g' e' = (if g' = g \<and> e' = e then None else epochAt m g' e')" for g' e'
    using assms by (simp add: epochAt_def gomap_simps)
  have i: "identityAt ?m = identityAt m" using assms by (simp add: fun_eq_iff identityAt_def gomap_simps)
  show "epochAt (dropEpoch g state e m) g' e' = (if g' = g \<and> e' = e then None else epochAt m g' e')"
    by (simp add: dropEpoch_def cleanup_group(1) e)
  show "identityAt (dropEpoch g state e m) g' = Some i \<Longrightarrow> identityAt m g' = Some i"
    using cleanup_group(2) [of g ?m g' i] by (simp add: dropEpoch_def i)
  show "epochAt (dropEpoch g state e m) g' e' = Some ep \<Longrightarrow> identityAt (dropEpoch g state e m) g' = identityAt m g'"
    using cleanup_identity [of ?m g' e' ep g] by (simp add: dropEpoch_def i cleanup_group(1))
  show "rm_nextRef (dropEpoch g state e m) = rm_nextRef m" by (simp add: dropEpoch_def)
qed

section \<open>Runs\<close>

record runtime_sys =
  ry_manager :: runtime_manager
  ry_prepared :: "prepared_identity list"
  ry_leases :: "epoch_lease list"

definition onManager :: "runtime_manager \<Rightarrow> runtime_sys \<Rightarrow> runtime_sys" where
  "onManager m y = y\<lparr>ry_manager := m\<rparr>"

fun prepared :: "identity_error + prepared_identity \<Rightarrow> runtime_sys \<Rightarrow> runtime_sys" where
  "prepared (Inl e) y = y"
| "prepared (Inr p) y = y\<lparr>ry_prepared := ry_prepared y @ [p]\<rparr>"

fun acquired :: "identity_error + epoch_lease \<Rightarrow> runtime_sys \<Rightarrow> runtime_sys" where
  "acquired (Inl e) y = y"
| "acquired (Inr l) y = y\<lparr>ry_leases := ry_leases y @ [l]\<rparr>"

definition epochRoom :: "string \<Rightarrow> runtime_manager \<Rightarrow> bool" where
  \<comment> \<open>the epoch counter of the group does not wrap\<close>
  "epochRoom g m \<longleftrightarrow> (\<forall>a s. identityAt m g = Some (a, s) \<longrightarrow> si_nextEpoch s < 2 ^ 64 - 1)"

inductive runtime_step :: "runtime_sys \<Rightarrow> runtime_sys \<Rightarrow> bool" where
  register: "runtime_step y (onManager (RegisterGroup g (ry_manager y)) y)"
| unregister: "runtime_step y (onManager (UnregisterGroup g (ry_manager y)) y)"
| scheduler: "runtime_step y (onManager (fst (schedulerCoordinator g (ry_manager y))) y)"
| coordinate: "map_of (rm_coordinators (ry_manager y)) a = Some c \<Longrightarrow> owner_step c c' \<Longrightarrow>
    runtime_step y (onManager ((ry_manager y)\<lparr>rm_coordinators := AList.update a c' (rm_coordinators (ry_manager y))\<rparr>) y)"
| cleanup: "(g, a, t) \<in> set (rm_waiting (ry_manager y)) \<Longrightarrow> tokenDrained (coordinatorAt (ry_manager y) a) t \<Longrightarrow>
    runtime_step y (onManager (cleanupGoroutine g a ((ry_manager y)\<lparr>rm_waiting := remove1 (g, a, t) (rm_waiting (ry_manager y))\<rparr>)) y)"
| restore: "runtime_step y (onManager (fst (groupRestorePersistence g h l c p (ry_manager y))) y)"
| prepareEpoch: "epochRoom g (ry_manager y) \<Longrightarrow> PrepareEpoch g h l c snap (ry_manager y) = (m', r) \<Longrightarrow>
    runtime_step y (prepared r (onManager m' y))"
| prepareRevision: "PrepareRevision g e snap (ry_manager y) = (m', r) \<Longrightarrow> runtime_step y (prepared r (onManager m' y))"
| commit: "i < length (ry_prepared y) \<Longrightarrow> Commit (ry_prepared y ! i, ry_manager y) = ((p', m'), r) \<Longrightarrow>
    runtime_step y (onManager m' (y\<lparr>ry_prepared := (ry_prepared y)[i := p']\<rparr>))"
| acquire: "length (ry_leases y) < 2 ^ 63 - 1 \<Longrightarrow> AcquireEpoch g e (ry_manager y) = (m', r) \<Longrightarrow>
    runtime_step y (acquired r (onManager m' y))"
| release: "i < length (ry_leases y) \<Longrightarrow> Release (ry_leases y ! i, ry_manager y) = (l', m') \<Longrightarrow>
    runtime_step y (onManager m' (y\<lparr>ry_leases := (ry_leases y)[i := l']\<rparr>))"
| retire: "runtime_step y (onManager (RetireEpoch g e (ry_manager y)) y)"

definition runtime_init :: "runtime_sys \<Rightarrow> bool" where
  "runtime_init y \<longleftrightarrow> y = \<lparr>ry_manager = NewRuntimeManager, ry_prepared = [], ry_leases = []\<rparr>"

section \<open>The invariant\<close>

definition heldLeases :: "epoch_lease list \<Rightarrow> string \<Rightarrow> epoch_id \<Rightarrow> nat" where
  "heldLeases ls g e = length (filter (\<lambda>l. el_groupID l = g \<and> el_epochID l = e \<and> \<not> el_released l) ls)"

definition epochs_ok :: "runtime_manager \<Rightarrow> epoch_lease list \<Rightarrow> bool" where
  \<comment> \<open>the lease counts are exact, and every epoch number was issued by the identity of its group\<close>
  "epochs_ok m ls \<longleftrightarrow>
     (\<forall>g e. int (heldLeases ls g e) = (case epochAt m g e of None \<Rightarrow> 0 | Some ep \<Rightarrow> ep_refCount ep))
     \<and> (\<forall>g e ep. epochAt m g e = Some ep \<longrightarrow> ep_lifecycle ep \<noteq> EpochRetired
          \<and> (\<exists>a s. identityAt m g = Some (a, s) \<and> e \<le> si_nextEpoch s))"

definition baseIdentity :: "prepared_identity \<Rightarrow> stable_identity" where
  "baseIdentity p = (case pp_baseState p of None \<Rightarrow> newStableIdentityState | Some (a, s) \<Rightarrow> s)"

definition prepared_ok :: "prepared_identity \<Rightarrow> bool" where
  \<comment> \<open>the next state was computed from the base\<close>
  "prepared_ok p \<longleftrightarrow>
     (pp_newEpoch p \<longrightarrow> ri_EpochID (pp_identity p) = Suc (si_nextEpoch (baseIdentity p))
        \<and> si_nextEpoch (snd (pp_nextState p)) = Suc (si_nextEpoch (baseIdentity p)))
     \<and> (\<not> pp_newEpoch p \<longrightarrow> si_nextEpoch (snd (pp_nextState p)) = si_nextEpoch (baseIdentity p) \<and> pp_baseState p \<noteq> None)"

definition identityPairs :: "runtime_sys \<Rightarrow> identity_ref set" where
  "identityPairs y =
     {i. \<exists>g. identityAt (ry_manager y) g = Some i} \<union> pp_nextState ` set (ry_prepared y)
     \<union> {i. \<exists>p \<in> set (ry_prepared y). pp_baseState p = Some i}"

definition refs_ok :: "runtime_sys \<Rightarrow> bool" where
  \<comment> \<open>an address was used once, and a preparation was allocated after its base\<close>
  "refs_ok y \<longleftrightarrow>
     (\<forall>a s. (a, s) \<in> identityPairs y \<longrightarrow> a < rm_nextRef (ry_manager y))
     \<and> (\<forall>a s s'. (a, s) \<in> identityPairs y \<longrightarrow> (a, s') \<in> identityPairs y \<longrightarrow> s = s')
     \<and> (\<forall>p \<in> set (ry_prepared y). \<forall>a s. pp_baseState p = Some (a, s) \<longrightarrow> a < fst (pp_nextState p))"

definition runtime_ok :: "runtime_sys \<Rightarrow> bool" where
  "runtime_ok y \<longleftrightarrow>
     epochs_ok (ry_manager y) (ry_leases y) \<and> (\<forall>p \<in> set (ry_prepared y). prepared_ok p) \<and> refs_ok y"

section \<open>Every step keeps the invariant\<close>

lemma refs_sub:
  assumes "refs_ok y" and "identityPairs y' \<subseteq> identityPairs y" and "rm_nextRef (ry_manager y) \<le> rm_nextRef (ry_manager y')"
    and "\<And>p. p \<in> set (ry_prepared y') \<Longrightarrow> \<exists>q \<in> set (ry_prepared y). pp_baseState p = pp_baseState q \<and> pp_nextState p = pp_nextState q"
  shows "refs_ok y'"
proof -
  have "a < rm_nextRef (ry_manager y')" if "(a, s) \<in> identityPairs y'" for a s
    using assms(1-3) that unfolding refs_ok_def by (meson order_less_le_trans subsetD)
  moreover have "s = s'" if "(a, s) \<in> identityPairs y'" "(a, s') \<in> identityPairs y'" for a s s'
    using assms(1,2) that unfolding refs_ok_def by blast
  moreover have "a < fst (pp_nextState p)" if "p \<in> set (ry_prepared y')" "pp_baseState p = Some (a, s)" for p a s
    using assms(1) assms(4) [OF that(1)] that(2) unfolding refs_ok_def by metis
  ultimately show ?thesis unfolding refs_ok_def by blast
qed

lemma refs_add:
  assumes ok: "refs_ok y" and sub: "identityPairs y' \<subseteq> insert (rm_nextRef (ry_manager y), v) (identityPairs y)"
    and nxt: "rm_nextRef (ry_manager y') = Suc (rm_nextRef (ry_manager y))"
    and old: "\<And>p a s. p \<in> set (ry_prepared y') \<Longrightarrow> pp_baseState p = Some (a, s) \<Longrightarrow>
      p \<in> set (ry_prepared y) \<or> (a, s) \<in> identityPairs y \<and> fst (pp_nextState p) = rm_nextRef (ry_manager y)"
  shows "refs_ok y'"
proof -
  have fresh: "a < rm_nextRef (ry_manager y)" if "(a, s) \<in> identityPairs y" for a s
    using ok that unfolding refs_ok_def by blast
  have "a < rm_nextRef (ry_manager y')" if "(a, s) \<in> identityPairs y'" for a s
    using sub nxt fresh that by (auto intro: less_SucI)
  moreover have "s = s'" if "(a, s) \<in> identityPairs y'" "(a, s') \<in> identityPairs y'" for a s s'
  proof -
    have "(a, s) = (rm_nextRef (ry_manager y), v) \<or> (a, s) \<in> identityPairs y" "(a, s') = (rm_nextRef (ry_manager y), v) \<or> (a, s') \<in> identityPairs y"
      using sub that by blast+
    then show ?thesis using fresh ok unfolding refs_ok_def by (metis less_irrefl prod.inject)
  qed
  moreover have "a < fst (pp_nextState p)" if "p \<in> set (ry_prepared y')" "pp_baseState p = Some (a, s)" for p a s
    using old [OF that] fresh ok that(2) unfolding refs_ok_def by metis
  ultimately show ?thesis unfolding refs_ok_def by blast
qed

lemma refs_frame:
  assumes "refs_ok y" and "\<And>g i. identityAt m' g = Some i \<Longrightarrow> identityAt (ry_manager y) g = Some i"
    and "rm_nextRef (ry_manager y) \<le> rm_nextRef m'"
  shows "refs_ok (y\<lparr>ry_manager := m', ry_leases := ls\<rparr>)"
  by (rule refs_sub [OF assms(1)]) (use assms(2,3) in \<open>auto simp: identityPairs_def\<close>)

lemma epochs_frame:
  assumes "epochs_ok m ls" and "epochAt m' = epochAt m" and "\<And>g e ep. epochAt m g e = Some ep \<Longrightarrow> identityAt m' g = identityAt m g"
  shows "epochs_ok m' ls"
  using assms unfolding epochs_ok_def by simp

lemma epochs_update:
  assumes ok: "epochs_ok m ls"
    and look: "\<And>g' e'. epochAt m' g' e' = (if g' = g \<and> e' = e then x else epochAt m g' e')"
    and ids: "\<And>g e ep. epochAt m' g e = Some ep \<Longrightarrow> identityAt m' g = identityAt m g"
    and "epochAt m g e \<noteq> None"
    and count: "int (heldLeases ls' g e) = (case x of None \<Rightarrow> 0 | Some ep \<Rightarrow> ep_refCount ep)"
    and live: "\<And>ep. x = Some ep \<Longrightarrow> ep_lifecycle ep \<noteq> EpochRetired"
    and other: "\<And>g' e'. (g', e') \<noteq> (g, e) \<Longrightarrow> heldLeases ls' g' e' = heldLeases ls g' e'"
  shows "epochs_ok m' ls'"
proof -
  have "int (heldLeases ls' g' e') = (case epochAt m' g' e' of None \<Rightarrow> 0 | Some ep \<Rightarrow> ep_refCount ep)" for g' e'
    using ok count other [of g' e'] unfolding epochs_ok_def look by (cases "g' = g \<and> e' = e") auto
  moreover have "ep_lifecycle ep \<noteq> EpochRetired \<and> (\<exists>a s. identityAt m' g' = Some (a, s) \<and> e' \<le> si_nextEpoch s)"
    if ep: "epochAt m' g' e' = Some ep" for g' e' ep
  proof -
    have "epochAt m g' e' \<noteq> None" using ep assms(4) unfolding look by (auto split: if_splits)
    then show ?thesis
      using ok ep live ids [OF ep] unfolding epochs_ok_def look by (fastforce split: if_splits)
  qed
  ultimately show ?thesis unfolding epochs_ok_def by blast
qed

lemma groups_same:
  "rm_groups m' = rm_groups m \<Longrightarrow> epochAt m' = epochAt m" "rm_groups m' = rm_groups m \<Longrightarrow> identityAt m' = identityAt m"
  by (simp_all add: fun_eq_iff epochAt_def identityAt_def)

lemma ok_frame:
  assumes "runtime_ok y" and "epochAt m' = epochAt (ry_manager y)"
    and "\<And>g e ep. epochAt (ry_manager y) g e = Some ep \<Longrightarrow> identityAt m' g = identityAt (ry_manager y) g"
    and "\<And>g i. identityAt m' g = Some i \<Longrightarrow> identityAt (ry_manager y) g = Some i"
    and "rm_nextRef (ry_manager y) \<le> rm_nextRef m'"
  shows "runtime_ok (onManager m' y)"
proof -
  have "epochs_ok (ry_manager y) (ry_leases y)" "refs_ok y" using assms(1) by (simp_all add: runtime_ok_def)
  from epochs_frame [OF this(1) assms(2,3)] refs_frame [OF this(2) assms(4,5), of "ry_leases y"]
  show ?thesis using assms(1) unfolding runtime_ok_def onManager_def by simp
qed

lemma ok_groups:
  "runtime_ok y \<Longrightarrow> rm_groups m' = rm_groups (ry_manager y) \<Longrightarrow> rm_nextRef (ry_manager y) \<le> rm_nextRef m' \<Longrightarrow> runtime_ok (onManager m' y)"
  using groups_same [of m' "ry_manager y"] by (intro ok_frame) simp_all

lemma ok_unregister: "runtime_ok y \<Longrightarrow> runtime_ok (onManager (UnregisterGroup g (ry_manager y)) y)"
proof -
  assume ok: "runtime_ok y"
  let ?m = "ry_manager y"
  let ?m1 = "?m\<lparr>rm_groupUsers := AList.delete g (rm_groupUsers ?m)\<rparr>"
  have m1: "epochAt ?m1 = epochAt ?m" "identityAt ?m1 = identityAt ?m" by (rule groups_same, simp)+
  have "runtime_ok (onManager (tryCleanupScheduler g (tryCleanupGroupLocked g ?m1)) y)"
  proof (rule ok_frame [OF ok])
    show "epochAt (tryCleanupScheduler g (tryCleanupGroupLocked g ?m1)) = epochAt ?m"
      by (simp add: fun_eq_iff cleanup_group(1) m1)
    show "identityAt (tryCleanupScheduler g (tryCleanupGroupLocked g ?m1)) h = identityAt ?m h" if "epochAt ?m h e = Some ep" for h e ep
      using cleanup_identity [of ?m1 h e ep g] that by (simp add: m1)
    show "identityAt ?m h = Some i" if "identityAt (tryCleanupScheduler g (tryCleanupGroupLocked g ?m1)) h = Some i" for h i
      using cleanup_group(2) [of g ?m1 h i] that by (simp add: m1)
  qed simp
  moreover have "runtime_ok (onManager (?m\<lparr>rm_groupUsers := x\<rparr>) y)" for x by (rule ok_groups [OF ok]) simp_all
  moreover have "onManager ?m y = y" by (simp add: onManager_def)
  ultimately show "runtime_ok (onManager (UnregisterGroup g ?m) y)" using ok by (simp add: UnregisterGroup_def)
qed

lemma held_append: "heldLeases (ls @ [l]) g e = heldLeases ls g e + (if el_groupID l = g \<and> el_epochID l = e \<and> \<not> el_released l then 1 else 0)"
  by (simp add: heldLeases_def)

lemma held_release:
  assumes "i < length ls" and "\<not> el_released (ls ! i)"
  shows "heldLeases ls g e = heldLeases (ls[i := (ls ! i)\<lparr>el_released := True\<rparr>]) g e
    + (if el_groupID (ls ! i) = g \<and> el_epochID (ls ! i) = e then 1 else 0)"
  using assms
proof (induction ls arbitrary: i)
  case (Cons l ls)
  then show ?case by (cases i) (auto simp: heldLeases_def)
qed simp

lemma ok_acquire:
  assumes ok: "runtime_ok y" and small: "length (ry_leases y) < 2 ^ 63 - 1" and a: "AcquireEpoch g e (ry_manager y) = (m', r)"
  shows "runtime_ok (acquired r (onManager m' y))"
proof (cases "\<exists>ep. epochAt (ry_manager y) g e = Some ep \<and> ep_lifecycle ep = EpochActive")
  case False
  then have "m' = ry_manager y \<and> (\<exists>x. r = Inl x)" using a by (auto simp: AcquireEpoch_def epochAt_def split: option.splits if_splits)
  then show ?thesis using ok by (auto simp: onManager_def)
next
  case True
  then obtain ep state where ep: "epochAt (ry_manager y) g e = Some ep" "ep_lifecycle ep = EpochActive"
      "map_of (rm_groups (ry_manager y)) g = Some state" "map_of (sg_epochs state) e = Some ep"
    by (auto simp: epochAt_def split: option.splits)
  let ?l = "\<lparr>el_groupID = g, el_epochID = e, el_released = False\<rparr>"
  let ?ep = "ep\<lparr>ep_refCount := inc_int (ep_refCount ep)\<rparr>"
  have m': "m' = putEpoch g state e ?ep (ry_manager y)" "r = Inr ?l" using a ep by (auto simp: AcquireEpoch_def)
  have n: "ep_refCount ep = int (heldLeases (ry_leases y) g e)" using ok ep(1) unfolding runtime_ok_def epochs_ok_def by simp
  have "heldLeases (ry_leases y) g e \<le> length (ry_leases y)" by (simp add: heldLeases_def)
  then have inc: "inc_int (ep_refCount ep) = int (heldLeases (ry_leases y) g e) + 1" using small n by simp
  note put = put_epoch [OF ep(3), of e ?ep]
  have "epochs_ok m' (ry_leases y @ [?l])"
  proof (rule epochs_update [where g = g and e = e and x = "Some ?ep"])
    show "epochs_ok (ry_manager y) (ry_leases y)" using ok by (simp add: runtime_ok_def)
    show "epochAt m' g' e' = (if g' = g \<and> e' = e then Some ?ep else epochAt (ry_manager y) g' e')" for g' e'
      unfolding m' by (rule put(1))
  qed (use put(2) ep inc in \<open>auto simp: m' held_append\<close>)
  moreover have "refs_ok (y\<lparr>ry_manager := m', ry_leases := ry_leases y @ [?l]\<rparr>)"
    by (rule refs_frame) (use ok put in \<open>auto simp: runtime_ok_def m'\<close>)
  ultimately show ?thesis using ok by (simp add: runtime_ok_def m'(2) onManager_def)
qed

text \<open>An epoch loses a lease or is retired: it is kept with a new count, or removed.\<close>

definition epochChange :: "string \<Rightarrow> shared_group \<Rightarrow> epoch_id \<Rightarrow> stable_epoch option \<Rightarrow> runtime_manager \<Rightarrow> runtime_manager" where
  "epochChange g state e x m = (case x of None \<Rightarrow> dropEpoch g state e m | Some ep \<Rightarrow> putEpoch g state e ep m)"

lemma epoch_change:
  assumes "map_of (rm_groups m) g = Some state"
  shows "epochAt (epochChange g state e x m) g' e' = (if g' = g \<and> e' = e then x else epochAt m g' e')"
    "identityAt (epochChange g state e x m) g' = Some i \<Longrightarrow> identityAt m g' = Some i"
    "epochAt (epochChange g state e x m) g' e' = Some ep \<Longrightarrow> identityAt (epochChange g state e x m) g' = identityAt m g'"
    "rm_nextRef (epochChange g state e x m) = rm_nextRef m"
  using drop_epoch [OF assms] put_epoch [OF assms] by (cases x; simp add: epochChange_def)+

lemma ok_change:
  assumes ok: "runtime_ok y" and g: "map_of (rm_groups (ry_manager y)) g = Some state" and e: "map_of (sg_epochs state) e = Some ep"
    and count: "int (heldLeases ls g e) = (case x of None \<Rightarrow> 0 | Some ep \<Rightarrow> ep_refCount ep)"
    and live: "\<And>ep. x = Some ep \<Longrightarrow> ep_lifecycle ep \<noteq> EpochRetired"
    and other: "\<And>g' e'. (g', e') \<noteq> (g, e) \<Longrightarrow> heldLeases ls g' e' = heldLeases (ry_leases y) g' e'"
  shows "runtime_ok (y\<lparr>ry_manager := tryCleanupScheduler g (epochChange g state e x (ry_manager y)), ry_leases := ls\<rparr>)"
proof -
  let ?m = "epochChange g state e x (ry_manager y)"
  note change = epoch_change [OF g]
  have "epochAt (ry_manager y) g e \<noteq> None" using g e by (simp add: epochAt_def)
  moreover have "epochs_ok (ry_manager y) (ry_leases y)" using ok by (simp add: runtime_ok_def)
  ultimately have "epochs_ok ?m ls"
    by (intro epochs_update [OF _ change(1) change(3) _ count live other])
  then have "epochs_ok (tryCleanupScheduler g ?m) ls" by (rule epochs_frame) simp_all
  moreover have "refs_ok (y\<lparr>ry_manager := tryCleanupScheduler g ?m, ry_leases := ls\<rparr>)"
  proof (rule refs_frame)
    show "refs_ok y" using ok by (simp add: runtime_ok_def)
    show "identityAt (ry_manager y) g' = Some i" if "identityAt (tryCleanupScheduler g ?m) g' = Some i" for g' i
      using change(2) [of e x g' i] that by simp
  qed (simp add: change(4))
  ultimately show ?thesis using ok by (simp add: runtime_ok_def)
qed

lemma held_count:
  "runtime_ok y \<Longrightarrow> map_of (rm_groups (ry_manager y)) g = Some state \<Longrightarrow> map_of (sg_epochs state) e = Some ep \<Longrightarrow>
   int (heldLeases (ry_leases y) g e) = ep_refCount ep \<and> ep_lifecycle ep \<noteq> EpochRetired"
  unfolding runtime_ok_def epochs_ok_def epochAt_def by (force split: option.splits)

lemma ok_retire: "runtime_ok y \<Longrightarrow> runtime_ok (onManager (RetireEpoch g e (ry_manager y)) y)"
proof -
  assume ok: "runtime_ok y"
  let ?m = "ry_manager y"
  show "runtime_ok (onManager (RetireEpoch g e ?m) y)"
  proof (cases "\<exists>state ep. map_of (rm_groups ?m) g = Some state \<and> map_of (sg_epochs state) e = Some ep")
    case False
    then have "RetireEpoch g e ?m = ?m" by (auto simp: RetireEpoch_def split: option.split)
    then show ?thesis using ok by (simp add: onManager_def)
  next
    case True
    then obtain state ep where s: "map_of (rm_groups ?m) g = Some state" "map_of (sg_epochs state) e = Some ep" by blast
    let ?x = "if ep_refCount ep = 0 then None else Some (ep\<lparr>ep_lifecycle := EpochRetiring\<rparr>)"
    note held = held_count [OF ok s]
    have "RetireEpoch g e ?m = tryCleanupScheduler g (epochChange g state e ?x ?m)"
      using s held by (simp add: RetireEpoch_def epochChange_def)
    moreover have "runtime_ok (y\<lparr>ry_manager := tryCleanupScheduler g (epochChange g state e ?x ?m), ry_leases := ry_leases y\<rparr>)"
      by (rule ok_change [OF ok s]) (use held in \<open>auto split: if_splits\<close>)
    ultimately show ?thesis by (simp add: onManager_def)
  qed
qed

lemma ok_release:
  assumes ok: "runtime_ok y" and i: "i < length (ry_leases y)" and r: "Release (ry_leases y ! i, ry_manager y) = (l', m')"
  shows "runtime_ok (onManager m' (y\<lparr>ry_leases := (ry_leases y)[i := l']\<rparr>))"
proof (cases "el_released (ry_leases y ! i)")
  case True
  then show ?thesis using r ok by (auto simp: Release_def onManager_def)
next
  case False
  let ?m = "ry_manager y" and ?l = "ry_leases y ! i"
  let ?ls = "(ry_leases y)[i := ?l\<lparr>el_released := True\<rparr>]" and ?g = "el_groupID ?l" and ?e = "el_epochID ?l"
  note held = held_release [OF i False]
  have l': "l' = ?l\<lparr>el_released := True\<rparr>" using r False by (simp add: Release_def)
  have pos: "heldLeases (ry_leases y) ?g ?e = Suc (heldLeases ?ls ?g ?e)" using held [of ?g ?e] by simp
  then have "epochAt ?m ?g ?e \<noteq> None" using ok unfolding runtime_ok_def epochs_ok_def by (metis of_nat_0_eq_iff option.simps(4) nat.distinct(2))
  then obtain state ep where s: "map_of (rm_groups ?m) ?g = Some state" "map_of (sg_epochs state) ?e = Some ep"
    by (auto simp: epochAt_def split: option.splits)
  note count = held_count [OF ok s]
  let ?n = "ep_refCount ep - 1"
  let ?x = "if ep_lifecycle ep = EpochRetiring \<and> ?n = 0 then None else Some (ep\<lparr>ep_refCount := ?n\<rparr>)"
  have n: "ep_refCount ep > 0" "?n = int (heldLeases ?ls ?g ?e)"
    using count pos by auto
  have "m' = tryCleanupScheduler ?g (epochChange ?g state ?e ?x ?m)"
    using r False s n(1) unfolding Release_def Let_def by (auto simp: epochChange_def)
  moreover have "runtime_ok (y\<lparr>ry_manager := tryCleanupScheduler ?g (epochChange ?g state ?e ?x ?m), ry_leases := ?ls\<rparr>)"
  proof (rule ok_change [OF ok s])
    show "heldLeases ?ls g' e' = heldLeases (ry_leases y) g' e'" if "(g', e') \<noteq> (?g, ?e)" for g' e'
      using held [of g' e'] that by auto
  qed (use n(2) count in \<open>auto split: if_splits\<close>)
  moreover have "onManager m' (y\<lparr>ry_leases := ?ls\<rparr>) = y\<lparr>ry_manager := m', ry_leases := ?ls\<rparr>" by (simp add: onManager_def)
  ultimately show ?thesis unfolding l' by metis
qed

section \<open>Publishing keeps the invariant\<close>

lemma pairs_group: "identityAt (ry_manager y) g = Some i \<Longrightarrow> i \<in> identityPairs y"
  by (auto simp: identityPairs_def)

lemma ok_restore: "runtime_ok y \<Longrightarrow> runtime_ok (onManager (fst (groupRestorePersistence g h l c p (ry_manager y))) y)"
proof -
  assume ok: "runtime_ok y"
  let ?m = "ry_manager y" and ?m' = "fst (groupRestorePersistence g h l c p (ry_manager y))"
  show "runtime_ok (onManager ?m' y)"
  proof (cases "\<exists>v. g \<noteq> [] \<and> map_of (rm_groups ?m) g = None \<and> restoreStableIdentityState p = Inr v")
    case False
    then have "?m' = ?m" by (auto simp: groupRestorePersistence_def split: sum.split)
    then show ?thesis using ok by (simp add: onManager_def)
  next
    case True
    then obtain v where v: "g \<noteq> []" "map_of (rm_groups ?m) g = None" "restoreStableIdentityState p = Inr v" by blast
    have e: "epochAt ?m' = epochAt ?m" using v by (auto simp: groupRestorePersistence_def epochAt_def fun_eq_iff gomap_simps)
    have i: "identityAt ?m' g' = (if g' = g then Some (rm_nextRef ?m, v) else identityAt ?m g')" for g'
      using v by (simp add: groupRestorePersistence_def identityAt_def gomap_simps)
    have n: "rm_nextRef ?m' = Suc (rm_nextRef ?m)" using v by (simp add: groupRestorePersistence_def)
    have none: "epochAt ?m g x = None" for x using v by (simp add: epochAt_def)
    have "epochs_ok ?m' (ry_leases y)"
    proof (rule epochs_frame [OF _ e])
      show "epochs_ok ?m (ry_leases y)" using ok by (simp add: runtime_ok_def)
      show "identityAt ?m' g' = identityAt ?m g'" if "epochAt ?m g' x = Some ep" for g' x ep using that none [of x] i [of g'] by auto
    qed
    moreover have "refs_ok (onManager ?m' y)"
    proof (rule refs_add [where v = v])
      show "refs_ok y" using ok by (simp add: runtime_ok_def)
      show "identityPairs (onManager ?m' y) \<subseteq> insert (rm_nextRef ?m, v) (identityPairs y)"
        using i by (auto simp: identityPairs_def onManager_def split: if_splits)
    qed (simp_all add: onManager_def n)
    ultimately show ?thesis using ok by (simp add: runtime_ok_def onManager_def)
  qed
qed

lemma ok_prepared:
  assumes ok: "runtime_ok y" and p: "prepared_ok p" and base: "\<And>i. pp_baseState p = Some i \<Longrightarrow> i \<in> identityPairs y"
    and nxt: "fst (pp_nextState p) = rm_nextRef (ry_manager y)"
  shows "runtime_ok (y\<lparr>ry_manager := (ry_manager y)\<lparr>rm_nextRef := rm_nextRef (ry_manager y) + 1\<rparr>, ry_prepared := ry_prepared y @ [p]\<rparr>)"
    (is "runtime_ok ?y")
proof -
  let ?m = "(ry_manager y)\<lparr>rm_nextRef := rm_nextRef (ry_manager y) + 1\<rparr>"
  have same: "epochAt ?m = epochAt (ry_manager y)" "identityAt ?m = identityAt (ry_manager y)" by (rule groups_same, simp)+
  have "refs_ok ?y"
  proof (rule refs_add [where v = "snd (pp_nextState p)"])
    show "refs_ok y" using ok by (simp add: runtime_ok_def)
    show "identityPairs ?y \<subseteq> insert (rm_nextRef (ry_manager y), snd (pp_nextState p)) (identityPairs y)"
      using base nxt same by (auto simp: identityPairs_def prod_eq_iff)
  qed (use base nxt in auto)
  moreover have "epochs_ok ?m (ry_leases y)" using ok same by (simp add: runtime_ok_def epochs_ok_def)
  ultimately show ?thesis using ok p by (auto simp: runtime_ok_def)
qed

lemma publish_epoch:
  "ri_EpochID (snd (preparePublish snap e s)) = si_currentEpoch (beginPublish e s)"
  "si_nextEpoch (fst (preparePublish snap e s)) = si_nextEpoch (beginPublish e s)"
  "ri_SourceGeneration (snd (preparePublish snap e s)) = is_SourceGeneration snap"
  by (simp_all add: preparePublish_def Let_def)

lemma ok_prepareEpoch:
  assumes ok: "runtime_ok y" and room: "epochRoom g (ry_manager y)" and r: "PrepareEpoch g h l c snap (ry_manager y) = (m', r)"
  shows "runtime_ok (prepared r (onManager m' y))"
proof (cases r)
  case (Inl e)
  then have "m' = ry_manager y" using r by (auto simp: PrepareEpoch_def Let_def case_prod_unfold split: if_splits option.splits)
  then show ?thesis using ok Inl by (simp add: onManager_def)
next
  case (Inr p)
  let ?m = "ry_manager y"
  define base where "base = (case identityAt ?m g of None \<Rightarrow> newStableIdentityState | Some (a, s) \<Rightarrow> s)"
  have p: "m' = ?m\<lparr>rm_nextRef := rm_nextRef ?m + 1\<rparr>" "pp_baseState p = identityAt ?m g" "pp_newEpoch p"
      "pp_nextState p = (rm_nextRef ?m, fst (preparePublish snap True base))" "pp_identity p = snd (preparePublish snap True base)"
    using r Inr by (auto simp: PrepareEpoch_def Let_def case_prod_unfold identityAt_def base_def split: if_splits option.splits)
  have b: "baseIdentity p = base" by (simp add: baseIdentity_def base_def p(2))
  have "si_nextEpoch base < 2 ^ 64 - 1"
    using room unfolding epochRoom_def base_def by (cases "identityAt ?m g") (auto simp: newStableIdentityState_def)
  then have "inc64 (si_nextEpoch base) = Suc (si_nextEpoch base)" by simp
  then have "prepared_ok p" using p(3) by (simp add: prepared_ok_def b p(4,5) publish_epoch beginPublish_def Let_def)
  then have "runtime_ok (y\<lparr>ry_manager := ?m\<lparr>rm_nextRef := rm_nextRef ?m + 1\<rparr>, ry_prepared := ry_prepared y @ [p]\<rparr>)"
    by (rule ok_prepared [OF ok]) (simp_all add: p(2,4) pairs_group)
  then show ?thesis using p(1) Inr by (simp add: onManager_def)
qed

lemma ok_prepareRevision:
  assumes ok: "runtime_ok y" and r: "PrepareRevision g e snap (ry_manager y) = (m', r)"
  shows "runtime_ok (prepared r (onManager m' y))"
proof (cases r)
  case (Inl e)
  then have "m' = ry_manager y" using r by (auto simp: PrepareRevision_def Let_def case_prod_unfold split: if_splits option.splits)
  then show ?thesis using ok Inl by (simp add: onManager_def)
next
  case (Inr p)
  let ?m = "ry_manager y"
  obtain i where p: "m' = ?m\<lparr>rm_nextRef := rm_nextRef ?m + 1\<rparr>" "identityAt ?m g = Some i" "pp_baseState p = Some i" "\<not> pp_newEpoch p"
      "pp_nextState p = (rm_nextRef ?m, fst (preparePublish snap False (snd i)))"
    using r Inr by (auto simp: PrepareRevision_def Let_def case_prod_unfold identityAt_def split: if_splits option.splits)
  have "prepared_ok p"
    using p(3,4) by (simp add: prepared_ok_def baseIdentity_def p(5) publish_epoch beginPublish_def Let_def split: prod.split)
  then have "runtime_ok (y\<lparr>ry_manager := ?m\<lparr>rm_nextRef := rm_nextRef ?m + 1\<rparr>, ry_prepared := ry_prepared y @ [p]\<rparr>)"
    by (rule ok_prepared [OF ok]) (use p(2) in \<open>auto simp: p(3,5) intro: pairs_group\<close>)
  then show ?thesis using p(1) Inr by (simp add: onManager_def)
qed

lemma commit_base:
  assumes "commitBase p m = Some state"
  shows "map_of (sg_epochs state) e = epochAt m (pp_groupID p) e"
    and "pp_baseState p = Some (a, s) \<Longrightarrow> \<exists>s'. identityAt m (pp_groupID p) = Some (a, s')"
    and "pp_baseState p = None \<Longrightarrow> epochAt m (pp_groupID p) e = None"
  using assms by (auto simp: commitBase_def epochAt_def identityAt_def prod_eq_iff split: option.splits if_splits)

lemma commit_epochs:
  assumes ok: "runtime_ok y" and p: "p \<in> set (ry_prepared y)" and b: "commitBase p (ry_manager y) = Some state"
    and e: "epochAt (ry_manager y) (pp_groupID p) e = Some ep"
  shows "e \<le> si_nextEpoch (baseIdentity p)"
proof (cases "pp_baseState p")
  case None
  then show ?thesis using commit_base(3) [OF b None] e by simp
next
  case (Some i)
  obtain a s where i: "i = (a, s)" by (cases i)
  obtain s' where s': "identityAt (ry_manager y) (pp_groupID p) = Some (a, s')" using commit_base(2) [OF b] Some i by blast
  have "(a, s) \<in> identityPairs y" using p Some i by (auto simp: identityPairs_def)
  then have "s' = s" using ok pairs_group [OF s'] unfolding runtime_ok_def refs_ok_def by blast
  then show ?thesis using ok e s' Some i unfolding runtime_ok_def epochs_ok_def baseIdentity_def by fastforce
qed

lemma ok_commit_runtime:
  assumes ok: "runtime_ok y" and i: "i < length (ry_prepared y)" and c: "Commit (ry_prepared y ! i, ry_manager y) = ((p', m'), r)"
  shows "runtime_ok (onManager m' (y\<lparr>ry_prepared := (ry_prepared y)[i := p']\<rparr>))"
proof (cases r)
  case (Inl err)
  then have "m' = ry_manager y" "p' = ry_prepared y ! i" using c by (auto simp: Commit_def Let_def split: if_splits option.splits)
  then show ?thesis using ok by (simp add: onManager_def)
next
  case (Inr identity)
  let ?m = "ry_manager y" and ?p = "ry_prepared y ! i"
  let ?g = "pp_groupID ?p" and ?e = "ri_EpochID (pp_identity ?p)"
  have pin: "?p \<in> set (ry_prepared y)" using i by simp
  obtain state where state: "commitBase ?p ?m = Some state" "\<not> revisionStale ?p state"
      "p' = ?p\<lparr>pp_committed := True\<rparr>"
      "m' = ?m\<lparr>rm_groups := AList.update ?g (state\<lparr>sg_identity := pp_nextState ?p,
         sg_epochs := AList.update ?e (publishedEpoch ?p (map_of (sg_epochs state) ?e)) (sg_epochs state)\<rparr>) (rm_groups ?m)\<rparr>"
    using c Inr by (auto simp: Commit_def Let_def split: if_splits option.splits)
  let ?x = "publishedEpoch ?p (epochAt ?m ?g ?e)"
  note base = commit_base [OF state(1)] and small = commit_epochs [OF ok pin state(1)]
  have look: "epochAt m' g' e' = (if g' = ?g \<and> e' = ?e then Some ?x else epochAt ?m g' e')" for g' e'
    using base(1) by (auto simp: state(4) epochAt_def gomap_simps)
  have ids: "identityAt m' g' = (if g' = ?g then Some (pp_nextState ?p) else identityAt ?m g')" for g'
    by (simp add: state(4) identityAt_def gomap_simps)
  have pok: "prepared_ok ?p" using ok pin by (simp add: runtime_ok_def)
  have eok: "epochs_ok ?m (ry_leases y)" using ok by (simp add: runtime_ok_def)
  have x: "ep_refCount ?x = (case epochAt ?m ?g ?e of None \<Rightarrow> 0 | Some ep \<Rightarrow> ep_refCount ep)" "ep_lifecycle ?x \<noteq> EpochRetired"
  proof -
    have new: "epochAt ?m ?g ?e = None" if "pp_newEpoch ?p"
      using small [of ?e] pok that by (cases "epochAt ?m ?g ?e") (auto simp: prepared_ok_def)
    have old: "\<exists>ep. epochAt ?m ?g ?e = Some ep \<and> ep_lifecycle ep = EpochActive" if "\<not> pp_newEpoch ?p"
      using state(2) that base(1) [of ?e] by (auto simp: revisionStale_def split: option.splits)
    show "ep_refCount ?x = (case epochAt ?m ?g ?e of None \<Rightarrow> 0 | Some ep \<Rightarrow> ep_refCount ep)" "ep_lifecycle ?x \<noteq> EpochRetired"
      using new old by (auto simp: publishedEpoch_def Let_def split: option.split)
  qed
  have "epochs_ok m' (ry_leases y)"
    unfolding epochs_ok_def
  proof (intro conjI allI impI)
    show "int (heldLeases (ry_leases y) g' e') = (case epochAt m' g' e' of None \<Rightarrow> 0 | Some ep \<Rightarrow> ep_refCount ep)" for g' e'
      using eok x(1) unfolding epochs_ok_def look by auto
  next
    fix g' e' ep assume ep: "epochAt m' g' e' = Some ep"
    then show "ep_lifecycle ep \<noteq> EpochRetired" using eok x(2) unfolding epochs_ok_def look by (auto split: if_splits)
    show "\<exists>a s. identityAt m' g' = Some (a, s) \<and> e' \<le> si_nextEpoch s"
    proof (cases "g' = ?g")
      case False
      then show ?thesis using ep eok unfolding look ids epochs_ok_def by auto
    next
      case True
      have "e' \<le> si_nextEpoch (snd (pp_nextState ?p))"
      proof (cases "epochAt ?m ?g e'")
        case (Some ep')
        then show ?thesis using small [OF Some] pok by (auto simp: prepared_ok_def)
      next
        case None
        then have "e' = ?e" using ep True unfolding look by (auto split: if_splits)
        moreover have "pp_newEpoch ?p" using state(2) base(1) [of ?e] None \<open>e' = ?e\<close> by (auto simp: revisionStale_def)
        ultimately show ?thesis using pok by (simp add: prepared_ok_def)
      qed
      then show ?thesis using True ids by (metis prod.collapse)
    qed
  qed
  moreover have "refs_ok (onManager m' (y\<lparr>ry_prepared := (ry_prepared y)[i := p']\<rparr>))"
  proof (rule refs_sub)
    have sub: "\<exists>q \<in> set (ry_prepared y). pp_baseState x = pp_baseState q \<and> pp_nextState x = pp_nextState q" if "x \<in> set ((ry_prepared y)[i := p'])" for x
      using that pin state(3) by (auto dest!: set_update_subset_insert [THEN subsetD])
    then show "\<exists>q \<in> set (ry_prepared y). pp_baseState x = pp_baseState q \<and> pp_nextState x = pp_nextState q"
      if "x \<in> set (ry_prepared (onManager m' (y\<lparr>ry_prepared := (ry_prepared y)[i := p']\<rparr>)))" for x
      using that by (simp add: onManager_def)
    show "identityPairs (onManager m' (y\<lparr>ry_prepared := (ry_prepared y)[i := p']\<rparr>)) \<subseteq> identityPairs y"
    proof
      fix j assume "j \<in> identityPairs (onManager m' (y\<lparr>ry_prepared := (ry_prepared y)[i := p']\<rparr>))"
      then consider (group) g where "identityAt m' g = Some j"
        | (nxt) x where "x \<in> set ((ry_prepared y)[i := p'])" "j = pp_nextState x"
        | (base) x where "x \<in> set ((ry_prepared y)[i := p'])" "pp_baseState x = Some j"
        by (auto simp: identityPairs_def onManager_def)
      then show "j \<in> identityPairs y"
      proof cases
        case group
        then show ?thesis using pin unfolding ids by (auto simp: identityPairs_def split: if_splits)
      next
        case nxt
        then show ?thesis using sub [OF nxt(1)] by (auto simp: identityPairs_def)
      next
        case base
        then show ?thesis using sub [OF base(1)] by (auto simp: identityPairs_def)
      qed
    qed
  qed (use ok in \<open>simp_all add: runtime_ok_def onManager_def state(4)\<close>)
  moreover have "\<forall>x \<in> set ((ry_prepared y)[i := p']). prepared_ok x"
  proof
    fix x assume "x \<in> set ((ry_prepared y)[i := p'])"
    then have "x = p' \<or> x \<in> set (ry_prepared y)" by (auto dest!: set_update_subset_insert [THEN subsetD])
    moreover have "prepared_ok p'" using pok by (simp add: state(3) prepared_ok_def baseIdentity_def)
    ultimately show "prepared_ok x" using ok by (auto simp: runtime_ok_def)
  qed
  ultimately show ?thesis by (simp add: runtime_ok_def onManager_def)
qed

lemma ok_runtime_step:
  assumes "runtime_step y y'" and ok: "runtime_ok y"
  shows "runtime_ok y'"
  using assms(1)
proof (cases rule: runtime_step.cases)
  case (register g)
  then show ?thesis using ok_groups [OF ok, of "RegisterGroup g (ry_manager y)"] by (simp add: RegisterGroup_def)
next
  case (unregister g)
  then show ?thesis using ok_unregister [OF ok] by simp
next
  case (scheduler g)
  then show ?thesis
    using ok_groups [OF ok, of "fst (schedulerCoordinator g (ry_manager y))"] by (simp add: schedulerCoordinator_def Let_def split: option.splits)
next
  case (coordinate a c c')
  then show ?thesis using ok_groups [OF ok] by simp
next
  case (cleanup g a t)
  then show ?thesis using ok_groups [OF ok] by simp
next
  case (restore g h l c p)
  then show ?thesis using ok_restore [OF ok] by simp
next
  case (prepareEpoch g h l c snap m' r)
  then show ?thesis using ok_prepareEpoch [OF ok] by simp
next
  case (prepareRevision g e snap m' r)
  then show ?thesis using ok_prepareRevision [OF ok] by simp
next
  case (commit i p' m' r)
  then show ?thesis using ok_commit_runtime [OF ok] by simp
next
  case (acquire g e m' r)
  then show ?thesis using ok_acquire [OF ok] by simp
next
  case (release i l' m')
  then show ?thesis using ok_release [OF ok] by simp
next
  case (retire g e)
  then show ?thesis using ok_retire [OF ok] by simp
qed

interpretation runtime_run: transition_system runtime_init runtime_step runtime_ok
proof unfold_locales
  show "runtime_ok y" if "runtime_init y" for y
    using that by (simp add: runtime_init_def runtime_ok_def epochs_ok_def refs_ok_def identityPairs_def epochAt_def
        identityAt_def NewRuntimeManager_def heldLeases_def)
qed (rule ok_runtime_step)

end
