(* ===== verification/Runtime_Props.thy ===== *)
theory Runtime_Props
  imports Runtime_System
begin

text \<open>
  What the runtime manager promises: leases keep their epoch, concurrent publishes of one group are
  serialised, evidence of a retired handle is never accepted, and what a rollback does to leases
  taken since the preparation.
\<close>

section \<open>A sample run\<close>

definition startSys :: runtime_sys where
  "startSys = \<lparr>ry_manager = NewRuntimeManager, ry_prepared = [], ry_leases = []\<rparr>"

definition prepareSys :: "identity_snapshot \<Rightarrow> runtime_sys \<Rightarrow> runtime_sys" where
  "prepareSys snap y = (let (m', r) = PrepareEpoch ''g'' 1 2 3 snap (ry_manager y) in prepared r (onManager m' y))"

definition commitSys :: "nat \<Rightarrow> runtime_sys \<Rightarrow> runtime_sys" where
  "commitSys i y = (let ((p', m'), r) = Commit (ry_prepared y ! i, ry_manager y) in onManager m' (y\<lparr>ry_prepared := (ry_prepared y)[i := p']\<rparr>))"

definition acquireSys :: "epoch_id \<Rightarrow> runtime_sys \<Rightarrow> runtime_sys" where
  "acquireSys e y = (let (m', r) = AcquireEpoch ''g'' e (ry_manager y) in acquired r (onManager m' y))"

definition twicePreparedSys :: runtime_sys where
  "twicePreparedSys = prepareSys (sampleSnapshot 1 [4]) (prepareSys (sampleSnapshot 1 [3, 4]) startSys)"

definition leasedSys :: runtime_sys where
  "leasedSys = acquireSys 1 (commitSys 0 twicePreparedSys)"

lemma sys_steps:
  "epochRoom ''g'' (ry_manager y) \<Longrightarrow> runtime_step y (prepareSys snap y)"
  "i < length (ry_prepared y) \<Longrightarrow> runtime_step y (commitSys i y)"
  "length (ry_leases y) < 2 ^ 63 - 1 \<Longrightarrow> runtime_step y (acquireSys e y)"
proof -
  show "epochRoom ''g'' (ry_manager y) \<Longrightarrow> runtime_step y (prepareSys snap y)"
    unfolding prepareSys_def by (cases "PrepareEpoch ''g'' 1 2 3 snap (ry_manager y)") (auto intro: runtime_step.prepareEpoch)
  show "i < length (ry_prepared y) \<Longrightarrow> runtime_step y (commitSys i y)"
    unfolding commitSys_def by (cases "Commit (ry_prepared y ! i, ry_manager y)" rule: prod.exhaust)
      (auto intro!: runtime_step.commit split: prod.split)
  show "length (ry_leases y) < 2 ^ 63 - 1 \<Longrightarrow> runtime_step y (acquireSys e y)"
    unfolding acquireSys_def by (cases "AcquireEpoch ''g'' e (ry_manager y)") (auto intro: runtime_step.acquire)
qed

lemma prepare_groups: "rm_groups (ry_manager (prepareSys snap y)) = rm_groups (ry_manager y)"
proof -
  have "rm_groups (ry_manager (prepared r y')) = rm_groups (ry_manager y')" for r y' by (cases r) simp_all
  then show ?thesis
    by (simp add: prepareSys_def Let_def case_prod_unfold onManager_def PrepareEpoch_def split: option.split)
qed

lemma twicePrepared_reach: "runtime_step\<^sup>*\<^sup>* startSys twicePreparedSys"
proof -
  have room: "epochRoom ''g'' m" if "rm_groups m = []" for m using that by (simp add: epochRoom_def identityAt_def)
  have g: "rm_groups (ry_manager startSys) = []" by (simp add: startSys_def NewRuntimeManager_def)
  have "runtime_step startSys (prepareSys (sampleSnapshot 1 [3, 4]) startSys)"
    by (rule sys_steps(1), rule room, rule g)
  moreover have "runtime_step (prepareSys (sampleSnapshot 1 [3, 4]) startSys) twicePreparedSys"
    unfolding twicePreparedSys_def by (rule sys_steps(1), rule room) (simp add: prepare_groups g)
  ultimately show ?thesis by (meson rtranclp.rtrancl_refl rtranclp.rtrancl_into_rtrancl)
qed

lemma prepareSys_new:
  assumes "validateIdentitySnapshot snap = None" and "map_of (rm_groups (ry_manager y)) ''g'' = None"
  shows "\<exists>p. ry_prepared (prepareSys snap y) = ry_prepared y @ [p] \<and> pp_groupID p = ''g'' \<and> pp_baseState p = None
    \<and> pp_newEpoch p \<and> \<not> pp_committed p \<and> \<not> pp_rolledBack p \<and> ri_EpochID (pp_identity p) = 1"
    and "ry_leases (prepareSys snap y) = ry_leases y"
  using assms publish_epoch(1) [of snap True newStableIdentityState]
  by (simp_all add: prepareSys_def PrepareEpoch_def Let_def case_prod_unfold onManager_def beginPublish_def newStableIdentityState_def)

lemma twicePrepared_pair:
  obtains p q where "ry_prepared twicePreparedSys = [p, q]" "pp_groupID p = ''g''" "pp_groupID q = ''g''" "pp_baseState p = None"
    "pp_baseState q = None" "pp_newEpoch p" "\<not> pp_committed p" "\<not> pp_rolledBack p" "ri_EpochID (pp_identity p) = 1"
    "rm_groups (ry_manager twicePreparedSys) = []" "ry_leases twicePreparedSys = []"
proof -
  have v: "validateIdentitySnapshot (sampleSnapshot 1 [3, 4]) = None" "validateIdentitySnapshot (sampleSnapshot 1 [4]) = None" by code_simp+
  have g: "rm_groups (ry_manager startSys) = []" "ry_prepared startSys = []" "ry_leases startSys = []"
    by (simp_all add: startSys_def NewRuntimeManager_def)
  let ?y = "prepareSys (sampleSnapshot 1 [3, 4]) startSys"
  obtain p where p: "ry_prepared ?y = [p]" "pp_groupID p = ''g''" "pp_baseState p = None" "pp_newEpoch p" "\<not> pp_committed p" "\<not> pp_rolledBack p"
      "ri_EpochID (pp_identity p) = 1"
    using prepareSys_new(1) [OF v(1), of startSys] g by auto
  obtain q where "ry_prepared twicePreparedSys = ry_prepared ?y @ [q]" "pp_groupID q = ''g''" "pp_baseState q = None"
    using prepareSys_new(1) [OF v(2), of ?y] g(1) unfolding twicePreparedSys_def prepare_groups by auto
  moreover have "ry_leases twicePreparedSys = []"
    using prepareSys_new(2) [OF v(1), of startSys] prepareSys_new(2) [OF v(2), of ?y] g
    by (simp add: twicePreparedSys_def prepare_groups)
  ultimately show thesis using that [of p q] p g(1) by (simp add: twicePreparedSys_def prepare_groups)
qed

lemma leased_eval:
  "length (ry_prepared twicePreparedSys) = 2" "length (ry_leases (commitSys 0 twicePreparedSys)) = 0"
  "ry_leases leasedSys = [\<lparr>el_groupID = ''g'', el_epochID = 1, el_released = False\<rparr>]"
proof -
  obtain p q where pq: "ry_prepared twicePreparedSys = [p, q]" "pp_groupID p = ''g''" "pp_baseState p = None" "pp_newEpoch p"
      "\<not> pp_committed p" "\<not> pp_rolledBack p" "ri_EpochID (pp_identity p) = 1" "rm_groups (ry_manager twicePreparedSys) = []"
      "ry_leases twicePreparedSys = []"
    by (rule twicePrepared_pair)
  show "length (ry_prepared twicePreparedSys) = 2" by (simp add: pq)
  have ls: "ry_leases (commitSys 0 twicePreparedSys) = []"
    by (simp add: commitSys_def case_prod_unfold Let_def onManager_def pq)
  then show "length (ry_leases (commitSys 0 twicePreparedSys)) = 0" by simp
  obtain state where "map_of (rm_groups (ry_manager (commitSys 0 twicePreparedSys))) ''g'' = Some state"
      "map_of (sg_epochs state) 1 = Some (publishedEpoch p None)"
    by (simp add: commitSys_def Let_def onManager_def pq Commit_def commitBase_def revisionStale_def gm_get_put)
  then show "ry_leases leasedSys = [\<lparr>el_groupID = ''g'', el_epochID = 1, el_released = False\<rparr>]"
    using ls pq(4) by (simp add: leasedSys_def acquireSys_def AcquireEpoch_def publishedEpoch_def Let_def onManager_def)
qed

lemma leased_reach: "runtime_step\<^sup>*\<^sup>* startSys leasedSys"
proof -
  have "runtime_step twicePreparedSys (commitSys 0 twicePreparedSys)" by (rule sys_steps) (simp add: leased_eval)
  moreover have "runtime_step (commitSys 0 twicePreparedSys) leasedSys"
    unfolding leasedSys_def by (rule sys_steps) (simp add: leased_eval)
  ultimately show ?thesis using twicePrepared_reach by (meson rtranclp.rtrancl_into_rtrancl)
qed

lemma start_init: "runtime_init startSys"
  by (simp add: runtime_init_def startSys_def)

section \<open>Leases keep their epoch\<close>

text \<open>C14. In every run without a rollback an epoch stays as long as a lease on it is held: its group
  is still published, the epoch is not retired, and its count is the number of leases held.\<close>

theorem held_epoch_stays:
  assumes "runtime_init y0" and "runtime_step\<^sup>*\<^sup>* y0 y" and "l \<in> set (ry_leases y)" and "\<not> el_released l"
  shows "\<exists>ep. epochAt (ry_manager y) (el_groupID l) (el_epochID l) = Some ep \<and> ep_lifecycle ep \<noteq> EpochRetired
    \<and> ep_refCount ep = int (heldLeases (ry_leases y) (el_groupID l) (el_epochID l))"
proof -
  have ok: "epochs_ok (ry_manager y) (ry_leases y)"
    using runtime_run.reach_inv [OF assms(1,2)] by (simp add: runtime_ok_def)
  have "0 < heldLeases (ry_leases y) (el_groupID l) (el_epochID l)"
    using assms(3,4) unfolding heldLeases_def by (simp add: filter_empty_conv) blast
  moreover have count: "int (heldLeases (ry_leases y) (el_groupID l) (el_epochID l)) =
      (case epochAt (ry_manager y) (el_groupID l) (el_epochID l) of None \<Rightarrow> 0 | Some ep \<Rightarrow> ep_refCount ep)"
    using ok unfolding epochs_ok_def by blast
  ultimately obtain ep where ep: "epochAt (ry_manager y) (el_groupID l) (el_epochID l) = Some ep"
    by (cases "epochAt (ry_manager y) (el_groupID l) (el_epochID l)") simp_all
  moreover have "ep_lifecycle ep \<noteq> EpochRetired" using ok ep unfolding epochs_ok_def by blast
  ultimately show ?thesis using count by simp
qed

theorem held_epoch_stays_witness:
  "\<exists>ep. epochAt (ry_manager leasedSys) ''g'' 1 = Some ep \<and> ep_lifecycle ep \<noteq> EpochRetired
    \<and> ep_refCount ep = int (heldLeases (ry_leases leasedSys) ''g'' 1)"
  using held_epoch_stays [OF start_init leased_reach, of "\<lparr>el_groupID = ''g'', el_epochID = 1, el_released = False\<rparr>"]
  by (simp add: leased_eval)

section \<open>Publishes are serialised\<close>

definition addressAt :: "runtime_manager \<Rightarrow> string \<Rightarrow> nat option" where
  "addressAt m g = (case map_of (rm_groups m) g of None \<Rightarrow> None | Some state \<Rightarrow> Some (fst (sg_identity state)))"

lemma address_identity: "addressAt m g = (case identityAt m g of None \<Rightarrow> None | Some i \<Rightarrow> Some (fst i))"
  by (simp add: addressAt_def identityAt_def split: option.split)

definition step_frame :: "runtime_sys \<Rightarrow> runtime_sys \<Rightarrow> bool" where
  \<comment> \<open>no preparation is made or committed; an identity that appears has a new address\<close>
  "step_frame y y' \<longleftrightarrow> ry_prepared y' = ry_prepared y
     \<and> rm_nextRef (ry_manager y) \<le> rm_nextRef (ry_manager y')
     \<and> (\<forall>g a. addressAt (ry_manager y') g = Some a \<longrightarrow> addressAt (ry_manager y) g = Some a
          \<or> a = rm_nextRef (ry_manager y) \<and> rm_nextRef (ry_manager y) < rm_nextRef (ry_manager y'))"

definition step_prepares :: "runtime_sys \<Rightarrow> runtime_sys \<Rightarrow> bool" where
  "step_prepares y y' \<longleftrightarrow> (\<exists>p. ry_prepared y' = ry_prepared y @ [p]
     \<and> fst (pp_nextState p) = rm_nextRef (ry_manager y) \<and> rm_nextRef (ry_manager y') = Suc (rm_nextRef (ry_manager y))
     \<and> addressAt (ry_manager y') = addressAt (ry_manager y))"

definition step_commits :: "nat \<Rightarrow> runtime_sys \<Rightarrow> runtime_sys \<Rightarrow> bool" where
  "step_commits i y y' \<longleftrightarrow> i < length (ry_prepared y) \<and> \<not> pp_committed (ry_prepared y ! i)
     \<and> ry_prepared y' = (ry_prepared y)[i := (ry_prepared y ! i)\<lparr>pp_committed := True\<rparr>]
     \<and> rm_nextRef (ry_manager y') = rm_nextRef (ry_manager y)
     \<and> (\<forall>g. addressAt (ry_manager y') g =
          (if g = pp_groupID (ry_prepared y ! i) then Some (fst (pp_nextState (ry_prepared y ! i)))
           else addressAt (ry_manager y) g))"

lemma address_groups: "rm_groups m' = rm_groups m \<Longrightarrow> addressAt m' = addressAt m"
  by (simp add: fun_eq_iff addressAt_def)

lemma address_sub:
  assumes "\<And>i. identityAt m' g = Some i \<Longrightarrow> identityAt m g = Some i"
  shows "addressAt m' g = Some a \<Longrightarrow> addressAt m g = Some a"
  using assms by (cases "identityAt m' g") (simp_all add: address_identity)

lemma frame_groups:
  "rm_groups m' = rm_groups (ry_manager y) \<Longrightarrow> rm_nextRef (ry_manager y) \<le> rm_nextRef m' \<Longrightarrow> step_frame y (onManager m' y)"
  using address_groups [of m' "ry_manager y"] by (simp add: step_frame_def onManager_def)

lemma frame_epochs:
  assumes "\<And>g a. addressAt m' g = Some a \<Longrightarrow> addressAt (ry_manager y) g = Some a"
    and "rm_nextRef m' = rm_nextRef (ry_manager y)" and "ry_manager y' = m'" and "ry_prepared y' = ry_prepared y"
  shows "step_frame y y'"
  using assms by (simp add: step_frame_def)

lemma drop_address:
  assumes "map_of (rm_groups m) g = Some state"
  shows "addressAt (dropEpoch g state e m) g' = Some a \<Longrightarrow> addressAt m g' = Some a"
    and "addressAt (putEpoch g state e ep m) = addressAt m"
    and "addressAt (tryCleanupScheduler k m) = addressAt m"
proof -
  show "addressAt (dropEpoch g state e m) g' = Some a \<Longrightarrow> addressAt m g' = Some a"
    by (rule address_sub [OF drop_epoch(2) [OF assms]])
  show "addressAt (putEpoch g state e ep m) = addressAt m" by (simp add: fun_eq_iff address_identity put_epoch(2) [OF assms])
  show "addressAt (tryCleanupScheduler k m) = addressAt m" by (rule address_groups) simp
qed

lemma cleanup_address [simp]: "addressAt (tryCleanupScheduler k m) = addressAt m"
  by (rule address_groups) simp

lemma release_address:
  assumes "Release (l, m) = (l', m')"
  shows "addressAt m' g = Some a \<Longrightarrow> addressAt m g = Some a" "rm_nextRef m' = rm_nextRef m"
proof -
  consider "m' = m" | state ep k where "map_of (rm_groups m) (el_groupID l) = Some state"
      "m' = tryCleanupScheduler k (dropEpoch (el_groupID l) state (el_epochID l) m)
       \<or> m' = tryCleanupScheduler k (putEpoch (el_groupID l) state (el_epochID l) ep m)"
    using assms by (auto simp: Release_def Let_def split: if_splits option.splits)
  then show "addressAt m' g = Some a \<Longrightarrow> addressAt m g = Some a" "rm_nextRef m' = rm_nextRef m"
    by (cases, simp, metis drop_address(1,2) cleanup_address, cases, simp, metis drop_epoch(4) put_epoch(3) cleanup_refs(2))
qed

lemma retire_address:
  "addressAt (RetireEpoch k e m) g = Some a \<Longrightarrow> addressAt m g = Some a" "rm_nextRef (RetireEpoch k e m) = rm_nextRef m"
proof -
  have "(addressAt (RetireEpoch k e m) g = Some a \<longrightarrow> addressAt m g = Some a) \<and> rm_nextRef (RetireEpoch k e m) = rm_nextRef m"
  proof (cases "map_of (rm_groups m) k")
    case (Some state)
    show ?thesis
      using drop_address(1) [OF Some, of e g a] drop_address(2) [OF Some, of e] drop_epoch(4) [OF Some, of e] put_epoch(3) [OF Some, of e]
      by (simp add: RetireEpoch_def Some split: option.split)
  qed (simp add: RetireEpoch_def)
  then show "addressAt (RetireEpoch k e m) g = Some a \<Longrightarrow> addressAt m g = Some a" "rm_nextRef (RetireEpoch k e m) = rm_nextRef m"
    by blast+
qed

lemma unregister_address:
  "addressAt (UnregisterGroup k m) g = Some a \<Longrightarrow> addressAt m g = Some a" "rm_nextRef (UnregisterGroup k m) = rm_nextRef m"
proof -
  have same: "addressAt (m\<lparr>rm_groupUsers := x\<rparr>) = addressAt m" for x by (rule address_groups) simp
  have "addressAt m g = Some a" if "addressAt (tryCleanupGroupLocked k (m\<lparr>rm_groupUsers := x\<rparr>)) g = Some a" for x
  proof -
    have "addressAt (m\<lparr>rm_groupUsers := x\<rparr>) g = Some a" by (rule address_sub [OF _ that]) (rule cleanup_group(2))
    then show ?thesis by (simp add: same)
  qed
  then show "addressAt (UnregisterGroup k m) g = Some a \<Longrightarrow> addressAt m g = Some a"
    by (auto simp: UnregisterGroup_def same split: if_splits)
  show "rm_nextRef (UnregisterGroup k m) = rm_nextRef m" by (simp add: UnregisterGroup_def)
qed

lemma acquire_address:
  assumes "AcquireEpoch g e m = (m', r)"
  shows "identityAt m' = identityAt m" "rm_nextRef m' = rm_nextRef m"
  using assms put_epoch(2,3) by (auto simp: AcquireEpoch_def split: if_splits option.splits)

lemma restore_frame: "step_frame y (onManager (fst (groupRestorePersistence g h l c p (ry_manager y))) y)"
  by (auto simp: step_frame_def onManager_def groupRestorePersistence_def addressAt_def gomap_simps split: sum.split)

lemma commit_view:
  assumes "i < length (ry_prepared y)" and "Commit (ry_prepared y ! i, ry_manager y) = ((p', m'), Inr identity)"
  shows "step_commits i y (onManager m' (y\<lparr>ry_prepared := (ry_prepared y)[i := p']\<rparr>))"
  using assms
  by (auto simp: step_commits_def onManager_def Commit_def Let_def addressAt_def gomap_simps split: if_splits option.splits)

lemma commit_refused:
  "Commit (p, m) = ((p', m'), Inl e) \<Longrightarrow> p' = p \<and> m' = m"
  by (auto simp: Commit_def Let_def split: if_splits option.splits)

lemma prepare_view:
  assumes "PrepareEpoch g h l c snap (ry_manager y) = (m', r) \<or> PrepareRevision g e snap (ry_manager y) = (m', r)"
  shows "step_frame y (prepared r (onManager m' y)) \<or> step_prepares y (prepared r (onManager m' y))"
proof (cases r)
  case (Inl x)
  then have "m' = ry_manager y"
    using assms by (auto simp: PrepareEpoch_def PrepareRevision_def Let_def case_prod_unfold split: if_splits option.splits)
  then show ?thesis using frame_groups [of m' y] Inl by simp
next
  case (Inr p)
  then have m': "m' = (ry_manager y)\<lparr>rm_nextRef := rm_nextRef (ry_manager y) + 1\<rparr>" "fst (pp_nextState p) = rm_nextRef (ry_manager y)"
    using assms by (auto simp: PrepareEpoch_def PrepareRevision_def Let_def case_prod_unfold split: if_splits option.splits)
  moreover have "addressAt m' = addressAt (ry_manager y)" by (rule address_groups) (simp add: m')
  ultimately show ?thesis using Inr by (simp add: step_prepares_def onManager_def)
qed

lemma step_view:
  assumes "runtime_step y y'"
  shows "step_frame y y' \<or> step_prepares y y' \<or> (\<exists>i. step_commits i y y')"
  using assms
proof (cases rule: runtime_step.cases)
  case (register g)
  then show ?thesis using frame_groups [of "RegisterGroup g (ry_manager y)" y] by (simp add: RegisterGroup_def)
next
  case (unregister g)
  have "step_frame y y'" by (rule frame_epochs [OF unregister_address]) (simp_all add: unregister onManager_def)
  then show ?thesis by blast
next
  case (scheduler g)
  then show ?thesis
    using frame_groups [of "fst (schedulerCoordinator g (ry_manager y))" y] by (simp add: schedulerCoordinator_def Let_def split: option.splits)
next
  case (coordinate a c c')
  then show ?thesis using frame_groups [of _ y] by simp
next
  case (cleanup g a t)
  then show ?thesis using frame_groups [of _ y] by simp
next
  case (restore g h l c p)
  then show ?thesis using restore_frame by blast
next
  case (prepareEpoch g h l c snap m' r)
  then show ?thesis using prepare_view by blast
next
  case (prepareRevision g e snap m' r)
  then show ?thesis using prepare_view by blast
next
  case (commit i p' m' r)
  show ?thesis
  proof (cases r)
    case (Inl e)
    then have "y' = onManager (ry_manager y) y" using commit commit_refused [of "ry_prepared y ! i" "ry_manager y" p' m' e] by (simp add: onManager_def)
    then show ?thesis using frame_groups [of "ry_manager y" y] by simp
  next
    case (Inr identity)
    then show ?thesis using commit commit_view by blast
  qed
next
  case (acquire g e m' r)
  have "ry_manager y' = m'" "ry_prepared y' = ry_prepared y" using acquire(1) by (cases r; simp add: onManager_def)+
  then have "step_frame y y'" using acquire_address [OF acquire(3)] by (simp add: step_frame_def address_identity)
  then show ?thesis by blast
next
  case (release i l' m')
  have "step_frame y y'" by (rule frame_epochs [OF release_address [OF release(3)]]) (simp_all add: release(1) onManager_def)
  then show ?thesis by blast
next
  case (retire g e)
  have "step_frame y y'" by (rule frame_epochs [OF retire_address]) (simp_all add: retire onManager_def)
  then show ?thesis by blast
qed

definition addresses_ok :: "runtime_sys \<Rightarrow> bool" where
  \<comment> \<open>preparations have different addresses, and a published address is not to be committed again\<close>
  "addresses_ok y \<longleftrightarrow> distinct (map (fst \<circ> pp_nextState) (ry_prepared y))
     \<and> (\<forall>p \<in> set (ry_prepared y). fst (pp_nextState p) < rm_nextRef (ry_manager y))
     \<and> (\<forall>g a. addressAt (ry_manager y) g = Some a \<longrightarrow> a < rm_nextRef (ry_manager y)
          \<and> (\<forall>p \<in> set (ry_prepared y). \<not> pp_committed p \<longrightarrow> fst (pp_nextState p) \<noteq> a))"

lemma addressesD:
  assumes "addresses_ok y"
  shows "distinct (map (fst \<circ> pp_nextState) (ry_prepared y))"
    and "p \<in> set (ry_prepared y) \<Longrightarrow> fst (pp_nextState p) < rm_nextRef (ry_manager y)"
    and "addressAt (ry_manager y) g = Some a \<Longrightarrow> a < rm_nextRef (ry_manager y)"
    and "addressAt (ry_manager y) g = Some a \<Longrightarrow> p \<in> set (ry_prepared y) \<Longrightarrow> \<not> pp_committed p \<Longrightarrow> fst (pp_nextState p) \<noteq> a"
  using assms unfolding addresses_ok_def by blast+

definition spent :: "string \<Rightarrow> nat \<Rightarrow> runtime_sys \<Rightarrow> bool" where
  \<comment> \<open>the group left the identity at this address, and nothing can bring it back\<close>
  "spent g a y \<longleftrightarrow> a < rm_nextRef (ry_manager y) \<and> addressAt (ry_manager y) g \<noteq> Some a
     \<and> (\<forall>p \<in> set (ry_prepared y). \<not> pp_committed p \<longrightarrow> fst (pp_nextState p) \<noteq> a)"

lemma commits_elsewhere:
  assumes c: "step_commits i y y'" and p: "p \<in> set (ry_prepared y')" "\<not> pp_committed p"
  shows "\<exists>j < length (ry_prepared y). j \<noteq> i \<and> p = ry_prepared y ! j"
proof -
  obtain j where j: "j < length (ry_prepared y)" "p = ry_prepared y' ! j"
    using c p(1) by (auto simp: step_commits_def in_set_conv_nth)
  moreover have "j \<noteq> i" using j c p(2) by (auto simp: step_commits_def)
  ultimately show ?thesis using c by (auto simp: step_commits_def)
qed

lemma addresses_commit:
  assumes c: "step_commits i y y'" and ok: "addresses_ok y"
  shows "addresses_ok y'"
proof -
  let ?p = "ry_prepared y ! i"
  note d = addressesD [OF ok]
  have i: "i < length (ry_prepared y)" and ref: "rm_nextRef (ry_manager y') = rm_nextRef (ry_manager y)"
    and ids: "\<And>g. addressAt (ry_manager y') g = (if g = pp_groupID ?p then Some (fst (pp_nextState ?p)) else addressAt (ry_manager y) g)"
    using c by (simp_all add: step_commits_def)
  have same: "map (fst \<circ> pp_nextState) (ry_prepared y') = map (fst \<circ> pp_nextState) (ry_prepared y)"
    using c by (simp add: step_commits_def map_update list_update_same_conv)
  have other: "fst (pp_nextState p) \<noteq> fst (pp_nextState ?p) \<and> p \<in> set (ry_prepared y)"
    if p: "p \<in> set (ry_prepared y')" "\<not> pp_committed p" for p
  proof -
    obtain j where "j < length (ry_prepared y)" "j \<noteq> i" "p = ry_prepared y ! j" using commits_elsewhere [OF c p] by blast
    then show ?thesis
      using d(1) i nth_eq_iff_index_eq [of "map (fst \<circ> pp_nextState) (ry_prepared y)" j i] by simp
  qed
  have lt: "fst (pp_nextState p) < rm_nextRef (ry_manager y')" if "p \<in> set (ry_prepared y')" for p
  proof -
    have "(fst \<circ> pp_nextState) p \<in> set (map (fst \<circ> pp_nextState) (ry_prepared y))"
      unfolding same [symmetric] using that by (simp only: set_map imageI)
    then show ?thesis using d(2) ref by auto
  qed
  have "a < rm_nextRef (ry_manager y') \<and> (\<forall>p \<in> set (ry_prepared y'). \<not> pp_committed p \<longrightarrow> fst (pp_nextState p) \<noteq> a)"
    if a: "addressAt (ry_manager y') g = Some a" for g a
  proof (cases "g = pp_groupID ?p")
    case True
    then have "a = fst (pp_nextState ?p)" using a ids by simp
    then show ?thesis using other d(2) [OF nth_mem [OF i]] ref by simp
  next
    case False
    then have "addressAt (ry_manager y) g = Some a" using a ids by simp
    from d(3) [OF this] d(4) [OF this] show ?thesis using other ref by auto
  qed
  then show ?thesis using d(1) same lt unfolding addresses_ok_def by metis
qed

lemma addresses_step:
  assumes "runtime_step y y'" and ok: "addresses_ok y"
  shows "addresses_ok y'"
  using step_view [OF assms(1)]
proof (elim disjE exE)
  note d = addressesD [OF ok]
  assume f: "step_frame y y'"
  then have p: "ry_prepared y' = ry_prepared y" and n: "rm_nextRef (ry_manager y) \<le> rm_nextRef (ry_manager y')"
    by (simp_all add: step_frame_def)
  have "a < rm_nextRef (ry_manager y') \<and> (\<forall>p \<in> set (ry_prepared y'). \<not> pp_committed p \<longrightarrow> fst (pp_nextState p) \<noteq> a)"
    if a: "addressAt (ry_manager y') g = Some a" for g a
  proof -
    consider "addressAt (ry_manager y) g = Some a" | "a = rm_nextRef (ry_manager y)" "a < rm_nextRef (ry_manager y')"
      using f a unfolding step_frame_def by blast
    then show ?thesis
    proof cases
      case 1
      show ?thesis using d(3) [OF 1] d(4) [OF 1] n p by auto
    next
      case 2
      then show ?thesis using d(2) p by (metis less_irrefl)
    qed
  qed
  then show ?thesis using d(1,2) n p unfolding addresses_ok_def by (metis order_less_le_trans)
next
  assume "step_prepares y y'"
  then show ?thesis using ok by (fastforce simp: addresses_ok_def step_prepares_def)
next
  fix i assume "step_commits i y y'"
  then show ?thesis using addresses_commit ok by blast
qed

lemma addresses_run:
  assumes "runtime_init y0" and "runtime_step\<^sup>*\<^sup>* y0 y"
  shows "addresses_ok y"
  using assms(2)
proof (induction rule: rtranclp_induct)
  case base
  show ?case using assms(1) by (simp add: runtime_init_def addresses_ok_def addressAt_def NewRuntimeManager_def)
next
  case (step y z)
  then show ?case using addresses_step by blast
qed

lemma spent_step:
  assumes "runtime_step y y'" and sp: "spent g a y"
  shows "spent g a y'"
  using step_view [OF assms(1)]
proof (elim disjE exE)
  assume f: "step_frame y y'"
  then have "a < rm_nextRef (ry_manager y')" "\<forall>p \<in> set (ry_prepared y'). \<not> pp_committed p \<longrightarrow> fst (pp_nextState p) \<noteq> a"
    using sp by (auto simp: spent_def step_frame_def)
  moreover have "addressAt (ry_manager y') g \<noteq> Some a" using f sp unfolding step_frame_def spent_def by (metis less_irrefl)
  ultimately show ?thesis by (simp add: spent_def)
next
  assume "step_prepares y y'"
  then show ?thesis using sp by (auto simp: spent_def step_prepares_def)
next
  fix i assume c: "step_commits i y y'"
  have "fst (pp_nextState (ry_prepared y ! i)) \<noteq> a"
    using c sp nth_mem [of i "ry_prepared y"] by (auto simp: spent_def step_commits_def)
  moreover have "fst (pp_nextState p) \<noteq> a" if p: "p \<in> set (ry_prepared y')" "\<not> pp_committed p" for p
  proof -
    obtain j where "j < length (ry_prepared y)" "p = ry_prepared y ! j" using commits_elsewhere [OF c p] by blast
    then show ?thesis using sp p(2) nth_mem [of j "ry_prepared y"] by (auto simp: spent_def)
  qed
  ultimately show ?thesis using c sp by (simp add: spent_def step_commits_def)
qed

lemma spent_run: "runtime_step\<^sup>*\<^sup>* y y' \<Longrightarrow> spent g a y \<Longrightarrow> spent g a y'"
  by (induction rule: rtranclp_induct) (auto dest: spent_step)

definition samePreparation :: "prepared_identity \<Rightarrow> prepared_identity \<Rightarrow> bool" where
  "samePreparation p q \<longleftrightarrow> pp_groupID q = pp_groupID p \<and> pp_baseState q = pp_baseState p"

lemma preparation_step:
  "runtime_step y y' \<Longrightarrow> j < length (ry_prepared y) \<Longrightarrow>
   j < length (ry_prepared y') \<and> samePreparation (ry_prepared y ! j) (ry_prepared y' ! j)"
  using step_view [of y y']
  by (auto simp: samePreparation_def step_frame_def step_prepares_def step_commits_def nth_append nth_list_update)

lemma preparation_run:
  "runtime_step\<^sup>*\<^sup>* y y' \<Longrightarrow> j < length (ry_prepared y) \<Longrightarrow>
   j < length (ry_prepared y') \<and> samePreparation (ry_prepared y ! j) (ry_prepared y' ! j)"
proof (induction rule: rtranclp_induct)
  case (step y1 y2)
  then show ?case using preparation_step [of y1 y2 j] by (auto simp: samePreparation_def)
qed (simp add: samePreparation_def)

lemma commit_spends:
  assumes ok: "addresses_ok y" "refs_ok y" and i: "i < length (ry_prepared y)"
    and c: "Commit (ry_prepared y ! i, ry_manager y) = ((p', m'), Inr identity)"
    and base: "pp_baseState (ry_prepared y ! i) = Some (a, s)"
  shows "spent (pp_groupID (ry_prepared y ! i)) a (onManager m' (y\<lparr>ry_prepared := (ry_prepared y)[i := p']\<rparr>))"
proof -
  let ?p = "ry_prepared y ! i" and ?y = "onManager m' (y\<lparr>ry_prepared := (ry_prepared y)[i := p']\<rparr>)"
  note view = commit_view [OF i c]
  obtain state where "commitBase ?p (ry_manager y) = Some state"
    using c by (auto simp: Commit_def Let_def split: if_splits option.splits)
  then have cur: "addressAt (ry_manager y) (pp_groupID ?p) = Some a" using commit_base(2) base by (fastforce simp: address_identity)
  note old = addressesD(3,4) [OF ok(1) cur]
  have "a < fst (pp_nextState ?p)" using ok(2) nth_mem [OF i] base unfolding refs_ok_def by blast
  moreover have "fst (pp_nextState p) \<noteq> a" if p: "p \<in> set (ry_prepared ?y)" "\<not> pp_committed p" for p
  proof -
    obtain j where "j < length (ry_prepared y)" "p = ry_prepared y ! j" using commits_elsewhere [OF view p] by blast
    then show ?thesis using old(2) p(2) nth_mem [of j "ry_prepared y"] by blast
  qed
  ultimately show ?thesis using view old(1) by (simp add: spent_def step_commits_def)
qed



section \<open>Retired handles\<close>

text \<open>C22. Evidence of a retired handle is never accepted again: once a publish retired a handle, no
  group whose identity came from it by any number of further publishes validates an observation
  with that handle, in any epoch.\<close>

theorem retired_handle_never_validates:
  assumes "identity_ok s" and "publishable snap s" and "preparePublish snap newEpoch s = (s1, identity)"
    and "h \<in> set (ri_RetiredHandles identity)" and "publish_step\<^sup>*\<^sup>* s1 (snd (sg_identity state))"
  shows "\<not> validateEpochObservation (Some state) e revision gen (nh_NodeID h) (nh_Slot h) (nh_Version h) retiring"
proof -
  have "identity_ok s1" "handle_dead h s1"
    using publish_ok(1) [OF assms(1,2), of newEpoch] publish_ok(3) [OF assms(1,2), of h newEpoch] assms(3,4) by simp_all
  then have "handle_dead h (snd (sg_identity state))" using dead_run [OF assms(5)] by blast
  then show ?thesis
    by (auto simp: validateEpochObservation_def handle_dead_def split: option.split)
qed

definition goneGroup :: shared_group where
  \<comment> \<open>node 3 was published and then left\<close>
  "goneGroup = \<lparr>sg_health = 1, sg_leases = 2, sg_control = 3,
     sg_identity = (7, fst (preparePublish (sampleSnapshot 2 [4]) False sampleIdentity)), sg_epochs = []\<rparr>"

theorem retired_handle_never_validates_witness:
  "\<not> validateEpochObservation (Some goneGroup) 1 2 2 3 1 1 True"
proof -
  let ?h = "\<lparr>nh_NodeID = 3, nh_Slot = 1, nh_Version = 1, nh_BornRevision = 1\<rparr>"
  have "\<not> validateEpochObservation (Some goneGroup) 1 2 2 (nh_NodeID ?h) (nh_Slot ?h) (nh_Version ?h) True"
  proof (rule retired_handle_never_validates [OF _ sample_publishable(2)])
    show "identity_ok sampleIdentity" by (rule publish_run.reach_inv [OF refl sampleIdentity_reach])
    show "preparePublish (sampleSnapshot 2 [4]) False sampleIdentity =
      (snd (sg_identity goneGroup), snd (preparePublish (sampleSnapshot 2 [4]) False sampleIdentity))" by (simp add: goneGroup_def)
    show "?h \<in> set (ri_RetiredHandles (snd (preparePublish (sampleSnapshot 2 [4]) False sampleIdentity)))"
      by (simp add: sampleIdentity_eval identity_eval)
  qed simp
  then show ?thesis by simp
qed

section \<open>Rolling back\<close>

text \<open>A rollback forgets the leases taken since the preparation: when a revision of an epoch
  without leases is prepared, then a lease is taken, and the revision is committed and rolled back,
  retiring the epoch removes it although the lease is held.\<close>

theorem rollback_loses_lease:
  assumes prep: "PrepareRevision g e snap m = (m1, Inr p)" and free: "epochAt m g e = Some ep" "ep_refCount ep = 0"
    and acq: "AcquireEpoch g e m1 = (m2, Inr l)" and com: "Commit (p, m2) = ((p1, m3), Inr identity)"
    and rb: "Rollback (p1, m3) = ((p2, m4), None)"
  shows "epochAt (RetireEpoch g e m4) g e = None \<and> \<not> el_released l \<and> el_groupID l = g \<and> el_epochID l = e"
proof -
  have l: "\<not> el_released l \<and> el_groupID l = g \<and> el_epochID l = e"
    using acq by (auto simp: AcquireEpoch_def split: option.splits if_splits)
  obtain state where state: "map_of (rm_groups m) g = Some state" "map_of (sg_epochs state) e = Some ep"
    using free(1) by (auto simp: epochAt_def split: option.splits)
  have p: "pp_groupID p = g" "pp_previousEpoch p = Some ep" "\<not> pp_newEpoch p" "ri_EpochID (pp_identity p) = e"
      "\<exists>b. pp_baseState p = Some b" "ep_lifecycle ep = EpochActive"
    using prep state
    by (auto simp: PrepareRevision_def Let_def case_prod_unfold publish_epoch beginPublish_def split: option.splits if_splits)
  obtain st3 where st3: "map_of (rm_groups m3) g = Some st3" "sg_identity st3 = pp_nextState p" "p1 = p\<lparr>pp_committed := True\<rparr>" "\<not> pp_rolledBack p"
    using com p(1) by (auto simp: Commit_def Let_def gm_get_put split: if_splits option.splits)
  obtain st4 where "map_of (rm_groups m4) g = Some st4" "map_of (sg_epochs st4) e = Some ep"
    using rb st3 p by (auto simp: Rollback_def Let_def gm_get_put)
  then have "epochAt (RetireEpoch g e m4) g e = None"
    using free(2) p(6) drop_epoch(1) [of m4 g st4 e g e] by (simp add: RetireEpoch_def)
  then show ?thesis using l by blast
qed

definition publishedManager :: runtime_manager where
  \<comment> \<open>one group with one active epoch and no lease\<close>
  "publishedManager = NewRuntimeManager\<lparr>rm_nextRef := 1, rm_groups := [(''g'',
     \<lparr>sg_health = 1, sg_leases = 2, sg_control = 3, sg_identity = (0, sampleIdentity),
      sg_epochs = [(1, \<lparr>ep_lifecycle = EpochActive, ep_revision = 1, ep_lastSourceGeneration = 1, ep_refCount = 0,
        ep_handles = map (\<lambda>(n, l). (n, nl_handle l)) (si_lineage sampleIdentity)\<rparr>)]\<rparr>)]\<rparr>"

definition rollbackTrace :: "epoch_lease \<times> runtime_manager" where
  "rollbackTrace =
     (let (m1, p) = PrepareRevision ''g'' 1 (sampleSnapshot 2 [4]) publishedManager;
          (m2, l) = AcquireEpoch ''g'' 1 m1;
          ((p1, m3), i) = Commit (projr p, m2);
          ((p2, m4), r) = Rollback (p1, m3)
      in (projr l, m4))"

theorem rollback_loses_lease_witness:
  "epochAt (RetireEpoch ''g'' 1 (snd rollbackTrace)) ''g'' 1 = None \<and> \<not> el_released (fst rollbackTrace)
    \<and> el_groupID (fst rollbackTrace) = ''g'' \<and> el_epochID (fst rollbackTrace) = 1"
proof -
  define prep where "prep = PrepareRevision ''g'' 1 (sampleSnapshot 2 [4]) publishedManager"
  define acq where "acq = AcquireEpoch ''g'' 1 (fst prep)"
  define com where "com = Commit (projr (snd prep), fst acq)"
  define rb where "rb = Rollback (fst com)"
  have trace: "rollbackTrace = (projr (snd acq), snd (fst rb))"
    by (simp add: rollbackTrace_def Let_def case_prod_unfold prep_def acq_def com_def rb_def)
  have valid: "validateIdentitySnapshot (sampleSnapshot 2 [4]) = None" by code_simp
  have cur: "si_currentEpoch sampleIdentity = 1" "is_SourceGeneration (sampleSnapshot 2 [4]) = 2"
    by (simp_all add: sampleIdentity_eval sampleSnapshot_def)
  note eval = prep_def acq_def com_def rb_def publishedManager_def NewRuntimeManager_def PrepareRevision_def AcquireEpoch_def
    putEpoch_def Commit_def commitBase_def revisionStale_def Rollback_def valid cur publish_epoch beginPublish_def
    Let_def case_prod_unfold
  have "epochAt (RetireEpoch ''g'' 1 (snd (fst rb))) ''g'' 1 = None \<and> \<not> el_released (projr (snd acq))
    \<and> el_groupID (projr (snd acq)) = ''g'' \<and> el_epochID (projr (snd acq)) = 1"
  proof (rule rollback_loses_lease)
    show "PrepareRevision ''g'' 1 (sampleSnapshot 2 [4]) publishedManager = (fst prep, Inr (projr (snd prep)))"
      by (simp add: eval)
    show "AcquireEpoch ''g'' 1 (fst prep) = (fst acq, Inr (projr (snd acq)))" by (simp add: eval)
    show "Commit (projr (snd prep), fst acq) = ((fst (fst com), snd (fst com)), Inr (projr (snd com)))" by (simp add: eval)
    show "Rollback (fst (fst com), snd (fst com)) = ((fst (fst rb), snd (fst rb)), None)" by (simp add: eval)
    show "epochAt publishedManager ''g'' 1 = Some (the (epochAt publishedManager ''g'' 1))" by (simp add: epochAt_def eval)
    show "ep_refCount (the (epochAt publishedManager ''g'' 1)) = 0" by (simp add: epochAt_def eval)
  qed
  then show ?thesis by (simp add: trace)
qed

end
