(* ===== verification/Observation.thy ===== *)
theory Observation
  imports Health_Breaker Runtime_Manager
begin

text \<open>
  Observations (\<^verbatim>\<open>protocol/group/adaptive/observation.go\<close>): the shape a piece of evidence must
  have, the failure domain it counts for, the bounded suppression of replays, and the reducer that
  turns accepted evidence into health records or settles the permit of the attempt. A pending
  record is named by a number, since the source compares record pointers; a committed record is
  never changed, so the table and the recency list hold it by value. The clock is an argument of
  the operations that read it. The identity guard and the callback of the reducer are arguments;
  the guard the program uses is the epoch lease of the runtime manager.
\<close>

section \<open>Evidence\<close>

datatype observation_source =
  SourceDial | SourceTLS | SourceDNS | SourceFirstByte | SourceHTTP | SourceUDP | SourceProbe | SourceThroughput
| SourceOther string

datatype observation_stage =
  StageProxyTunnel | StageDestinationTransport | StageServiceApplication | StageResolverBootstrap | StageBusinessDNS
| StageDNSHealth | StageOther string

datatype failure_class =
  FailureNone | FailureDNS | FailureConnect | FailureTimeout | FailureTLS | FailureProtocol | FailureHTTPBlock
| FailureNoPayload | FailureIdentity | FailureCanceled | FailureOther string

type_synonym confidence = nat

abbreviation ConfidenceLow :: confidence where "ConfidenceLow \<equiv> 25"
abbreviation ConfidenceMedium :: confidence where "ConfidenceMedium \<equiv> 60"
abbreviation ConfidenceHigh :: confidence where "ConfidenceHigh \<equiv> 90"
abbreviation ConfidenceAuthoritative :: confidence where "ConfidenceAuthoritative \<equiv> 100"

record observation_evidence =
  ev_RuntimeEpochID :: epoch_id
  ev_CatalogRevision :: catalog_revision
  ev_SourceGeneration :: nat
  ev_Handle :: node_handle
  ev_Source :: observation_source
  ev_Stage :: observation_stage
  ev_Failure :: failure_class
  ev_Confidence :: confidence
  ev_Outcome :: observation_outcome
  ev_ServiceID :: string
  ev_Transport :: string
  ev_NetworkPath :: string
  ev_AttemptID :: nat
  ev_Delay :: duration
  ev_ThroughputBPS :: float64
  ev_At :: gotime
  ev_Reason :: string

record domain_evidence =
  de_RuntimeEpochID :: epoch_id
  de_CatalogRevision :: catalog_revision
  de_SourceGeneration :: nat
  de_Handle :: node_handle
  de_Domain :: failure_domain
  de_Outcome :: observation_outcome
  de_Failure :: failure_class
  de_Confidence :: confidence
  de_AttemptID :: nat
  de_BreakerEligible :: bool
  de_Weight :: float64

datatype observation_error =
  UnknownSource | UnknownStage | UnknownTransport | UnknownNetworkPath | UnsupportedConfidence | CanceledNotDeferred
| InvalidOutcome | SuccessWithFailure | FailureWithoutClass | BusinessWithoutService | BusinessSourceStage
| ThroughputInvalid | ThroughputUnexpected | DNSStage | BusinessStage | UDPStage | DialStage | TLSStage | ProbeStage
| ProbeWithService | IncompleteIdentity | NoCatalogGuard | NoReducer | ReservationNotPending | ReservationEvicted
| DomainIdentityMismatch | ReducerRefused string | PipelineIncomplete

definition knownNetworkPaths :: "string list" where
  "knownNetworkPaths =
     [''tcp/any'', ''tcp/ipv4'', ''tcp/ipv6'', ''udp_dns/any'', ''udp_dns/ipv4'', ''udp_dns/ipv6'',
      ''udp_data/any'', ''udp_data/ipv4'', ''udp_data/ipv6'']"

definition sourceStageError :: "observation_source \<Rightarrow> observation_stage \<Rightarrow> observation_error option" where
  \<comment> \<open>the last switch of \<open>ValidateShape\<close>\<close>
  "sourceStageError source stage =
     (case source of
        SourceDNS \<Rightarrow> if stage \<noteq> StageResolverBootstrap \<and> stage \<noteq> StageBusinessDNS \<and> stage \<noteq> StageDNSHealth then Some DNSStage else None
      | SourceHTTP \<Rightarrow> if stage \<noteq> StageServiceApplication then Some BusinessStage else None
      | SourceFirstByte \<Rightarrow> if stage \<noteq> StageServiceApplication then Some BusinessStage else None
      | SourceThroughput \<Rightarrow> if stage \<noteq> StageServiceApplication then Some BusinessStage else None
      | SourceUDP \<Rightarrow> if stage \<noteq> StageServiceApplication \<and> stage \<noteq> StageDestinationTransport then Some UDPStage else None
      | SourceDial \<Rightarrow> if stage \<noteq> StageProxyTunnel \<and> stage \<noteq> StageDestinationTransport then Some DialStage else None
      | SourceTLS \<Rightarrow>
          if stage \<noteq> StageProxyTunnel \<and> stage \<noteq> StageDestinationTransport \<and> stage \<noteq> StageServiceApplication then Some TLSStage else None
      | SourceProbe \<Rightarrow> if stage \<noteq> StageProxyTunnel then Some ProbeStage else None
      | SourceOther s \<Rightarrow> None)"

definition throughputError :: "observation_evidence \<Rightarrow> observation_error option" where
  "throughputError e =
     (if ev_Source e = SourceThroughput
      then (if ev_Stage e \<noteq> StageServiceApplication \<or> ev_ServiceID e = [] \<or> ev_Outcome e \<noteq> OutcomeSuccess
               \<or> ev_Failure e \<noteq> FailureNone \<or> ev_Confidence e \<noteq> ConfidenceMedium \<or> ev_ThroughputBPS e \<le> 0
            then Some ThroughputInvalid else None)
      else if ev_ThroughputBPS e \<noteq> 0 then Some ThroughputUnexpected else None)"

definition outcomeError :: "observation_evidence \<Rightarrow> observation_error option" where
  \<comment> \<open>the checks of \<open>ValidateShape\<close> on evidence that is not deferred, up to the switch\<close>
  "outcomeError e =
     (if ev_Outcome e \<noteq> OutcomeSuccess \<and> ev_Outcome e \<noteq> OutcomeFailure \<and> ev_Outcome e \<noteq> OutcomeBlocked then Some InvalidOutcome
      else if ev_Outcome e = OutcomeSuccess \<and> ev_Failure e \<noteq> FailureNone then Some SuccessWithFailure
      else if (ev_Outcome e = OutcomeFailure \<or> ev_Outcome e = OutcomeBlocked) \<and> ev_Failure e = FailureNone then Some FailureWithoutClass
      else if (ev_Stage e = StageServiceApplication \<or> ev_Stage e = StageBusinessDNS) \<and> ev_ServiceID e = [] then Some BusinessWithoutService
      else if (ev_Source e = SourceFirstByte \<or> ev_Source e = SourceHTTP)
              \<and> (ev_Stage e \<noteq> StageServiceApplication \<or> ev_ServiceID e = []) then Some BusinessSourceStage
      else throughputError e)"

definition knownSource :: "observation_source \<Rightarrow> bool" where
  "knownSource source = (case source of SourceOther s \<Rightarrow> False | _ \<Rightarrow> True)"

definition knownStage :: "observation_stage \<Rightarrow> bool" where
  "knownStage stage = (case stage of StageOther s \<Rightarrow> False | _ \<Rightarrow> True)"

definition ValidateShape :: "observation_evidence \<Rightarrow> observation_error option" where
  "ValidateShape e =
     (if \<not> knownSource (ev_Source e) then Some UnknownSource
      else if \<not> knownStage (ev_Stage e) then Some UnknownStage
      else if ev_Transport e \<noteq> ''tcp'' \<and> ev_Transport e \<noteq> ''udp'' then Some UnknownTransport
      else if ev_NetworkPath e \<noteq> [] \<and> ev_NetworkPath e \<notin> set knownNetworkPaths then Some UnknownNetworkPath
      else if ev_Confidence e \<noteq> ConfidenceLow \<and> ev_Confidence e \<noteq> ConfidenceMedium \<and> ev_Confidence e \<noteq> ConfidenceHigh
              \<and> ev_Confidence e \<noteq> ConfidenceAuthoritative then Some UnsupportedConfidence
      else if ev_Outcome e = OutcomeDeferred \<or> ev_Failure e = FailureCanceled
      then (if ev_Outcome e \<noteq> OutcomeDeferred \<or> ev_Failure e \<noteq> FailureCanceled then Some CanceledNotDeferred else None)
      else case outcomeError e of
          Some err \<Rightarrow> Some err
        | None \<Rightarrow>
            (case sourceStageError (ev_Source e) (ev_Stage e) of
               Some err \<Rightarrow> Some err
             | None \<Rightarrow>
                 if ev_Source e = SourceProbe \<and> ev_Stage e \<noteq> StageProxyTunnel then Some ProbeStage
                 else if ev_Source e = SourceProbe \<and> ev_ServiceID e \<noteq> [] then Some ProbeWithService
                 else None))"

section \<open>Failure domains\<close>

definition confidencePolicy :: "confidence \<Rightarrow> float64 \<times> bool" where
  "confidencePolicy confidence =
     (if confidence = ConfidenceLow then (f64 (25 / 100), False)
      else if confidence = ConfidenceMedium then (f64 (60 / 100), False)
      else if confidence = ConfidenceHigh then (f64 (90 / 100), True)
      else if confidence = ConfidenceAuthoritative then (1, True)
      else (0, False))"

definition stageDomain :: "observation_stage \<Rightarrow> failure_domain" where
  "stageDomain stage =
     (case stage of
        StageProxyTunnel \<Rightarrow> DomainEndpoint
      | StageServiceApplication \<Rightarrow> DomainService
      | StageBusinessDNS \<Rightarrow> DomainService
      | _ \<Rightarrow> DomainTransport)"

definition MapDomains :: "observation_evidence \<Rightarrow> observation_error + domain_evidence list" where
  "MapDomains e =
     (case ValidateShape e of
        Some err \<Rightarrow> Inl err
      | None \<Rightarrow>
          if ev_Outcome e = OutcomeDeferred then Inr []
          else
            let (weight, breakerEligible0) = confidencePolicy (ev_Confidence e);
                breakerEligible = (breakerEligible0 \<and> ev_Stage e \<noteq> StageResolverBootstrap)
            in Inr [\<lparr>de_RuntimeEpochID = ev_RuntimeEpochID e, de_CatalogRevision = ev_CatalogRevision e,
                     de_SourceGeneration = ev_SourceGeneration e, de_Handle = ev_Handle e,
                     de_Domain = stageDomain (ev_Stage e), de_Outcome = ev_Outcome e, de_Failure = ev_Failure e,
                     de_Confidence = ev_Confidence e, de_AttemptID = ev_AttemptID e,
                     de_BreakerEligible = breakerEligible, de_Weight = weight\<rparr>])"

section \<open>Reducing evidence to health\<close>

type_synonym settlement_state = "attempt_permit option \<times> health_store"

definition domainMismatch :: "observation_evidence \<Rightarrow> domain_evidence \<Rightarrow> bool" where
  "domainMismatch e d \<longleftrightarrow>
     de_Handle d \<noteq> ev_Handle e \<or> de_RuntimeEpochID d \<noteq> ev_RuntimeEpochID e \<or> de_CatalogRevision d \<noteq> ev_CatalogRevision e
     \<or> de_SourceGeneration d \<noteq> ev_SourceGeneration e \<or> de_AttemptID d \<noteq> ev_AttemptID e"

definition domainTransport :: "observation_evidence \<Rightarrow> string" where
  \<comment> \<open>the ledger path of transport evidence\<close>
  "domainTransport e =
     (let path = (if ev_NetworkPath e = [] then ev_Transport e else ev_NetworkPath e);
          normalized = normalizeHealthTransportPath path
      in if normalized \<noteq> [] then normalized else path)"

definition healthObservationForDomain :: "observation_evidence \<Rightarrow> domain_evidence \<Rightarrow> observation" where
  "healthObservationForDomain e d =
     \<lparr>ob_NodeID = nh_NodeID (ev_Handle e), ob_NodeSlot = nh_Slot (ev_Handle e), ob_NodeVersion = nh_Version (ev_Handle e),
      ob_Scope = de_Domain d, ob_Transport = (if de_Domain d = DomainTransport then domainTransport e else []),
      ob_Service = (if de_Domain d = DomainService then ev_ServiceID e else []),
      ob_Outcome = de_Outcome d, ob_Delay = ev_Delay e, ob_ThroughputBPS = ev_ThroughputBPS e, ob_At = ev_At e,
      ob_Reason = ev_Reason e\<rparr>"

definition observeDomain :: "observation_evidence \<Rightarrow> bool \<Rightarrow> domain_evidence \<Rightarrow> health_store \<Rightarrow> health_store" where
  "observeDomain e eligible d s =
     (if de_BreakerEligible d = eligible then ObserveEvidence (healthObservationForDomain e d) eligible (de_Weight d) s else s)"

definition eligibleOutcomes :: "domain_evidence list \<Rightarrow> domain_outcomes" where
  "eligibleOutcomes domains =
     fold (\<lambda>d m. if de_BreakerEligible d then AList.update (de_Domain d) (de_Outcome d) m else m) domains []"

definition ReleaseSettlement :: "settlement_state \<Rightarrow> settlement_state" where
  \<comment> \<open>\<open>AttemptPermitSettlement.ReleaseDeferred\<close>, without effect when there is no settlement\<close>
  "ReleaseSettlement = (\<lambda>(permit, s).
     case permit of None \<Rightarrow> (None, s) | Some p \<Rightarrow> (let (p', s') = ReleaseDeferred (p, s) in (Some p', s')))"

definition CompleteSettlement :: "domain_outcomes \<Rightarrow> gotime \<Rightarrow> duration \<Rightarrow> string \<Rightarrow> settlement_state \<Rightarrow> settlement_state" where
  "CompleteSettlement outcomes at0 delay reason = (\<lambda>(permit, s).
     case permit of
       None \<Rightarrow> (None, s)
     | Some p \<Rightarrow> (let (p', s') = CompleteDomains outcomes at0 delay reason (p, s) in (Some p', s')))"

definition Reduce ::
  "observation_error option \<Rightarrow> observation_evidence \<Rightarrow> domain_evidence list \<Rightarrow> settlement_state \<Rightarrow>
   settlement_state \<times> observation_error option" where
  \<comment> \<open>the first argument is what the callback \<open>BeforeReduce\<close> answers, a panic of it included\<close>
  "Reduce before e domains = (\<lambda>(permit, s).
     case before of
       Some err \<Rightarrow> ((permit, s), Some err)
     | None \<Rightarrow>
         if list_ex (domainMismatch e) domains then ((permit, s), Some DomainIdentityMismatch)
         else
           let s1 = fold (observeDomain e False) domains s; outcomes = eligibleOutcomes domains in
           if permit \<noteq> None
           then (if outcomes = [] then ReleaseSettlement (permit, s1)
                 else CompleteSettlement outcomes (ev_At e) (ev_Delay e) (ev_Reason e) (permit, s1), None)
           else ((None, fold (observeDomain e True) domains s1), None))"

section \<open>Replay suppression\<close>

record dedup_key =
  dk_epochID :: epoch_id
  dk_revision :: catalog_revision
  dk_sourceGeneration :: nat
  dk_nodeID :: node_id
  dk_nodeSlot :: nat
  dk_attemptID :: nat
  dk_source :: observation_source
  dk_stage :: observation_stage
  dk_domain :: failure_domain
  dk_version :: nat

record dedup_record =
  dr_id :: nat
  dr_key :: dedup_key
  dr_expiresAt :: gotime

record ingestor =
  oi_ttl :: duration
  oi_maxEntries :: nat
  oi_entries :: "(dedup_key, dedup_record) gomap"
  oi_pending :: "(dedup_key, nat) gomap"
  oi_lru :: "dedup_record list"
  oi_pruneVisits :: nat
  oi_nextRecord :: nat

datatype ingest_disposition = IngestAccepted | IngestDuplicate | IngestStale | IngestBackpressure

datatype reservation_state = ReservationReserved | ReservationCommitted | ReservationAborted

record observation_reservation =
  or_records :: "(dedup_key \<times> nat) list"
  or_state :: reservation_state

definition NewObservationIngestor :: "duration \<Rightarrow> int \<Rightarrow> ingestor" where
  "NewObservationIngestor ttl maxEntries =
     \<lparr>oi_ttl = (if ttl \<le> 0 then 10 * minute else ttl), oi_maxEntries = (if maxEntries \<le> 0 then 16384 else nat maxEntries),
      oi_entries = [], oi_pending = [], oi_lru = [], oi_pruneVisits = 0, oi_nextRecord = 0\<rparr>"

definition dropLast :: "ingestor \<Rightarrow> ingestor" where
  \<comment> \<open>the record at the back of the list goes, and with it the entry of its key\<close>
  "dropLast i = i\<lparr>oi_entries := AList.delete (dr_key (last (oi_lru i))) (oi_entries i), oi_lru := butlast (oi_lru i)\<rparr>"

function pruneLocked :: "gotime \<Rightarrow> ingestor \<Rightarrow> ingestor" where
  "pruneLocked now i =
     (if oi_lru i = [] then i
      else
        let i1 = i\<lparr>oi_pruneVisits := inc64 (oi_pruneVisits i)\<rparr> in
        if now < dr_expiresAt (last (oi_lru i)) then i1 else pruneLocked now (dropLast i1))"
  by pat_completeness auto
termination
  by (relation "measure (\<lambda>(now, i). length (oi_lru i))") (auto simp: dropLast_def)

declare pruneLocked.simps [simp del]

definition removeOldestCommittedLocked :: "ingestor \<Rightarrow> ingestor option" where
  "removeOldestCommittedLocked i = (if oi_lru i = [] then None else Some (dropLast i))"

function makeRoom :: "nat \<Rightarrow> ingestor \<Rightarrow> ingestor \<times> bool" where
  \<comment> \<open>the eviction loop of \<open>reserveMapped\<close>; \<open>False\<close> when nothing is left to evict\<close>
  "makeRoom n i =
     (if length (oi_entries i) + length (oi_pending i) + n > oi_maxEntries i
      then (case removeOldestCommittedLocked i of None \<Rightarrow> (i, False) | Some i' \<Rightarrow> makeRoom n i')
      else (i, True))"
  by pat_completeness auto
termination
  by (relation "measure (\<lambda>(n, i). length (oi_lru i))") (auto simp: removeOldestCommittedLocked_def dropLast_def split: if_splits)

declare makeRoom.simps [simp del]

definition dedupKey :: "observation_evidence \<Rightarrow> domain_evidence \<Rightarrow> dedup_key" where
  "dedupKey e d =
     \<lparr>dk_epochID = ev_RuntimeEpochID e, dk_revision = ev_CatalogRevision e, dk_sourceGeneration = ev_SourceGeneration e,
      dk_nodeID = nh_NodeID (ev_Handle e), dk_nodeSlot = nh_Slot (ev_Handle e), dk_attemptID = ev_AttemptID e,
      dk_source = ev_Source e, dk_stage = ev_Stage e, dk_domain = de_Domain d, dk_version = nh_Version (ev_Handle e)\<rparr>"

definition isDuplicate :: "gotime \<Rightarrow> ingestor \<Rightarrow> dedup_key \<Rightarrow> bool" where
  "isDuplicate now i key \<longleftrightarrow>
     map_of (oi_pending i) key \<noteq> None
     \<or> (case map_of (oi_entries i) key of None \<Rightarrow> False | Some r \<Rightarrow> now < dr_expiresAt r)"

fun addPending :: "dedup_key list \<Rightarrow> ingestor \<Rightarrow> ingestor \<times> (dedup_key \<times> nat) list" where
  "addPending [] i = (i, [])"
| "addPending (key # keys) i =
     (let a = oi_nextRecord i;
          (i', rs) = addPending keys (i\<lparr>oi_pending := AList.update key a (oi_pending i), oi_nextRecord := a + 1\<rparr>)
      in (i', (key, a) # rs))"

type_synonym reserve_outcome = "observation_error + (ingest_disposition \<times> domain_evidence list \<times> observation_reservation option)"

definition reserveMapped ::
  "gotime \<Rightarrow> observation_evidence \<Rightarrow> domain_evidence list \<Rightarrow> ingestor \<Rightarrow> ingestor \<times> reserve_outcome" where
  "reserveMapped now e domains i =
     (let i1 = pruneLocked now i; keys = map (dedupKey e) domains in
      if list_ex (isDuplicate now i1) keys then (i1, Inr (IngestDuplicate, [], None))
      else
        let (i2, room) = makeRoom (length keys) i1 in
        if \<not> room then (i2, Inr (IngestBackpressure, [], None))
        else
          let (i3, records) = addPending keys i2 in
          (i3, Inr (IngestAccepted, domains, Some \<lparr>or_records = records, or_state = ReservationReserved\<rparr>)))"

definition incompleteIdentity :: "observation_evidence \<Rightarrow> bool" where
  "incompleteIdentity e \<longleftrightarrow>
     ev_RuntimeEpochID e = 0 \<or> ev_CatalogRevision e = 0 \<or> ev_SourceGeneration e = 0 \<or> nh_NodeID (ev_Handle e) = 0
     \<or> nh_Slot (ev_Handle e) = 0 \<or> nh_Version (ev_Handle e) = 0 \<or> ev_AttemptID e = 0"

definition reserve ::
  "gotime \<Rightarrow> observation_evidence \<Rightarrow> (observation_evidence \<Rightarrow> bool) option \<Rightarrow> ingestor \<Rightarrow> ingestor \<times> reserve_outcome" where
  "reserve now e guard i =
     (case ValidateShape e of
        Some err \<Rightarrow> (i, Inl err)
      | None \<Rightarrow>
          if incompleteIdentity e then (i, Inl IncompleteIdentity)
          else case guard of
              None \<Rightarrow> (i, Inl NoCatalogGuard)
            | Some valid \<Rightarrow>
                if \<not> valid e then (i, Inr (IngestStale, [], None))
                else (case MapDomains e of
                    Inl err \<Rightarrow> (i, Inl err)
                  | Inr domains \<Rightarrow> if domains = [] then (i, Inr (IngestAccepted, [], None)) else reserveMapped now e domains i))"

definition releaseRecord :: "dedup_key \<times> nat \<Rightarrow> ingestor \<Rightarrow> ingestor" where
  "releaseRecord r i =
     (if map_of (oi_pending i) (fst r) = Some (snd r) then i\<lparr>oi_pending := AList.delete (fst r) (oi_pending i)\<rparr> else i)"

definition commitRecord :: "gotime \<Rightarrow> dedup_key \<times> nat \<Rightarrow> ingestor \<Rightarrow> ingestor" where
  "commitRecord now r i =
     (let record = \<lparr>dr_id = snd r, dr_key = fst r, dr_expiresAt = now + oi_ttl i\<rparr> in
      i\<lparr>oi_pending := AList.delete (fst r) (oi_pending i), oi_lru := record # oi_lru i,
        oi_entries := AList.update (fst r) record (oi_entries i)\<rparr>)"

definition commitReservation ::
  "gotime \<Rightarrow> observation_reservation \<times> ingestor \<Rightarrow> (observation_reservation \<times> ingestor) \<times> observation_error option" where
  "commitReservation now = (\<lambda>(r, i).
     if or_state r \<noteq> ReservationReserved then ((r, i), Some ReservationNotPending)
     else if list_all (\<lambda>(key, a). map_of (oi_pending i) key = Some a) (or_records r)
     then ((r\<lparr>or_state := ReservationCommitted\<rparr>, fold (commitRecord now) (or_records r) i), None)
     else ((r\<lparr>or_state := ReservationAborted\<rparr>, fold releaseRecord (or_records r) i), Some ReservationEvicted))"

definition abortReservation :: "observation_reservation \<times> ingestor \<Rightarrow> observation_reservation \<times> ingestor" where
  "abortReservation = (\<lambda>(r, i).
     if or_state r \<noteq> ReservationReserved then (r, i)
     else (r\<lparr>or_state := ReservationAborted\<rparr>, fold releaseRecord (or_records r) i))"

section \<open>Publishing an observation\<close>

definition PublishGuarded ::
  "gotime \<Rightarrow> gotime \<Rightarrow> observation_evidence \<Rightarrow> (observation_evidence \<Rightarrow> bool) option \<Rightarrow>
   (observation_evidence \<Rightarrow> domain_evidence list \<Rightarrow> 's \<Rightarrow> 's \<times> observation_error option) option \<Rightarrow>
   ingestor \<times> 's \<Rightarrow> (ingestor \<times> 's) \<times> (observation_error + ingest_disposition)" where
  \<comment> \<open>the clock when the evidence is reserved and when it is committed; the reducer acts on a state of its own\<close>
  "PublishGuarded now now' e guard reducer = (\<lambda>(i, s).
     case reserve now e guard i of
       (i1, Inl err) \<Rightarrow> ((i1, s), Inl err)
     | (i1, Inr (disposition, domains, reservation)) \<Rightarrow>
         if disposition \<noteq> IngestAccepted \<or> domains = [] then ((i1, s), Inr disposition)
         else (case reservation of
             None \<Rightarrow> ((i1, s), Inr disposition)
           | Some r \<Rightarrow>
               (case reducer of
                  None \<Rightarrow> ((snd (abortReservation (r, i1)), s), Inl NoReducer)
                | Some reduce \<Rightarrow>
                    (case reduce e domains s of
                       (s', Some err) \<Rightarrow> ((snd (abortReservation (r, i1)), s'), Inl err)
                     | (s', None) \<Rightarrow>
                         (case commitReservation now' (r, i1) of
                            ((r', i2), Some err) \<Rightarrow> ((i2, s'), Inl err)
                          | ((r', i2), None) \<Rightarrow> ((i2, s'), Inr disposition))))))"

definition ingest ::
  "gotime \<Rightarrow> gotime \<Rightarrow> observation_evidence \<Rightarrow> (observation_evidence \<Rightarrow> bool) option \<Rightarrow> ingestor \<Rightarrow>
   ingestor \<times> observation_error option \<times> (ingest_disposition \<times> domain_evidence list) option" where
  "ingest now now' e guard i =
     (case reserve now e guard i of
        (i1, Inl err) \<Rightarrow> (i1, Some err, None)
      | (i1, Inr (disposition, domains, reservation)) \<Rightarrow>
          (case reservation of
             None \<Rightarrow> (i1, None, Some (disposition, domains))
           | Some r \<Rightarrow>
               if disposition = IngestAccepted
               then (let ((r', i2), err) = commitReservation now' (r, i1) in (i2, err, Some (disposition, domains)))
               else (i1, None, Some (disposition, domains))))"

definition PublishSettledObservationGuarded ::
  "gotime \<Rightarrow> gotime \<Rightarrow> (observation_evidence \<Rightarrow> bool) option \<Rightarrow> observation_evidence \<Rightarrow> observation_error option \<Rightarrow>
   ingestor \<times> settlement_state \<Rightarrow> (ingestor \<times> settlement_state) \<times> (observation_error + ingest_disposition)" where
  "PublishSettledObservationGuarded now now' guard e before y =
     (case PublishGuarded now now' e guard (Some (Reduce before)) y of
        ((i, s), Inl err) \<Rightarrow> ((i, ReleaseSettlement s), Inl err)
      | ((i, s), Inr disposition) \<Rightarrow>
          ((i, if disposition \<noteq> IngestAccepted \<or> ev_Outcome e = OutcomeDeferred then ReleaseSettlement s else s), Inr disposition))"

definition epochGuard :: "epoch_lease option \<Rightarrow> runtime_manager \<Rightarrow> observation_evidence \<Rightarrow> bool" where
  \<comment> \<open>\<open>RuntimeEpochObservationGuard.ValidateObservation\<close>\<close>
  "epochGuard lease m e =
     (case lease of
        None \<Rightarrow> False
      | Some l \<Rightarrow> ValidateEvidence l (ev_RuntimeEpochID e) (ev_CatalogRevision e) (ev_SourceGeneration e) (ev_Handle e) m)"

end
