(* ===== verification/Observation_Ingest.thy ===== *)
theory Observation_Ingest
  imports Observation
begin

text \<open>
  Runs of the observation ingestor: reservations are made, committed and aborted in any order while
  the clock advances. The table is bounded, a reservation can always be committed, none leaks, and
  evidence that was committed is a duplicate until it expires.
\<close>

declare map_of_eq_Some_iff [simp del]

section \<open>The invariant\<close>

definition table_ok :: "ingestor \<Rightarrow> bool" where
  "table_ok i \<longleftrightarrow>
     gm_wf (oi_entries i) \<and> gm_wf (oi_pending i) \<and> distinct (map dr_key (oi_lru i))
     \<and> (\<forall>k r. map_of (oi_entries i) k = Some r \<longleftrightarrow> r \<in> set (oi_lru i) \<and> dr_key r = k)
     \<and> sorted_wrt (\<lambda>a b. dr_expiresAt b \<le> dr_expiresAt a) (oi_lru i)
     \<and> (\<forall>k. map_of (oi_pending i) k \<noteq> None \<longrightarrow> map_of (oi_entries i) k = None)
     \<and> (\<forall>k a. map_of (oi_pending i) k = Some a \<longrightarrow> a < oi_nextRecord i)"

definition ingest_bounded :: "ingestor \<Rightarrow> bool" where
  "ingest_bounded i \<longleftrightarrow> length (oi_entries i) + length (oi_pending i) \<le> oi_maxEntries i"

lemma table_entry: "table_ok i \<Longrightarrow> map_of (oi_entries i) k = Some r \<longleftrightarrow> r \<in> set (oi_lru i) \<and> dr_key r = k"
  unfolding table_ok_def by blast

lemma drop_fields [simp]:
  "oi_pending (dropLast i) = oi_pending i" "oi_maxEntries (dropLast i) = oi_maxEntries i" "oi_ttl (dropLast i) = oi_ttl i"
  "oi_nextRecord (dropLast i) = oi_nextRecord i" "oi_lru (dropLast i) = butlast (oi_lru i)"
  "oi_pruneVisits (dropLast i) = oi_pruneVisits i"
  by (simp_all add: dropLast_def)

lemma drop_table:
  assumes ok: "table_ok i" and ne: "oi_lru i \<noteq> []"
  shows "table_ok (dropLast i)" "length (oi_entries (dropLast i)) = length (oi_entries i) - 1"
proof -
  obtain xs x where l: "oi_lru i = xs @ [x]" using ne by (metis rev_exhaust)
  have d: "distinct (map dr_key xs)" "dr_key x \<notin> dr_key ` set xs" using ok l by (auto simp: table_ok_def)
  have x: "map_of (oi_entries i) (dr_key x) = Some x" using table_entry [OF ok] l by simp
  have e: "oi_entries (dropLast i) = AList.delete (dr_key x) (oi_entries i)" by (simp add: dropLast_def l)
  have wf: "gm_wf (oi_entries i)" using ok by (simp add: table_ok_def)
  have "map_of (oi_entries (dropLast i)) k = Some r \<longleftrightarrow> r \<in> set xs \<and> dr_key r = k" for k r
    unfolding e gm_get_del using table_entry [OF ok, of k r] d(2) l by (cases "k = dr_key x") (auto, metis imageI)
  moreover have "sorted_wrt (\<lambda>a b. dr_expiresAt b \<le> dr_expiresAt a) xs" using ok l by (simp add: table_ok_def sorted_wrt_append)
  moreover have "map_of (oi_entries (dropLast i)) k = None" if "map_of (oi_pending i) k \<noteq> None" for k
    using ok that unfolding e gm_get_del table_ok_def by simp
  ultimately show "table_ok (dropLast i)" using ok wf d(1) l by (simp add: table_ok_def e)
  show "length (oi_entries (dropLast i)) = length (oi_entries i) - 1" unfolding e using gm_len_del [OF wf] x by simp
qed

lemma visits_table [simp]: "table_ok (i\<lparr>oi_pruneVisits := n\<rparr>) = table_ok i"
  by (simp add: table_ok_def)

lemma prune_table:
  "table_ok i \<Longrightarrow> table_ok (pruneLocked now i) \<and> (\<forall>r \<in> set (oi_lru (pruneLocked now i)). now < dr_expiresAt r)
    \<and> set (oi_lru (pruneLocked now i)) \<subseteq> set (oi_lru i) \<and> length (oi_entries (pruneLocked now i)) \<le> length (oi_entries i)"
proof (induction now i rule: pruneLocked.induct)
  case (1 now i)
  let ?i = "i\<lparr>oi_pruneVisits := inc64 (oi_pruneVisits i)\<rparr>"
  consider "oi_lru i = []" | "oi_lru i \<noteq> []" "now < dr_expiresAt (last (oi_lru i))" | "oi_lru i \<noteq> []" "\<not> now < dr_expiresAt (last (oi_lru i))"
    by blast
  then show ?case
  proof cases
    case 1
    then show ?thesis using \<open>table_ok i\<close> by (subst (1 2 3 4) pruneLocked.simps) simp
  next
    case 2
    obtain xs x where l: "oi_lru i = xs @ [x]" using 2(1) by (metis rev_exhaust)
    have "\<forall>r \<in> set xs. dr_expiresAt x \<le> dr_expiresAt r" using \<open>table_ok i\<close> l by (simp add: table_ok_def sorted_wrt_append)
    then have "\<forall>r \<in> set (oi_lru i). now < dr_expiresAt r" using 2(2) l by auto
    moreover have "pruneLocked now i = ?i" using 2 by (subst pruneLocked.simps) simp
    ultimately show ?thesis using \<open>table_ok i\<close> by simp
  next
    case 3
    have "pruneLocked now i = pruneLocked now (dropLast ?i)" using 3 by (subst pruneLocked.simps) simp
    moreover have "table_ok (dropLast ?i)" "length (oi_entries (dropLast ?i)) \<le> length (oi_entries i)"
      using drop_table [of ?i] \<open>table_ok i\<close> 3 by simp_all
    ultimately show ?thesis
      using 1(1) [OF 3(1) refl 3(2)] in_set_butlastD [of _ "oi_lru i"] by auto
  qed
qed

lemma prune_fields [simp]:
  "oi_pending (pruneLocked now i) = oi_pending i" "oi_maxEntries (pruneLocked now i) = oi_maxEntries i"
  "oi_ttl (pruneLocked now i) = oi_ttl i" "oi_nextRecord (pruneLocked now i) = oi_nextRecord i"
proof -
  have "oi_pending (pruneLocked now i) = oi_pending i \<and> oi_maxEntries (pruneLocked now i) = oi_maxEntries i
    \<and> oi_ttl (pruneLocked now i) = oi_ttl i \<and> oi_nextRecord (pruneLocked now i) = oi_nextRecord i"
  proof (induction now i rule: pruneLocked.induct)
    case (1 now i)
    then show ?case by (cases "oi_lru i = [] \<or> now < dr_expiresAt (last (oi_lru i))") (auto simp: pruneLocked.simps [of now i])
  qed
  then show "oi_pending (pruneLocked now i) = oi_pending i" "oi_maxEntries (pruneLocked now i) = oi_maxEntries i"
    "oi_ttl (pruneLocked now i) = oi_ttl i" "oi_nextRecord (pruneLocked now i) = oi_nextRecord i" by auto
qed

lemma room_table:
  "table_ok i \<Longrightarrow> table_ok (fst (makeRoom n i)) \<and> set (oi_lru (fst (makeRoom n i))) \<subseteq> set (oi_lru i)
    \<and> length (oi_entries (fst (makeRoom n i))) \<le> length (oi_entries i)
    \<and> oi_pending (fst (makeRoom n i)) = oi_pending i \<and> oi_maxEntries (fst (makeRoom n i)) = oi_maxEntries i
    \<and> oi_ttl (fst (makeRoom n i)) = oi_ttl i \<and> oi_nextRecord (fst (makeRoom n i)) = oi_nextRecord i
    \<and> (snd (makeRoom n i) \<longrightarrow> length (oi_entries (fst (makeRoom n i))) + length (oi_pending i) + n \<le> oi_maxEntries i)"
proof (induction n i rule: makeRoom.induct)
  case (1 n i)
  show ?case
  proof (cases "length (oi_entries i) + length (oi_pending i) + n > oi_maxEntries i \<and> oi_lru i \<noteq> []")
    case True
    then have rm: "removeOldestCommittedLocked i = Some (dropLast i)" by (simp add: removeOldestCommittedLocked_def)
    have eq: "makeRoom n i = makeRoom n (dropLast i)" using True rm by (subst makeRoom.simps) simp
    show ?thesis
      using 1(1) [OF _ rm] True drop_table [OF 1(2)] in_set_butlastD [of _ "oi_lru i"] unfolding eq by auto
  next
    case False
    then have "fst (makeRoom n i) = i"
        "snd (makeRoom n i) \<Longrightarrow> length (oi_entries i) + length (oi_pending i) + n \<le> oi_maxEntries i"
      by (auto simp: makeRoom.simps [of n i] removeOldestCommittedLocked_def split: if_splits)
    then show ?thesis using 1(2) by simp
  qed
qed

section \<open>One reservation\<close>

lemma map_domains_one: "MapDomains e = Inr ds \<Longrightarrow> ds \<noteq> [] \<Longrightarrow> \<exists>d. ds = [d]"
  by (auto simp: MapDomains_def Let_def case_prod_unfold split: option.splits if_splits)

definition addRecord :: "dedup_key \<Rightarrow> ingestor \<Rightarrow> ingestor" where
  "addRecord k i = i\<lparr>oi_pending := AList.update k (oi_nextRecord i) (oi_pending i), oi_nextRecord := oi_nextRecord i + 1\<rparr>"

text \<open>A reservation of one key, or no reservation and at most fewer committed records.\<close>

definition ingest_shrinks :: "ingestor \<Rightarrow> ingestor \<Rightarrow> bool" where
  "ingest_shrinks i i' \<longleftrightarrow>
     table_ok i' \<and> set (oi_lru i') \<subseteq> set (oi_lru i) \<and> length (oi_entries i') \<le> length (oi_entries i)
     \<and> oi_pending i' = oi_pending i \<and> oi_maxEntries i' = oi_maxEntries i \<and> oi_ttl i' = oi_ttl i \<and> oi_nextRecord i' = oi_nextRecord i"

lemma shrinks_refl: "table_ok i \<Longrightarrow> ingest_shrinks i i"
  by (simp add: ingest_shrinks_def)

lemma reserveMapped_cases:
  assumes ok: "table_ok i" and ds: "ds = [d]"
  obtains (none) i' x where "reserveMapped now e ds i = (i', Inr (x, [], None))" "ingest_shrinks i i'" "x = IngestDuplicate \<or> x = IngestBackpressure"
  | (new) i2 where "reserveMapped now e ds i =
        (addRecord (dedupKey e d) i2, Inr (IngestAccepted, ds, Some \<lparr>or_records = [(dedupKey e d, oi_nextRecord i2)], or_state = ReservationReserved\<rparr>))"
      "ingest_shrinks i i2" "map_of (oi_pending i2) (dedupKey e d) = None" "map_of (oi_entries i2) (dedupKey e d) = None"
      "length (oi_entries i2) + length (oi_pending i2) + 1 \<le> oi_maxEntries i2"
proof -
  let ?k = "dedupKey e d" and ?i1 = "pruneLocked now i" and ?i2 = "fst (makeRoom 1 (pruneLocked now i))"
  note prune = prune_table [OF ok, of now]
  note room = room_table [OF conjunct1 [OF prune], of 1]
  have sh: "ingest_shrinks i ?i1" "ingest_shrinks i ?i2" using prune room unfolding ingest_shrinks_def by auto
  show thesis
  proof (cases "isDuplicate now ?i1 ?k")
    case True
    then show ?thesis using none [of ?i1 IngestDuplicate] sh(1) by (simp add: reserveMapped_def Let_def ds)
  next
    case False
    show ?thesis
    proof (cases "snd (makeRoom 1 ?i1)")
      case False': False
      then show ?thesis
        using none [of ?i2 IngestBackpressure] sh(2) False by (simp add: reserveMapped_def Let_def ds case_prod_unfold)
    next
      case True
      have "map_of (oi_entries ?i1) ?k = None"
        using False prune table_entry [of ?i1 ?k] by (cases "map_of (oi_entries ?i1) ?k") (auto simp: isDuplicate_def)
      moreover have "map_of (oi_entries ?i2) ?k = Some r \<Longrightarrow> map_of (oi_entries ?i1) ?k = Some r" for r
        using table_entry [of ?i2 ?k r] table_entry [of ?i1 ?k r] room prune by blast
      ultimately have "map_of (oi_entries ?i2) ?k = None" by (metis not_None_eq)
      moreover have "map_of (oi_pending ?i2) ?k = None" using False room by (simp add: isDuplicate_def)
      ultimately show ?thesis
        using new [of ?i2] sh(2) False True room
        by (simp add: reserveMapped_def Let_def ds case_prod_unfold addRecord_def)
    qed
  qed
qed

lemma reserve_form:
  "(\<exists>err. reserve now e guard i = (i, Inl err)) \<or> (\<exists>x. reserve now e guard i = (i, Inr (x, [], None)))
    \<or> (\<exists>ds. MapDomains e = Inr ds \<and> ds \<noteq> [] \<and> reserve now e guard i = reserveMapped now e ds i)"
proof (cases "ValidateShape e = None \<and> \<not> incompleteIdentity e \<and> (\<exists>valid. guard = Some valid \<and> valid e)")
  case True
  then show ?thesis by (cases "MapDomains e") (auto simp: reserve_def)
next
  case False
  then show ?thesis by (cases "ValidateShape e"; cases guard) (auto simp: reserve_def)
qed

lemma reserve_cases:
  assumes ok: "table_ok i"
  obtains (none) i' r where "reserve now e guard i = (i', r)" "ingest_shrinks i i'" "\<And>x ds v. r = Inr (x, ds, Some v) \<Longrightarrow> False"
      "\<And>x ds. r = Inr (x, ds, None) \<Longrightarrow> ds = []"
  | (new) i2 d where "MapDomains e = Inr [d]" "reserve now e guard i =
        (addRecord (dedupKey e d) i2, Inr (IngestAccepted, [d], Some \<lparr>or_records = [(dedupKey e d, oi_nextRecord i2)], or_state = ReservationReserved\<rparr>))"
      "ingest_shrinks i i2" "map_of (oi_pending i2) (dedupKey e d) = None" "map_of (oi_entries i2) (dedupKey e d) = None"
      "length (oi_entries i2) + length (oi_pending i2) + 1 \<le> oi_maxEntries i2"
proof -
  consider (err) err where "reserve now e guard i = (i, Inl err)" | (empty) x where "reserve now e guard i = (i, Inr (x, [], None))"
    | (mapped) ds where "reserve now e guard i = reserveMapped now e ds i" "MapDomains e = Inr ds" "ds \<noteq> []"
    using reserve_form [of now e guard i] by blast
  then show ?thesis
  proof cases
    case err
    show ?thesis by (rule that(1) [OF err shrinks_refl [OF ok]]) simp_all
  next
    case empty
    show ?thesis by (rule that(1) [OF empty shrinks_refl [OF ok]]) simp_all
  next
    case ds: mapped
    obtain d where d: "ds = [d]" using map_domains_one [OF ds(2,3)] by blast
    show ?thesis
    proof (cases rule: reserveMapped_cases [OF ok d, of now e, case_names none new])
      case (none i' x)
      then show ?thesis using that(1) [of i' "Inr (x, [], None)"] ds(1) by simp
    next
      case (new i2)
      then show ?thesis using that(2) [of d i2] ds(1,2) d by simp
    qed
  qed
qed

lemma add_table:
  assumes ok: "table_ok i" and "map_of (oi_pending i) k = None" and "map_of (oi_entries i) k = None"
  shows "table_ok (addRecord k i)" "length (oi_pending (addRecord k i)) = Suc (length (oi_pending i))"
proof -
  show "length (oi_pending (addRecord k i)) = Suc (length (oi_pending i))" using assms(2) by (simp add: addRecord_def gm_len_put)
  show "table_ok (addRecord k i)"
    using assms unfolding table_ok_def by (auto simp: addRecord_def gm_get_put less_SucI split: if_splits)
qed

section \<open>Runs\<close>

record ingest_sys =
  iy_ingestor :: ingestor
  iy_reservations :: "observation_reservation list"
  iy_clock :: gotime

fun noted :: "reserve_outcome \<Rightarrow> ingest_sys \<Rightarrow> ingest_sys" where
  "noted (Inr (x, ds, Some r)) y = y\<lparr>iy_reservations := iy_reservations y @ [r]\<rparr>"
| "noted _ y = y"

inductive ingest_step :: "ingest_sys \<Rightarrow> ingest_sys \<Rightarrow> bool" where
  tick: "iy_clock y \<le> t \<Longrightarrow> ingest_step y (y\<lparr>iy_clock := t\<rparr>)"
| reserve: "now \<le> iy_clock y \<Longrightarrow> reserve now e guard (iy_ingestor y) = (i', r) \<Longrightarrow>
    ingest_step y (noted r (y\<lparr>iy_ingestor := i'\<rparr>))"
| commit: "j < length (iy_reservations y) \<Longrightarrow>
    commitReservation (iy_clock y) (iy_reservations y ! j, iy_ingestor y) = ((r', i'), err) \<Longrightarrow>
    ingest_step y (y\<lparr>iy_ingestor := i', iy_reservations := (iy_reservations y)[j := r']\<rparr>)"
| abort: "j < length (iy_reservations y) \<Longrightarrow> abortReservation (iy_reservations y ! j, iy_ingestor y) = (r', i') \<Longrightarrow>
    ingest_step y (y\<lparr>iy_ingestor := i', iy_reservations := (iy_reservations y)[j := r']\<rparr>)"

definition ingest_init :: "ingest_sys \<Rightarrow> bool" where
  "ingest_init y \<longleftrightarrow> (\<exists>ttl n t. y = \<lparr>iy_ingestor = NewObservationIngestor ttl n, iy_reservations = [], iy_clock = t\<rparr>)"

definition recordId :: "observation_reservation \<Rightarrow> nat" where
  "recordId r = snd (hd (or_records r))"

definition reservations_ok :: "ingestor \<Rightarrow> observation_reservation list \<Rightarrow> bool" where
  \<comment> \<open>the open reservations are exactly the pending records\<close>
  "reservations_ok i rs \<longleftrightarrow>
     distinct (map recordId rs)
     \<and> (\<forall>r \<in> set rs. \<exists>k. or_records r = [(k, recordId r)] \<and> recordId r < oi_nextRecord i
          \<and> (or_state r = ReservationReserved \<longrightarrow> map_of (oi_pending i) k = Some (recordId r)))
     \<and> (\<forall>k a. map_of (oi_pending i) k = Some a \<longrightarrow>
          (\<exists>r \<in> set rs. or_state r = ReservationReserved \<and> or_records r = [(k, a)]))"

definition ingest_sys_ok :: "ingest_sys \<Rightarrow> bool" where
  "ingest_sys_ok y \<longleftrightarrow>
     table_ok (iy_ingestor y) \<and> ingest_bounded (iy_ingestor y) \<and> reservations_ok (iy_ingestor y) (iy_reservations y)
     \<and> (\<forall>r \<in> set (oi_lru (iy_ingestor y)). dr_expiresAt r \<le> iy_clock y + oi_ttl (iy_ingestor y))"

lemma shrinks_ok:
  assumes ok: "ingest_sys_ok y" and "ingest_shrinks (iy_ingestor y) i'"
  shows "ingest_sys_ok (y\<lparr>iy_ingestor := i'\<rparr>)"
  using assms unfolding ingest_sys_ok_def ingest_shrinks_def ingest_bounded_def reservations_ok_def by auto

lemma add_reservation:
  assumes rs: "reservations_ok i rs" and "map_of (oi_pending i) k = None"
  shows "reservations_ok (addRecord k i) (rs @ [\<lparr>or_records = [(k, oi_nextRecord i)], or_state = ReservationReserved\<rparr>])"
proof -
  have "recordId r \<noteq> oi_nextRecord i" if "r \<in> set rs" for r using rs that unfolding reservations_ok_def by (metis less_irrefl)
  then have "distinct (map recordId (rs @ [\<lparr>or_records = [(k, oi_nextRecord i)], or_state = ReservationReserved\<rparr>]))"
    using rs by (auto simp: reservations_ok_def recordId_def)
  moreover have "\<exists>k'. or_records r = [(k', recordId r)] \<and> recordId r < oi_nextRecord (addRecord k i)
      \<and> (or_state r = ReservationReserved \<longrightarrow> map_of (oi_pending (addRecord k i)) k' = Some (recordId r))" if r: "r \<in> set rs" for r
  proof -
    obtain k' where "or_records r = [(k', recordId r)]" "recordId r < oi_nextRecord i"
        "or_state r = ReservationReserved \<longrightarrow> map_of (oi_pending i) k' = Some (recordId r)"
      using rs r unfolding reservations_ok_def by blast
    then show ?thesis using assms(2) by (intro exI [of _ k']) (auto simp: addRecord_def gm_get_put)
  qed
  moreover have "\<exists>r \<in> set rs. or_state r = ReservationReserved \<and> or_records r = [(k', a)]"
    if "map_of (oi_pending i) k' = Some a" for k' a
    using rs that unfolding reservations_ok_def by blast
  ultimately show ?thesis
    unfolding reservations_ok_def by (auto simp: addRecord_def gm_get_put recordId_def split: if_splits)
qed

lemma ok_ingest_reserve:
  assumes ok: "ingest_sys_ok y" and r: "reserve now e guard (iy_ingestor y) = (i', r)"
  shows "ingest_sys_ok (noted r (y\<lparr>iy_ingestor := i'\<rparr>))"
proof -
  have t: "table_ok (iy_ingestor y)" using ok by (simp add: ingest_sys_ok_def)
  show ?thesis
  proof (cases rule: reserve_cases [OF t, of now e guard, case_names none new])
    case (none j s)
    have "noted r (y\<lparr>iy_ingestor := i'\<rparr>) = y\<lparr>iy_ingestor := i'\<rparr>"
      using none(1,3) r by (cases "(r, y\<lparr>iy_ingestor := i'\<rparr>)" rule: noted.cases) auto
    then show ?thesis using shrinks_ok [OF ok] none(1,2) r by simp
  next
    case (new i2 d)
    let ?y = "y\<lparr>iy_ingestor := i2\<rparr>"
    have y: "ingest_sys_ok ?y" by (rule shrinks_ok [OF ok new(3)])
    then have i2: "table_ok i2" "reservations_ok i2 (iy_reservations y)" by (simp_all add: ingest_sys_ok_def)
    note add = add_table [OF i2(1) new(4,5)] and res = add_reservation [OF i2(2) new(4)]
    have "oi_lru (addRecord k i2) = oi_lru i2" "oi_entries (addRecord k i2) = oi_entries i2" "oi_maxEntries (addRecord k i2) = oi_maxEntries i2"
        "oi_ttl (addRecord k i2) = oi_ttl i2" for k
      by (simp_all add: addRecord_def)
    then show ?thesis
      using new(2,6) r y add res by (auto simp: ingest_sys_ok_def ingest_bounded_def)
  qed
qed

lemma settled_reservations:
  assumes rs: "reservations_ok i rs" and j: "j < length rs" and st: "or_state (rs ! j) = ReservationReserved" and rec: "or_records (rs ! j) = [(k, a)]"
    and pend: "oi_pending i' = AList.delete k (oi_pending i)" "oi_nextRecord i' = oi_nextRecord i" and x: "x \<noteq> ReservationReserved"
  shows "reservations_ok i' (rs[j := (rs ! j)\<lparr>or_state := x\<rparr>])"
proof -
  let ?rs = "rs[j := (rs ! j)\<lparr>or_state := x\<rparr>]"
  have a: "recordId (rs ! j) = a" using rec by (simp add: recordId_def)
  have ids: "map recordId ?rs = map recordId rs" using j by (simp add: map_update recordId_def list_update_same_conv)
  have d: "distinct (map recordId rs)" using rs by (simp add: reservations_ok_def)
  have other: "r \<noteq> rs ! j \<Longrightarrow> r \<in> set rs \<Longrightarrow> recordId r \<noteq> a" for r
    using d a j by (metis distinct_map inj_onD nth_mem)
  have keep: "r \<in> set ?rs" if "r \<in> set rs" "r \<noteq> rs ! j" for r
    using that j by (metis in_set_conv_nth length_list_update nth_list_update_neq)
  have cases': "r = (rs ! j)\<lparr>or_state := x\<rparr> \<or> r \<in> set rs \<and> r \<noteq> rs ! j" if r: "r \<in> set ?rs" for r
  proof -
    obtain n where n: "n < length rs" "r = ?rs ! n" using r by (metis in_set_conv_nth length_list_update)
    then show ?thesis using d j by (cases "n = j") (auto simp: nth_eq_iff_index_eq [of "map recordId rs"] dest: arg_cong [of _ _ recordId], metis length_map nth_eq_iff_index_eq nth_map)
  qed
  have "\<exists>k'. or_records r = [(k', recordId r)] \<and> recordId r < oi_nextRecord i'
      \<and> (or_state r = ReservationReserved \<longrightarrow> map_of (oi_pending i') k' = Some (recordId r))" if r: "r \<in> set ?rs" for r
    using cases' [OF r]
  proof
    assume "r = (rs ! j)\<lparr>or_state := x\<rparr>"
    moreover have "recordId (rs ! j) < oi_nextRecord i" using rs j unfolding reservations_ok_def by (meson nth_mem)
    ultimately show ?thesis using rec x pend(2) a by (simp add: recordId_def)
  next
    assume r': "r \<in> set rs \<and> r \<noteq> rs ! j"
    then obtain k' where k': "or_records r = [(k', recordId r)]" "recordId r < oi_nextRecord i"
        "or_state r = ReservationReserved \<longrightarrow> map_of (oi_pending i) k' = Some (recordId r)"
      using rs unfolding reservations_ok_def by blast
    have "map_of (oi_pending i) k = Some a" using rs j st rec a unfolding reservations_ok_def by (metis nth_mem list.inject prod.inject)
    then have "k' \<noteq> k" if "or_state r = ReservationReserved" using k'(3) that other r' by auto
    then show ?thesis using k' pend by (intro exI [of _ k']) (auto simp: gm_get_del)
  qed
  moreover have "\<exists>r \<in> set ?rs. or_state r = ReservationReserved \<and> or_records r = [(k', b)]"
    if p: "map_of (oi_pending i') k' = Some b" for k' b
  proof -
    have "map_of (oi_pending i) k' = Some b" "k' \<noteq> k" using p unfolding pend by (auto simp: gm_get_del split: if_splits)
    then obtain r where "r \<in> set rs" "or_state r = ReservationReserved" "or_records r = [(k', b)]"
      using rs unfolding reservations_ok_def by blast
    then show ?thesis using keep [of r] rec \<open>k' \<noteq> k\<close> by (metis list.inject prod.inject)
  qed
  ultimately show ?thesis unfolding reservations_ok_def ids using d by blast
qed

lemma open_reservation:
  assumes "reservations_ok i rs" and "r \<in> set rs" and "or_state r = ReservationReserved"
  obtains k where "or_records r = [(k, recordId r)]" "map_of (oi_pending i) k = Some (recordId r)"
  using assms unfolding reservations_ok_def by blast

lemma commit_open:
  assumes "or_state r = ReservationReserved" and "or_records r = [(k, a)]" and "map_of (oi_pending i) k = Some a"
  shows "commitReservation now (r, i) = ((r\<lparr>or_state := ReservationCommitted\<rparr>, commitRecord now (k, a) i), None)"
  using assms by (simp add: commitReservation_def)

lemma abort_open:
  assumes "or_state r = ReservationReserved" and "or_records r = [(k, a)]" and "map_of (oi_pending i) k = Some a"
  shows "abortReservation (r, i) = (r\<lparr>or_state := ReservationAborted\<rparr>, i\<lparr>oi_pending := AList.delete k (oi_pending i)\<rparr>)"
  using assms by (simp add: abortReservation_def releaseRecord_def)

lemma commit_table:
  assumes ok: "table_ok i" and p: "map_of (oi_pending i) k = Some a" and late: "\<forall>r \<in> set (oi_lru i). dr_expiresAt r \<le> now + oi_ttl i"
  shows "table_ok (commitRecord now (k, a) i)"
    "length (oi_entries (commitRecord now (k, a) i)) + length (oi_pending (commitRecord now (k, a) i)) = length (oi_entries i) + length (oi_pending i)"
proof -
  let ?r = "\<lparr>dr_id = a, dr_key = k, dr_expiresAt = now + oi_ttl i\<rparr>" and ?i = "commitRecord now (k, a) i"
  have f: "oi_entries ?i = AList.update k ?r (oi_entries i)" "oi_pending ?i = AList.delete k (oi_pending i)" "oi_lru ?i = ?r # oi_lru i"
      "oi_nextRecord ?i = oi_nextRecord i"
    by (simp_all add: commitRecord_def Let_def)
  have none: "map_of (oi_entries i) k = None" using ok p by (simp add: table_ok_def)
  have fresh: "k \<notin> dr_key ` set (oi_lru i)" using none table_entry [OF ok, of k] by auto
  have wf: "gm_wf (oi_entries i)" "gm_wf (oi_pending i)" using ok by (simp_all add: table_ok_def)
  have "map_of (oi_entries ?i) k' = Some r \<longleftrightarrow> r \<in> set (oi_lru ?i) \<and> dr_key r = k'" for k' r
    unfolding f gm_get_put using table_entry [OF ok, of k' r] fresh by (cases "k' = k") auto
  moreover have "map_of (oi_entries ?i) k' = None" if "map_of (oi_pending ?i) k' \<noteq> None" for k'
    using ok that unfolding f gm_get_put gm_get_del table_ok_def by (auto split: if_splits)
  moreover have "b < oi_nextRecord ?i" if "map_of (oi_pending ?i) k' = Some b" for k' b
    using ok that unfolding f gm_get_del table_ok_def by (auto split: if_splits)
  moreover have "distinct (map dr_key (oi_lru ?i))" "sorted_wrt (\<lambda>a b. dr_expiresAt b \<le> dr_expiresAt a) (oi_lru ?i)"
    using ok fresh late unfolding f table_ok_def by simp_all
  ultimately show "table_ok ?i" unfolding table_ok_def using wf by (auto simp: f)
  show "length (oi_entries ?i) + length (oi_pending ?i) = length (oi_entries i) + length (oi_pending i)"
    using none p wf(2) gm_len_del [OF wf(2), of k] by (cases "oi_pending i") (simp_all add: f gm_len_put)
qed

lemma ok_ingest_commit:
  assumes ok: "ingest_sys_ok y" and j: "j < length (iy_reservations y)"
    and c: "commitReservation (iy_clock y) (iy_reservations y ! j, iy_ingestor y) = ((r', i'), err)"
  shows "ingest_sys_ok (y\<lparr>iy_ingestor := i', iy_reservations := (iy_reservations y)[j := r']\<rparr>)"
proof (cases "or_state (iy_reservations y ! j) = ReservationReserved")
  case False
  then show ?thesis using ok c by (auto simp: commitReservation_def)
next
  case True
  let ?i = "iy_ingestor y" and ?r = "iy_reservations y ! j"
  have y: "table_ok ?i" "ingest_bounded ?i" "reservations_ok ?i (iy_reservations y)" "\<forall>r \<in> set (oi_lru ?i). dr_expiresAt r \<le> iy_clock y + oi_ttl ?i"
    using ok by (simp_all add: ingest_sys_ok_def)
  obtain k where k: "or_records ?r = [(k, recordId ?r)]" "map_of (oi_pending ?i) k = Some (recordId ?r)"
    using open_reservation [OF y(3) _ True] j by auto
  have r': "r' = ?r\<lparr>or_state := ReservationCommitted\<rparr>" "i' = commitRecord (iy_clock y) (k, recordId ?r) ?i"
    using c commit_open [OF True k] by auto
  note t = commit_table [OF y(1) k(2) y(4)]
  have "reservations_ok i' ((iy_reservations y)[j := r'])"
    unfolding r'(1) by (rule settled_reservations [OF y(3) j True k(1)]) (simp_all add: r'(2) commitRecord_def Let_def)
  moreover have "ingest_bounded i'" using y(2) t(2) by (simp add: r'(2) ingest_bounded_def) (simp add: commitRecord_def Let_def)
  moreover have "\<forall>r \<in> set (oi_lru i'). dr_expiresAt r \<le> iy_clock y + oi_ttl i'" using y(4) by (simp add: r'(2) commitRecord_def Let_def)
  ultimately show ?thesis using t(1) by (simp add: ingest_sys_ok_def r'(2))
qed

lemma ok_ingest_abort:
  assumes ok: "ingest_sys_ok y" and j: "j < length (iy_reservations y)"
    and c: "abortReservation (iy_reservations y ! j, iy_ingestor y) = (r', i')"
  shows "ingest_sys_ok (y\<lparr>iy_ingestor := i', iy_reservations := (iy_reservations y)[j := r']\<rparr>)"
proof (cases "or_state (iy_reservations y ! j) = ReservationReserved")
  case False
  then show ?thesis using ok c by (auto simp: abortReservation_def)
next
  case True
  let ?i = "iy_ingestor y" and ?r = "iy_reservations y ! j"
  have y: "table_ok ?i" "ingest_bounded ?i" "reservations_ok ?i (iy_reservations y)" using ok by (simp_all add: ingest_sys_ok_def)
  obtain k where k: "or_records ?r = [(k, recordId ?r)]" "map_of (oi_pending ?i) k = Some (recordId ?r)"
    using open_reservation [OF y(3) _ True] j by auto
  have r': "r' = ?r\<lparr>or_state := ReservationAborted\<rparr>" "i' = ?i\<lparr>oi_pending := AList.delete k (oi_pending ?i)\<rparr>"
    using c abort_open [OF True k] by auto
  have "reservations_ok i' ((iy_reservations y)[j := r'])"
    unfolding r'(1) by (rule settled_reservations [OF y(3) j True k(1)]) (simp_all add: r'(2))
  moreover have "table_ok i'"
    using y(1) unfolding table_ok_def by (auto simp: r'(2) gm_get_del split: if_splits)
  moreover have wf: "gm_wf (oi_pending ?i)" using y(1) by (simp add: table_ok_def)
  have "ingest_bounded i'" using y(2) gm_len_del [OF wf, of k] k(2) by (simp add: r'(2) ingest_bounded_def)
  ultimately show ?thesis using ok by (simp add: ingest_sys_ok_def r'(2))
qed

interpretation ingest_run: transition_system ingest_init ingest_step ingest_sys_ok
proof unfold_locales
  show "ingest_sys_ok y" if "ingest_init y" for y
    using that by (auto simp: ingest_init_def ingest_sys_ok_def table_ok_def ingest_bounded_def reservations_ok_def NewObservationIngestor_def)
  show "ingest_sys_ok y'" if step: "ingest_step y y'" and ok: "ingest_sys_ok y" for y y'
    using step
  proof (cases rule: ingest_step.cases)
    case (tick t)
    then show ?thesis using ok by (force simp: ingest_sys_ok_def)
  next
    case (reserve now e guard i' r)
    then show ?thesis using ok_ingest_reserve [OF ok] by simp
  next
    case (commit j r' i' err)
    then show ?thesis using ok_ingest_commit [OF ok] by simp
  next
    case (abort j r' i')
    then show ?thesis using ok_ingest_abort [OF ok] by simp
  qed
qed

section \<open>Reservations\<close>

text \<open>C21. The ingestor is bounded and its reservations are safe: in every run the committed and the
  pending records together stay within the capacity, an open reservation can always be committed,
  and once every reservation is committed or aborted no record is pending.\<close>

theorem ingest_reservations_safe:
  assumes "ingest_init y0" and "ingest_step\<^sup>*\<^sup>* y0 y"
  shows "length (oi_entries (iy_ingestor y)) + length (oi_pending (iy_ingestor y)) \<le> oi_maxEntries (iy_ingestor y)
    \<and> (\<forall>r now. r \<in> set (iy_reservations y) \<and> or_state r = ReservationReserved \<longrightarrow> snd (commitReservation now (r, iy_ingestor y)) = None)
    \<and> ((\<forall>r \<in> set (iy_reservations y). or_state r \<noteq> ReservationReserved) \<longrightarrow> oi_pending (iy_ingestor y) = [])"
proof -
  have ok: "ingest_sys_ok y" by (rule ingest_run.reach_inv [OF assms])
  then have rs: "reservations_ok (iy_ingestor y) (iy_reservations y)" by (simp add: ingest_sys_ok_def)
  have "snd (commitReservation now (r, iy_ingestor y)) = None" if r: "r \<in> set (iy_reservations y)" "or_state r = ReservationReserved" for r now
  proof -
    obtain k where k: "or_records r = [(k, recordId r)]" "map_of (oi_pending (iy_ingestor y)) k = Some (recordId r)"
      by (rule open_reservation [OF rs r])
    show ?thesis using commit_open [OF r(2) k] by simp
  qed
  moreover have "oi_pending (iy_ingestor y) = []" if "\<forall>r \<in> set (iy_reservations y). or_state r \<noteq> ReservationReserved"
  proof (rule ccontr)
    assume "oi_pending (iy_ingestor y) \<noteq> []"
    then obtain k a where "map_of (oi_pending (iy_ingestor y)) k = Some a" by (metis gm_in_keys_iff image_eqI list.set_sel(1) not_None_eq)
    then show False using rs that unfolding reservations_ok_def by blast
  qed
  ultimately show ?thesis using ok by (auto simp: ingest_sys_ok_def ingest_bounded_def)
qed

definition sampleEvidence :: "confidence \<Rightarrow> observation_outcome \<Rightarrow> failure_class \<Rightarrow> observation_evidence" where
  "sampleEvidence c oc f =
     \<lparr>ev_RuntimeEpochID = 1, ev_CatalogRevision = 1, ev_SourceGeneration = 1,
      ev_Handle = \<lparr>nh_NodeID = 7, nh_Slot = 1, nh_Version = 1, nh_BornRevision = 1\<rparr>, ev_Source = SourceDial,
      ev_Stage = StageProxyTunnel, ev_Failure = f, ev_Confidence = c, ev_Outcome = oc, ev_ServiceID = [],
      ev_Transport = ''tcp'', ev_NetworkPath = [], ev_AttemptID = 1, ev_Delay = 0, ev_ThroughputBPS = 0, ev_At = 9, ev_Reason = []\<rparr>"

abbreviation failedDial :: observation_evidence where
  "failedDial \<equiv> sampleEvidence ConfidenceHigh OutcomeFailure FailureConnect"

definition emptySys :: ingest_sys where
  "emptySys = \<lparr>iy_ingestor = NewObservationIngestor minute 4, iy_reservations = [], iy_clock = 9\<rparr>"

definition reservedSys :: ingest_sys where
  "reservedSys = (let (i, r) = reserve 9 failedDial (Some (\<lambda>e. True)) (iy_ingestor emptySys) in noted r (emptySys\<lparr>iy_ingestor := i\<rparr>))"

lemma emptySys_init: "ingest_init emptySys"
  by (auto simp: ingest_init_def emptySys_def)

lemma reservedSys_reach: "ingest_step\<^sup>*\<^sup>* emptySys reservedSys"
  unfolding reservedSys_def case_prod_unfold Let_def
  by (rule r_into_rtranclp, rule ingest_step.reserve [where now = 9]) (simp_all add: emptySys_def prod_eq_iff)

theorem ingest_reservations_safe_witness:
  "length (iy_reservations reservedSys) = 1 \<and> snd (commitReservation 9 (hd (iy_reservations reservedSys), iy_ingestor reservedSys)) = None"
proof -
  have r: "length (iy_reservations reservedSys) = 1" "or_state (hd (iy_reservations reservedSys)) = ReservationReserved" by code_simp+
  then have "hd (iy_reservations reservedSys) \<in> set (iy_reservations reservedSys)" by (intro hd_in_set) auto
  then show ?thesis using ingest_reservations_safe [OF emptySys_init reservedSys_reach] r by blast
qed

end
