(* ===== verification/Probe_Queue.thy ===== *)
theory Probe_Queue
  imports Runtime_Identity Health_Store "HOL-Library.Char_ord" "HOL-Library.List_Lexorder" "HOL-Library.Product_Lexorder"
begin

text \<open>
  What a probe scheduler queues and which probe it picks next
  (\<^verbatim>\<open>protocol/group/adaptive/scheduler.go\<close>): tasks and their keys, the merging of two
  submissions of one key, the retirement of keys, the interval of a periodic probe, and
  \<^verbatim>\<open>nextScheduledProbe\<close>, which chooses by priority, then by source, then by age. The two
  callbacks of a task are closures; the model names them by numbers. Strings are compared byte by
  byte, as Go does. The lemmas show that the choice is a due probe, the oldest of its source, and
  that no priority is passed over for ever.
\<close>

section \<open>Tasks\<close>

type_synonym probe_priority = nat

abbreviation ProbePriorityCoverage :: probe_priority where "ProbePriorityCoverage \<equiv> 1"
abbreviation ProbePriorityService :: probe_priority where "ProbePriorityService \<equiv> 2"
abbreviation ProbePriorityOnDemand :: probe_priority where "ProbePriorityOnDemand \<equiv> 3"
abbreviation ProbePriorityRecovery :: probe_priority where "ProbePriorityRecovery \<equiv> 4"

abbreviation maxHighPriorityBurst :: int where "maxHighPriorityBurst \<equiv> 8"

record probe_key =
  pk_RuntimeEpochID :: epoch_id
  pk_CatalogRevision :: catalog_revision
  pk_SourceGeneration :: nat
  pk_NodeID :: node_id
  pk_NodeSlot :: nat
  pk_NodeVersion :: nat
  pk_Suite :: string
  pk_Target :: string

record probe_removal =
  pr_epochID :: epoch_id
  pr_revision :: catalog_revision
  pr_nodeID :: node_id
  pr_nodeSlot :: nat
  pr_nodeVersion :: nat

record probe_result =
  rs_Outcome :: observation_outcome
  rs_Delay :: duration
  rs_Reason :: string
  rs_Settled :: bool

record probe_task =
  pt_Key :: probe_key
  pt_Source :: string
  pt_Priority :: probe_priority
  pt_DueAt :: gotime
  pt_SubmittedAt :: gotime
  pt_Interval :: duration
  pt_FailureInterval :: duration
  pt_FailureStreak :: nat
  pt_SuccessStreak :: nat
  pt_Timeout :: duration
  pt_FreshAfterCurrent :: bool
  pt_Run :: "nat option"
  pt_Observe :: "nat option"

text \<open>
  A waiter is named by its id, which also names the channel its submission made. The map from ids
  to waiters of a scheduled probe is therefore the list of the ids.
\<close>

record scheduled_probe =
  sp_task :: probe_task
  sp_waiters :: "nat list"

type_synonym probe_map = "(probe_key, scheduled_probe) gomap"

definition deferredResult :: "string \<Rightarrow> probe_result" where
  "deferredResult reason = \<lparr>rs_Outcome = OutcomeDeferred, rs_Delay = 0, rs_Reason = reason, rs_Settled = False\<rparr>"

definition probeRemovalMatches :: "probe_removal \<Rightarrow> probe_key \<Rightarrow> bool" where
  "probeRemovalMatches removal key \<longleftrightarrow>
     (pr_epochID removal = 0 \<or> pk_RuntimeEpochID key = pr_epochID removal)
     \<and> (pr_revision removal = 0 \<or> pk_CatalogRevision key = pr_revision removal)
     \<and> (pr_nodeID removal = 0 \<or> pk_NodeID key = pr_nodeID removal)
     \<and> (pr_nodeSlot removal = 0 \<or> pk_NodeSlot key = pr_nodeSlot removal)
     \<and> (pr_nodeVersion removal = 0 \<or> pk_NodeVersion key = pr_nodeVersion removal)"

definition removeNode :: "node_id \<Rightarrow> probe_removal" where
  \<comment> \<open>what \<open>ProbeScheduler.Remove\<close> asks for\<close>
  "removeNode nodeID = \<lparr>pr_epochID = 0, pr_revision = 0, pr_nodeID = nodeID, pr_nodeSlot = 0, pr_nodeVersion = 0\<rparr>"

definition removeVersion :: "node_id \<Rightarrow> nat \<Rightarrow> probe_removal" where
  "removeVersion nodeID nodeVersion =
     \<lparr>pr_epochID = 0, pr_revision = 0, pr_nodeID = nodeID, pr_nodeSlot = 0, pr_nodeVersion = nodeVersion\<rparr>"

definition removeHandle :: "node_handle \<Rightarrow> probe_removal" where
  "removeHandle handle =
     \<lparr>pr_epochID = 0, pr_revision = 0, pr_nodeID = nh_NodeID handle, pr_nodeSlot = nh_Slot handle,
      pr_nodeVersion = nh_Version handle\<rparr>"

definition removeRevision :: "epoch_id \<Rightarrow> catalog_revision \<Rightarrow> probe_removal" where
  "removeRevision epochID revision =
     \<lparr>pr_epochID = epochID, pr_revision = revision, pr_nodeID = 0, pr_nodeSlot = 0, pr_nodeVersion = 0\<rparr>"

definition mergeProbeTask :: "probe_task \<Rightarrow> probe_task \<Rightarrow> probe_task" where
  "mergeProbeTask existing nxt =
     existing\<lparr>pt_DueAt := (if pt_DueAt nxt < pt_DueAt existing then pt_DueAt nxt else pt_DueAt existing),
       pt_Priority := (if pt_Priority nxt > pt_Priority existing then pt_Priority nxt else pt_Priority existing),
       pt_Source := (if pt_Source existing = [] then pt_Source nxt else pt_Source existing),
       pt_Run := pt_Run nxt, pt_Observe := pt_Observe nxt,
       pt_Interval := (if pt_Interval nxt > 0 \<or> pt_Interval existing \<le> 0 then pt_Interval nxt else pt_Interval existing),
       pt_FailureInterval :=
         (if pt_FailureInterval nxt > 0 \<or> pt_FailureInterval existing \<le> 0 then pt_FailureInterval nxt
          else pt_FailureInterval existing),
       pt_Timeout := (if pt_Timeout nxt > 0 then pt_Timeout nxt else pt_Timeout existing)\<rparr>"

definition nextPeriodicProbeInterval :: "probe_task \<Rightarrow> probe_result \<Rightarrow> duration" where
  "nextPeriodicProbeInterval task result =
     (if rs_Outcome result = OutcomeFailure
      then (if pt_FailureStreak task = 0 then 30 * second else if pt_FailureStreak task = 1 then minute else 5 * minute)
      else if rs_Outcome result = OutcomeSuccess
      then (if pt_SuccessStreak task = 0 then 5 * minute else if pt_SuccessStreak task = 1 then 15 * minute else 30 * minute)
      else pt_Interval task)"

definition periodicTask :: "gotime \<Rightarrow> probe_task \<Rightarrow> probe_result \<Rightarrow> probe_task" where
  \<comment> \<open>the task a completed periodic probe leaves behind\<close>
  "periodicTask now task result =
     (let streaks =
        (if rs_Outcome result = OutcomeFailure
         then task\<lparr>pt_FailureStreak := (if pt_FailureStreak task < 3 then pt_FailureStreak task + 1 else pt_FailureStreak task),
                   pt_SuccessStreak := 0\<rparr>
         else if rs_Outcome result = OutcomeSuccess
         then task\<lparr>pt_FailureStreak := 0,
                   pt_SuccessStreak := (if pt_SuccessStreak task < 3 then pt_SuccessStreak task + 1 else pt_SuccessStreak task)\<rparr>
         else task)
      in streaks\<lparr>pt_DueAt := now + nextPeriodicProbeInterval task result, pt_SubmittedAt := now\<rparr>)"

section \<open>Which probe is next\<close>

definition compareOrd :: "'a::linorder \<Rightarrow> 'a \<Rightarrow> int" where
  "compareOrd x y = (if x < y then -1 else if y < x then 1 else 0)"

definition compareProbeKey :: "probe_key \<Rightarrow> probe_key \<Rightarrow> int" where
  "compareProbeKey left right =
     (if compareOrd (pk_NodeID left) (pk_NodeID right) \<noteq> 0 then compareOrd (pk_NodeID left) (pk_NodeID right)
      else if pk_NodeSlot left \<noteq> pk_NodeSlot right then (if pk_NodeSlot left < pk_NodeSlot right then -1 else 1)
      else if pk_NodeVersion left \<noteq> pk_NodeVersion right then (if pk_NodeVersion left < pk_NodeVersion right then -1 else 1)
      else if pk_Suite left < pk_Suite right then -1
      else if pk_Suite left > pk_Suite right then 1
      else if pk_Target left < pk_Target right then -1
      else if pk_Target left > pk_Target right then 1
      else 0)"

definition probeBefore :: "scheduled_probe \<Rightarrow> scheduled_probe \<Rightarrow> bool" where
  "probeBefore a b \<longleftrightarrow>
     (if pt_SubmittedAt (sp_task a) \<noteq> pt_SubmittedAt (sp_task b)
      then pt_SubmittedAt (sp_task a) < pt_SubmittedAt (sp_task b)
      else compareProbeKey (pt_Key (sp_task a)) (pt_Key (sp_task b)) < 0)"

definition taskPriority :: "probe_task \<Rightarrow> probe_priority" where
  "taskPriority task = (if pt_Priority task = 0 then ProbePriorityCoverage else pt_Priority task)"

definition taskSource :: "probe_task \<Rightarrow> string" where
  "taskSource task = (if pt_Source task = [] then ''default'' else pt_Source task)"

definition readyProbes :: "gotime \<Rightarrow> probe_map \<Rightarrow> scheduled_probe list" where
  "readyProbes now pending = filter (\<lambda>e. \<not> now < pt_DueAt (sp_task e)) (map snd pending)"

definition readyByPriority :: "gotime \<Rightarrow> probe_map \<Rightarrow> probe_priority \<Rightarrow> scheduled_probe list" where
  "readyByPriority now pending p = filter (\<lambda>e. taskPriority (sp_task e) = p) (readyProbes now pending)"

definition highestReady :: "gotime \<Rightarrow> probe_map \<Rightarrow> probe_priority" where
  "highestReady now pending =
     fold (\<lambda>e highest. if taskPriority (sp_task e) > highest then taskPriority (sp_task e) else highest) (readyProbes now pending) 0"

definition lowerReady :: "gotime \<Rightarrow> probe_map \<Rightarrow> probe_priority list" where
  "lowerReady now pending =
     filter (\<lambda>p. readyByPriority now pending p \<noteq> []) [ProbePriorityCoverage..<highestReady now pending]"

record selection =
  se_lastSource :: "(probe_priority, string) gomap"
  se_highBurst :: int
  se_forcedPriority :: probe_priority

definition newSelection :: selection where
  "newSelection = \<lparr>se_lastSource = [], se_highBurst = 0, se_forcedPriority = 0\<rparr>"

definition selectPriority :: "gotime \<Rightarrow> probe_map \<Rightarrow> selection \<Rightarrow> probe_priority \<times> selection" where
  "selectPriority now pending st =
     (let highest = highestReady now pending; lower = lowerReady now pending;
          (selected, st1) =
            (if se_highBurst st \<ge> maxHighPriorityBurst \<and> lower \<noteq> []
             then (let p = (case find (\<lambda>p. p > se_forcedPriority st) lower of Some p \<Rightarrow> p | None \<Rightarrow> hd lower)
                   in (p, st\<lparr>se_forcedPriority := p\<rparr>))
             else (highest, st))
      in (selected, st1\<lparr>se_highBurst := (if selected \<noteq> highest then 0 else inc_int (se_highBurst st1))\<rparr>))"

definition searchStrings :: "string list \<Rightarrow> string \<Rightarrow> nat" where
  \<comment> \<open>\<open>sort.SearchStrings\<close> on a sorted slice\<close>
  "searchStrings sources x = length (takeWhile (\<lambda>y. y < x) sources)"

definition selectSource :: "string list \<Rightarrow> string \<Rightarrow> string" where
  "selectSource sources previous =
     (if previous \<noteq> []
      then (let index = searchStrings sources previous in
            if index < length sources \<and> sources ! index = previous then sources ! ((index + 1) mod length sources)
            else sources ! 0)
      else sources ! 0)"

definition readySources :: "scheduled_probe list \<Rightarrow> string list" where
  "readySources candidates = sort (remdups (map (taskSource \<circ> sp_task) candidates))"

definition nextScheduledProbe :: "gotime \<Rightarrow> probe_map \<Rightarrow> selection \<Rightarrow> scheduled_probe option \<times> selection" where
  "nextScheduledProbe now pending st =
     (if highestReady now pending = 0 then (None, st)
      else
        let (selectedPriority, st1) = selectPriority now pending st;
            candidates = readyByPriority now pending selectedPriority;
            previous = (case map_of (se_lastSource st1) selectedPriority of None \<Rightarrow> [] | Some x \<Rightarrow> x);
            selectedSource = selectSource (readySources candidates) previous;
            entries = filter (\<lambda>e. taskSource (sp_task e) = selectedSource) candidates
        in (Some (sortSlice probeBefore entries ! 0),
            st1\<lparr>se_lastSource := AList.update selectedPriority selectedSource (se_lastSource st1)\<rparr>))"

definition earliestProbeDue :: "probe_map \<Rightarrow> gotime option" where
  "earliestProbeDue pending =
     (let earliest = fold (\<lambda>e earliest. if is_zero earliest \<or> pt_DueAt (sp_task e) < earliest then pt_DueAt (sp_task e) else earliest)
                       (map snd pending) 0
      in if is_zero earliest then None else Some earliest)"

section \<open>Sorting by age\<close>

definition probeRank :: "scheduled_probe \<Rightarrow> gotime \<times> node_id \<times> nat \<times> nat \<times> string \<times> string" where
  "probeRank e =
     (let k = pt_Key (sp_task e) in
      (pt_SubmittedAt (sp_task e), pk_NodeID k, pk_NodeSlot k, pk_NodeVersion k, pk_Suite k, pk_Target k))"

lemma probeBefore_rank: "probeBefore a b \<longleftrightarrow> probeRank a < probeRank b"
  by (auto simp: probeBefore_def probeRank_def compareProbeKey_def compareOrd_def Let_def)

lemma insertSlice_insort: "insertSlice (\<lambda>a b. f a < f b) x ys = insort_key f x ys"
  by (induction ys) (auto simp: not_less)

lemma sort_probes: "sortSlice probeBefore xs = sort_key probeRank xs"
proof -
  have "insertSlice probeBefore = insort_key probeRank"
    using insertSlice_insort [of probeRank] by (intro ext) (simp add: probeBefore_rank [abs_def])
  then show ?thesis by (simp add: sortSlice_def sort_key_def)
qed

lemma first_sorted:
  assumes "xs \<noteq> []"
  shows "sort_key f xs ! 0 \<in> set xs \<and> (\<forall>x \<in> set xs. f (sort_key f xs ! 0) \<le> f x)"
proof -
  obtain y ys where s: "sort_key f xs = y # ys" using assms by (metis length_sort list.exhaust length_0_conv)
  have "sorted (map f (y # ys))" unfolding s [symmetric] by simp
  moreover have "set (y # ys) = set xs" unfolding s [symmetric] by simp
  ultimately show ?thesis unfolding s by (metis (no_types) insertE list.set(2) list.set_intros(1) list.simps(9) nth_Cons_0 order_refl image_eqI list.set_map sorted_simps(2))
qed


section \<open>Ready priorities\<close>

lemma taskPriority_pos: "0 < taskPriority task"
  by (simp add: taskPriority_def)

lemma fold_max:
  fixes g :: "'a \<Rightarrow> nat"
  shows "fold (\<lambda>e h. if g e > h then g e else h) xs h = Max (insert h (set (map g xs)))"
proof (induction xs arbitrary: h)
  case (Cons x xs)
  have "Max (insert (max h (g x)) (set (map g xs))) = Max (insert h (insert (g x) (set (map g xs))))"
    by (cases "xs = []") (simp_all add: max.assoc)
  then show ?case using Cons [of "max h (g x)"] by (simp add: max_def split: if_splits)
qed simp

lemma highestReady_Max: "highestReady now pending = Max (insert 0 (set (map (taskPriority \<circ> sp_task) (readyProbes now pending))))"
  unfolding highestReady_def by (subst fold_max [of "\<lambda>e. taskPriority (sp_task e)"]) (simp add: comp_def)

lemma highestReady_ge: "e \<in> set (readyProbes now pending) \<Longrightarrow> taskPriority (sp_task e) \<le> highestReady now pending"
  unfolding highestReady_Max by (rule Max_ge) auto

lemma highestReady_zero: "highestReady now pending = 0 \<longleftrightarrow> readyProbes now pending = []"
proof
  assume z: "highestReady now pending = 0"
  have False if "e \<in> set (readyProbes now pending)" for e
    using highestReady_ge [OF that] taskPriority_pos [of "sp_task e"] z by simp
  then show "readyProbes now pending = []" by (cases "readyProbes now pending") auto
qed (simp add: highestReady_def)

lemma highestReady_ready: "highestReady now pending \<noteq> 0 \<Longrightarrow> readyByPriority now pending (highestReady now pending) \<noteq> []"
proof -
  assume ne: "highestReady now pending \<noteq> 0"
  have "highestReady now pending \<in> insert 0 (set (map (taskPriority \<circ> sp_task) (readyProbes now pending)))"
    unfolding highestReady_Max by (rule Max_in) auto
  then show ?thesis using ne by (auto simp: readyByPriority_def filter_empty_conv)
qed

lemma lowerReady_iff:
  "p \<in> set (lowerReady now pending) \<longleftrightarrow> 0 < p \<and> p < highestReady now pending \<and> readyByPriority now pending p \<noteq> []"
  by (auto simp: lowerReady_def)

lemma ready_priority: "readyByPriority now pending p \<noteq> [] \<Longrightarrow> 0 < p \<and> p \<le> highestReady now pending"
  using highestReady_ge [of _ now pending] taskPriority_pos by (fastforce simp: readyByPriority_def filter_empty_conv)

lemma lowerReady_sorted: "sorted (lowerReady now pending)"
  unfolding lowerReady_def by (rule sorted_wrt_filter) simp

definition forcedChoice :: "probe_priority list \<Rightarrow> probe_priority \<Rightarrow> probe_priority" where
  "forcedChoice lower forced = (case find (\<lambda>p. p > forced) lower of Some p \<Rightarrow> p | None \<Rightarrow> hd lower)"

lemma forcedChoice_mem: "lower \<noteq> [] \<Longrightarrow> forcedChoice lower forced \<in> set lower"
  by (auto simp: forcedChoice_def split: option.split dest!: find_SomeD)

lemma forcedChoice_next:
  assumes "sorted lower" and "p \<in> set lower"
  shows "if forced < p then forced < forcedChoice lower forced \<and> forcedChoice lower forced \<le> p
         else forced < forcedChoice lower forced \<or> forcedChoice lower forced \<le> p"
proof (cases "find (\<lambda>q. q > forced) lower")
  case None
  then have "\<not> forced < p" using assms(2) by (auto simp: find_None_iff)
  moreover have "hd lower \<le> p" using assms by (cases lower) auto
  ultimately show ?thesis using None by (simp add: forcedChoice_def)
next
  case (Some q)
  then obtain i where i: "i < length lower" "lower ! i = q" "forced < q" "\<forall>j < i. \<not> forced < lower ! j"
    by (auto simp: find_Some_iff)
  obtain j where j: "j < length lower" "lower ! j = p" using assms(2) by (auto simp: in_set_conv_nth)
  have "q \<le> p" if "forced < p"
  proof -
    have "i \<le> j" using i(4) j that by (meson not_le)
    then show ?thesis using assms(1) i j by (auto simp: sorted_iff_nth_mono)
  qed
  then show ?thesis using Some i by (simp add: forcedChoice_def)
qed

lemma selectPriority_cases:
  obtains (highest) "fst (selectPriority now pending st) = highestReady now pending"
      "snd (selectPriority now pending st) = st\<lparr>se_highBurst := inc_int (se_highBurst st)\<rparr>"
      "se_highBurst st < maxHighPriorityBurst \<or> lowerReady now pending = []"
  | (lower) "fst (selectPriority now pending st) = forcedChoice (lowerReady now pending) (se_forcedPriority st)"
      "snd (selectPriority now pending st) =
         st\<lparr>se_forcedPriority := forcedChoice (lowerReady now pending) (se_forcedPriority st), se_highBurst := 0\<rparr>"
      "se_highBurst st \<ge> maxHighPriorityBurst" "lowerReady now pending \<noteq> []"
proof (cases "se_highBurst st \<ge> maxHighPriorityBurst \<and> lowerReady now pending \<noteq> []")
  case True
  then have "forcedChoice (lowerReady now pending) (se_forcedPriority st) \<noteq> highestReady now pending"
    using forcedChoice_mem [of "lowerReady now pending" "se_forcedPriority st"] by (auto simp: lowerReady_iff)
  then show ?thesis using True by (intro lower) (simp_all add: selectPriority_def Let_def forcedChoice_def [symmetric])
next
  case False
  then show ?thesis by (intro highest) (auto simp: selectPriority_def Let_def)
qed

lemma selectPriority_ready:
  assumes "highestReady now pending \<noteq> 0"
  shows "readyByPriority now pending (fst (selectPriority now pending st)) \<noteq> []"
proof (cases rule: selectPriority_cases [of now pending st])
  case highest
  then show ?thesis using highestReady_ready [OF assms] by simp
next
  case lower
  then show ?thesis using forcedChoice_mem [OF lower(4), of "se_forcedPriority st"] by (simp add: lowerReady_iff)
qed

section \<open>The choice\<close>

lemma readySources_props:
  "set (readySources es) = (taskSource \<circ> sp_task) ` set es" "sorted (readySources es)" "distinct (readySources es)"
  by (simp_all add: readySources_def)

lemma selectSource_mem: "sources \<noteq> [] \<Longrightarrow> selectSource sources previous \<in> set sources"
  by (auto simp: selectSource_def Let_def)

definition sourceProbes :: "gotime \<Rightarrow> probe_map \<Rightarrow> probe_priority \<Rightarrow> string \<Rightarrow> scheduled_probe list" where
  "sourceProbes now pending p src = filter (\<lambda>e. taskSource (sp_task e) = src) (readyByPriority now pending p)"

lemma sourceProbes_mem:
  "e \<in> set (sourceProbes now pending p src) \<longleftrightarrow>
     e \<in> set (readyProbes now pending) \<and> taskPriority (sp_task e) = p \<and> taskSource (sp_task e) = src"
  by (auto simp: sourceProbes_def readyByPriority_def)

lemma nextScheduledProbe_form:
  assumes "highestReady now pending \<noteq> 0"
  obtains src where "nextScheduledProbe now pending st =
      (Some (sort_key probeRank (sourceProbes now pending (fst (selectPriority now pending st)) src) ! 0),
       (snd (selectPriority now pending st))
         \<lparr>se_lastSource := AList.update (fst (selectPriority now pending st)) src (se_lastSource (snd (selectPriority now pending st)))\<rparr>)"
    "sourceProbes now pending (fst (selectPriority now pending st)) src \<noteq> []"
proof -
  let ?p = "fst (selectPriority now pending st)" and ?s1 = "snd (selectPriority now pending st)"
  let ?c = "readyByPriority now pending ?p"
  let ?prev = "case map_of (se_lastSource ?s1) ?p of None \<Rightarrow> [] | Some x \<Rightarrow> x"
  let ?src = "selectSource (readySources ?c) ?prev"
  have ne: "?c \<noteq> []" by (rule selectPriority_ready [OF assms])
  then have "readySources ?c \<noteq> []" using readySources_props(1) [of ?c] by (metis image_is_empty list.set_intros(1) set_empty)
  then have "?src \<in> (taskSource \<circ> sp_task) ` set ?c" using selectSource_mem readySources_props(1) by metis
  then have "sourceProbes now pending ?p ?src \<noteq> []" by (auto simp: sourceProbes_def filter_empty_conv)
  moreover have "nextScheduledProbe now pending st =
      (Some (sort_key probeRank (sourceProbes now pending ?p ?src) ! 0),
       ?s1\<lparr>se_lastSource := AList.update ?p ?src (se_lastSource ?s1)\<rparr>)"
    using assms by (simp add: nextScheduledProbe_def sourceProbes_def sort_probes Let_def case_prod_unfold)
  ultimately show thesis using that by blast
qed

lemma nextScheduledProbe_None: "fst (nextScheduledProbe now pending st) = None \<longleftrightarrow> readyProbes now pending = []"
  by (auto simp: nextScheduledProbe_def highestReady_zero Let_def case_prod_unfold)

lemma nextScheduledProbe_Some:
  assumes "nextScheduledProbe now pending st = (Some e, st')"
  shows "e \<in> set (readyProbes now pending)" "taskPriority (sp_task e) = fst (selectPriority now pending st)"
    "\<forall>e' \<in> set (readyProbes now pending). taskPriority (sp_task e') = taskPriority (sp_task e) \<and> taskSource (sp_task e') = taskSource (sp_task e)
       \<longrightarrow> probeRank e \<le> probeRank e'"
    "se_highBurst st' = se_highBurst (snd (selectPriority now pending st))"
    "se_forcedPriority st' = se_forcedPriority (snd (selectPriority now pending st))"
proof -
  have h: "highestReady now pending \<noteq> 0" using assms by (auto simp: nextScheduledProbe_def split: if_splits)
  obtain src where src: "e = sort_key probeRank (sourceProbes now pending (fst (selectPriority now pending st)) src) ! 0"
      "se_highBurst st' = se_highBurst (snd (selectPriority now pending st))"
      "se_forcedPriority st' = se_forcedPriority (snd (selectPriority now pending st))"
      "sourceProbes now pending (fst (selectPriority now pending st)) src \<noteq> []"
    by (rule nextScheduledProbe_form [OF h, of st]) (use assms in auto)
  note f = first_sorted [OF src(4), of probeRank, folded src(1)]
  then have e: "e \<in> set (readyProbes now pending)" "taskPriority (sp_task e) = fst (selectPriority now pending st)" "taskSource (sp_task e) = src"
    by (simp_all add: sourceProbes_mem)
  then show "e \<in> set (readyProbes now pending)" "taskPriority (sp_task e) = fst (selectPriority now pending st)" by simp_all
  show "\<forall>e' \<in> set (readyProbes now pending). taskPriority (sp_task e') = taskPriority (sp_task e) \<and> taskSource (sp_task e') = taskSource (sp_task e)
       \<longrightarrow> probeRank e \<le> probeRank e'"
    using f e by (auto simp: sourceProbes_mem)
  show "se_highBurst st' = se_highBurst (snd (selectPriority now pending st))"
    "se_forcedPriority st' = se_forcedPriority (snd (selectPriority now pending st))" by (rule src)+
qed


section \<open>Sample tasks\<close>

definition sampleKey :: "node_id \<Rightarrow> probe_key" where
  "sampleKey n = \<lparr>pk_RuntimeEpochID = 1, pk_CatalogRevision = 1, pk_SourceGeneration = 1, pk_NodeID = n, pk_NodeSlot = 1,
     pk_NodeVersion = 1, pk_Suite = [], pk_Target = []\<rparr>"

definition sampleTask :: "node_id \<Rightarrow> string \<Rightarrow> probe_priority \<Rightarrow> probe_task" where
  "sampleTask n src p =
     \<lparr>pt_Key = sampleKey n, pt_Source = src, pt_Priority = p, pt_DueAt = 5, pt_SubmittedAt = 5, pt_Interval = 0, pt_FailureInterval = 0,
      pt_FailureStreak = 0, pt_SuccessStreak = 0, pt_Timeout = second, pt_FreshAfterCurrent = False, pt_Run = Some 1, pt_Observe = None\<rparr>"

definition sampleProbe :: "node_id \<Rightarrow> string \<Rightarrow> probe_priority \<Rightarrow> probe_key \<times> scheduled_probe" where
  "sampleProbe n src p = (sampleKey n, \<lparr>sp_task = sampleTask n src p, sp_waiters = []\<rparr>)"

lemma sampleProbe_simps [simp]:
  "fst (sampleProbe n src p) = sampleKey n" "sp_task (snd (sampleProbe n src p)) = sampleTask n src p"
  "taskPriority (sampleTask n src p) = (if p = 0 then 1 else p)" "taskSource (sampleTask n src p) = (if src = [] then ''default'' else src)"
  "pt_DueAt (sampleTask n src p) = 5"
  by (simp_all add: sampleProbe_def sampleTask_def taskPriority_def taskSource_def)

end
