(* ===== verification/Probe_Fairness.thy ===== *)
theory Probe_Fairness
  imports Probe_Queue
begin

text \<open>
  What the choice of \<^verbatim>\<open>nextScheduledProbe\<close> guarantees over time. Between two choices the
  queue may change in any way, so a run is a list of queues, each with the instant of the choice.
  Probes of a higher priority cannot keep a lower priority waiting for ever; the rotation over
  sources, which starts again at the first one when the last source has nothing ready, can keep a
  source waiting for ever.
\<close>

fun selectionRun :: "(gotime \<times> probe_map) list \<Rightarrow> selection \<Rightarrow> scheduled_probe list" where
  "selectionRun [] st = []"
| "selectionRun ((now, pending) # qs) st =
     (case nextScheduledProbe now pending st of
        (None, st') \<Rightarrow> selectionRun qs st'
      | (Some e, st') \<Rightarrow> e # selectionRun qs st')"

section \<open>The choice is due and the oldest of its source\<close>

text \<open>C31. The next probe is a good choice: nothing is chosen only if nothing is due; a chosen probe is
  queued and due, no due probe of the same priority and source was submitted before it, and a due
  probe of a higher priority is passed over only after eight choices of the highest priority.\<close>

theorem next_probe_is_due_and_oldest:
  assumes "nextScheduledProbe now pending st = (r, st')"
  shows "case r of
      None \<Rightarrow> \<forall>e \<in> snd ` set pending. now < pt_DueAt (sp_task e)
    | Some e \<Rightarrow> e \<in> snd ` set pending \<and> pt_DueAt (sp_task e) \<le> now
        \<and> (\<forall>e' \<in> snd ` set pending. pt_DueAt (sp_task e') \<le> now \<longrightarrow>
             (taskPriority (sp_task e') = taskPriority (sp_task e) \<and> taskSource (sp_task e') = taskSource (sp_task e)
                \<longrightarrow> \<not> probeBefore e' e)
             \<and> (taskPriority (sp_task e') > taskPriority (sp_task e) \<longrightarrow> se_highBurst st \<ge> maxHighPriorityBurst))"
proof (cases r)
  case None
  then have "readyProbes now pending = []" using nextScheduledProbe_None [of now pending st] assms by simp
  then show ?thesis using None by (auto simp: readyProbes_def filter_empty_conv not_less)
next
  case (Some e)
  note n = nextScheduledProbe_Some [OF assms [unfolded Some]]
  have ready: "x \<in> set (readyProbes now pending) \<longleftrightarrow> x \<in> snd ` set pending \<and> pt_DueAt (sp_task x) \<le> now" for x
    by (auto simp: readyProbes_def)
  have "se_highBurst st \<ge> maxHighPriorityBurst"
    if "e' \<in> set (readyProbes now pending)" "taskPriority (sp_task e') > taskPriority (sp_task e)" for e'
    using that highestReady_ge [OF that(1)] n(2) by (cases rule: selectPriority_cases [of now pending st]) auto
  then show ?thesis using n(1,3) Some by (auto simp: ready probeBefore_rank not_less)
qed

section \<open>No starvation by higher priorities\<close>

definition rotationDistance :: "probe_priority \<Rightarrow> probe_priority \<Rightarrow> nat" where
  "rotationDistance p forced = (if forced < p then p - forced else ProbePriorityRecovery - forced + p)"

definition choicesLeft :: "probe_priority \<Rightarrow> selection \<Rightarrow> nat" where
  "choicesLeft p st = 9 * (rotationDistance p (se_forcedPriority st) - 1) + (8 - nat (min 8 (se_highBurst st))) + 1"

lemma choicesLeft_bound:
  assumes "0 < p" "p < ProbePriorityRecovery" "se_forcedPriority st < ProbePriorityRecovery"
  shows "choicesLeft p st \<le> 36"
proof -
  have "rotationDistance p (se_forcedPriority st) \<le> 4" using assms by (auto simp: rotationDistance_def)
  then show ?thesis by (simp add: choicesLeft_def)
qed

definition kept_waiting :: "probe_priority \<Rightarrow> gotime \<times> probe_map \<Rightarrow> bool" where
  "kept_waiting p q \<longleftrightarrow>
     readyByPriority (fst q) (snd q) p \<noteq> [] \<and> p < highestReady (fst q) (snd q) \<and> highestReady (fst q) (snd q) \<le> ProbePriorityRecovery"

lemma choice_progress:
  assumes k: "kept_waiting p (now, pending)" and n: "nextScheduledProbe now pending st = (Some e, st')"
    and b: "0 \<le> se_highBurst st" and f: "se_forcedPriority st < ProbePriorityRecovery"
    and other: "taskPriority (sp_task e) \<noteq> p"
  shows "choicesLeft p st' < choicesLeft p st" "0 \<le> se_highBurst st'" "se_forcedPriority st' < ProbePriorityRecovery"
proof -
  have low: "p \<in> set (lowerReady now pending)" using k ready_priority [of now pending p] by (simp add: kept_waiting_def lowerReady_iff)
  note s = nextScheduledProbe_Some(2,4,5) [OF n]
  have "choicesLeft p st' < choicesLeft p st \<and> 0 \<le> se_highBurst st' \<and> se_forcedPriority st' < ProbePriorityRecovery"
  proof (cases rule: selectPriority_cases [of now pending st])
    case highest
    then have "se_highBurst st < 8" using low by auto
    then show ?thesis using highest(2) s b f by (simp add: choicesLeft_def nat_less_iff)
  next
    case lower
    let ?g = "forcedChoice (lowerReady now pending) (se_forcedPriority st)"
    have g: "?g \<noteq> p" "?g < ProbePriorityRecovery" "0 < ?g"
      using forcedChoice_mem [OF lower(4), of "se_forcedPriority st"] other lower(1) s(1) k by (auto simp: lowerReady_iff kept_waiting_def)
    have "rotationDistance p ?g < rotationDistance p (se_forcedPriority st) \<and> 0 < rotationDistance p ?g"
      using forcedChoice_next [OF lowerReady_sorted low, of "se_forcedPriority st"] g f by (auto simp: rotationDistance_def split: if_splits)
    then obtain k d where "rotationDistance p ?g = Suc k" "rotationDistance p (se_forcedPriority st) = Suc (Suc k) + d"
      by (metis Suc_leI Suc_pred le_Suc_ex)
    then show ?thesis using lower(2,3) s g(2) by (simp add: choicesLeft_def)
  qed
  then show "choicesLeft p st' < choicesLeft p st" "0 \<le> se_highBurst st'" "se_forcedPriority st' < ProbePriorityRecovery" by simp_all
qed

lemma selection_progress:
  assumes "\<forall>q \<in> set qs. kept_waiting p q" and "0 \<le> se_highBurst st" and "se_forcedPriority st < ProbePriorityRecovery"
    and "choicesLeft p st \<le> length qs"
  shows "p \<in> set (map (taskPriority \<circ> sp_task) (selectionRun qs st))"
  using assms
proof (induction qs arbitrary: st)
  case Nil
  then show ?case by (simp add: choicesLeft_def)
next
  case (Cons q qs)
  obtain now pending where q: "q = (now, pending)" by (cases q)
  have k: "kept_waiting p (now, pending)" using Cons.prems(1) q by simp
  then have "readyProbes now pending \<noteq> []" by (auto simp: kept_waiting_def readyByPriority_def)
  then obtain e st' where n: "nextScheduledProbe now pending st = (Some e, st')"
    using nextScheduledProbe_None [of now pending st] by (metis not_None_eq prod.collapse)
  show ?case
  proof (cases "taskPriority (sp_task e) = p")
    case True
    then show ?thesis using n q by simp
  next
    case False
    note c = choice_progress [OF k n Cons.prems(2,3) False]
    have "p \<in> set (map (taskPriority \<circ> sp_task) (selectionRun qs st'))"
      using Cons.IH [of st'] Cons.prems(1,4) c by simp
    then show ?thesis using n q by simp
  qed
qed

text \<open>C30. Higher priorities cannot starve a lower one: when a probe of a priority is due at each of
  thirty-six choices in a row, and at each of them one of a higher priority as well, a probe of the
  lower priority is chosen at one of them.\<close>

theorem higher_priority_cannot_starve:
  assumes "\<forall>(now, pending) \<in> set qs. readyByPriority now pending p \<noteq> [] \<and> p < highestReady now pending
      \<and> highestReady now pending \<le> ProbePriorityRecovery"
    and "0 \<le> se_highBurst st" and "se_forcedPriority st < ProbePriorityRecovery" and "36 \<le> length qs"
  shows "p \<in> set (map (taskPriority \<circ> sp_task) (selectionRun qs st))"
proof -
  have k: "\<forall>q \<in> set qs. kept_waiting p q" using assms(1) by (auto simp: kept_waiting_def)
  obtain q where "q \<in> set qs" using assms(4) by (cases qs) auto
  then have "0 < p" "p < ProbePriorityRecovery" using k ready_priority [of "fst q" "snd q" p] by (fastforce simp: kept_waiting_def)+
  then have "choicesLeft p st \<le> length qs" using choicesLeft_bound [of p st] assms(3,4) by simp
  then show ?thesis by (rule selection_progress [OF k assms(2,3)])
qed

theorem next_probe_is_due_and_oldest_witness:
  "fst (nextScheduledProbe 9 [sampleProbe 3 ''a'' 1, sampleProbe 2 ''a'' 1] newSelection) = Some (snd (sampleProbe 2 ''a'' 1))
    \<and> snd (sampleProbe 2 ''a'' 1) \<in> snd ` set [sampleProbe 3 ''a'' 1, sampleProbe 2 ''a'' 1]"
proof -
  let ?q = "[sampleProbe 3 ''a'' 1, sampleProbe 2 ''a'' 1]"
  have "nextScheduledProbe 9 ?q newSelection = (Some (snd (sampleProbe 2 ''a'' 1)), snd (nextScheduledProbe 9 ?q newSelection))" by code_simp
  from next_probe_is_due_and_oldest [OF this] show ?thesis by (simp add: prod_eq_iff) code_simp
qed

theorem higher_priority_cannot_starve_witness:
  "1 \<in> set (map (taskPriority \<circ> sp_task) (selectionRun (replicate 36 (9, [sampleProbe 2 ''a'' 1, sampleProbe 3 ''a'' 4])) newSelection))"
proof (rule higher_priority_cannot_starve)
  have "readyByPriority 9 [sampleProbe 2 ''a'' 1, sampleProbe 3 ''a'' 4] 1 \<noteq> []"
      "highestReady 9 [sampleProbe 2 ''a'' 1, sampleProbe 3 ''a'' 4] = 4" by code_simp+
  then show "\<forall>(now, pending) \<in> set (replicate 36 (9, [sampleProbe 2 ''a'' 1, sampleProbe 3 ''a'' 4])).
      readyByPriority now pending 1 \<noteq> [] \<and> 1 < highestReady now pending \<and> highestReady now pending \<le> ProbePriorityRecovery"
    by simp
qed (simp_all add: newSelection_def)

section \<open>A source can be passed over for ever\<close>

definition alternatingQueues :: "nat \<Rightarrow> (gotime \<times> probe_map) list" where
  \<comment> \<open>source z always has a probe due; the sources a and b have one in turn\<close>
  "alternatingQueues n = map (\<lambda>i. (9, [sampleProbe 2 (if even i then ''a'' else ''b'') 1, sampleProbe 3 ''z'' 1])) [0..<n]"


lemma alternating_choice:
  assumes "x = ''a'' \<and> map_of (se_lastSource st) 1 \<in> {None, Some ''b''} \<or> x = ''b'' \<and> map_of (se_lastSource st) 1 = Some ''a''"
  obtains st' where "nextScheduledProbe 9 [sampleProbe 2 x 1, sampleProbe 3 ''z'' 1] st = (Some (snd (sampleProbe 2 x 1)), st')"
    "map_of (se_lastSource st') 1 = Some x"
proof -
  define q where "q = [sampleProbe 2 x 1, sampleProbe 3 ''z'' 1]"
  let ?s1 = "snd (selectPriority 9 q st)"
  have h: "highestReady 9 q = 1" by (simp add: q_def highestReady_def readyProbes_def)
  then have l: "lowerReady 9 q = []" by (simp add: lowerReady_def)
  have sel: "fst (selectPriority 9 q st) = 1" "se_lastSource ?s1 = se_lastSource st" by (simp_all add: selectPriority_def h l Let_def)
  have ready: "readyByPriority 9 q 1 = map snd q" by (simp add: q_def readyByPriority_def readyProbes_def)
  have src: "readySources (map snd q) = [x, ''z'']" using assms by (auto simp: q_def readySources_def)
  have "selectSource [x, ''z''] (case map_of (se_lastSource st) 1 of None \<Rightarrow> [] | Some y \<Rightarrow> y) = x"
    using assms by (auto simp: selectSource_def searchStrings_def Let_def)
  moreover have "filter (\<lambda>e. taskSource (sp_task e) = x) (map snd q) = [snd (sampleProbe 2 x 1)]" using assms by (auto simp: q_def)
  ultimately have "nextScheduledProbe 9 q st =
      (Some (snd (sampleProbe 2 x 1)), ?s1\<lparr>se_lastSource := AList.update 1 x (se_lastSource st)\<rparr>)"
    using sel by (simp add: nextScheduledProbe_def h ready [simplified] src Let_def case_prod_unfold sortSlice_def)
  then show thesis unfolding q_def by (rule that) (simp add: gomap_simps)
qed

lemma alternating_run:
  assumes "if even i then map_of (se_lastSource st) 1 \<in> {None, Some ''b''} else map_of (se_lastSource st) 1 = Some ''a''"
  shows "map (taskSource \<circ> sp_task) (selectionRun (map (\<lambda>i. (9, [sampleProbe 2 (if even i then ''a'' else ''b'') 1, sampleProbe 3 ''z'' 1])) [i..<i + n]) st)
    = map (\<lambda>i. if even i then ''a'' else ''b'') [i..<i + n]"
  using assms
proof (induction n arbitrary: i st)
  case (Suc n)
  let ?x = "if even i then ''a'' else ''b''"
  obtain st' where st': "nextScheduledProbe 9 [sampleProbe 2 ?x 1, sampleProbe 3 ''z'' 1] st = (Some (snd (sampleProbe 2 ?x 1)), st')"
      "map_of (se_lastSource st') 1 = Some ?x"
    using Suc.prems by (elim alternating_choice [of ?x st, rotated]) (auto split: if_splits)
  have "[i..<i + Suc n] = i # [Suc i..<Suc i + n]" by (simp add: upt_conv_Cons)
  then show ?case using st' Suc.IH [of "Suc i" st'] by (simp add: comp_def)
qed simp

text \<open>The rotation over sources can starve a source: there are queues of every length in which a
  source has a probe due at each choice and is never chosen, because two other sources come and go
  and the rotation starts at the first source whenever the last one has nothing ready.\<close>

theorem source_rotation_can_starve:
  "(\<forall>(now, pending) \<in> set (alternatingQueues n). sourceProbes now pending 1 ''z'' \<noteq> [])
    \<and> length (selectionRun (alternatingQueues n) newSelection) = n
    \<and> ''z'' \<notin> set (map (taskSource \<circ> sp_task) (selectionRun (alternatingQueues n) newSelection))"
proof (intro conjI)
  show "\<forall>(now, pending) \<in> set (alternatingQueues n). sourceProbes now pending 1 ''z'' \<noteq> []"
    by (auto simp: alternatingQueues_def sourceProbes_def readyByPriority_def readyProbes_def)
  have r: "map (taskSource \<circ> sp_task) (selectionRun (alternatingQueues n) newSelection) = map (\<lambda>i. if even i then ''a'' else ''b'') [0..<n]"
    using alternating_run [of 0 newSelection n] by (simp add: alternatingQueues_def newSelection_def)
  from arg_cong [OF r, of length] show "length (selectionRun (alternatingQueues n) newSelection) = n" by simp
  show "''z'' \<notin> set (map (taskSource \<circ> sp_task) (selectionRun (alternatingQueues n) newSelection))" unfolding r by auto
qed

theorem source_rotation_can_starve_witness:
  "length (selectionRun (alternatingQueues 100) newSelection) = 100
    \<and> ''z'' \<notin> set (map (taskSource \<circ> sp_task) (selectionRun (alternatingQueues 100) newSelection))"
  using source_rotation_can_starve [of 100] by blast

end
