(* ===== verification/Probe_Scheduler.thy ===== *)
theory Probe_Scheduler
  imports Probe_Queue
begin

text \<open>
  The probe scheduler (\<^verbatim>\<open>ProbeScheduler\<close> of \<^verbatim>\<open>protocol/group/adaptive/scheduler.go\<close>):
  the dispatcher goroutine with its three maps, the workers, the callers that submit, cancel and
  remove, and the contexts. The state of the scheduler object is a record, the local variables of
  \<^verbatim>\<open>runDispatcher\<close> are another. A caller blocked on one of the three request channels is an
  entry of \<open>ps_mail\<close>; the channel of completions is a queue; a context is named by its
  position in the list of contexts. What is sent on the channel of a waiter, what is replied to a
  submission and what the observers are called with are logs. The callbacks of a task are
  arguments: what \<open>Run\<close> returns (nothing when it panics) and whether \<open>Observe\<close>
  returns. The coordinator a scheduler points to is held by value; where several schedulers share
  one, each step is given the shared value. The fields \<open>epochID\<close> and \<open>ownerGen\<close>, which
  are never read, are left out.
\<close>

section \<open>State\<close>

record probe_context =
  cx_deadline :: gotime
  cx_err :: "string option"

record active_probe =
  ab_entry :: scheduled_probe
  ab_ctx :: nat

record probe_job =
  jb_task :: probe_task
  jb_ctx :: nat
  jb_startedAt :: gotime

record probe_completion =
  cp_key :: probe_key
  cp_task :: probe_task
  cp_result :: probe_result

datatype probe_mail = MailSubmit probe_task nat | MailCancel probe_key nat | MailRemove probe_removal

datatype submit_status = ProbeAccepted | ProbeCoalesced | ProbeDeferred | ProbeRejected

datatype submit_error = NoRunner | ErrProbeSchedulerOwner | ErrProbeQueueFull

record probe_scheduler =
  ps_queueSize :: nat
  ps_workers :: nat
  ps_owner :: "coordinator option"
  ps_ownership :: "nat option"
  ps_stats :: scheduler_stats
  ps_depth :: nat
  ps_waiterID :: nat
  ps_contexts :: "probe_context list"
  ps_cancelled :: bool  \<comment> \<open>the context of the scheduler is done\<close>
  ps_closed :: bool
  ps_mail :: "probe_mail list"
  ps_idle :: nat
  ps_running :: "probe_job list"
  ps_done :: "probe_completion list"
  ps_answers :: "(nat \<times> probe_result) list"
  ps_observed :: "(probe_task \<times> probe_result) list"
  ps_replies :: "(nat \<times> submit_status) list"
  ps_withdrawn :: "nat list"  \<comment> \<open>submissions given up because the scheduler stopped\<close>

record dispatcher =
  dp_pending :: probe_map
  dp_active :: "(probe_key, active_probe) gomap"
  dp_rerun :: probe_map
  dp_selection :: selection
  dp_ownerReady :: bool
  dp_stallAt :: "gotime option"
  dp_dispatch :: "(probe_key \<times> nat) option"  \<comment> \<open>the chosen entry, by its key, and its context\<close>

type_synonym probe_state = "probe_scheduler \<times> dispatcher"

type_synonym observers = "nat \<Rightarrow> probe_task \<Rightarrow> probe_result \<Rightarrow> bool"

abbreviation contextCanceled :: string where "contextCanceled \<equiv> ''context canceled''"
abbreviation contextDeadlineExceeded :: string where "contextDeadlineExceeded \<equiv> ''context deadline exceeded''"
abbreviation queueFullReason :: string where "queueFullReason \<equiv> ''adaptive probe queue is full''"
abbreviation schedulerOwnerReason :: string where "schedulerOwnerReason \<equiv> ''adaptive probe scheduler is not active owner''"
abbreviation schedulerReadyTimeout :: duration where "schedulerReadyTimeout \<equiv> 30 * second"

definition newOwnedProbeScheduler :: "coordinator option \<Rightarrow> nat option \<Rightarrow> int \<Rightarrow> int \<Rightarrow> probe_scheduler" where
  "newOwnedProbeScheduler owner ownership workers queueSize =
     (let workers' = (if workers \<le> 0 then 4 else nat workers); queueSize' = (if queueSize \<le> 0 then 4096 else nat queueSize) in
      \<lparr>ps_queueSize = queueSize', ps_workers = workers', ps_owner = owner, ps_ownership = ownership, ps_stats = zeroStats,
       ps_depth = 0, ps_waiterID = 0, ps_contexts = [], ps_cancelled = False, ps_closed = False, ps_mail = [], ps_idle = workers',
       ps_running = [], ps_done = [], ps_answers = [], ps_observed = [], ps_replies = [], ps_withdrawn = []\<rparr>)"

definition newDispatcher :: "gotime \<Rightarrow> nat option \<Rightarrow> dispatcher" where
  \<comment> \<open>the local variables at the start of \<open>runDispatcher\<close>\<close>
  "newDispatcher now ownership =
     \<lparr>dp_pending = [], dp_active = [], dp_rerun = [], dp_selection = newSelection, dp_ownerReady = (ownership = None),
      dp_stallAt = (if ownership = None then None else Some (now + schedulerReadyTimeout)), dp_dispatch = None\<rparr>"

section \<open>Counters, contexts and answers\<close>

definition countOwner :: "(scheduler_stats \<Rightarrow> scheduler_stats) \<Rightarrow> probe_scheduler \<Rightarrow> probe_scheduler" where
  "countOwner f s = s\<lparr>ps_owner := map_option (sc_stats_update f) (ps_owner s)\<rparr>"

definition countOwn :: "(scheduler_stats \<Rightarrow> scheduler_stats) \<Rightarrow> probe_scheduler \<Rightarrow> probe_scheduler" where
  "countOwn f s = s\<lparr>ps_stats := f (ps_stats s)\<rparr>"

definition countStat :: "(scheduler_stats \<Rightarrow> scheduler_stats) \<Rightarrow> probe_scheduler \<Rightarrow> probe_scheduler" where
  \<comment> \<open>the scheduler counts, and so does its owner if it has one\<close>
  "countStat f s = countOwner f (countOwn f s)"

abbreviation incAccepted :: "scheduler_stats \<Rightarrow> scheduler_stats" where "incAccepted \<equiv> ss_accepted_update inc64"
abbreviation incCoalesced :: "scheduler_stats \<Rightarrow> scheduler_stats" where "incCoalesced \<equiv> ss_coalesced_update inc64"
abbreviation incDeferred :: "scheduler_stats \<Rightarrow> scheduler_stats" where "incDeferred \<equiv> ss_deferred_update inc64"
abbreviation incRejected :: "scheduler_stats \<Rightarrow> scheduler_stats" where "incRejected \<equiv> ss_rejected_update inc64"
abbreviation incCompleted :: "scheduler_stats \<Rightarrow> scheduler_stats" where "incCompleted \<equiv> ss_completed_update inc64"
abbreviation incStalled :: "scheduler_stats \<Rightarrow> scheduler_stats" where "incStalled \<equiv> ss_stalled_update inc64"

definition endContext :: "string \<Rightarrow> probe_context \<Rightarrow> probe_context" where
  \<comment> \<open>the first reason a context ends for stays\<close>
  "endContext reason c = (case cx_err c of None \<Rightarrow> c\<lparr>cx_err := Some reason\<rparr> | Some r \<Rightarrow> c)"

definition cancelContext :: "nat \<Rightarrow> probe_scheduler \<Rightarrow> probe_scheduler" where
  "cancelContext i s =
     (if i < length (ps_contexts s)
      then s\<lparr>ps_contexts := (ps_contexts s)[i := endContext contextCanceled (ps_contexts s ! i)]\<rparr> else s)"

definition newProbeDispatchContext :: "gotime \<Rightarrow> duration \<Rightarrow> probe_scheduler \<Rightarrow> probe_scheduler \<times> nat" where
  "newProbeDispatchContext now timeout s =
     (s\<lparr>ps_contexts := ps_contexts s @ [\<lparr>cx_deadline = now + timeout, cx_err = (if ps_cancelled s then Some contextCanceled else None)\<rparr>]\<rparr>,
      length (ps_contexts s))"

definition expireContext :: "gotime \<Rightarrow> nat \<Rightarrow> probe_scheduler \<Rightarrow> probe_scheduler" where
  \<comment> \<open>the timer of a context\<close>
  "expireContext now i s =
     (if i < length (ps_contexts s) \<and> cx_deadline (ps_contexts s ! i) \<le> now
      then s\<lparr>ps_contexts := (ps_contexts s)[i := endContext contextDeadlineExceeded (ps_contexts s ! i)]\<rparr> else s)"

definition cancelScheduler :: "probe_scheduler \<Rightarrow> probe_scheduler" where
  \<comment> \<open>\<open>s.cancel()\<close>, called by \<open>Close\<close> and when the ownership is revoked\<close>
  "cancelScheduler s = s\<lparr>ps_cancelled := True, ps_contexts := map (endContext contextCanceled) (ps_contexts s)\<rparr>"

definition answer :: "nat \<Rightarrow> probe_result \<Rightarrow> probe_scheduler \<Rightarrow> probe_scheduler" where
  \<comment> \<open>\<open>waiter.result <- result; close(waiter.result)\<close>\<close>
  "answer w result s = s\<lparr>ps_answers := ps_answers s @ [(w, result)]\<rparr>"

definition finish :: "observers \<Rightarrow> scheduled_probe \<Rightarrow> probe_result \<Rightarrow> probe_scheduler \<Rightarrow> probe_scheduler" where
  "finish obs entry result s =
     (let s1 = fold (\<lambda>w. answer w result) (sp_waiters entry) s in
      case pt_Observe (sp_task entry) of
        None \<Rightarrow> s1
      | Some f \<Rightarrow>
          let s2 = s1\<lparr>ps_observed := ps_observed s1 @ [(sp_task entry, result)]\<rparr> in
          if obs f (sp_task entry) result then s2 else countStat incRejected s2)"

definition deferWaiter :: "nat \<Rightarrow> string \<Rightarrow> probe_scheduler \<Rightarrow> probe_scheduler" where
  "deferWaiter w reason s = answer w (deferredResult reason) (countStat incDeferred s)"

definition deferEntry :: "observers \<Rightarrow> scheduled_probe \<Rightarrow> string \<Rightarrow> probe_scheduler \<Rightarrow> probe_scheduler" where
  "deferEntry obs entry reason s = finish obs entry (deferredResult reason) (countStat incDeferred s)"

section \<open>Requests to the dispatcher\<close>

definition queueFull :: "probe_state \<Rightarrow> bool" where
  "queueFull = (\<lambda>(s, d). length (dp_pending d) + length (dp_rerun d) \<ge> ps_queueSize s)"

definition joinProbe :: "probe_task \<Rightarrow> nat \<Rightarrow> scheduled_probe \<Rightarrow> scheduled_probe" where
  "joinProbe task w existing =
     existing\<lparr>sp_task := mergeProbeTask (sp_task existing) task, sp_waiters := List.insert w (sp_waiters existing)\<rparr>"

definition acceptSubmission :: "probe_task \<Rightarrow> nat \<Rightarrow> probe_state \<Rightarrow> probe_state \<times> submit_status" where
  "acceptSubmission task w = (\<lambda>(s, d).
     let key = pt_Key task; fresh = \<lparr>sp_task = task, sp_waiters = [w]\<rparr> in
     case map_of (dp_pending d) key of
       Some existing \<Rightarrow>
         ((countStat incCoalesced s, d\<lparr>dp_pending := AList.update key (joinProbe task w existing) (dp_pending d)\<rparr>), ProbeCoalesced)
     | None \<Rightarrow>
         (case map_of (dp_active d) key of
            Some running \<Rightarrow>
              if \<not> pt_FreshAfterCurrent task
              then ((countStat incCoalesced s,
                     d\<lparr>dp_active := AList.update key
                         (running\<lparr>ab_entry := (ab_entry running)\<lparr>sp_waiters := List.insert w (sp_waiters (ab_entry running))\<rparr>\<rparr>) (dp_active d)\<rparr>),
                    ProbeCoalesced)
              else (case map_of (dp_rerun d) key of
                  Some existing \<Rightarrow>
                    ((countStat incCoalesced s, d\<lparr>dp_rerun := AList.update key (joinProbe task w existing) (dp_rerun d)\<rparr>), ProbeCoalesced)
                | None \<Rightarrow>
                    if queueFull (s, d) then ((deferWaiter w queueFullReason s, d), ProbeDeferred)
                    else ((countStat incCoalesced s, d\<lparr>dp_rerun := AList.update key fresh (dp_rerun d)\<rparr>), ProbeCoalesced))
          | None \<Rightarrow>
              if queueFull (s, d) then ((deferWaiter w queueFullReason s, d), ProbeDeferred)
              else ((countStat incAccepted s, d\<lparr>dp_pending := AList.update key fresh (dp_pending d)\<rparr>), ProbeAccepted)))"

definition submissionError :: "submit_status \<Rightarrow> submit_error option" where
  "submissionError status =
     (case status of ProbeDeferred \<Rightarrow> Some ErrProbeQueueFull | ProbeRejected \<Rightarrow> Some ErrProbeSchedulerOwner | _ \<Rightarrow> None)"

definition leaveProbe :: "nat \<Rightarrow> scheduled_probe \<Rightarrow> scheduled_probe" where
  "leaveProbe w entry = entry\<lparr>sp_waiters := removeAll w (sp_waiters entry)\<rparr>"

definition deserted :: "scheduled_probe \<Rightarrow> bool" where
  \<comment> \<open>nobody waits for the probe and it is not periodic\<close>
  "deserted entry \<longleftrightarrow> sp_waiters entry = [] \<and> pt_Interval (sp_task entry) \<le> 0"

definition leaveMap :: "probe_key \<Rightarrow> nat \<Rightarrow> scheduled_probe \<Rightarrow> probe_map \<Rightarrow> probe_map" where
  "leaveMap key w entry m =
     (if deserted (leaveProbe w entry) then AList.delete key m else AList.update key (leaveProbe w entry) m)"

definition cancelProbeWaiter :: "probe_key \<Rightarrow> nat \<Rightarrow> probe_state \<Rightarrow> probe_state" where
  "cancelProbeWaiter key w = (\<lambda>(s, d).
     let s1 = answer w (deferredResult contextCanceled) s in
     case map_of (dp_pending d) key of
       Some entry \<Rightarrow>
         if w \<in> set (sp_waiters entry) then (s1, d\<lparr>dp_pending := leaveMap key w entry (dp_pending d)\<rparr>) else (s, d)
     | None \<Rightarrow>
         (case map_of (dp_rerun d) key of
            Some entry \<Rightarrow>
              if w \<in> set (sp_waiters entry) then (s1, d\<lparr>dp_rerun := leaveMap key w entry (dp_rerun d)\<rparr>) else (s, d)
          | None \<Rightarrow>
              (case map_of (dp_active d) key of
                 Some running \<Rightarrow>
                   if w \<in> set (sp_waiters (ab_entry running))
                   then (let entry = leaveProbe w (ab_entry running) in
                         (if deserted entry then cancelContext (ab_ctx running) s1 else s1,
                          d\<lparr>dp_active := AList.update key (running\<lparr>ab_entry := entry\<rparr>) (dp_active d)\<rparr>))
                   else (s, d)
               | None \<Rightarrow> (s, d))))"

definition finishAll :: "observers \<Rightarrow> probe_result \<Rightarrow> scheduled_probe list \<Rightarrow> probe_scheduler \<Rightarrow> probe_scheduler" where
  "finishAll obs result entries s = fold (\<lambda>entry. finish obs entry result) entries s"

definition matching :: "probe_removal \<Rightarrow> (probe_key, 'v) gomap \<Rightarrow> (probe_key, 'v) gomap" where
  "matching removal m = filter (\<lambda>(k, v). probeRemovalMatches removal k) m"

definition unmatching :: "probe_removal \<Rightarrow> (probe_key, 'v) gomap \<Rightarrow> (probe_key, 'v) gomap" where
  "unmatching removal m = filter (\<lambda>(k, v). \<not> probeRemovalMatches removal k) m"

definition removeProbes :: "observers \<Rightarrow> probe_removal \<Rightarrow> probe_state \<Rightarrow> probe_state" where
  "removeProbes obs removal = (\<lambda>(s, d).
     let result = deferredResult ''probe identity retired'';
         s1 = finishAll obs result (map snd (matching removal (dp_pending d))) s;
         s2 = finishAll obs result (map snd (matching removal (dp_rerun d))) s1;
         s3 = fold (\<lambda>(k, running). cancelContext (ab_ctx running)) (matching removal (dp_active d)) s2
     in (s3, d\<lparr>dp_pending := unmatching removal (dp_pending d), dp_rerun := unmatching removal (dp_rerun d)\<rparr>))"

definition dropDispatch :: "probe_state \<Rightarrow> probe_state" where
  \<comment> \<open>the chosen entry is gone from the queue\<close>
  "dropDispatch = (\<lambda>(s, d).
     case dp_dispatch d of
       None \<Rightarrow> (s, d)
     | Some (key, c) \<Rightarrow> if map_of (dp_pending d) key = None then (cancelContext c s, d\<lparr>dp_dispatch := None\<rparr>) else (s, d))"

section \<open>The dispatcher\<close>

definition selectDispatch :: "gotime \<Rightarrow> probe_state \<Rightarrow> probe_state" where
  "selectDispatch now = (\<lambda>(s, d).
     if dp_dispatch d = None \<and> dp_ownerReady d
     then (case nextScheduledProbe now (dp_pending d) (dp_selection d) of
             (None, st) \<Rightarrow> (s, d\<lparr>dp_selection := st\<rparr>)
           | (Some entry, st) \<Rightarrow>
               let (s1, c) = newProbeDispatchContext now (pt_Timeout (sp_task entry)) s in
               (s1, d\<lparr>dp_selection := st, dp_dispatch := Some (pt_Key (sp_task entry), c)\<rparr>))
     else (s, d))"

definition loopTop :: "gotime \<Rightarrow> probe_state \<Rightarrow> probe_state" where
  "loopTop now y =
     (let (s, d) = selectDispatch now y in (s\<lparr>ps_depth := length (dp_pending d) + length (dp_rerun d)\<rparr>, d))"

definition dispatchJob :: "gotime \<Rightarrow> probe_state \<Rightarrow> probe_state" where
  \<comment> \<open>a worker takes the chosen entry\<close>
  "dispatchJob now = (\<lambda>(s, d).
     case dp_dispatch d of
       None \<Rightarrow> (s, d)
     | Some (key, c) \<Rightarrow>
         (case map_of (dp_pending d) key of
            None \<Rightarrow> (s, d)
          | Some entry \<Rightarrow>
              (s\<lparr>ps_idle := ps_idle s - 1,
                 ps_running := ps_running s @ [\<lparr>jb_task = sp_task entry, jb_ctx = c, jb_startedAt = now\<rparr>]\<rparr>,
               d\<lparr>dp_pending := AList.delete key (dp_pending d),
                 dp_active := AList.update key \<lparr>ab_entry = entry, ab_ctx = c\<rparr> (dp_active d), dp_dispatch := None\<rparr>)))"

definition nextProbe :: "gotime \<Rightarrow> probe_completion \<Rightarrow> scheduled_probe option \<Rightarrow> scheduled_probe option" where
  \<comment> \<open>what a completed probe leaves to do: the queued rerun, or the next turn of a periodic probe\<close>
  "nextProbe now completion rerun =
     (if pt_Interval (cp_task completion) > 0
      then (case rerun of
              None \<Rightarrow> Some \<lparr>sp_task = periodicTask now (cp_task completion) (cp_result completion), sp_waiters = []\<rparr>
            | Some entry \<Rightarrow>
                Some (if pt_Interval (sp_task entry) \<le> 0
                      then entry\<lparr>sp_task := (sp_task entry)\<lparr>pt_Interval := pt_Interval (cp_task completion),
                             pt_FailureInterval := pt_FailureInterval (cp_task completion)\<rparr>\<rparr>
                      else entry))
      else rerun)"

definition completeProbe :: "observers \<Rightarrow> gotime \<Rightarrow> probe_completion \<Rightarrow> probe_state \<Rightarrow> probe_state" where
  "completeProbe obs now completion = (\<lambda>(s, d).
     case map_of (dp_active d) (cp_key completion) of
       None \<Rightarrow> (s, d)
     | Some running \<Rightarrow>
         let s1 = finish obs (ab_entry running) (cp_result completion) (countStat incCompleted (cancelContext (ab_ctx running) s));
             d1 = d\<lparr>dp_active := AList.delete (cp_key completion) (dp_active d), dp_rerun := AList.delete (cp_key completion) (dp_rerun d)\<rparr>
         in case nextProbe now completion (map_of (dp_rerun d) (cp_key completion)) of
              None \<Rightarrow> (s1, d1)
            | Some entry \<Rightarrow>
                if \<not> queueFull (s1, d1)
                then (s1, d1\<lparr>dp_pending := AList.update (pt_Key (sp_task entry)) entry (dp_pending d1)\<rparr>)
                else (deferEntry obs entry queueFullReason s1, d1))"

definition stopDispatcher :: "observers \<Rightarrow> probe_state \<Rightarrow> probe_state" where
  \<comment> \<open>the deferred function of \<open>runDispatcher\<close>; its local maps are gone afterwards\<close>
  "stopDispatcher obs = (\<lambda>(s, d).
     let result = deferredResult ''scheduler stopped'';
         s0 = (case dp_dispatch d of None \<Rightarrow> s | Some (key, c) \<Rightarrow> cancelContext c s);
         s1 = finishAll obs result (map snd (dp_pending d)) s0;
         s2 = finishAll obs result (map snd (dp_rerun d)) s1;
         s3 = fold (\<lambda>(k, running) s. finish obs (ab_entry running) result (cancelContext (ab_ctx running) s)) (dp_active d) s2
     in (s3\<lparr>ps_depth := 0, ps_closed := True\<rparr>, d\<lparr>dp_pending := [], dp_active := [], dp_rerun := [], dp_dispatch := None\<rparr>))"

datatype dispatcher_event = CtxDone | OwnerReady | OwnerStalled | Request nat | JobTaken | Completed | TimerFired

definition ownerTokenReady :: "probe_scheduler \<Rightarrow> bool" where
  \<comment> \<open>the \<open>ready\<close> channel of the ownership is closed\<close>
  "ownerTokenReady s \<longleftrightarrow>
     (case (ps_owner s, ps_ownership s) of
        (Some c, Some i) \<Rightarrow> i < length (sc_tokens c) \<and> ot_ready (sc_tokens c ! i)
      | _ \<Rightarrow> False)"

definition eventReady :: "gotime \<Rightarrow> dispatcher_event \<Rightarrow> probe_state \<Rightarrow> bool" where
  \<comment> \<open>the cases of the \<open>select\<close> that can proceed\<close>
  "eventReady now ev = (\<lambda>(s, d).
     case ev of
       CtxDone \<Rightarrow> ps_cancelled s
     | OwnerReady \<Rightarrow> \<not> dp_ownerReady d \<and> ownerTokenReady s
     | OwnerStalled \<Rightarrow> (case dp_stallAt d of None \<Rightarrow> False | Some t \<Rightarrow> t \<le> now)
     | Request i \<Rightarrow> i < length (ps_mail s)
     | JobTaken \<Rightarrow> dp_dispatch d \<noteq> None \<and> 0 < ps_idle s
     | Completed \<Rightarrow> ps_done s \<noteq> []
     | TimerFired \<Rightarrow> dp_dispatch d = None \<and> (case earliestProbeDue (dp_pending d) of None \<Rightarrow> False | Some t \<Rightarrow> t \<le> now))"

definition takeMail :: "nat \<Rightarrow> probe_scheduler \<Rightarrow> probe_scheduler" where
  "takeMail i s = s\<lparr>ps_mail := take i (ps_mail s) @ drop (Suc i) (ps_mail s)\<rparr>"

definition handleRequest :: "observers \<Rightarrow> probe_mail \<Rightarrow> probe_state \<Rightarrow> probe_state" where
  "handleRequest obs m y =
     (case m of
        MailSubmit task w \<Rightarrow>
          let ((s, d), status) = acceptSubmission task w y in (s\<lparr>ps_replies := ps_replies s @ [(w, status)]\<rparr>, d)
      | MailCancel key w \<Rightarrow> dropDispatch (cancelProbeWaiter key w y)
      | MailRemove removal \<Rightarrow> dropDispatch (removeProbes obs removal y))"

definition handleEvent :: "observers \<Rightarrow> gotime \<Rightarrow> dispatcher_event \<Rightarrow> probe_state \<Rightarrow> probe_state" where
  "handleEvent obs now ev = (\<lambda>(s, d).
     case ev of
       CtxDone \<Rightarrow> stopDispatcher obs (s, d)
     | OwnerReady \<Rightarrow> (s, d\<lparr>dp_ownerReady := True, dp_stallAt := None\<rparr>)
     | OwnerStalled \<Rightarrow> (countOwner incStalled s, d\<lparr>dp_stallAt := None\<rparr>)
     | Request i \<Rightarrow> handleRequest obs (ps_mail s ! i) (takeMail i s, d)
     | JobTaken \<Rightarrow> dispatchJob now (s, d)
     | Completed \<Rightarrow> completeProbe obs now (hd (ps_done s)) (s\<lparr>ps_done := tl (ps_done s)\<rparr>, d)
     | TimerFired \<Rightarrow> (s, d))"

definition dispatcherIteration :: "observers \<Rightarrow> gotime \<Rightarrow> gotime \<Rightarrow> dispatcher_event \<Rightarrow> probe_state \<Rightarrow> probe_state" where
  "dispatcherIteration obs now now' ev y = handleEvent obs now' ev (loopTop now y)"

section \<open>Workers\<close>

definition runProbeTask :: "probe_result option \<Rightarrow> probe_result \<times> bool" where
  \<comment> \<open>no result: the runner panics\<close>
  "runProbeTask outcome = (case outcome of None \<Rightarrow> (deferredResult ''probe runner panic'', True) | Some result \<Rightarrow> (result, False))"

definition ownsProbes :: "probe_scheduler \<Rightarrow> bool" where
  "ownsProbes s = (case ps_owner s of None \<Rightarrow> True | Some c \<Rightarrow> IsOwner (ps_ownership s) c)"

definition workerResult :: "gotime \<Rightarrow> probe_job \<Rightarrow> probe_result \<Rightarrow> probe_scheduler \<Rightarrow> probe_result" where
  "workerResult now job result0 s =
     (let result = (if rs_Delay result0 \<le> 0 then result0\<lparr>rs_Delay := time_sub now (jb_startedAt job)\<rparr> else result0);
          err = (if jb_ctx job < length (ps_contexts s) then cx_err (ps_contexts s ! jb_ctx job) else None)
      in case err of
           Some reason \<Rightarrow> (deferredResult reason)\<lparr>rs_Delay := rs_Delay result\<rparr>
         | None \<Rightarrow> if ownsProbes s then result else (deferredResult schedulerOwnerReason)\<lparr>rs_Delay := rs_Delay result\<rparr>)"

definition workerDone :: "gotime \<Rightarrow> nat \<Rightarrow> probe_result option \<Rightarrow> probe_scheduler \<Rightarrow> probe_scheduler" where
  \<comment> \<open>one turn of \<open>runWorker\<close> on the job at a position, up to the send of the completion\<close>
  "workerDone now i outcome s =
     (let job = ps_running s ! i; (result, panicked) = runProbeTask outcome; s1 = (if panicked then countStat incRejected s else s) in
      s1\<lparr>ps_running := take i (ps_running s) @ drop (Suc i) (ps_running s), ps_idle := ps_idle s + 1,
         ps_done := ps_done s @ [\<lparr>cp_key = pt_Key (jb_task job), cp_task = jb_task job, cp_result = workerResult now job result s1\<rparr>]\<rparr>)"

definition workerAbandons :: "nat \<Rightarrow> probe_scheduler \<Rightarrow> probe_scheduler" where
  \<comment> \<open>the scheduler stops before the completion is taken\<close>
  "workerAbandons i s = s\<lparr>ps_running := take i (ps_running s) @ drop (Suc i) (ps_running s)\<rparr>"

definition workerExits :: "probe_scheduler \<Rightarrow> probe_scheduler" where
  "workerExits s = s\<lparr>ps_idle := ps_idle s - 1\<rparr>"

section \<open>Callers\<close>

definition prepareTask :: "gotime \<Rightarrow> probe_task \<Rightarrow> probe_task" where
  \<comment> \<open>the defaults \<open>Submit\<close> fills in\<close>
  "prepareTask now task =
     task\<lparr>pt_DueAt := (if is_zero (pt_DueAt task) then now else pt_DueAt task),
       pt_SubmittedAt := (if is_zero (pt_SubmittedAt task) then now else pt_SubmittedAt task),
       pt_Timeout := (if pt_Timeout task \<le> 0 then 5 * second else pt_Timeout task),
       pt_Priority := (if pt_Priority task = 0 then ProbePriorityCoverage else pt_Priority task)\<rparr>"

definition Submit :: "gotime \<Rightarrow> probe_task \<Rightarrow> probe_scheduler \<Rightarrow> probe_scheduler \<times> (submit_error + nat)" where
  \<comment> \<open>up to the send of the request; the reply comes from the dispatcher\<close>
  "Submit now task s =
     (if pt_Run task = None then (countOwn incRejected s, Inl NoRunner)
      else if \<not> ownsProbes s then (countOwn incRejected s, Inl ErrProbeSchedulerOwner)
      else
        let w = inc64 (ps_waiterID s) in
        (s\<lparr>ps_waiterID := w, ps_mail := ps_mail s @ [MailSubmit (prepareTask now task) w]\<rparr>, Inr w))"

definition withdraw :: "nat \<Rightarrow> probe_scheduler \<Rightarrow> probe_scheduler" where
  \<comment> \<open>a caller gives up because the scheduler stops\<close>
  "withdraw i s =
     (case ps_mail s ! i of
        MailSubmit task w \<Rightarrow> countOwn incRejected ((takeMail i s)\<lparr>ps_withdrawn := ps_withdrawn s @ [w]\<rparr>)
      | _ \<Rightarrow> takeMail i s)"

definition Enqueue :: "submit_status \<Rightarrow> submit_error option \<Rightarrow> submit_error option" where
  \<comment> \<open>the error of \<open>Enqueue\<close>, from the status and the error of the submission\<close>
  "Enqueue status err = (if status = ProbeDeferred then Some ErrProbeQueueFull else err)"

definition removeMatching :: "probe_removal \<Rightarrow> probe_scheduler \<Rightarrow> probe_scheduler" where
  "removeMatching removal s = s\<lparr>ps_mail := ps_mail s @ [MailRemove removal]\<rparr>"

record probe_future =
  pf_key :: probe_key
  pf_waiter :: nat
  pf_once :: bool

definition cancelFuture :: "probe_future \<times> probe_scheduler \<Rightarrow> probe_future \<times> probe_scheduler" where
  "cancelFuture = (\<lambda>(f, s).
     if pf_once f then (f, s) else (f\<lparr>pf_once := True\<rparr>, s\<lparr>ps_mail := ps_mail s @ [MailCancel (pf_key f) (pf_waiter f)]\<rparr>))"

datatype await_event = ResultReceived "probe_result option" | AwaitEnded string

definition Await :: "await_event \<Rightarrow> probe_future option \<times> probe_scheduler \<Rightarrow>
    (probe_future option \<times> probe_scheduler) \<times> (probe_result \<times> string option) option" where
  \<comment> \<open>the outer option: no future; the string: the error of the context of the caller\<close>
  "Await ev = (\<lambda>(f, s).
     case f of
       None \<Rightarrow> ((None, s), None)
     | Some future \<Rightarrow>
         (case ev of
            ResultReceived (Some result) \<Rightarrow> ((Some future, s), Some (result, None))
          | ResultReceived None \<Rightarrow> ((Some future, s), Some (deferredResult ''probe future closed'', None))
          | AwaitEnded err \<Rightarrow>
              (let (future', s') = cancelFuture (future, s) in ((Some future', s'), Some (deferredResult err, Some err)))))"

definition schedulerStats :: "probe_scheduler \<Rightarrow> nat \<times> nat \<times> nat" where
  \<comment> \<open>\<open>ProbeScheduler.Stats\<close>\<close>
  "schedulerStats s = (ps_depth s, ss_deferred (ps_stats s), ss_completed (ps_stats s))"

definition SubmissionStats :: "probe_scheduler \<Rightarrow> nat \<times> nat \<times> nat \<times> nat" where
  "SubmissionStats s =
     (ss_accepted (ps_stats s), ss_coalesced (ps_stats s), ss_deferred (ps_stats s), ss_rejected (ps_stats s))"

definition ActiveOwner :: "probe_scheduler option \<Rightarrow> bool" where
  "ActiveOwner s = (case s of None \<Rightarrow> False | Some s' \<Rightarrow> ownsProbes s')"

definition closeReturns :: "probe_scheduler \<Rightarrow> bool" where
  \<comment> \<open>what \<open>Close\<close> waits for after it cancelled the scheduler\<close>
  "closeReturns s \<longleftrightarrow> ps_closed s \<and> ps_idle s = 0 \<and> ps_running s = []"

end
