(* ===== verification/Probe_System.thy ===== *)
theory Probe_System
  imports Probe_Scheduler "HOL-Library.Multiset"
begin

text \<open>
  The probe scheduler as a transition system: its callers, its workers, its contexts and the
  iterations of its dispatcher, in any order. The invariant says that the three maps of the
  dispatcher agree, that the queue is bounded, that every waiter is in exactly one place, that no
  key is probed twice at a time, and that probes run only once the ownership is ready.
\<close>

section \<open>What the helpers leave alone\<close>

definition fixedPart :: "probe_scheduler \<Rightarrow> _" where
  "fixedPart s = (ps_queueSize s, ps_workers s, ps_ownership s, ps_waiterID s, ps_cancelled s, ps_closed s, ps_mail s, ps_idle s,
     ps_running s, ps_done s, ps_replies s, ps_withdrawn s, ownerTokenReady s, map_option sc_tokens (ps_owner s),
     map_option (sc_stats_update (\<lambda>_. zeroStats)) (ps_owner s))"

lemma answers_fold: "fold (\<lambda>w. answer w result) ws s = s\<lparr>ps_answers := ps_answers s @ map (\<lambda>w. (w, result)) ws\<rparr>"
  by (induction ws arbitrary: s) (simp_all add: answer_def)

lemma tokenReady_cong:
  "map_option sc_tokens (ps_owner s') = map_option sc_tokens (ps_owner s) \<Longrightarrow> ps_ownership s' = ps_ownership s \<Longrightarrow>
   ownerTokenReady s' = ownerTokenReady s"
  by (auto simp: ownerTokenReady_def split: option.splits)

lemma countStat_fixed [unfolded fixedPart_def prod.inject, simp]: "fixedPart (countStat f s) = fixedPart s"
  by (auto simp: fixedPart_def countStat_def countOwner_def countOwn_def option.map_comp comp_def intro!: tokenReady_cong)

lemma countOwner_fixed [unfolded fixedPart_def prod.inject, simp]: "fixedPart (countOwner f s) = fixedPart s"
  by (auto simp: fixedPart_def countOwner_def option.map_comp comp_def intro!: tokenReady_cong)

lemma countOwn_fixed [unfolded fixedPart_def prod.inject, simp]: "fixedPart (countOwn f s) = fixedPart s"
  by (auto simp: fixedPart_def countOwn_def intro!: tokenReady_cong)

lemma cancelContext_fixed [unfolded fixedPart_def prod.inject, simp]: "fixedPart (cancelContext i s) = fixedPart s"
  by (auto simp: fixedPart_def cancelContext_def intro!: tokenReady_cong)

lemma answer_fixed [unfolded fixedPart_def prod.inject, simp]: "fixedPart (answer w r s) = fixedPart s"
  by (auto simp: fixedPart_def answer_def intro!: tokenReady_cong)

lemma answers_simps [simp]:
  "ps_answers (countStat f s) = ps_answers s" "ps_answers (countOwner f s) = ps_answers s" "ps_answers (countOwn f s) = ps_answers s"
  "ps_answers (cancelContext i s) = ps_answers s" "ps_answers (answer w r s) = ps_answers s @ [(w, r)]"
  by (simp_all add: countStat_def countOwner_def countOwn_def cancelContext_def answer_def)

lemma finish_fixed [unfolded fixedPart_def prod.inject, simp]: "fixedPart (finish obs e r s) = fixedPart s"
  by (auto simp: fixedPart_def finish_def answers_fold Let_def split: option.split intro!: tokenReady_cong)

lemma finish_answers [simp]: "ps_answers (finish obs e r s) = ps_answers s @ map (\<lambda>w. (w, r)) (sp_waiters e)"
  by (auto simp: finish_def answers_fold Let_def split: option.split)

lemma finishAll_Cons: "finishAll obs r (e # es) s = finishAll obs r es (finish obs e r s)"
  by (simp add: finishAll_def)

lemma finishAll_fixed [unfolded fixedPart_def prod.inject, simp]: "fixedPart (finishAll obs r es s) = fixedPart s"
proof (induction es arbitrary: s)
  case Nil
  then show ?case by (simp add: finishAll_def)
next
  case (Cons e es)
  show ?case unfolding finishAll_Cons Cons by (simp add: fixedPart_def)
qed

lemma finishAll_answers [simp]: "map fst (ps_answers (finishAll obs r es s)) = map fst (ps_answers s) @ concat (map sp_waiters es)"
  by (induction es arbitrary: s) (simp_all add: finishAll_Cons comp_def, simp add: finishAll_def)

lemma defer_fixed [unfolded fixedPart_def prod.inject, simp]:
  "fixedPart (deferWaiter w x s) = fixedPart s" "fixedPart (deferEntry obs e x s) = fixedPart s"
  by (simp_all add: fixedPart_def deferWaiter_def deferEntry_def)

lemma defer_answers [simp]:
  "ps_answers (deferWaiter w x s) = ps_answers s @ [(w, deferredResult x)]"
  "ps_answers (deferEntry obs e x s) = ps_answers s @ map (\<lambda>w. (w, deferredResult x)) (sp_waiters e)"
  by (simp_all add: deferWaiter_def deferEntry_def)

lemma cancelAll_fixed [unfolded fixedPart_def prod.inject, simp]:
  "fixedPart (fold (\<lambda>(k, running). cancelContext (ab_ctx running)) xs s) = fixedPart s"
proof (induction xs arbitrary: s)
  case (Cons x xs)
  then show ?case by (simp add: case_prod_unfold) (simp add: fixedPart_def)
qed simp

lemma cancelAll_answers [simp]: "ps_answers (fold (\<lambda>(k, running). cancelContext (ab_ctx running)) xs s) = ps_answers s"
  by (induction xs arbitrary: s) (simp_all add: case_prod_unfold)

lemma stopActive_fixed [unfolded fixedPart_def prod.inject, simp]:
  "fixedPart (fold (\<lambda>(k, running) s. finish obs (ab_entry running) r (cancelContext (ab_ctx running) s)) xs s) = fixedPart s"
proof (induction xs arbitrary: s)
  case (Cons x xs)
  then show ?case by (simp add: case_prod_unfold) (simp add: fixedPart_def)
qed simp

section \<open>Steps\<close>

inductive local_step :: "observers \<Rightarrow> probe_state \<Rightarrow> probe_state \<Rightarrow> bool" for obs where
  submit: "ps_waiterID s < 2 ^ 64 - 1 \<Longrightarrow> local_step obs (s, d) (fst (Submit now task s), d)"
| cancelWaiter: "local_step obs (s, d) (snd (cancelFuture (f, s)), d)"
| remove: "local_step obs (s, d) (removeMatching removal s, d)"
| giveUp: "ps_cancelled s \<Longrightarrow> i < length (ps_mail s) \<Longrightarrow> local_step obs (s, d) (withdraw i s, d)"
| expire: "local_step obs (s, d) (expireContext now i s, d)"
| stop: "local_step obs (s, d) (cancelScheduler s, d)"
| work: "i < length (ps_running s) \<Longrightarrow> length (ps_done s) < ps_workers s \<Longrightarrow> local_step obs (s, d) (workerDone now i outcome s, d)"
| abandon: "ps_cancelled s \<Longrightarrow> i < length (ps_running s) \<Longrightarrow> local_step obs (s, d) (workerAbandons i s, d)"
| exits: "ps_cancelled s \<Longrightarrow> 0 < ps_idle s \<Longrightarrow> local_step obs (s, d) (workerExits s, d)"
| iteration: "\<not> ps_closed s \<Longrightarrow> eventReady now' ev (loopTop now (s, d)) \<Longrightarrow>
    local_step obs (s, d) (dispatcherIteration obs now now' ev (s, d))"

text \<open>A scheduler with an owner also lives through what happens to the coordinator.\<close>

inductive probe_step :: "observers \<Rightarrow> probe_state \<Rightarrow> probe_state \<Rightarrow> bool" for obs where
  internal: "local_step obs y y' \<Longrightarrow> probe_step obs y y'"
| owner: "ps_owner s = Some c \<Longrightarrow> owner_step c c' \<Longrightarrow> probe_step obs (s, d) (s\<lparr>ps_owner := Some c'\<rparr>, d)"

definition probe_init :: "probe_state \<Rightarrow> bool" where
  "probe_init y \<longleftrightarrow> (\<exists>owner ownership workers queueSize now.
     y = (newOwnedProbeScheduler owner ownership workers queueSize, newDispatcher now ownership))"

section \<open>The maps agree\<close>

definition queues_ok :: "probe_state \<Rightarrow> bool" where
  "queues_ok = (\<lambda>(s, d).
     gm_wf (dp_pending d) \<and> gm_wf (dp_active d) \<and> gm_wf (dp_rerun d)
     \<and> (\<forall>k e. map_of (dp_pending d) k = Some e \<longrightarrow> pt_Key (sp_task e) = k)
     \<and> (\<forall>k e. map_of (dp_rerun d) k = Some e \<longrightarrow> pt_Key (sp_task e) = k)
     \<and> (\<forall>k. map_of (dp_pending d) k \<noteq> None \<longrightarrow> map_of (dp_active d) k = None)
     \<and> (\<forall>k. map_of (dp_rerun d) k \<noteq> None \<longrightarrow> map_of (dp_active d) k \<noteq> None)
     \<and> length (dp_pending d) + length (dp_rerun d) \<le> ps_queueSize s
     \<and> (\<forall>k c. dp_dispatch d = Some (k, c) \<longrightarrow> map_of (dp_pending d) k \<noteq> None))"

declare map_of_eq_Some_iff [simp del]

lemma merge_key [simp]: "pt_Key (mergeProbeTask a b) = pt_Key a"
  by (simp add: mergeProbeTask_def)

lemma periodic_key [simp]: "pt_Key (periodicTask now t r) = pt_Key t"
  by (simp add: periodicTask_def Let_def)

lemma join_fields [simp]:
  "pt_Key (sp_task (joinProbe t w e)) = pt_Key (sp_task e)" "sp_task (leaveProbe w e) = sp_task e"
  by (simp_all add: joinProbe_def leaveProbe_def)

lemma queues_sched: "ps_queueSize s' = ps_queueSize s \<Longrightarrow> queues_ok (s', d) = queues_ok (s, d)"
  by (simp add: queues_ok_def)

lemma next_pending:
  assumes "gm_wf pending" and "nextScheduledProbe now pending st = (Some e, st')"
  obtains k where "map_of pending k = Some e"
  using nextScheduledProbe_Some(1) [OF assms(2)] assms(1) by (auto simp: readyProbes_def dest: map_of_is_SomeI)

lemma loopTop_cases:
  obtains (same) st where "loopTop now (s, d) = (s\<lparr>ps_depth := length (dp_pending d) + length (dp_rerun d)\<rparr>, d\<lparr>dp_selection := st\<rparr>)"
  | (chosen) e st st' c where "nextScheduledProbe now (dp_pending d) st = (Some e, st')" "dp_dispatch d = None" "dp_ownerReady d"
      "loopTop now (s, d) =
         ((fst (newProbeDispatchContext now c s))\<lparr>ps_depth := length (dp_pending d) + length (dp_rerun d)\<rparr>,
          d\<lparr>dp_selection := st', dp_dispatch := Some (pt_Key (sp_task e), length (ps_contexts s))\<rparr>)"
proof (cases "dp_dispatch d = None \<and> dp_ownerReady d")
  case False
  then have "loopTop now (s, d) = (s\<lparr>ps_depth := length (dp_pending d) + length (dp_rerun d)\<rparr>, d\<lparr>dp_selection := dp_selection d\<rparr>)"
    by (auto simp: loopTop_def selectDispatch_def)
  then show ?thesis by (rule same)
next
  case True
  obtain r st' where n: "nextScheduledProbe now (dp_pending d) (dp_selection d) = (r, st')" by (cases "nextScheduledProbe now (dp_pending d) (dp_selection d)")
  show ?thesis
  proof (cases r)
    case None
    then have "loopTop now (s, d) = (s\<lparr>ps_depth := length (dp_pending d) + length (dp_rerun d)\<rparr>, d\<lparr>dp_selection := st'\<rparr>)"
      using True n by (simp add: loopTop_def selectDispatch_def)
    then show ?thesis by (rule same)
  next
    case (Some e)
    then have "loopTop now (s, d) =
         ((fst (newProbeDispatchContext now (pt_Timeout (sp_task e)) s))\<lparr>ps_depth := length (dp_pending d) + length (dp_rerun d)\<rparr>,
          d\<lparr>dp_selection := st', dp_dispatch := Some (pt_Key (sp_task e), length (ps_contexts s))\<rparr>)"
      using True n by (simp add: loopTop_def selectDispatch_def newProbeDispatchContext_def)
    then show ?thesis using True n Some by (intro chosen) auto
  qed
qed

lemma queues_loopTop: "queues_ok y \<Longrightarrow> queues_ok (loopTop now y)"
proof -
  assume q: "queues_ok y"
  obtain s d where y: "y = (s, d)" by (cases y)
  show ?thesis unfolding y
  proof (cases rule: loopTop_cases [of now s d])
    case same
    then show "queues_ok (loopTop now (s, d))" using q by (simp add: y queues_ok_def)
  next
    case (chosen e st st' c)
    have "gm_wf (dp_pending d)" using q by (simp add: y queues_ok_def)
    then obtain k where "map_of (dp_pending d) k = Some e" by (rule next_pending [OF _ chosen(1)])
    then show "queues_ok (loopTop now (s, d))" using q chosen(4) by (auto simp: y queues_ok_def newProbeDispatchContext_def)
  qed
qed

lemma queues_put:
  assumes "queues_ok (s, d)"
  shows "map_of (dp_pending d) k \<noteq> None \<Longrightarrow> pt_Key (sp_task e) = k \<Longrightarrow> queues_ok (s, d\<lparr>dp_pending := AList.update k e (dp_pending d)\<rparr>)"
    and "map_of (dp_rerun d) k \<noteq> None \<Longrightarrow> pt_Key (sp_task e) = k \<Longrightarrow> queues_ok (s, d\<lparr>dp_rerun := AList.update k e (dp_rerun d)\<rparr>)"
    and "map_of (dp_active d) k \<noteq> None \<Longrightarrow> queues_ok (s, d\<lparr>dp_active := AList.update k a (dp_active d)\<rparr>)"
  using assms by (auto simp: queues_ok_def gomap_simps)

lemma queues_new:
  assumes "queues_ok (s, d)" and "\<not> queueFull (s, d)" and "pt_Key (sp_task e) = k"
  shows "map_of (dp_active d) k = None \<Longrightarrow> queues_ok (s, d\<lparr>dp_pending := AList.update k e (dp_pending d)\<rparr>)"
    and "map_of (dp_active d) k \<noteq> None \<Longrightarrow> queues_ok (s, d\<lparr>dp_rerun := AList.update k e (dp_rerun d)\<rparr>)"
  using assms by (auto simp: queues_ok_def gomap_simps queueFull_def)

lemma queues_accept:
  assumes "queues_ok (s, d)"
  shows "queues_ok (fst (acceptSubmission task w (s, d)))"
proof -
  have count: "queues_ok (countStat f s, d') = queues_ok (s, d')" "queues_ok (deferWaiter w x s, d') = queues_ok (s, d')" for f x d'
    by (simp_all add: queues_ok_def)
  show ?thesis
  proof (cases "map_of (dp_pending d) (pt_Key task)")
    case (Some e)
    moreover have "pt_Key (sp_task e) = pt_Key task" using assms Some by (simp add: queues_ok_def)
    ultimately show ?thesis using queues_put(1) [OF assms, of "pt_Key task" "joinProbe task w e"] by (simp add: acceptSubmission_def Let_def count)
  next
    case None
    note p = this
    show ?thesis
    proof (cases "map_of (dp_active d) (pt_Key task)")
      case None
      then show ?thesis using p assms queues_new(1) [OF assms] by (simp add: acceptSubmission_def Let_def count)
    next
      case (Some r)
      note a = this
      show ?thesis
      proof (cases "map_of (dp_rerun d) (pt_Key task)")
        case None
        then show ?thesis using p a assms queues_put(3) [OF assms, of "pt_Key task"] queues_new(2) [OF assms]
          by (simp add: acceptSubmission_def Let_def count)
      next
        case (Some e)
        moreover have "pt_Key (sp_task e) = pt_Key task" using assms Some by (simp add: queues_ok_def)
        ultimately show ?thesis using p a assms queues_put(3) [OF assms, of "pt_Key task"] queues_put(2) [OF assms, of "pt_Key task" "joinProbe task w e"]
          by (simp add: acceptSubmission_def Let_def count)
      qed
    qed
  qed
qed

definition queues_mid :: "probe_state \<Rightarrow> bool" where
  \<comment> \<open>the invariant while the chosen entry may be gone\<close>
  "queues_mid = (\<lambda>(s, d). queues_ok (s, d\<lparr>dp_dispatch := None\<rparr>))"

lemma queues_midI: "queues_ok y \<Longrightarrow> queues_mid y"
  by (cases y) (simp add: queues_mid_def queues_ok_def)

lemma queues_drop: "queues_mid y \<Longrightarrow> queues_ok (dropDispatch y)"
  by (cases y) (auto simp: queues_mid_def queues_ok_def dropDispatch_def split: option.split)

lemma queues_leave:
  assumes "queues_mid (s, d)"
  shows "map_of (dp_pending d) k = Some e \<Longrightarrow> queues_mid (s, d\<lparr>dp_pending := leaveMap k w e (dp_pending d)\<rparr>)"
    and "map_of (dp_rerun d) k = Some e \<Longrightarrow> queues_mid (s, d\<lparr>dp_rerun := leaveMap k w e (dp_rerun d)\<rparr>)"
    and "map_of (dp_active d) k \<noteq> None \<Longrightarrow> queues_mid (s, d\<lparr>dp_active := AList.update k a (dp_active d)\<rparr>)"
  using assms by (auto simp: queues_mid_def queues_ok_def leaveMap_def gomap_simps)

lemma queues_cancelWaiter:
  assumes "queues_ok (s, d)"
  shows "queues_ok (dropDispatch (cancelProbeWaiter key w (s, d)))"
proof (rule queues_drop)
  note m = queues_midI [OF assms]
  have same: "queues_mid (answer w x s, d') = queues_mid (s, d')" "queues_mid (cancelContext i (answer w x s), d') = queues_mid (s, d')" for x i d'
    by (simp_all add: queues_mid_def queues_ok_def)
  show "queues_mid (cancelProbeWaiter key w (s, d))"
    using m queues_leave [OF m, of key] by (simp add: cancelProbeWaiter_def Let_def same split: option.split)
qed

lemma unmatching_lookup [simp]:
  "map_of (unmatching removal m) k = (if probeRemovalMatches removal k then None else map_of m k)"
  by (induction m) (auto simp: unmatching_def)

lemma unmatching_wf [simp]: "gm_wf m \<Longrightarrow> gm_wf (unmatching removal m)"
  by (induction m) (auto simp: unmatching_def)

lemma unmatching_length: "length (unmatching removal m) \<le> length m"
  by (simp add: unmatching_def)

lemma queues_remove: "queues_ok (s, d) \<Longrightarrow> queues_ok (dropDispatch (removeProbes obs removal (s, d)))"
  using unmatching_length [of removal "dp_pending d"] unmatching_length [of removal "dp_rerun d"]
  by (intro queues_drop) (auto simp: queues_mid_def queues_ok_def removeProbes_def Let_def)

lemma queues_dispatch: "queues_ok (s, d) \<Longrightarrow> queues_ok (dispatchJob now (s, d))"
  by (auto simp: queues_ok_def dispatchJob_def gomap_simps split: option.split)


lemma nextProbe_key:
  assumes "nextProbe now completion rerun = Some e" and "pt_Key (cp_task completion) = cp_key completion"
    and "\<forall>e. rerun = Some e \<longrightarrow> pt_Key (sp_task e) = cp_key completion"
  shows "pt_Key (sp_task e) = cp_key completion"
  using assms by (auto simp: nextProbe_def split: if_splits option.splits)

lemma queues_complete:
  assumes q: "queues_ok (s, d)" and k: "pt_Key (cp_task completion) = cp_key completion"
  shows "queues_ok (completeProbe obs now completion (s, d))"
proof (cases "map_of (dp_active d) (cp_key completion)")
  case None
  then show ?thesis using q by (simp add: completeProbe_def)
next
  case (Some running)
  let ?d1 = "d\<lparr>dp_active := AList.delete (cp_key completion) (dp_active d), dp_rerun := AList.delete (cp_key completion) (dp_rerun d)\<rparr>"
  let ?s1 = "finish obs (ab_entry running) (cp_result completion) (countStat incCompleted (cancelContext (ab_ctx running) s))"
  have q1: "queues_ok (?s1, ?d1)" using q by (auto simp: queues_ok_def gomap_simps)
  show ?thesis
  proof (cases "nextProbe now completion (map_of (dp_rerun d) (cp_key completion))")
    case None
    then show ?thesis using Some q1 by (simp add: completeProbe_def Let_def)
  next
    case (Some e)
    have key: "pt_Key (sp_task e) = cp_key completion"
      using q by (intro nextProbe_key [OF Some k]) (simp add: queues_ok_def)
    have "queues_ok (?s1, ?d1\<lparr>dp_pending := AList.update (cp_key completion) e (dp_pending ?d1)\<rparr>)" if "\<not> queueFull (?s1, ?d1)"
      using q by (intro queues_new(1) [OF q1 that key]) (simp add: queues_ok_def gomap_simps)
    moreover have "queues_ok (deferEntry obs e queueFullReason ?s1, ?d1)" using q1 by (simp add: queues_ok_def)
    ultimately show ?thesis using \<open>map_of (dp_active d) (cp_key completion) = Some running\<close> Some key
      by (simp add: completeProbe_def Let_def)
  qed
qed

lemma queues_stop: "queues_ok (s, d) \<Longrightarrow> queues_ok (stopDispatcher obs (s, d))"
  by (simp add: queues_ok_def stopDispatcher_def Let_def)

section \<open>Every waiter is in one place\<close>

definition valueWaiters :: "('v \<Rightarrow> nat list) \<Rightarrow> ('k, 'v) gomap \<Rightarrow> nat multiset" where
  "valueWaiters f m = mset (concat (map (f \<circ> snd) m))"

definition mailWaiters :: "probe_mail list \<Rightarrow> nat multiset" where
  "mailWaiters ms = mset (concat (map (\<lambda>m. case m of MailSubmit task w \<Rightarrow> [w] | _ \<Rightarrow> []) ms))"

abbreviation runningWaiters :: "active_probe \<Rightarrow> nat list" where
  "runningWaiters \<equiv> sp_waiters \<circ> ab_entry"

definition queueWaiters :: "dispatcher \<Rightarrow> nat multiset" where
  "queueWaiters d = valueWaiters sp_waiters (dp_pending d) + valueWaiters sp_waiters (dp_rerun d) + valueWaiters runningWaiters (dp_active d)"

definition settledWaiters :: "probe_scheduler \<Rightarrow> nat multiset" where
  "settledWaiters s = mset (map fst (ps_answers s)) + mset (ps_withdrawn s)"

definition allWaiters :: "probe_state \<Rightarrow> nat multiset" where
  "allWaiters = (\<lambda>(s, d). settledWaiters s + mailWaiters (ps_mail s) + queueWaiters d)"

definition issuedWaiters :: "probe_scheduler \<Rightarrow> nat multiset" where
  "issuedWaiters s = mset [1..<Suc (ps_waiterID s)]"

definition waiters_ok :: "probe_state \<Rightarrow> bool" where
  "waiters_ok y \<longleftrightarrow> allWaiters y = issuedWaiters (fst y)"

lemma value_simps [simp]:
  "valueWaiters f [] = {#}" "valueWaiters f (x # m) = mset (f (snd x)) + valueWaiters f m"
  by (simp_all add: valueWaiters_def)

lemma value_put_new: "map_of m k = None \<Longrightarrow> valueWaiters f (AList.update k v m) = valueWaiters f m + mset (f v)"
  by (induction m) (auto split: if_splits)

lemma value_delete: "gm_wf m \<Longrightarrow> map_of m k = Some v \<Longrightarrow> valueWaiters f m = valueWaiters f (AList.delete k m) + mset (f v)"
proof (induction m)
  case (Cons x m)
  show ?case
  proof (cases "fst x = k")
    case True
    then have "map_of m k = None" using Cons.prems(1) by (auto simp: map_of_eq_None_iff)
    then have "AList.delete k m = m" by (simp add: delete_id map_of_eq_None_iff)
    then show ?thesis using True Cons.prems by (cases x) simp
  next
    case False
    then show ?thesis using Cons by (cases x) simp
  qed
qed simp

lemma value_put: "gm_wf m \<Longrightarrow> map_of m k = Some v \<Longrightarrow> valueWaiters f (AList.update k v' m) + mset (f v) = valueWaiters f m + mset (f v')"
  by (induction m) (auto split: if_splits simp: map_of_eq_None_iff)

lemma value_delete_none: "map_of m k = None \<Longrightarrow> valueWaiters f (AList.delete k m) = valueWaiters f m"
  by (simp add: delete_id map_of_eq_None_iff)

lemma value_partition: "valueWaiters f m = valueWaiters f (matching r m) + valueWaiters f (unmatching r m)"
  by (induction m) (auto simp: matching_def unmatching_def)

lemma finishAll_settled [simp]:
  "settledWaiters (finishAll obs r (map snd m) s) = settledWaiters s + valueWaiters sp_waiters m"
  by (simp add: settledWaiters_def valueWaiters_def comp_def)

lemma finish_settled [simp]:
  "settledWaiters (finish obs e r s) = settledWaiters s + mset (sp_waiters e)"
  "settledWaiters (deferEntry obs e x s) = settledWaiters s + mset (sp_waiters e)"
  "settledWaiters (deferWaiter w x s) = settledWaiters s + {#w#}"
  "settledWaiters (answer w r s) = settledWaiters s + {#w#}"
  "settledWaiters (cancelContext i s) = settledWaiters s"
  "settledWaiters (countStat f s) = settledWaiters s"
  "settledWaiters (fold (\<lambda>(k, running). cancelContext (ab_ctx running)) xs s) = settledWaiters s"
  by (simp_all add: settledWaiters_def comp_def)

lemma issued_count: "waiters_ok y \<Longrightarrow> count (allWaiters y) w \<le> 1"
proof -
  have "distinct [1..<Suc (ps_waiterID (fst y))]" by (rule distinct_upt)
  then have "count (mset [1..<Suc (ps_waiterID (fst y))]) w \<le> 1" by (simp only: distinct_count_atmost_1) simp
  then show "waiters_ok y \<Longrightarrow> ?thesis" by (simp only: waiters_ok_def issuedWaiters_def)
qed

lemma stopActive_settled [simp]:
  "settledWaiters (fold (\<lambda>(k, running) s. finish obs (ab_entry running) r (cancelContext (ab_ctx running) s)) m s)
     = settledWaiters s + valueWaiters runningWaiters m"
  by (induction m arbitrary: s) (simp_all add: case_prod_unfold add.assoc)


lemma value_join:
  assumes "gm_wf m" and "map_of m k = Some v" and "mset (f v') = mset (f v) + X"
  shows "valueWaiters f (AList.update k v' m) = valueWaiters f m + X"
  using value_put [OF assms(1,2), of f v'] assms(3) by (simp add: ac_simps)

lemma value_sub: "map_of m k = Some v \<Longrightarrow> count (mset (f v)) w \<le> count (valueWaiters f m) w"
  by (induction m) (auto split: if_splits)

lemma insert_waiter: "count (mset ws) w = 0 \<Longrightarrow> mset (List.insert w ws) = mset ws + {#w#}"
  by (simp add: List.insert_def)

lemma remove_waiter: "count (mset ws) w \<le> 1 \<Longrightarrow> w \<in> set ws \<Longrightarrow> mset ws = mset (removeAll w ws) + {#w#}"
proof (induction ws)
  case (Cons x ws)
  then show ?case by (cases "x = w") (auto simp: removeAll_id)
qed simp

lemma waiters_parts: "allWaiters (s, d) = settledWaiters s + mailWaiters (ps_mail s) + queueWaiters d"
  by (simp add: allWaiters_def)

lemma waiters_accept:
  assumes q: "queues_ok (s, d)" and w: "count (queueWaiters d) w = 0"
  shows "allWaiters (fst (acceptSubmission task w (s, d))) = allWaiters (s, d) + {#w#}"
proof -
  let ?k = "pt_Key task"
  have wf: "gm_wf (dp_pending d)" "gm_wf (dp_active d)" "gm_wf (dp_rerun d)" using q by (simp_all add: queues_ok_def)
  have zero: "count (valueWaiters sp_waiters (dp_pending d)) w = 0" "count (valueWaiters sp_waiters (dp_rerun d)) w = 0"
      "count (valueWaiters runningWaiters (dp_active d)) w = 0" using w by (simp_all add: queueWaiters_def)
  have join: "valueWaiters sp_waiters (AList.update ?k (joinProbe task w e) m) = valueWaiters sp_waiters m + {#w#}"
    if "gm_wf m" "map_of m ?k = Some e" "count (valueWaiters sp_waiters m) w = 0" for m e
  proof (rule value_join [OF that(1,2)])
    have "count (mset (sp_waiters e)) w = 0" using value_sub [OF that(2), of sp_waiters w] that(3) by simp
    then show "mset (sp_waiters (joinProbe task w e)) = mset (sp_waiters e) + {#w#}" by (simp add: joinProbe_def insert_waiter)
  qed
  have act: "valueWaiters runningWaiters (AList.update ?k
      (r\<lparr>ab_entry := (ab_entry r)\<lparr>sp_waiters := List.insert w (sp_waiters (ab_entry r))\<rparr>\<rparr>) (dp_active d)) = valueWaiters runningWaiters (dp_active d) + {#w#}"
    if "map_of (dp_active d) ?k = Some r" for r
  proof (rule value_join [OF wf(2) that])
    have "count (mset (runningWaiters r)) w = 0" using value_sub [OF that, of runningWaiters w] zero by simp
    then show "mset (runningWaiters (r\<lparr>ab_entry := (ab_entry r)\<lparr>sp_waiters := List.insert w (sp_waiters (ab_entry r))\<rparr>\<rparr>)) = mset (runningWaiters r) + {#w#}"
      by (simp add: insert_waiter)
  qed
  show ?thesis
  proof (cases "map_of (dp_pending d) ?k")
    case (Some e)
    then show ?thesis using join [OF wf(1) Some zero(1)] by (simp add: acceptSubmission_def Let_def waiters_parts queueWaiters_def)
  next
    case None
    note p = this value_put_new [OF this, of sp_waiters "\<lparr>sp_task = task, sp_waiters = [w]\<rparr>"]
    show ?thesis
    proof (cases "map_of (dp_active d) ?k")
      case None
      then show ?thesis using p by (simp add: acceptSubmission_def Let_def waiters_parts queueWaiters_def)
    next
      case (Some r)
      note a = this act [OF this]
      show ?thesis
      proof (cases "map_of (dp_rerun d) ?k")
        case None
        then show ?thesis using p(1) a value_put_new [OF None, of sp_waiters "\<lparr>sp_task = task, sp_waiters = [w]\<rparr>"]
          by (simp add: acceptSubmission_def Let_def waiters_parts queueWaiters_def)
      next
        case (Some e)
        then show ?thesis using p(1) a join [OF wf(3) Some zero(2)] by (simp add: acceptSubmission_def Let_def waiters_parts queueWaiters_def)
      qed
    qed
  qed
qed

lemma waiters_drop [simp]: "allWaiters (dropDispatch y) = allWaiters y"
  by (cases y) (auto simp: dropDispatch_def waiters_parts queueWaiters_def split: option.split)

lemma value_leave:
  assumes "gm_wf m" and "map_of m k = Some e" and "count (valueWaiters sp_waiters m) w \<le> 1" and "w \<in> set (sp_waiters e)"
  shows "valueWaiters sp_waiters m = valueWaiters sp_waiters (leaveMap k w e m) + {#w#}"
proof -
  have "count (mset (sp_waiters e)) w \<le> 1" using value_sub [OF assms(2), of sp_waiters w] assms(3) by simp
  from remove_waiter [OF this assms(4)] have e: "mset (sp_waiters e) = mset (sp_waiters (leaveProbe w e)) + {#w#}" by (simp add: leaveProbe_def)
  show ?thesis
  proof (cases "deserted (leaveProbe w e)")
    case True
    then have "mset (sp_waiters e) = {#w#}" using e by (simp add: deserted_def)
    then show ?thesis using True value_delete [OF assms(1,2), of sp_waiters] by (simp add: leaveMap_def)
  next
    case False
    have "valueWaiters sp_waiters (AList.update k (leaveProbe w e) m) + mset (sp_waiters e) = valueWaiters sp_waiters m + mset (sp_waiters (leaveProbe w e))"
      by (rule value_put [OF assms(1,2)])
    then show ?thesis using False e by (simp add: leaveMap_def)
  qed
qed

lemma waiters_cancel:
  assumes q: "queues_ok (s, d)" and w: "count (queueWaiters d) w \<le> 1"
  shows "allWaiters (cancelProbeWaiter key w (s, d)) = allWaiters (s, d)"
proof -
  have wf: "gm_wf (dp_pending d)" "gm_wf (dp_active d)" "gm_wf (dp_rerun d)" using q by (simp_all add: queues_ok_def)
  have one: "count (valueWaiters sp_waiters (dp_pending d)) w \<le> 1" "count (valueWaiters sp_waiters (dp_rerun d)) w \<le> 1"
      "count (valueWaiters runningWaiters (dp_active d)) w \<le> 1" using w by (simp_all add: queueWaiters_def)
  have act: "valueWaiters runningWaiters (dp_active d) =
      valueWaiters runningWaiters (AList.update key (r\<lparr>ab_entry := leaveProbe w (ab_entry r)\<rparr>) (dp_active d)) + {#w#}"
    if r: "map_of (dp_active d) key = Some r" "w \<in> set (sp_waiters (ab_entry r))" for r
  proof -
    have "count (mset (runningWaiters r)) w \<le> 1" using value_sub [OF r(1), of runningWaiters w] one by simp
    then have "mset (runningWaiters r) = mset (runningWaiters (r\<lparr>ab_entry := leaveProbe w (ab_entry r)\<rparr>)) + {#w#}"
      using remove_waiter [of "runningWaiters r" w] r(2) by (simp add: leaveProbe_def)
    then show ?thesis using value_put [OF wf(2) r(1), of runningWaiters "r\<lparr>ab_entry := leaveProbe w (ab_entry r)\<rparr>"] by simp
  qed
  show ?thesis
  proof (cases "map_of (dp_pending d) key")
    case (Some e)
    then show ?thesis using value_leave [OF wf(1) Some one(1)] by (simp add: cancelProbeWaiter_def Let_def waiters_parts queueWaiters_def)
  next
    case None
    note p = this
    show ?thesis
    proof (cases "map_of (dp_rerun d) key")
      case (Some e)
      then show ?thesis using p value_leave [OF wf(3) Some one(2)] by (simp add: cancelProbeWaiter_def Let_def waiters_parts queueWaiters_def)
    next
      case None
      then show ?thesis using p act by (auto simp: cancelProbeWaiter_def Let_def waiters_parts queueWaiters_def split: option.split)
    qed
  qed
qed

lemma waiters_remove: "allWaiters (removeProbes obs removal (s, d)) = allWaiters (s, d)"
  using value_partition [of sp_waiters "dp_pending d" removal] value_partition [of sp_waiters "dp_rerun d" removal]
  by (simp add: removeProbes_def Let_def waiters_parts queueWaiters_def)

lemma waiters_loopTop: "allWaiters (loopTop now (s, d)) = allWaiters (s, d)"
  by (cases rule: loopTop_cases [of now s d]) (simp_all add: waiters_parts queueWaiters_def settledWaiters_def newProbeDispatchContext_def)

lemma waiters_dispatch:
  assumes "queues_ok (s, d)"
  shows "allWaiters (dispatchJob now (s, d)) = allWaiters (s, d)"
proof (cases "dp_dispatch d")
  case None
  then show ?thesis by (simp add: dispatchJob_def)
next
  case (Some kc)
  obtain k c where kc: "kc = (k, c)" by (cases kc)
  then obtain e where e: "map_of (dp_pending d) k = Some e" using assms Some by (auto simp: queues_ok_def)
  have wf: "gm_wf (dp_pending d)" "map_of (dp_active d) k = None" using assms e by (auto simp: queues_ok_def)
  show ?thesis using Some kc e value_delete [OF wf(1) e, of sp_waiters] value_put_new [OF wf(2), of runningWaiters "\<lparr>ab_entry = e, ab_ctx = c\<rparr>"]
    by (simp add: dispatchJob_def waiters_parts queueWaiters_def settledWaiters_def)
qed

lemma nextProbe_waiters:
  "(case nextProbe now c r of None \<Rightarrow> [] | Some e \<Rightarrow> sp_waiters e) = (case r of None \<Rightarrow> [] | Some e \<Rightarrow> sp_waiters e)"
  by (auto simp: nextProbe_def split: option.split)

lemma waiters_complete:
  assumes q: "queues_ok (s, d)" and k: "pt_Key (cp_task completion) = cp_key completion"
  shows "allWaiters (completeProbe obs now completion (s, d)) = allWaiters (s, d)"
proof (cases "map_of (dp_active d) (cp_key completion)")
  case None
  then show ?thesis by (simp add: completeProbe_def)
next
  case (Some running)
  note a = this
  let ?k = "cp_key completion" and ?r = "map_of (dp_rerun d) (cp_key completion)"
  have wf: "gm_wf (dp_active d)" "gm_wf (dp_rerun d)" "map_of (dp_pending d) ?k = None" using q a by (auto simp: queues_ok_def)
  have rerun: "valueWaiters sp_waiters (dp_rerun d) =
      valueWaiters sp_waiters (AList.delete ?k (dp_rerun d)) + mset (case ?r of None \<Rightarrow> [] | Some e \<Rightarrow> sp_waiters e)"
    using value_delete [OF wf(2)] value_delete_none [of "dp_rerun d" ?k sp_waiters] by (cases ?r) auto
  note act = value_delete [OF wf(1) a, of runningWaiters]
  show ?thesis
  proof (cases "nextProbe now completion ?r")
    case None
    then show ?thesis using a act rerun nextProbe_waiters [of now completion ?r]
      by (simp add: completeProbe_def Let_def waiters_parts queueWaiters_def)
  next
    case (Some e)
    have "pt_Key (sp_task e) = ?k" using q by (intro nextProbe_key [OF Some k]) (simp add: queues_ok_def)
    then show ?thesis using a act rerun Some nextProbe_waiters [of now completion ?r] value_put_new [OF wf(3), of sp_waiters e]
      by (simp add: completeProbe_def Let_def waiters_parts queueWaiters_def)
  qed
qed

lemma waiters_stop: "allWaiters (stopDispatcher obs (s, d)) = allWaiters (s, d)"
proof -
  have "settledWaiters (s'\<lparr>ps_depth := n, ps_closed := b\<rparr>) = settledWaiters s'" for s' n b by (simp add: settledWaiters_def)
  then show ?thesis by (simp add: stopDispatcher_def Let_def waiters_parts queueWaiters_def ac_simps split: option.split)
qed

end
