(* ===== verification/Probe_Run.thy ===== *)
theory Probe_Run
  imports Probe_System
begin

text \<open>
  The invariant of the probe scheduler is kept by every step. The theory adds to the agreement of
  the maps and the account of the waiters what is in flight (a key is run by at most one worker,
  and its completion finds its entry) and the ownership, and then puts the steps together.
\<close>

section \<open>What is in flight\<close>

definition flightKeys :: "probe_scheduler \<Rightarrow> probe_key list" where
  "flightKeys s = map (pt_Key \<circ> jb_task) (ps_running s) @ map cp_key (ps_done s)"

abbreviation activeKeys :: "dispatcher \<Rightarrow> probe_key set" where
  "activeKeys d \<equiv> dom (map_of (dp_active d))"

lemma dom_put: "dom (map_of (AList.update k v m)) = insert k (dom (map_of m))"
  by (auto simp: gomap_simps split: if_splits)

lemma dom_del: "dom (map_of (AList.delete k m)) = dom (map_of m) - {k}"
  by (auto simp: gomap_simps split: if_splits)

definition flight_ok :: "probe_state \<Rightarrow> bool" where
  "flight_ok = (\<lambda>(s, d).
     distinct (flightKeys s)
     \<and> (\<not> ps_closed s \<longrightarrow> set (flightKeys s) \<subseteq> activeKeys d)
     \<and> (\<not> ps_cancelled s \<longrightarrow> activeKeys d \<subseteq> set (flightKeys s))
     \<and> (\<forall>c. c \<in> set (ps_done s) \<longrightarrow> pt_Key (cp_task c) = cp_key c)
     \<and> length (ps_running s) + ps_idle s \<le> ps_workers s
     \<and> (ps_closed s \<longrightarrow> ps_cancelled s \<and> dp_pending d = [] \<and> dp_active d = [] \<and> dp_rerun d = [] \<and> dp_dispatch d = None))"

definition flightPart :: "probe_scheduler \<Rightarrow> _" where
  "flightPart s = (ps_running s, ps_done s, ps_closed s, ps_cancelled s, ps_idle s, ps_workers s)"

lemma flight_frame:
  assumes "flight_ok (s, d)" and "flightPart s' = flightPart s" and "activeKeys d' = activeKeys d" and "\<not> ps_closed s"
  shows "flight_ok (s', d')"
  using assms by (simp add: flight_ok_def flightPart_def flightKeys_def)

lemma active_accept: "activeKeys (snd (fst (acceptSubmission task w (s, d)))) = activeKeys d"
  by (auto simp: acceptSubmission_def Let_def dom_put split: option.split)

lemma part_accept: "flightPart (fst (fst (acceptSubmission task w (s, d)))) = flightPart s"
  by (auto simp: flightPart_def acceptSubmission_def Let_def split: option.split)

lemma active_cancel: "activeKeys (snd (dropDispatch (cancelProbeWaiter key w (s, d)))) = activeKeys d"
  by (auto simp: cancelProbeWaiter_def dropDispatch_def Let_def dom_put split: option.split)

lemma part_drop: "flightPart (fst (dropDispatch y)) = flightPart (fst y)"
  by (cases y) (auto simp: flightPart_def dropDispatch_def split: option.split)

lemma part_cancel: "flightPart (fst (cancelProbeWaiter key w (s, d))) = flightPart s"
  by (auto simp: flightPart_def cancelProbeWaiter_def Let_def split: option.split)

lemma active_remove: "activeKeys (snd (dropDispatch (removeProbes obs removal (s, d)))) = activeKeys d"
  by (auto simp: removeProbes_def dropDispatch_def Let_def split: option.split)

lemma part_remove: "flightPart (fst (removeProbes obs removal (s, d))) = flightPart s"
  by (simp add: flightPart_def removeProbes_def Let_def)

lemma loopTop_part: "flightPart (fst (loopTop now (s, d))) = flightPart s \<and> activeKeys (snd (loopTop now (s, d))) = activeKeys d"
  by (cases rule: loopTop_cases [of now s d]) (simp_all add: flightPart_def newProbeDispatchContext_def)

lemma flight_dispatch:
  assumes "flight_ok (s, d)" and q: "queues_ok (s, d)" and "\<not> ps_closed s" and idle: "0 < ps_idle s"
  shows "flight_ok (dispatchJob now (s, d))"
proof (cases "dp_dispatch d")
  case None
  then show ?thesis using assms by (simp add: dispatchJob_def)
next
  case (Some kc)
  obtain k c where kc: "kc = (k, c)" by (cases kc)
  then obtain e where e: "map_of (dp_pending d) k = Some e" using q Some by (auto simp: queues_ok_def)
  have key: "pt_Key (sp_task e) = k" "map_of (dp_active d) k = None" using q e by (auto simp: queues_ok_def)
  then have "k \<notin> set (flightKeys s)" using assms(1,3) by (auto simp: flight_ok_def)
  then show ?thesis using assms Some kc e key by (auto simp: dispatchJob_def flight_ok_def flightKeys_def dom_put)
qed

lemma flight_complete:
  assumes f: "flight_ok (s, d)" and q: "queues_ok (s, d)" and opn: "\<not> ps_closed s" and dn: "ps_done s = c # cs"
  shows "flight_ok (completeProbe obs now c (s\<lparr>ps_done := cs\<rparr>, d))"
proof -
  have key: "pt_Key (cp_task c) = cp_key c" and active: "map_of (dp_active d) (cp_key c) \<noteq> None"
    using f opn dn by (auto simp: flight_ok_def flightKeys_def)
  let ?y = "completeProbe obs now c (s\<lparr>ps_done := cs\<rparr>, d)"
  have part: "flightPart (fst ?y) = flightPart (s\<lparr>ps_done := cs\<rparr>)"
    by (auto simp: flightPart_def completeProbe_def Let_def split: option.split)
  have dom: "activeKeys (snd ?y) = activeKeys d - {cp_key c}"
    using active by (auto simp: completeProbe_def Let_def dom_del split: option.split)
  have "cp_key c \<notin> set (flightKeys (s\<lparr>ps_done := cs\<rparr>))" "distinct (flightKeys (s\<lparr>ps_done := cs\<rparr>))"
      "set (flightKeys s) = insert (cp_key c) (set (flightKeys (s\<lparr>ps_done := cs\<rparr>)))"
    using f dn by (auto simp: flight_ok_def flightKeys_def)
  moreover have "flightKeys (fst ?y) = flightKeys (s\<lparr>ps_done := cs\<rparr>)" using part by (simp add: flightPart_def flightKeys_def)
  moreover have "set (flightKeys s) \<subseteq> activeKeys d" "\<not> ps_cancelled s \<longrightarrow> activeKeys d \<subseteq> set (flightKeys s)"
    using f opn by (simp_all add: flight_ok_def)
  ultimately have "set (flightKeys (fst ?y)) \<subseteq> activeKeys (snd ?y)" "\<not> ps_cancelled s \<longrightarrow> activeKeys (snd ?y) \<subseteq> set (flightKeys (fst ?y))"
      "distinct (flightKeys (fst ?y))"
    unfolding dom by auto
  then show ?thesis using f opn dn part by (simp add: flight_ok_def flightPart_def case_prod_unfold)
qed

lemma flight_stop: "flight_ok (s, d) \<Longrightarrow> ps_cancelled s \<Longrightarrow> flight_ok (stopDispatcher obs (s, d))"
  by (auto simp: flight_ok_def flightKeys_def stopDispatcher_def Let_def split: option.split)

section \<open>Ownership\<close>

definition owner_ok :: "probe_state \<Rightarrow> bool" where
  "owner_ok = (\<lambda>(s, d).
     (activeKeys d \<noteq> {} \<or> ps_running s \<noteq> [] \<or> dp_dispatch d \<noteq> None \<longrightarrow> dp_ownerReady d)
     \<and> (dp_ownerReady d \<and> ps_ownership s \<noteq> None \<longrightarrow> ownerTokenReady s))"

lemma tokenReady_updates [simp]:
  "ownerTokenReady (s\<lparr>ps_depth := x0\<rparr>) = ownerTokenReady s" "ownerTokenReady (s\<lparr>ps_contexts := x1\<rparr>) = ownerTokenReady s"
   "ownerTokenReady (s\<lparr>ps_done := x2\<rparr>) = ownerTokenReady s" "ownerTokenReady (s\<lparr>ps_running := x3\<rparr>) = ownerTokenReady s"
   "ownerTokenReady (s\<lparr>ps_idle := x4\<rparr>) = ownerTokenReady s" "ownerTokenReady (s\<lparr>ps_mail := x5\<rparr>) = ownerTokenReady s"
   "ownerTokenReady (s\<lparr>ps_replies := x6\<rparr>) = ownerTokenReady s" "ownerTokenReady (s\<lparr>ps_withdrawn := x7\<rparr>) = ownerTokenReady s"
   "ownerTokenReady (s\<lparr>ps_waiterID := x8\<rparr>) = ownerTokenReady s" "ownerTokenReady (s\<lparr>ps_cancelled := x9\<rparr>) = ownerTokenReady s"
   "ownerTokenReady (s\<lparr>ps_closed := x10\<rparr>) = ownerTokenReady s"
  by (rule tokenReady_cong; simp)+

lemma token_ready_stays:
  assumes "owner_step c c'" and "i < length (sc_tokens c)" and "ot_ready (sc_tokens c ! i)"
  shows "i < length (sc_tokens c') \<and> ot_ready (sc_tokens c' ! i)"
proof -
  have upd: "i < length (sc_tokens (updateToken j f c)) \<and> ot_ready (sc_tokens (updateToken j f c) ! i)"
    if "\<And>t. ot_ready t \<Longrightarrow> ot_ready (f t)" for j f
    using assms(2,3) that by (cases "j = i") (auto simp: updateToken_def nth_list_update)
  have revoke: "i < length (sc_tokens (revokeOwner j c)) \<and> ot_ready (sc_tokens (revokeOwner j c) ! i)" for j
    unfolding revokeOwner_def by (rule upd) simp
  from assms(1) show ?thesis
  proof cases
    case (claim e)
    then show ?thesis using assms revoke
      by (cases "sc_token c") (auto simp: Claim_def Let_def nth_append less_SucI)
  next
    case (release e g)
    then show ?thesis using assms revoke by (auto simp: ReleaseOwner_def split: option.split)
  next
    case (finish j)
    then show ?thesis using upd [of "ot_done_update (\<lambda>_. True)" j] by (simp add: markDone_def)
  next
    case background
    then show ?thesis
      using upd [of "ot_ready_update (\<lambda>_. True)"] upd [of "ot_drained_update (\<lambda>_. True)"]
      by (elim goroutine_stepE) (simp_all add: openReady_def closeDrained_def)
  qed
qed

lemma owner_frame:
  assumes "owner_ok (s, d)" and "ps_running s' = ps_running s" and "ps_ownership s' = ps_ownership s" and "ownerTokenReady s' = ownerTokenReady s"
    and "activeKeys d' = activeKeys d" and "dp_ownerReady d' = dp_ownerReady d" and "dp_dispatch d' = dp_dispatch d \<or> dp_dispatch d' = None"
  shows "owner_ok (s', d')"
  using assms(1-6) unfolding owner_ok_def prod.case by (rule_tac disjE [OF assms(7)]) (simp, auto)


lemma owner_accept: "owner_ok (s, d) \<Longrightarrow> owner_ok (fst (acceptSubmission task w (s, d)))"
proof -
  assume ok: "owner_ok (s, d)"
  have "owner_ok (fst (fst (acceptSubmission task w (s, d))), snd (fst (acceptSubmission task w (s, d))))"
    by (rule owner_frame [OF ok _ _ _ active_accept]) (auto simp: acceptSubmission_def Let_def split: option.split)
  then show ?thesis by simp
qed

lemma owner_cancel: "owner_ok (s, d) \<Longrightarrow> owner_ok (dropDispatch (cancelProbeWaiter key w (s, d)))"
proof -
  assume ok: "owner_ok (s, d)"
  let ?y = "dropDispatch (cancelProbeWaiter key w (s, d))"
  have "owner_ok (fst ?y, snd ?y)"
    by (rule owner_frame [OF ok _ _ _ active_cancel]) (auto simp: cancelProbeWaiter_def dropDispatch_def Let_def split: option.split)
  then show ?thesis by simp
qed

lemma owner_remove: "owner_ok (s, d) \<Longrightarrow> owner_ok (dropDispatch (removeProbes obs removal (s, d)))"
proof -
  assume ok: "owner_ok (s, d)"
  let ?y = "dropDispatch (removeProbes obs removal (s, d))"
  have "owner_ok (fst ?y, snd ?y)"
    by (rule owner_frame [OF ok _ _ _ active_remove]) (auto simp: removeProbes_def dropDispatch_def Let_def split: option.split)
  then show ?thesis by simp
qed

lemma owner_loopTop: "owner_ok (s, d) \<Longrightarrow> owner_ok (loopTop now (s, d))"
proof (cases rule: loopTop_cases [of now s d])
  case same
  then show "owner_ok (s, d) \<Longrightarrow> ?thesis" by (simp add: owner_ok_def)
next
  case (chosen e st st' c)
  then show "owner_ok (s, d) \<Longrightarrow> ?thesis" by (simp add: owner_ok_def newProbeDispatchContext_def)
qed

lemma owner_dispatch: "owner_ok (s, d) \<Longrightarrow> owner_ok (dispatchJob now (s, d))"
  by (auto simp: owner_ok_def dispatchJob_def split: option.split)

lemma owner_complete: "owner_ok (s, d) \<Longrightarrow> owner_ok (completeProbe obs now c (s\<lparr>ps_done := cs\<rparr>, d))"
proof -
  assume ok: "owner_ok (s, d)"
  let ?y = "completeProbe obs now c (s\<lparr>ps_done := cs\<rparr>, d)"
  have "activeKeys (snd ?y) \<subseteq> activeKeys d" "ps_running (fst ?y) = ps_running s" "ps_ownership (fst ?y) = ps_ownership s"
      "ownerTokenReady (fst ?y) = ownerTokenReady s" "dp_ownerReady (snd ?y) = dp_ownerReady d" "dp_dispatch (snd ?y) = dp_dispatch d"
    by (auto simp: completeProbe_def Let_def dom_del split: option.split)
  then show ?thesis using ok by (auto simp: owner_ok_def case_prod_unfold)
qed

lemma owner_stop: "owner_ok (s, d) \<Longrightarrow> owner_ok (stopDispatcher obs (s, d))"
  by (auto simp: owner_ok_def stopDispatcher_def Let_def split: option.split)

section \<open>The invariant\<close>

definition probe_ok :: "probe_state \<Rightarrow> bool" where
  "probe_ok y \<longleftrightarrow> queues_ok y \<and> waiters_ok y \<and> flight_ok y \<and> owner_ok y"

lemma waiters_okI: "waiters_ok (s, d) \<Longrightarrow> allWaiters y = allWaiters (s, d) \<Longrightarrow> ps_waiterID (fst y) = ps_waiterID s \<Longrightarrow> waiters_ok y"
  by (simp add: waiters_ok_def issuedWaiters_def)

lemma ok_loopTop:
  assumes "probe_ok (s, d)" and "\<not> ps_closed s"
  shows "probe_ok (loopTop now (s, d))" "ps_closed (fst (loopTop now (s, d))) = ps_closed s"
proof -
  have id: "ps_waiterID (fst (loopTop now (s, d))) = ps_waiterID s"
    by (cases rule: loopTop_cases [of now s d]) (simp_all add: newProbeDispatchContext_def)
  have "flight_ok (fst (loopTop now (s, d)), snd (loopTop now (s, d)))"
    using assms loopTop_part [of now s d] by (rule_tac flight_frame [of s d]) (simp_all add: probe_ok_def)
  then show "probe_ok (loopTop now (s, d))"
    using assms(1) waiters_okI [OF _ waiters_loopTop id] by (simp add: probe_ok_def queues_loopTop owner_loopTop)
  show "ps_closed (fst (loopTop now (s, d))) = ps_closed s" using loopTop_part [of now s d] by (simp add: flightPart_def)
qed

lemma mail_split:
  assumes "i < length (ps_mail s)"
  shows "mailWaiters (ps_mail s) = mailWaiters (ps_mail (takeMail i s)) + mailWaiters [ps_mail s ! i]"
proof -
  have "ps_mail s = take i (ps_mail s) @ ps_mail s ! i # drop (Suc i) (ps_mail s)" by (rule id_take_nth_drop [OF assms])
  then have "mailWaiters (ps_mail s) = mailWaiters (take i (ps_mail s) @ ps_mail s ! i # drop (Suc i) (ps_mail s))" by simp
  then show ?thesis by (simp add: mailWaiters_def takeMail_def)
qed

lemma takeMail_fields [simp]:
  "queues_ok (takeMail i s, d) = queues_ok (s, d)" "flight_ok (takeMail i s, d) = flight_ok (s, d)" "owner_ok (takeMail i s, d) = owner_ok (s, d)"
  "settledWaiters (takeMail i s) = settledWaiters s" "ps_waiterID (takeMail i s) = ps_waiterID s" "ps_closed (takeMail i s) = ps_closed s"
  "ps_withdrawn (takeMail i s) = ps_withdrawn s"
  by (simp_all add: takeMail_def queues_ok_def flight_ok_def flightKeys_def owner_ok_def settledWaiters_def)

lemma reply_fields [simp]:
  "queues_ok (s\<lparr>ps_replies := r\<rparr>, d) = queues_ok (s, d)" "flight_ok (s\<lparr>ps_replies := r\<rparr>, d) = flight_ok (s, d)"
  "owner_ok (s\<lparr>ps_replies := r\<rparr>, d) = owner_ok (s, d)" "waiters_ok (s\<lparr>ps_replies := r\<rparr>, d) = waiters_ok (s, d)"
  by (simp_all add: queues_ok_def flight_ok_def flightKeys_def owner_ok_def waiters_ok_def waiters_parts
      settledWaiters_def issuedWaiters_def)

lemma ok_submission:
  assumes ok: "probe_ok (s, d)" and opn: "\<not> ps_closed s" and i: "i < length (ps_mail s)" and m: "ps_mail s ! i = MailSubmit task w"
  shows "probe_ok (handleRequest obs (MailSubmit task w) (takeMail i s, d))"
proof -
  let ?s = "takeMail i s" and ?y = "fst (acceptSubmission task w (takeMail i s, d))"
  have all: "allWaiters (s, d) = allWaiters (?s, d) + {#w#}"
    using mail_split [OF i] m by (simp add: waiters_parts mailWaiters_def)
  have "count (allWaiters (s, d)) w \<le> 1" using ok by (intro issued_count) (simp add: probe_ok_def)
  then have "count (queueWaiters d) w = 0" using all by (simp add: waiters_parts)
  moreover have q: "queues_ok (?s, d)" using ok by (simp add: probe_ok_def)
  ultimately have "allWaiters ?y = allWaiters (s, d)" using waiters_accept [of ?s d w task] all by simp
  moreover have "ps_waiterID (fst ?y) = ps_waiterID s" by (auto simp: acceptSubmission_def Let_def split: option.split)
  ultimately have "waiters_ok ?y" using ok by (rule_tac waiters_okI [of s d]) (simp_all add: probe_ok_def)
  moreover have "flight_ok (fst ?y, snd ?y)"
    using ok opn by (rule_tac flight_frame [of ?s d]) (simp_all add: probe_ok_def part_accept active_accept)
  moreover have "queues_ok ?y" "owner_ok ?y" using ok q by (auto simp: probe_ok_def intro: queues_accept owner_accept)
  ultimately show ?thesis by (cases ?y) (simp add: handleRequest_def probe_ok_def case_prod_unfold)
qed

lemma ok_cancellation:
  assumes ok: "probe_ok (s, d)" and opn: "\<not> ps_closed s" and i: "i < length (ps_mail s)" and m: "ps_mail s ! i = MailCancel key w"
  shows "probe_ok (handleRequest obs (MailCancel key w) (takeMail i s, d))"
proof -
  let ?s = "takeMail i s" and ?y = "dropDispatch (cancelProbeWaiter key w (takeMail i s, d))"
  have all: "allWaiters (?s, d) = allWaiters (s, d)" using mail_split [OF i] m by (simp add: waiters_parts mailWaiters_def)
  have "count (allWaiters (s, d)) w \<le> 1" using ok by (intro issued_count) (simp add: probe_ok_def)
  then have "count (queueWaiters d) w \<le> 1" by (simp add: waiters_parts)
  moreover have q: "queues_ok (?s, d)" using ok by (simp add: probe_ok_def)
  ultimately have "allWaiters ?y = allWaiters (s, d)" using waiters_cancel [of ?s d w key] all by simp
  moreover have "ps_waiterID (fst ?y) = ps_waiterID s"
    by (auto simp: cancelProbeWaiter_def dropDispatch_def Let_def split: option.split)
  ultimately have "waiters_ok ?y" using ok by (rule_tac waiters_okI [of s d]) (simp_all add: probe_ok_def)
  moreover have "flight_ok (fst ?y, snd ?y)"
    using ok opn by (rule_tac flight_frame [of ?s d]) (simp_all add: probe_ok_def part_drop part_cancel active_cancel)
  ultimately show ?thesis using ok q by (simp add: handleRequest_def probe_ok_def queues_cancelWaiter owner_cancel)
qed

lemma ok_removal:
  assumes ok: "probe_ok (s, d)" and opn: "\<not> ps_closed s" and i: "i < length (ps_mail s)" and m: "ps_mail s ! i = MailRemove removal"
  shows "probe_ok (handleRequest obs (MailRemove removal) (takeMail i s, d))"
proof -
  let ?s = "takeMail i s" and ?y = "dropDispatch (removeProbes obs removal (takeMail i s, d))"
  have all: "allWaiters (?s, d) = allWaiters (s, d)" using mail_split [OF i] m by (simp add: waiters_parts mailWaiters_def)
  have q: "queues_ok (?s, d)" using ok by (simp add: probe_ok_def)
  have "allWaiters ?y = allWaiters (s, d)" using all by (simp add: waiters_remove)
  moreover have "ps_waiterID (fst ?y) = ps_waiterID s" by (auto simp: removeProbes_def dropDispatch_def Let_def split: option.split)
  ultimately have "waiters_ok ?y" using ok by (rule_tac waiters_okI [of s d]) (simp_all add: probe_ok_def)
  moreover have "flight_ok (fst ?y, snd ?y)"
    using ok opn by (rule_tac flight_frame [of ?s d]) (simp_all add: probe_ok_def part_drop part_remove active_remove)
  ultimately show ?thesis using ok q by (simp add: handleRequest_def probe_ok_def queues_remove owner_remove)
qed


lemma ok_event:
  assumes ok: "probe_ok (s, d)" and opn: "\<not> ps_closed s" and ev: "eventReady now ev (s, d)"
  shows "probe_ok (handleEvent obs now ev (s, d))"
proof -
  have parts: "queues_ok (s, d)" "waiters_ok (s, d)" "flight_ok (s, d)" "owner_ok (s, d)" using ok by (simp_all add: probe_ok_def)
  show ?thesis
  proof (cases ev)
    case CtxDone
    have "ps_waiterID (fst (stopDispatcher obs (s, d))) = ps_waiterID s" by (simp add: stopDispatcher_def Let_def split: option.split)
    then have "waiters_ok (stopDispatcher obs (s, d))" by (rule waiters_okI [OF parts(2) waiters_stop])
    then show ?thesis using CtxDone ev parts
      by (simp add: handleEvent_def eventReady_def probe_ok_def queues_stop flight_stop owner_stop)
  next
    case OwnerReady
    let ?d = "d\<lparr>dp_ownerReady := True, dp_stallAt := None\<rparr>"
    have "queues_ok (s, ?d)" "waiters_ok (s, ?d)" "flight_ok (s, ?d)"
      using parts(1) apply (simp add: queues_ok_def)
      using parts(2) apply (simp add: waiters_ok_def waiters_parts queueWaiters_def)
      using parts(3) by (simp add: flight_ok_def)
    moreover have "owner_ok (s, ?d)" using OwnerReady ev by (simp add: eventReady_def owner_ok_def)
    ultimately show ?thesis using OwnerReady by (simp add: handleEvent_def probe_ok_def)
  next
    case OwnerStalled
    then show ?thesis using ev ok
      by (simp add: handleEvent_def eventReady_def probe_ok_def queues_ok_def flight_ok_def flightKeys_def owner_ok_def waiters_ok_def waiters_parts
          queueWaiters_def settledWaiters_def issuedWaiters_def)
  next
    case (Request i)
    then show ?thesis using ev ok_submission [OF ok opn] ok_cancellation [OF ok opn] ok_removal [OF ok opn]
      by (cases "ps_mail s ! i") (simp_all add: handleEvent_def eventReady_def)
  next
    case JobTaken
    have "ps_waiterID (fst (dispatchJob now (s, d))) = ps_waiterID s" by (simp add: dispatchJob_def split: option.split)
    then have "waiters_ok (dispatchJob now (s, d))" by (rule waiters_okI [OF parts(2) waiters_dispatch [OF parts(1)]])
    then show ?thesis using JobTaken ev opn parts
      by (simp add: handleEvent_def eventReady_def probe_ok_def queues_dispatch flight_dispatch owner_dispatch)
  next
    case Completed
    then obtain c cs where dn: "ps_done s = c # cs" using ev by (cases "ps_done s") (auto simp: eventReady_def)
    then have key: "pt_Key (cp_task c) = cp_key c" using parts(3) by (simp add: flight_ok_def)
    let ?s = "s\<lparr>ps_done := cs\<rparr>"
    have q: "queues_ok (?s, d)" using parts(1) by (simp add: queues_ok_def)
    have "allWaiters (completeProbe obs now c (?s, d)) = allWaiters (s, d)"
      using waiters_complete [OF q key] by (simp add: waiters_parts settledWaiters_def)
    moreover have "ps_waiterID (fst (completeProbe obs now c (?s, d))) = ps_waiterID s"
      by (auto simp: completeProbe_def Let_def split: option.split)
    ultimately have "waiters_ok (completeProbe obs now c (?s, d))" by (rule waiters_okI [OF parts(2)])
    then show ?thesis using Completed dn q key parts opn
      by (simp add: handleEvent_def probe_ok_def queues_complete flight_complete owner_complete)
  next
    case TimerFired
    then show ?thesis using ok by (simp add: handleEvent_def)
  qed
qed

lemma ok_iteration:
  assumes "probe_ok (s, d)" and "\<not> ps_closed s" and "eventReady now' ev (loopTop now (s, d))"
  shows "probe_ok (dispatcherIteration obs now now' ev (s, d))"
proof -
  obtain s1 d1 where l: "loopTop now (s, d) = (s1, d1)" by (cases "loopTop now (s, d)")
  have "probe_ok (s1, d1)" "\<not> ps_closed s1" using ok_loopTop [OF assms(1,2), of now] assms(2) l by simp_all
  then show ?thesis using assms(3) l by (simp add: dispatcherIteration_def ok_event)
qed

section \<open>Callers, workers and contexts\<close>

lemma upt_snoc: "mset [1..<Suc (Suc n)] = mset [1..<Suc n] + {#Suc n#}"
  by simp

lemma ok_submit:
  assumes "probe_ok (s, d)" and "ps_waiterID s < 2 ^ 64 - 1"
  shows "probe_ok (fst (Submit now task s), d)"
proof -
  have own: "probe_ok (countOwn f s, d)" for f
    using assms(1) by (simp add: probe_ok_def queues_ok_def flight_ok_def flightKeys_def owner_ok_def waiters_ok_def waiters_parts settledWaiters_def issuedWaiters_def)
  have "waiters_ok (s\<lparr>ps_waiterID := Suc (ps_waiterID s), ps_mail := ps_mail s @ [MailSubmit t (Suc (ps_waiterID s))]\<rparr>, d)" for t
    using assms(1) upt_snoc [of "ps_waiterID s"]
    by (simp add: probe_ok_def waiters_ok_def waiters_parts settledWaiters_def issuedWaiters_def mailWaiters_def del: upt_Suc)
  then have "probe_ok (s\<lparr>ps_waiterID := Suc (ps_waiterID s), ps_mail := ps_mail s @ [MailSubmit t (Suc (ps_waiterID s))]\<rparr>, d)" for t
    using assms(1) by (simp add: probe_ok_def queues_ok_def flight_ok_def flightKeys_def owner_ok_def)
  then show ?thesis using own assms(2) by (simp add: Submit_def Let_def)
qed

lemma ok_mail:
  assumes "probe_ok (s, d)"
  shows "probe_ok (s\<lparr>ps_mail := ps_mail s @ [MailCancel k w]\<rparr>, d)" "probe_ok (s\<lparr>ps_mail := ps_mail s @ [MailRemove r]\<rparr>, d)"
  using assms by (simp_all add: probe_ok_def queues_ok_def flight_ok_def flightKeys_def owner_ok_def waiters_ok_def waiters_parts settledWaiters_def
      issuedWaiters_def mailWaiters_def)

lemma ok_withdraw:
  assumes ok: "probe_ok (s, d)" and i: "i < length (ps_mail s)"
  shows "probe_ok (withdraw i s, d)"
proof -
  have "allWaiters (withdraw i s, d) = allWaiters (s, d)"
    using mail_split [OF i] by (cases "ps_mail s ! i") (simp_all add: withdraw_def waiters_parts settledWaiters_def mailWaiters_def takeMail_def)
  moreover have "ps_waiterID (withdraw i s) = ps_waiterID s" by (cases "ps_mail s ! i") (simp_all add: withdraw_def)
  ultimately have "waiters_ok (withdraw i s, d)" using ok by (rule_tac waiters_okI [of s d]) (simp_all add: probe_ok_def)
  then show ?thesis using ok
    by (cases "ps_mail s ! i") (simp_all add: withdraw_def probe_ok_def queues_ok_def flight_ok_def flightKeys_def owner_ok_def takeMail_def)
qed

lemma ok_contexts: "probe_ok (s, d) \<Longrightarrow> probe_ok (s\<lparr>ps_contexts := cs\<rparr>, d)"
  by (simp add: probe_ok_def queues_ok_def flight_ok_def flightKeys_def owner_ok_def waiters_ok_def waiters_parts settledWaiters_def issuedWaiters_def)

lemma ok_stop: "probe_ok (s, d) \<Longrightarrow> probe_ok (cancelScheduler s, d)"
  by (simp add: cancelScheduler_def probe_ok_def queues_ok_def flight_ok_def flightKeys_def owner_ok_def waiters_ok_def waiters_parts settledWaiters_def
      issuedWaiters_def)

lemma ok_work:
  assumes ok: "probe_ok (s, d)" and i: "i < length (ps_running s)"
  shows "probe_ok (workerDone now i outcome s, d)"
proof -
  let ?s = "workerDone now i outcome s" and ?job = "ps_running s ! i"
  have r: "ps_running s = take i (ps_running s) @ ?job # drop (Suc i) (ps_running s)" by (rule id_take_nth_drop [OF i])
  have fields: "ps_running ?s = take i (ps_running s) @ drop (Suc i) (ps_running s)" "ps_idle ?s = ps_idle s + 1"
      "\<exists>c. ps_done ?s = ps_done s @ [c] \<and> cp_key c = pt_Key (jb_task ?job) \<and> pt_Key (cp_task c) = cp_key c"
      "ps_closed ?s = ps_closed s" "ps_cancelled ?s = ps_cancelled s" "ps_workers ?s = ps_workers s" "ps_queueSize ?s = ps_queueSize s"
      "ps_waiterID ?s = ps_waiterID s" "ps_mail ?s = ps_mail s" "settledWaiters ?s = settledWaiters s" "ps_ownership ?s = ps_ownership s"
      "ownerTokenReady ?s = ownerTokenReady s"
    by (auto simp: workerDone_def Let_def runProbeTask_def settledWaiters_def split: option.split)
  have "map (pt_Key \<circ> jb_task) (ps_running s) =
      map (pt_Key \<circ> jb_task) (take i (ps_running s)) @ pt_Key (jb_task ?job) # map (pt_Key \<circ> jb_task) (drop (Suc i) (ps_running s))"
    by (subst r) simp
  then have keys: "mset (flightKeys ?s) = mset (flightKeys s)" using fields(1,3) by (auto simp: flightKeys_def)
  then have "distinct (flightKeys ?s) = distinct (flightKeys s)" "set (flightKeys ?s) = set (flightKeys s)"
    by (rule mset_eq_imp_distinct_iff, rule mset_eq_setD)
  then have "flight_ok (?s, d)" using ok i fields by (auto simp: probe_ok_def flight_ok_def)
  then show ?thesis using ok i fields
    by (auto simp: probe_ok_def queues_ok_def owner_ok_def waiters_ok_def waiters_parts issuedWaiters_def)
qed

lemma ok_leave:
  assumes ok: "probe_ok (s, d)" and c: "ps_cancelled s"
  shows "probe_ok (workerAbandons i s, d)" "probe_ok (workerExits s, d)"
proof -
  have "\<exists>A x B. ps_running (workerAbandons i s) = A @ B \<and> ps_running s = A @ x @ B"
    using id_take_nth_drop [of i "ps_running s"]
    by (intro exI [of _ "take i (ps_running s)"] exI [of _ "take 1 (drop i (ps_running s))"] exI [of _ "drop (Suc i) (ps_running s)"])
      (cases "i < length (ps_running s)", auto simp: workerAbandons_def take_Suc hd_drop_conv_nth)
  then obtain A x B where "ps_running (workerAbandons i s) = A @ B" "ps_running s = A @ x @ B" by blast
  moreover have "ps_done (workerAbandons i s) = ps_done s" by (simp add: workerAbandons_def)
  ultimately have "distinct (flightKeys s) \<longrightarrow> distinct (flightKeys (workerAbandons i s))"
      "set (flightKeys (workerAbandons i s)) \<subseteq> set (flightKeys s)"
    by (auto simp: flightKeys_def)
  moreover have fields: "ps_closed (workerAbandons i s) = ps_closed s" "ps_cancelled (workerAbandons i s) = ps_cancelled s"
      "ps_done (workerAbandons i s) = ps_done s" "ps_idle (workerAbandons i s) = ps_idle s" "ps_workers (workerAbandons i s) = ps_workers s"
      "length (ps_running (workerAbandons i s)) \<le> length (ps_running s)"
    by (simp_all add: workerAbandons_def)
  moreover have f: "flight_ok (s, d)" using ok by (simp add: probe_ok_def)
  ultimately have "flight_ok (workerAbandons i s, d)" using c by (simp add: flight_ok_def) (metis subset_trans le_trans add_le_mono1)
  moreover have "queues_ok (workerAbandons i s, d) = queues_ok (s, d)" "waiters_ok (workerAbandons i s, d) = waiters_ok (s, d)"
      "ps_ownership (workerAbandons i s) = ps_ownership s" "ownerTokenReady (workerAbandons i s) = ownerTokenReady s"
      "ps_running (workerAbandons i s) \<noteq> [] \<longrightarrow> ps_running s \<noteq> []"
    by (auto simp: workerAbandons_def queues_ok_def waiters_ok_def waiters_parts issuedWaiters_def settledWaiters_def)
  moreover from this(3-) have "owner_ok (workerAbandons i s, d)" using ok by (auto simp: probe_ok_def owner_ok_def)
  ultimately show "probe_ok (workerAbandons i s, d)" using ok by (simp add: probe_ok_def)
  have "queues_ok (workerExits s, d) = queues_ok (s, d)" "waiters_ok (workerExits s, d) = waiters_ok (s, d)" "owner_ok (workerExits s, d) = owner_ok (s, d)"
    by (simp_all add: workerExits_def queues_ok_def waiters_ok_def waiters_parts issuedWaiters_def settledWaiters_def owner_ok_def)
  moreover have "flight_ok (workerExits s, d)" using f by (simp add: flight_ok_def flightKeys_def workerExits_def) linarith
  ultimately show "probe_ok (workerExits s, d)" using ok by (simp add: probe_ok_def)
qed

section \<open>Every step keeps the invariant\<close>

lemma ok_local: "local_step obs y y' \<Longrightarrow> probe_ok y \<Longrightarrow> probe_ok y'"
proof (induction rule: local_step.induct)
  case (cancelWaiter s d f)
  then show ?case using ok_mail(1) by (auto simp: cancelFuture_def)
next
  case (expire s d now i)
  then show ?case using ok_contexts by (auto simp: expireContext_def)
qed (simp_all add: ok_submit ok_mail ok_withdraw ok_stop ok_work ok_leave ok_iteration removeMatching_def)

lemma ok_owner:
  assumes "probe_ok (s, d)" and "ps_owner s = Some c"
    and "\<forall>i. i < length (sc_tokens c) \<and> ot_ready (sc_tokens c ! i) \<longrightarrow> i < length (sc_tokens c') \<and> ot_ready (sc_tokens c' ! i)"
  shows "probe_ok (s\<lparr>ps_owner := Some c'\<rparr>, d)"
proof -
  have "ownerTokenReady (s\<lparr>ps_owner := Some c'\<rparr>)" if "ownerTokenReady s"
    using that assms(2,3) by (auto simp: ownerTokenReady_def split: option.splits)
  then show ?thesis using assms(1)
    by (auto simp: probe_ok_def queues_ok_def flight_ok_def flightKeys_def owner_ok_def waiters_ok_def waiters_parts issuedWaiters_def settledWaiters_def)
qed

lemma ok_probe_step: "probe_step obs y y' \<Longrightarrow> probe_ok y \<Longrightarrow> probe_ok y'"
proof (induction rule: probe_step.induct)
  case (internal y y')
  then show ?case by (rule ok_local)
next
  case (owner s c c' d)
  show ?case by (rule ok_owner [OF owner(3,1)]) (use token_ready_stays [OF owner(2)] in blast)
qed

lemma ok_probe_init: "probe_init y \<Longrightarrow> probe_ok y"
  by (auto simp: probe_init_def newOwnedProbeScheduler_def newDispatcher_def Let_def probe_ok_def queues_ok_def flight_ok_def flightKeys_def
      owner_ok_def waiters_ok_def waiters_parts issuedWaiters_def settledWaiters_def mailWaiters_def queueWaiters_def)

interpretation probe_run: transition_system probe_init "probe_step obs" probe_ok
  by unfold_locales (auto intro: ok_probe_init ok_probe_step)

end
