(* ===== verification/Probe_Props.thy ===== *)
theory Probe_Props
  imports Probe_Run
begin

text \<open>
  The properties of one probe scheduler over all its runs: the queue is bounded and a key is never
  probed twice at a time, every waiter is answered once, and what retiring a key and cancelling a
  waiter leave undone.
\<close>

section \<open>Bounded queue, single flight\<close>

text \<open>C12. The queue of a scheduler is bounded and its probes are single flight: in every run at most
  the configured number of probes wait and at most the configured number of workers run; no two
  workers run the same key; a key that runs is not queued as well, except as a rerun after it.\<close>

theorem probe_keys_single_flight:
  assumes "probe_init y0" and "(probe_step obs)\<^sup>*\<^sup>* y0 (s, d)"
  shows "length (dp_pending d) + length (dp_rerun d) \<le> ps_queueSize s \<and> length (ps_running s) \<le> ps_workers s
    \<and> distinct (map (pt_Key \<circ> jb_task) (ps_running s))
    \<and> (\<forall>k. map_of (dp_active d) k \<noteq> None \<longrightarrow> map_of (dp_pending d) k = None)
    \<and> (\<forall>k. map_of (dp_rerun d) k \<noteq> None \<longrightarrow> map_of (dp_active d) k \<noteq> None)"
proof -
  have ok: "probe_ok (s, d)" by (rule probe_run.reach_inv [OF assms])
  then have q: "queues_ok (s, d)" and f: "flight_ok (s, d)" by (simp_all add: probe_ok_def)
  have "map_of (dp_pending d) k = None" if "map_of (dp_active d) k \<noteq> None" for k
    using q that unfolding queues_ok_def by (cases "map_of (dp_pending d) k") auto
  then show ?thesis using q f by (auto simp: queues_ok_def flight_ok_def flightKeys_def)
qed

section \<open>Every waiter is answered once\<close>

text \<open>C10. No waiter is lost and none is answered twice: in every run each waiter issued is in exactly
  one place, among the answers, among the submissions given up, with a caller that still submits,
  or in an entry of the dispatcher; so no channel is sent to twice, and once the dispatcher has
  ended no entry keeps a waiter.\<close>

theorem waiters_answered_once:
  assumes "probe_init y0" and "(probe_step obs)\<^sup>*\<^sup>* y0 (s, d)"
  shows "(\<forall>w. 0 < w \<and> w \<le> ps_waiterID s \<longrightarrow>
      count (mset (map fst (ps_answers s))) w + count (mset (ps_withdrawn s)) w + count (mailWaiters (ps_mail s)) w + count (queueWaiters d) w = 1)
    \<and> distinct (map fst (ps_answers s)) \<and> (ps_closed s \<longrightarrow> queueWaiters d = {#})"
proof -
  have ok: "probe_ok (s, d)" by (rule probe_run.reach_inv [OF assms])
  then have w: "allWaiters (s, d) = mset [1..<Suc (ps_waiterID s)]" by (simp add: probe_ok_def waiters_ok_def issuedWaiters_def del: upt_Suc)
  have one: "count (mset [1..<Suc n]) w = (if 0 < w \<and> w \<le> n then 1 else 0)" for n w :: nat
    using distinct_count_atmost_1 [of "[1..<Suc n]"] by (auto simp del: upt_Suc)
  have sum: "count (allWaiters (s, d)) w = count (mset (map fst (ps_answers s))) w + count (mset (ps_withdrawn s)) w
      + count (mailWaiters (ps_mail s)) w + count (queueWaiters d) w" for w
    by (simp add: waiters_parts settledWaiters_def)
  have "count (mset (map fst (ps_answers s))) w \<le> 1" for w using sum [of w] w one by (simp split: if_splits)
  then have "\<forall>w. count (mset (map fst (ps_answers s))) w = (if w \<in> set (map fst (ps_answers s)) then 1 else 0)"
    by (metis One_nat_def count_mset_0_iff le_Suc_eq le_zero_eq)
  then have "distinct (map fst (ps_answers s))" by (rule distinct_count_atmost_1 [THEN iffD2])
  moreover have "ps_closed s \<longrightarrow> queueWaiters d = {#}" using ok by (simp add: probe_ok_def flight_ok_def queueWaiters_def)
  moreover have "count (mset (map fst (ps_answers s))) w + count (mset (ps_withdrawn s)) w + count (mailWaiters (ps_mail s)) w + count (queueWaiters d) w = 1"
    if "0 < w \<and> w \<le> ps_waiterID s" for w
    using sum [of w, unfolded w one] that by simp
  ultimately show ?thesis by blast
qed

section \<open>Examples\<close>

text \<open>A scheduler with one worker and room for two probes, to which a task is submitted, whose
  dispatcher takes the request, and whose worker takes the job.\<close>

abbreviation quiet :: observers where "quiet \<equiv> \<lambda>f t r. True"

definition exampleTask :: "duration \<Rightarrow> probe_task" where
  "exampleTask interval = (sampleTask 7 ''a'' 1)\<lparr>pt_Interval := interval\<rparr>"

definition exampleSched :: "coordinator option \<Rightarrow> nat option \<Rightarrow> probe_scheduler" where
  "exampleSched owner ownership = newOwnedProbeScheduler owner ownership 1 2"

definition submittedState :: "duration \<Rightarrow> probe_state \<Rightarrow> probe_state" where
  "submittedState interval y = (fst (Submit 5 (exampleTask interval) (fst y)), snd y)"

definition queuedState :: "duration \<Rightarrow> probe_state \<Rightarrow> probe_state" where
  "queuedState interval y = dispatcherIteration quiet 6 6 (Request 0) (submittedState interval y)"

definition runningState :: "duration \<Rightarrow> probe_state \<Rightarrow> probe_state" where
  "runningState interval y = dispatcherIteration quiet 9 9 JobTaken (queuedState interval y)"

definition freshState :: "probe_state \<Rightarrow> bool" where
  "freshState = (\<lambda>(s, d). ownsProbes s \<and> ps_waiterID s = 0 \<and> ps_mail s = [] \<and> \<not> ps_closed s \<and> ps_idle s = 1 \<and> ps_queueSize s = 2
     \<and> ps_running s = [] \<and> ps_contexts s = [] \<and> dp_pending d = [] \<and> dp_active d = [] \<and> dp_rerun d = [] \<and> dp_dispatch d = None \<and> dp_ownerReady d)"

definition firstState :: probe_state where
  "firstState = (exampleSched None None, newDispatcher 1 None)"

lemma firstState_fresh: "freshState firstState"
  by (simp add: freshState_def firstState_def exampleSched_def newOwnedProbeScheduler_def newDispatcher_def ownsProbes_def)

lemma firstState_init: "probe_init firstState"
  unfolding firstState_def probe_init_def exampleSched_def by blast

lemma single_choice:
  assumes "pt_DueAt (sp_task e) \<le> now"
  obtains st' where "nextScheduledProbe now [(k, e)] st = (Some e, st')"
proof -
  have r: "readyProbes now [(k, e)] = [e]" using assms by (simp add: readyProbes_def)
  obtain x st' where n: "nextScheduledProbe now [(k, e)] st = (x, st')" by (cases "nextScheduledProbe now [(k, e)] st")
  then obtain e' where "x = Some e'" using nextScheduledProbe_None [of now "[(k, e)]" st] r by auto
  then show thesis using nextScheduledProbe_Some(1) [of now "[(k, e)]" st e' st'] n r that by simp
qed

lemma exampleTask_simps [simp]:
  "prepareTask now (exampleTask i) = exampleTask i" "pt_Run (exampleTask i) = Some 1" "pt_Key (exampleTask i) = sampleKey 7" "pt_DueAt (exampleTask i) = 5"
  "pt_Interval (exampleTask i) = i"
  by (simp_all add: exampleTask_def sampleTask_def prepareTask_def is_zero_def)

lemma submitted_form:
  assumes "freshState (s, d)"
  shows "submittedState i (s, d) = (s\<lparr>ps_waiterID := 1, ps_mail := [MailSubmit (exampleTask i) 1]\<rparr>, d)"
  using assms by (simp add: submittedState_def freshState_def Submit_def Let_def inc64_def)

lemma empty_choice: "nextScheduledProbe now [] st = (None, st)"
  by (simp add: nextScheduledProbe_def highestReady_def readyProbes_def)

lemma queued_form:
  assumes "freshState (s, d)"
  shows "loopTop 6 (submittedState i (s, d)) = (s\<lparr>ps_waiterID := 1, ps_mail := [MailSubmit (exampleTask i) 1], ps_depth := 0\<rparr>, d)"
    and "queuedState i (s, d) = ((countStat incAccepted (s\<lparr>ps_waiterID := 1, ps_mail := [], ps_depth := 0\<rparr>))\<lparr>ps_replies := ps_replies s @ [(1, ProbeAccepted)]\<rparr>,
      d\<lparr>dp_pending := [(sampleKey 7, \<lparr>sp_task = exampleTask i, sp_waiters = [1]\<rparr>)]\<rparr>)"
proof -
  show l: "loopTop 6 (submittedState i (s, d)) = (s\<lparr>ps_waiterID := 1, ps_mail := [MailSubmit (exampleTask i) 1], ps_depth := 0\<rparr>, d)"
    using assms by (simp add: submitted_form [OF assms]) (simp add: freshState_def loopTop_def selectDispatch_def empty_choice)
  show "queuedState i (s, d) = ((countStat incAccepted (s\<lparr>ps_waiterID := 1, ps_mail := [], ps_depth := 0\<rparr>))\<lparr>ps_replies := ps_replies s @ [(1, ProbeAccepted)]\<rparr>,
      d\<lparr>dp_pending := [(sampleKey 7, \<lparr>sp_task = exampleTask i, sp_waiters = [1]\<rparr>)]\<rparr>)"
    using assms unfolding queuedState_def dispatcherIteration_def l
    by (simp add: freshState_def handleEvent_def handleRequest_def takeMail_def acceptSubmission_def queueFull_def Let_def)
      (simp add: countStat_def countOwn_def countOwner_def)
qed

lemma running_form:
  assumes "freshState (s, d)"
  obtains st s' where "runningState i (s, d) = (s'\<lparr>ps_running := [\<lparr>jb_task = exampleTask i, jb_ctx = 0, jb_startedAt = 9\<rparr>]\<rparr>,
      d\<lparr>dp_selection := st, dp_active := [(sampleKey 7, \<lparr>ab_entry = \<lparr>sp_task = exampleTask i, sp_waiters = [1]\<rparr>, ab_ctx = 0\<rparr>)]\<rparr>)"
    "eventReady 9 JobTaken (loopTop 9 (queuedState i (s, d)))" "ps_waiterID s' = 1" "ps_queueSize s' = 2"
proof -
  let ?e = "\<lparr>sp_task = exampleTask i, sp_waiters = [1]\<rparr>"
  obtain st where st: "nextScheduledProbe 9 [(sampleKey 7, ?e)] (dp_selection d) = (Some ?e, st)"
    by (rule single_choice [of ?e 9]) auto
  obtain s1 where q: "queuedState i (s, d) = (s1, d\<lparr>dp_pending := [(sampleKey 7, ?e)]\<rparr>)" "ps_idle s1 = 1" "ps_running s1 = []" "ps_contexts s1 = []"
      "ps_waiterID s1 = 1" "ps_queueSize s1 = 2"
    using assms by (simp add: queued_form(2) [OF assms]) (simp add: freshState_def countStat_def countOwn_def countOwner_def)
  have l: "loopTop 9 (queuedState i (s, d)) =
      ((fst (newProbeDispatchContext 9 (pt_Timeout (exampleTask i)) s1))\<lparr>ps_depth := 1\<rparr>,
       d\<lparr>dp_pending := [(sampleKey 7, ?e)], dp_selection := st, dp_dispatch := Some (sampleKey 7, 0)\<rparr>)"
    using assms st q by (simp add: loopTop_def selectDispatch_def freshState_def newProbeDispatchContext_def)
  have r: "runningState i (s, d) =
      (((fst (newProbeDispatchContext 9 (pt_Timeout (exampleTask i)) s1))\<lparr>ps_depth := 1, ps_idle := 0\<rparr>)\<lparr>ps_running := [\<lparr>jb_task = exampleTask i, jb_ctx = 0, jb_startedAt = 9\<rparr>]\<rparr>,
       d\<lparr>dp_selection := st, dp_active := [(sampleKey 7, \<lparr>ab_entry = ?e, ab_ctx = 0\<rparr>)]\<rparr>)"
    using assms q(2-) unfolding runningState_def dispatcherIteration_def l
    by (simp add: handleEvent_def dispatchJob_def freshState_def newProbeDispatchContext_def)
  show thesis
    by (rule that [OF r]) (use q l in \<open>simp_all add: eventReady_def newProbeDispatchContext_def\<close>)
qed

lemma runningState_steps:
  assumes "freshState y"
  shows "local_step quiet y (submittedState i y)" "local_step quiet (submittedState i y) (queuedState i y)"
    "local_step quiet (queuedState i y) (runningState i y)"
proof -
  obtain s d where y: "y = (s, d)" by (cases y)
  note f = assms [unfolded y]
  show "local_step quiet y (submittedState i y)"
    unfolding y submittedState_def fst_conv snd_conv by (rule local_step.submit) (use f in \<open>simp add: freshState_def\<close>)
  have "\<not> ps_closed s" "ps_cancelled s = ps_cancelled s" using f by (simp_all add: freshState_def)
  then show "local_step quiet (submittedState i y) (queuedState i y)"
    using local_step.iteration [of "fst (submittedState i y)" 6 "Request 0" 6 "snd (submittedState i y)" quiet] queued_form(1) [OF f, of i]
    by (simp add: y queuedState_def eventReady_def submitted_form [OF f])
  have "\<not> ps_closed (fst (queuedState i y))" using f by (simp add: y queued_form(2) [OF f]) (simp add: freshState_def countStat_def countOwn_def countOwner_def)
  moreover have "eventReady 9 JobTaken (loopTop 9 (queuedState i y))" unfolding y by (rule running_form [OF f])
  ultimately show "local_step quiet (queuedState i y) (runningState i y)"
    using local_step.iteration [of "fst (queuedState i y)" 9 JobTaken 9 "snd (queuedState i y)" quiet] by (simp add: runningState_def)
qed

definition busyState :: probe_state where
  "busyState = runningState 0 firstState"

lemma three_steps: "R a b \<Longrightarrow> R b c \<Longrightarrow> R c d \<Longrightarrow> R\<^sup>*\<^sup>* a d"
  by (meson converse_rtranclp_into_rtranclp rtranclp.rtrancl_refl)

lemma busyState_reach: "(probe_step quiet)\<^sup>*\<^sup>* firstState (fst busyState, snd busyState)"
  unfolding busyState_def prod.collapse
  by (rule three_steps) (rule probe_step.internal, rule runningState_steps [OF firstState_fresh])+

lemma busyState_fields:
  "length (ps_running (fst busyState)) = 1" "map_of (dp_active (snd busyState)) (sampleKey 7) \<noteq> None" "ps_waiterID (fst busyState) = 1"
proof -
  obtain st s' where b: "busyState = (s'\<lparr>ps_running := [\<lparr>jb_task = exampleTask 0, jb_ctx = 0, jb_startedAt = 9\<rparr>]\<rparr>,
      (newDispatcher 1 None)\<lparr>dp_selection := st, dp_active := [(sampleKey 7, \<lparr>ab_entry = \<lparr>sp_task = exampleTask 0, sp_waiters = [1]\<rparr>, ab_ctx = 0\<rparr>)]\<rparr>)"
      "ps_waiterID s' = 1"
    unfolding busyState_def firstState_def by (rule running_form [OF firstState_fresh [unfolded firstState_def]])
  show "length (ps_running (fst busyState)) = 1" "map_of (dp_active (snd busyState)) (sampleKey 7) \<noteq> None" "ps_waiterID (fst busyState) = 1"
    unfolding b(1) using b(2) by simp_all
qed

theorem probe_keys_single_flight_witness:
  "length (ps_running (fst busyState)) = 1 \<and> length (ps_running (fst busyState)) \<le> ps_workers (fst busyState)
    \<and> map_of (dp_pending (snd busyState)) (sampleKey 7) = None"
proof -
  show ?thesis using busyState_fields probe_keys_single_flight [OF firstState_init busyState_reach] by simp
qed

theorem waiters_answered_once_witness:
  "ps_waiterID (fst busyState) = 1 \<and> count (mset (map fst (ps_answers (fst busyState)))) 1 + count (mset (ps_withdrawn (fst busyState))) 1
     + count (mailWaiters (ps_mail (fst busyState))) 1 + count (queueWaiters (snd busyState)) 1 = 1"
proof -
  show ?thesis using busyState_fields(3) waiters_answered_once [OF firstState_init busyState_reach] by simp
qed

section \<open>What retirement and cancellation leave undone\<close>

text \<open>Retiring the key of a periodic probe that is running does not retire the probe: its context
  is cancelled, but when its completion arrives the scheduler queues the retired key again, as long
  as the queue has room.\<close>

theorem removed_periodic_probe_returns:
  assumes "map_of (dp_active d) key = Some running" and "probeRemovalMatches removal key"
    and "dropDispatch (removeProbes obs removal (s, d)) = (s', d')" and "\<not> queueFull (s', d')"
    and "cp_key completion = key" and "pt_Key (cp_task completion) = key" and "0 < pt_Interval (cp_task completion)"
  shows "map_of (dp_pending d') key = None \<and> map_of (dp_pending (snd (completeProbe obs now completion (s', d')))) key \<noteq> None"
proof -
  have d': "dp_pending d' = unmatching removal (dp_pending d)" "dp_rerun d' = unmatching removal (dp_rerun d)" "dp_active d' = dp_active d"
    using assms(3) by (auto simp: removeProbes_def dropDispatch_def Let_def split: option.splits if_splits)
  let ?d1 = "d'\<lparr>dp_active := AList.delete key (dp_active d'), dp_rerun := AList.delete key (dp_rerun d')\<rparr>"
  have "length (AList.delete key (dp_rerun d')) \<le> length (dp_rerun d')" by (rule length_delete_le)
  then have "\<not> queueFull (finish obs (ab_entry running) (cp_result completion) (countStat incCompleted (cancelContext (ab_ctx running) s')), ?d1)"
    using assms(4) by (simp add: queueFull_def)
  then show ?thesis using assms(1,2,5-7) d' by (simp add: completeProbe_def nextProbe_def Let_def gomap_simps)
qed

definition periodicState :: probe_state where
  "periodicState = runningState minute firstState"

definition removedState :: probe_state where
  "removedState = dropDispatch (removeProbes quiet (removeRevision 1 1) periodicState)"

definition lateCompletion :: probe_completion where
  "lateCompletion = \<lparr>cp_key = sampleKey 7, cp_task = exampleTask minute, cp_result = deferredResult contextCanceled\<rparr>"

theorem removed_periodic_probe_returns_witness:
  "map_of (dp_pending (snd removedState)) (sampleKey 7) = None
    \<and> map_of (dp_pending (snd (completeProbe quiet 10 lateCompletion (fst removedState, snd removedState)))) (sampleKey 7) \<noteq> None"
proof -
  let ?run = "\<lparr>ab_entry = \<lparr>sp_task = exampleTask minute, sp_waiters = [1]\<rparr>, ab_ctx = 0\<rparr>"
  obtain st s' where p: "periodicState = (s'\<lparr>ps_running := [\<lparr>jb_task = exampleTask minute, jb_ctx = 0, jb_startedAt = 9\<rparr>]\<rparr>,
      (newDispatcher 1 None)\<lparr>dp_selection := st, dp_active := [(sampleKey 7, ?run)]\<rparr>)" "ps_queueSize s' = 2"
    unfolding periodicState_def firstState_def by (rule running_form [OF firstState_fresh [unfolded firstState_def]])
  have 1: "map_of (dp_active (snd periodicState)) (sampleKey 7) = Some ?run" by (simp add: p)
  have 2: "dropDispatch (removeProbes quiet (removeRevision 1 1) (fst periodicState, snd periodicState)) = (fst removedState, snd removedState)"
    by (simp add: removedState_def)
  have 3: "probeRemovalMatches (removeRevision 1 1) (sampleKey 7)" by (simp add: probeRemovalMatches_def removeRevision_def sampleKey_def)
  have 4: "\<not> queueFull (fst removedState, snd removedState)"
    by (simp add: removedState_def p(1) removeProbes_def dropDispatch_def newDispatcher_def unmatching_def queueFull_def Let_def) (simp add: p(2))
  show ?thesis by (rule removed_periodic_probe_returns [OF 1 3 2 4]) (simp_all add: lateCompletion_def)
qed

text \<open>A waiter of a running probe cannot cancel while a rerun of the key is queued: the request is
  looked up in the rerun only.\<close>

lemma cancel_ignored_with_rerun:
  assumes "map_of (dp_pending d) key = None" and "map_of (dp_rerun d) key = Some entry" and "w \<notin> set (sp_waiters entry)"
  shows "cancelProbeWaiter key w (s, d) = (s, d)"
  using assms by (simp add: cancelProbeWaiter_def)

end
