(* ===== verification/Probe_Owners.thy ===== *)
theory Probe_Owners
  imports Probe_Props
begin

text \<open>
  All probe schedulers of a group together: one coordinator, shared, and for each ownership token
  at most one scheduler, which runs with the coordinator as it is. The goroutine that a scheduler
  with an owner starts marks the token done when the dispatcher has closed and all workers have
  returned. With the exclusion of owners this gives that two runtime epochs never probe at the same
  time.
\<close>

type_synonym probe_pool = "coordinator \<times> (nat \<Rightarrow> probe_state option)"

inductive pool_step :: "observers \<Rightarrow> probe_pool \<Rightarrow> probe_pool \<Rightarrow> bool" for obs where
  claim: "sc_generation c < 2 ^ 64 - 1 \<Longrightarrow> pool_step obs (c, f) (fst (Claim e c), f)"
| release: "pool_step obs (c, f) (ReleaseOwner e g c, f)"
| background: "goroutine_step c c' \<Longrightarrow> pool_step obs (c, f) (c', f)"
| start: "i < length (sc_tokens c) \<Longrightarrow> f i = None \<Longrightarrow>
    pool_step obs (c, f) (c, f(i \<mapsto> (newOwnedProbeScheduler (Some c) (Some i) workers queueSize, newDispatcher now (Some i))))"
| run: "f i = Some (s, d) \<Longrightarrow> local_step obs (s\<lparr>ps_owner := Some c\<rparr>, d) (s', d') \<Longrightarrow> ps_owner s' = Some c' \<Longrightarrow>
    pool_step obs (c, f) (c', f(i \<mapsto> (s', d')))"
| ended: "f i = Some (s, d) \<Longrightarrow> closeReturns s \<Longrightarrow> pool_step obs (c, f) (markDone i c, f)"

definition pool_init :: "probe_pool \<Rightarrow> bool" where
  "pool_init y \<longleftrightarrow> y = (newCoordinator, \<lambda>i. None)"

section \<open>What a local step does to the owner\<close>

definition ownerPart :: "probe_scheduler \<Rightarrow> _" where
  "ownerPart s = (ps_ownership s, map_option (sc_stats_update (\<lambda>_. zeroStats)) (ps_owner s))"

lemma part_owner_handlers:
  "ownerPart (fst (fst (acceptSubmission task w (s, d)))) = ownerPart s"
  "ownerPart (fst (cancelProbeWaiter key w (s, d))) = ownerPart s"
  "ownerPart (fst (removeProbes obs removal (s, d))) = ownerPart s"
  "ownerPart (fst (dispatchJob now (s, d))) = ownerPart s"
  "ownerPart (fst (completeProbe obs now c (s, d))) = ownerPart s"
  "ownerPart (fst (stopDispatcher obs (s, d))) = ownerPart s"
  by (auto simp: ownerPart_def acceptSubmission_def cancelProbeWaiter_def removeProbes_def dispatchJob_def
      completeProbe_def stopDispatcher_def Let_def split: option.split)

lemma part_owner_drop [simp]: "ownerPart (fst (dropDispatch y)) = ownerPart (fst y)"
  by (cases y) (auto simp: ownerPart_def dropDispatch_def split: option.split)

lemma part_owner_loop: "ownerPart (fst (loopTop now (s, d))) = ownerPart s"
  by (cases rule: loopTop_cases [of now s d]) (simp_all add: ownerPart_def newProbeDispatchContext_def)

lemma part_owner_mail [simp]: "ownerPart (takeMail i s) = ownerPart s" "ownerPart (s\<lparr>ps_replies := r\<rparr>) = ownerPart s" "ownerPart (s\<lparr>ps_done := x\<rparr>) = ownerPart s"
  by (simp_all add: ownerPart_def takeMail_def)

lemma part_owner_event: "ownerPart (fst (handleEvent obs now ev (s, d))) = ownerPart s"
proof (cases ev)
  case (Request i)
  have "ownerPart (fst (handleRequest obs m (s1, d))) = ownerPart s1" for m s1
    using part_owner_handlers(1) [of _ _ s1 d] by (cases m) (simp_all add: handleRequest_def part_owner_handlers case_prod_unfold Let_def)
  then show ?thesis using Request by (simp add: handleEvent_def)
next
  case OwnerStalled
  then show ?thesis by (simp add: handleEvent_def) (simp add: ownerPart_def)
qed (simp_all add: handleEvent_def part_owner_handlers)

lemma part_owner_local: "local_step obs y y' \<Longrightarrow> ownerPart (fst y') = ownerPart (fst y)"
proof (induction rule: local_step.induct)
  case (iteration s now' ev now d)
  show ?case unfolding dispatcherIteration_def
    using part_owner_event [of obs now' ev "fst (loopTop now (s, d))" "snd (loopTop now (s, d))"] part_owner_loop [of now s d] by simp
next
  case (giveUp s i d)
  then show ?case by (cases "ps_mail s ! i") (simp_all add: withdraw_def ownerPart_def takeMail_def)
qed (auto simp: ownerPart_def Submit_def cancelFuture_def removeMatching_def expireContext_def cancelScheduler_def workerDone_def
    workerAbandons_def workerExits_def runProbeTask_def Let_def split: option.split)

lemma local_owner:
  assumes "local_step obs (s\<lparr>ps_owner := Some c\<rparr>, d) (s', d')"
  obtains st where "ps_owner s' = Some (c\<lparr>sc_stats := st\<rparr>)" "ps_ownership s' = ps_ownership s"
proof -
  from part_owner_local [OF assms] obtain c' where c': "ps_owner s' = Some c'" "ps_ownership s' = ps_ownership s"
      "c'\<lparr>sc_stats := zeroStats\<rparr> = c\<lparr>sc_stats := zeroStats\<rparr>"
    by (auto simp: ownerPart_def)
  then have "c' = c\<lparr>sc_stats := sc_stats c'\<rparr>" by (cases c; cases c') simp
  then show thesis using c' by (intro that [of "sc_stats c'"]) simp_all
qed

lemma closed_local: "local_step obs y y' \<Longrightarrow> closeReturns (fst y) \<Longrightarrow> closeReturns (fst y')"
proof (induction rule: local_step.induct)
  case (giveUp s i d)
  then show ?case by (cases "ps_mail s ! i") (simp_all add: withdraw_def closeReturns_def takeMail_def)
qed (auto simp: closeReturns_def Submit_def cancelFuture_def removeMatching_def expireContext_def cancelScheduler_def Let_def)

section \<open>The invariant\<close>

definition pool_ok :: "probe_pool \<Rightarrow> bool" where
  "pool_ok = (\<lambda>(c, f).
     coord_ok c
     \<and> (\<forall>i s d. f i = Some (s, d) \<longrightarrow> probe_ok (s\<lparr>ps_owner := Some c\<rparr>, d) \<and> ps_ownership s = Some i)
     \<and> (\<forall>i. i < length (sc_tokens c) \<and> ot_done (sc_tokens c ! i) \<longrightarrow> (\<exists>s d. f i = Some (s, d) \<and> closeReturns s)))"

lemma coord_stats: "coord_ok (c\<lparr>sc_stats := st\<rparr>) = coord_ok c"
  by (simp add: coord_ok_def token_ok_def Let_def)

lemma pool_coordinator:
  assumes ok: "pool_ok (c, f)" and step: "owner_step c c'"
    and dn: "\<forall>i. i < length (sc_tokens c') \<and> ot_done (sc_tokens c' ! i) \<longrightarrow>
      i < length (sc_tokens c) \<and> ot_done (sc_tokens c ! i) \<or> (\<exists>s d. f i = Some (s, d) \<and> closeReturns s)"
  shows "pool_ok (c', f)"
proof -
  have "coord_ok c'" using owner_run.step_inv [OF step] ok by (simp add: pool_ok_def)
  moreover have "probe_ok (s\<lparr>ps_owner := Some c'\<rparr>, d) \<and> ps_ownership s = Some i" if "f i = Some (s, d)" for i s d
  proof -
    have o: "probe_ok (s\<lparr>ps_owner := Some c\<rparr>, d)" "ps_ownership s = Some i" using ok that by (auto simp: pool_ok_def)
    have "probe_ok ((s\<lparr>ps_owner := Some c\<rparr>)\<lparr>ps_owner := Some c'\<rparr>, d)"
      by (rule ok_owner [OF o(1)]) (use token_ready_stays [OF step] in auto)
    then show ?thesis using o(2) by simp
  qed
  moreover have "\<exists>s d. f i = Some (s, d) \<and> closeReturns s" if "i < length (sc_tokens c')" "ot_done (sc_tokens c' ! i)" for i
    using dn that ok unfolding pool_ok_def by auto
  ultimately show ?thesis by (simp add: pool_ok_def)
qed

lemma claim_done:
  assumes "i < length (sc_tokens (fst (Claim e c)))" and "ot_done (sc_tokens (fst (Claim e c)) ! i)"
  shows "i < length (sc_tokens c) \<and> ot_done (sc_tokens c ! i)"
  using assms
  by (cases "sc_token c") (auto simp: Claim_def Let_def nth_append claimToken_def revokeOwner_def update_nth split: if_splits)

lemma release_done:
  assumes "i < length (sc_tokens (ReleaseOwner e g c))" and "ot_done (sc_tokens (ReleaseOwner e g c) ! i)"
  shows "i < length (sc_tokens c) \<and> ot_done (sc_tokens c ! i)"
  using assms by (auto simp: ReleaseOwner_def revokeOwner_def update_nth split: option.splits if_splits)

lemma goroutine_done:
  assumes "goroutine_step c c'" and "i < length (sc_tokens c')" and "ot_done (sc_tokens c' ! i)"
  shows "i < length (sc_tokens c) \<and> ot_done (sc_tokens c ! i)"
  using assms by (elim goroutine_stepE) (auto simp: openReady_def closeDrained_def update_nth split: if_splits)

lemma pool_run:
  assumes ok: "pool_ok (c, f)" and f: "f i = Some (s, d)" and l: "local_step obs (s\<lparr>ps_owner := Some c\<rparr>, d) (s', d')"
    and c': "ps_owner s' = Some c'"
  shows "pool_ok (c', f(i \<mapsto> (s', d')))"
proof -
  obtain st where st: "c' = c\<lparr>sc_stats := st\<rparr>" "ps_ownership s' = ps_ownership s" using local_owner [OF l] c' by auto
  have "probe_ok (s'\<lparr>ps_owner := Some c'\<rparr>, d')"
  proof -
    have "probe_ok (s', d')" using ok_local [OF l] ok f by (simp add: pool_ok_def)
    moreover have "s'\<lparr>ps_owner := Some c'\<rparr> = s'" using c' by (cases s') simp
    ultimately show ?thesis by simp
  qed
  moreover have "probe_ok (s1\<lparr>ps_owner := Some c'\<rparr>, d1)" if "f j = Some (s1, d1)" for j s1 d1
  proof -
    have "probe_ok (s1\<lparr>ps_owner := Some c\<rparr>, d1)" using ok that by (simp add: pool_ok_def)
    from ok_owner [OF this, of c c'] show ?thesis by (simp add: st)
  qed
  moreover have "closeReturns s'" if "closeReturns s"
    using closed_local [OF l] that by (simp add: closeReturns_def)
  ultimately show ?thesis using ok f st by (auto simp: pool_ok_def coord_stats)
qed

lemma ok_pool_step: "pool_step obs y y' \<Longrightarrow> pool_ok y \<Longrightarrow> pool_ok y'"
proof (induction rule: pool_step.induct)
  case (claim c f e)
  then show ?case using claim_done by (intro pool_coordinator [OF claim(2) owner_step.claim [OF claim(1)]]) blast
next
  case (release c f e g)
  then show ?case using release_done by (intro pool_coordinator [OF release owner_step.release]) blast
next
  case (background c c' f)
  then show ?case using goroutine_done by (intro pool_coordinator [OF background(2) owner_step.background [OF background(1)]]) blast
next
  case (start i c f workers queueSize now)
  have "probe_ok (newOwnedProbeScheduler (Some c) (Some i) workers queueSize, newDispatcher now (Some i))"
    by (rule ok_probe_init) (auto simp: probe_init_def)
  moreover have "(newOwnedProbeScheduler (Some c) (Some i) workers queueSize)\<lparr>ps_owner := Some c\<rparr> = newOwnedProbeScheduler (Some c) (Some i) workers queueSize"
      "ps_ownership (newOwnedProbeScheduler (Some c) (Some i) workers queueSize) = Some i"
    by (simp_all add: newOwnedProbeScheduler_def Let_def)
  ultimately show ?case using start by (auto simp: pool_ok_def)
next
  case (run f i s d c s' d' c')
  show ?case by (rule pool_run [OF run(4,1-3)])
next
  case (ended f i s d c)
  have "j < length (sc_tokens c) \<and> ot_done (sc_tokens c ! j) \<or> (\<exists>s d. f j = Some (s, d) \<and> closeReturns s)"
    if "j < length (sc_tokens (markDone i c))" "ot_done (sc_tokens (markDone i c) ! j)" for j
    using that ended(1,2) by (cases "j = i") (auto simp: markDone_def update_nth)
  then show ?case by (intro pool_coordinator [OF ended(3) owner_step.finish]) blast
qed

interpretation pool_run: transition_system pool_init "pool_step obs" pool_ok
proof unfold_locales
  show "pool_ok y" if "pool_init y" for y using that by (simp add: pool_init_def pool_ok_def coord_ok_def newCoordinator_def)
qed (rule ok_pool_step)

section \<open>One epoch probes at a time\<close>

text \<open>C11. Two runtime epochs never probe at the same time: in every run of the schedulers of a group,
  while a worker of one scheduler runs a probe, the dispatcher of every scheduler with an earlier
  token has ended and all its workers have returned.\<close>

theorem one_epoch_probes_at_a_time:
  assumes "pool_init y0" and "(pool_step obs)\<^sup>*\<^sup>* y0 (c, f)" and "f j = Some (s, d)" and "ps_running s \<noteq> []"
    and "i < j" and "f i = Some (s', d')"
  shows "closeReturns s' \<and> ps_running s' = []"
proof -
  have ok: "pool_ok (c, f)" by (rule pool_run.reach_inv [OF assms(1,2)])
  then have p: "probe_ok (s\<lparr>ps_owner := Some c\<rparr>, d)" "ps_ownership s = Some j" and coord: "coord_ok c"
    using assms(3) by (auto simp: pool_ok_def)
  then have "ownerTokenReady (s\<lparr>ps_owner := Some c\<rparr>)" using assms(4) by (simp add: probe_ok_def owner_ok_def)
  then have "j < length (sc_tokens c)" "ot_ready (sc_tokens c ! j)" using p(2) by (auto simp: ownerTokenReady_def)
  then have "i < length (sc_tokens c) \<and> ot_done (sc_tokens c ! i)" using ready_drained [OF coord _ _ assms(5)] assms(5) by simp
  then have "closeReturns s'" using ok assms(6) unfolding pool_ok_def by auto
  then show ?thesis by (simp add: closeReturns_def)
qed


section \<open>An example\<close>

text \<open>Epoch 1 claims and starts a scheduler; epoch 2 claims; the first scheduler stops, its worker
  returns and its token drains; the second scheduler starts and runs a probe.\<close>

lemma pool_local:
  assumes "f i = Some (s, d)" and "local_step obs (s, d) (s', d')" and "ps_owner s = Some c" and "ps_owner s' = Some c'"
  shows "pool_step obs (c, f) (c', f(i \<mapsto> (s', d')))"
proof -
  have same: "s\<lparr>ps_owner := Some c\<rparr> = s" using assms(3) by (cases s) simp
  show ?thesis by (rule pool_step.run [of f i s d, OF assms(1) _ assms(4)]) (unfold same, rule assms(2))
qed

lemma example_fields [simp]:
  "ps_owner (exampleSched c i) = c" "ps_ownership (exampleSched c i) = i" "\<not> ps_closed (exampleSched c i)"
  by (simp_all add: exampleSched_def newOwnedProbeScheduler_def Let_def)

definition stoppedFirst :: probe_state where
  "stoppedFirst = (cancelScheduler (exampleSched (Some twoOwners) (Some 0)), newDispatcher 1 (Some 0))"

definition closedFirst :: probe_state where
  "closedFirst = dispatcherIteration quiet 9 9 CtxDone stoppedFirst"

definition endedFirst :: probe_state where
  "endedFirst = (workerExits (fst closedFirst), snd closedFirst)"

definition readySecond :: probe_state where
  "readySecond = dispatcherIteration quiet 5 5 OwnerReady (exampleSched (Some secondReady) (Some 1), newDispatcher 1 (Some 1))"

definition firstAlone :: "probe_state \<Rightarrow> nat \<Rightarrow> probe_state option" where
  "firstAlone y = (\<lambda>i. None)(0 \<mapsto> y)"

lemma first_steps:
  "(pool_step quiet)\<^sup>*\<^sup>* (newCoordinator, \<lambda>i. None) (twoOwners, firstAlone endedFirst)" "closeReturns (fst endedFirst)"
proof -
  let ?c = "fst (Claim 1 newCoordinator)"
  let ?s = "\<lambda>c. exampleSched (Some c) (Some 0)" and ?d = "newDispatcher 1 (Some 0)"
  have e: "ps_owner (?s c) = Some c" "(?s c)\<lparr>ps_owner := Some c'\<rparr> = ?s c'" "ps_closed (?s c) = False" "ps_idle (?s c) = 1" "ps_running (?s c) = []" for c c'
    by (simp_all add: exampleSched_def newOwnedProbeScheduler_def Let_def)
  have 1: "pool_step quiet (newCoordinator, \<lambda>i. None) (?c, \<lambda>i. None)"
    by (rule pool_step.claim) (simp add: newCoordinator_def)
  have 2: "pool_step quiet (?c, \<lambda>i. None) (?c, firstAlone (?s ?c, ?d))"
    unfolding firstAlone_def exampleSched_def by (rule pool_step.start) code_simp+
  have 3: "pool_step quiet (?c, firstAlone (?s ?c, ?d)) (twoOwners, firstAlone (?s ?c, ?d))"
    unfolding twoOwners_def by (rule pool_step.claim) (simp add: newCoordinator_def Claim_def inc64_def)
  have 4: "pool_step quiet (twoOwners, firstAlone (?s ?c, ?d)) (twoOwners, (firstAlone (?s ?c, ?d))(0 \<mapsto> stoppedFirst))"
    unfolding stoppedFirst_def
    by (rule pool_step.run [where s = "?s ?c" and d = ?d]) (simp_all add: e firstAlone_def local_step.stop cancelScheduler_def, simp add: e cancelScheduler_def [symmetric] local_step.stop)
  have l: "loopTop 9 stoppedFirst = (fst stoppedFirst, snd stoppedFirst)"
    by (simp add: loopTop_def selectDispatch_def stoppedFirst_def newDispatcher_def cancelScheduler_def exampleSched_def newOwnedProbeScheduler_def)
  have closed: "closedFirst = ((fst stoppedFirst)\<lparr>ps_closed := True\<rparr>, snd stoppedFirst)"
    unfolding closedFirst_def dispatcherIteration_def l
    by (simp add: handleEvent_def stopDispatcher_def finishAll_def stoppedFirst_def newDispatcher_def cancelScheduler_def exampleSched_def newOwnedProbeScheduler_def)
  have own: "ps_owner (fst stoppedFirst) = Some twoOwners" "ps_cancelled (fst stoppedFirst)" "\<not> ps_closed (fst stoppedFirst)" "ps_idle (fst stoppedFirst) = 1"
      "ps_running (fst stoppedFirst) = []"
    by (simp_all add: stoppedFirst_def cancelScheduler_def e)
  have 5: "pool_step quiet (twoOwners, firstAlone stoppedFirst) (twoOwners, (firstAlone stoppedFirst)(0 \<mapsto> (fst closedFirst, snd closedFirst)))"
  proof (rule pool_local [where s = "fst stoppedFirst" and d = "snd stoppedFirst"])
    have "eventReady 9 CtxDone (loopTop 9 (fst stoppedFirst, snd stoppedFirst))" unfolding prod.collapse l using own by (simp add: eventReady_def case_prod_unfold)
    from local_step.iteration [OF own(3) this, of quiet]
    show "local_step quiet (fst stoppedFirst, snd stoppedFirst) (fst closedFirst, snd closedFirst)" by (simp add: closedFirst_def)
  qed (simp_all add: firstAlone_def own closed)
  have 6: "pool_step quiet (twoOwners, firstAlone closedFirst) (twoOwners, (firstAlone closedFirst)(0 \<mapsto> endedFirst))"
    unfolding endedFirst_def
  proof (rule pool_local [where s = "fst closedFirst" and d = "snd closedFirst"])
    show "local_step quiet (fst closedFirst, snd closedFirst) (workerExits (fst closedFirst), snd closedFirst)"
      by (rule local_step.exits) (simp_all add: closed own)
  qed (simp_all add: firstAlone_def closed own workerExits_def)
  have again: "(firstAlone y)(0 \<mapsto> z) = firstAlone z" for y z by (simp add: firstAlone_def)
  have "(pool_step quiet)\<^sup>*\<^sup>* (newCoordinator, \<lambda>i. None) (twoOwners, firstAlone (?s ?c, ?d))" by (rule three_steps [of "pool_step quiet", OF 1 2 3])
  also have "(pool_step quiet)\<^sup>*\<^sup>* (twoOwners, firstAlone (?s ?c, ?d)) (twoOwners, firstAlone endedFirst)"
    by (rule three_steps [of "pool_step quiet", OF 4 [unfolded again] 5 [unfolded again prod.collapse] 6 [unfolded again]])
  finally show "(pool_step quiet)\<^sup>*\<^sup>* (newCoordinator, \<lambda>i. None) (twoOwners, firstAlone endedFirst)" .
  show "closeReturns (fst endedFirst)" by (simp add: closeReturns_def endedFirst_def workerExits_def closed own)
qed


definition bothTokens :: "probe_state \<Rightarrow> nat \<Rightarrow> probe_state option" where
  "bothTokens y = (firstAlone endedFirst)(1 \<mapsto> y)"

lemma readySecond_form: "readySecond = (exampleSched (Some secondReady) (Some 1), (newDispatcher 1 (Some 1))\<lparr>dp_ownerReady := True, dp_stallAt := None\<rparr>)"
    "loopTop 5 (exampleSched (Some secondReady) (Some 1), newDispatcher 1 (Some 1)) = (exampleSched (Some secondReady) (Some 1), newDispatcher 1 (Some 1))"
proof -
  show l: "loopTop 5 (exampleSched (Some secondReady) (Some 1), newDispatcher 1 (Some 1)) = (exampleSched (Some secondReady) (Some 1), newDispatcher 1 (Some 1))"
    by (simp add: loopTop_def selectDispatch_def newDispatcher_def exampleSched_def newOwnedProbeScheduler_def)
  show "readySecond = (exampleSched (Some secondReady) (Some 1), (newDispatcher 1 (Some 1))\<lparr>dp_ownerReady := True, dp_stallAt := None\<rparr>)"
    unfolding readySecond_def dispatcherIteration_def l by (simp add: handleEvent_def)
qed

lemma readySecond_fresh: "freshState readySecond"
proof -
  have "IsOwner (Some 1) secondReady" by code_simp
  then show ?thesis
    by (simp add: readySecond_form freshState_def exampleSched_def newOwnedProbeScheduler_def newDispatcher_def ownsProbes_def)
qed

lemma second_local:
  assumes "local_step quiet y y'" and "ps_owner (fst y) = Some c" and "ps_owner (fst y') = Some c'"
  shows "pool_step quiet (c, bothTokens y) (c', bothTokens y')"
  using pool_local [of "bothTokens y" 1 "fst y" "snd y" quiet "fst y'" "snd y'" c c'] assms by (simp add: bothTokens_def)

definition busySecond :: probe_pool where
  "busySecond = (the (ps_owner (fst (runningState 0 readySecond))), bothTokens (runningState 0 readySecond))"

lemma busySecond_reach: "(pool_step quiet)\<^sup>*\<^sup>* (newCoordinator, \<lambda>i. None) busySecond"
proof -
  have 1: "pool_step quiet (twoOwners, firstAlone endedFirst) (finishedOwner, firstAlone endedFirst)"
    unfolding finishedOwner_def
    by (rule pool_step.ended [where s = "fst endedFirst" and d = "snd endedFirst"]) (simp_all add: firstAlone_def first_steps(2))
  have 2: "pool_step quiet (finishedOwner, firstAlone endedFirst) (drainedOwner, firstAlone endedFirst)"
    unfolding drainedOwner_def by (intro pool_step.background goroutine_step.drained) code_simp+
  have 3: "pool_step quiet (drainedOwner, firstAlone endedFirst) (secondReady, firstAlone endedFirst)"
    unfolding secondReady_def by (intro pool_step.background goroutine_step.ready [where j = 0]) code_simp+
  have "1 < length (sc_tokens secondReady)" by code_simp
  then have 4: "pool_step quiet (secondReady, firstAlone endedFirst)
      (secondReady, bothTokens (exampleSched (Some secondReady) (Some 1), newDispatcher 1 (Some 1)))"
    unfolding bothTokens_def exampleSched_def by (intro pool_step.start) (simp_all add: firstAlone_def)
  have own: "ps_owner (exampleSched (Some secondReady) (Some 1)) = Some secondReady" "\<not> ps_closed (exampleSched (Some secondReady) (Some 1))"
      "ps_ownership (exampleSched (Some secondReady) (Some 1)) = Some 1"
    by (simp_all add: exampleSched_def newOwnedProbeScheduler_def Let_def)
  have "1 < length (sc_tokens secondReady) \<and> ot_ready (sc_tokens secondReady ! 1)" by code_simp
  then have ready: "eventReady 5 OwnerReady (loopTop 5 (exampleSched (Some secondReady) (Some 1), newDispatcher 1 (Some 1)))"
    unfolding readySecond_form(2) by (simp add: eventReady_def ownerTokenReady_def own newDispatcher_def)
  have o: "ps_owner (fst readySecond) = Some secondReady" by (simp add: readySecond_form)
  have 5: "pool_step quiet (secondReady, bothTokens (exampleSched (Some secondReady) (Some 1), newDispatcher 1 (Some 1))) (secondReady, bothTokens readySecond)"
  proof (rule second_local [OF _ _ o])
    show "local_step quiet (exampleSched (Some secondReady) (Some 1), newDispatcher 1 (Some 1)) readySecond"
      unfolding readySecond_def by (rule local_step.iteration [OF own(2) ready])
  qed simp
  note l = runningState_steps [OF readySecond_fresh, of 0]
  have owners: "\<exists>c'. ps_owner (fst y') = Some c'" if "local_step quiet y y'" "ps_owner (fst y) = Some c" for y y' c
    using part_owner_local [OF that(1)] that(2) by (auto simp: ownerPart_def)
  obtain c1 where c1: "ps_owner (fst (submittedState 0 readySecond)) = Some c1" using owners [OF l(1) o] by blast
  obtain c2 where c2: "ps_owner (fst (queuedState 0 readySecond)) = Some c2" using owners [OF l(2) c1] by blast
  obtain c3 where c3: "ps_owner (fst (runningState 0 readySecond)) = Some c3" using owners [OF l(3) c2] by blast
  have "(pool_step quiet)\<^sup>*\<^sup>* (secondReady, bothTokens readySecond) (c3, bothTokens (runningState 0 readySecond))"
    by (rule three_steps [of "pool_step quiet", OF second_local [OF l(1) o c1] second_local [OF l(2) c1 c2] second_local [OF l(3) c2 c3]])
  moreover have "(pool_step quiet)\<^sup>*\<^sup>* (twoOwners, firstAlone endedFirst) (secondReady, firstAlone endedFirst)" by (rule three_steps [of "pool_step quiet", OF 1 2 3])
  ultimately show ?thesis using first_steps(1) 4 5 by (simp add: busySecond_def c3)
qed

theorem one_epoch_probes_at_a_time_witness:
  "ps_running (fst (runningState 0 readySecond)) \<noteq> [] \<and> closeReturns (fst endedFirst) \<and> ps_running (fst endedFirst) = []"
proof -
  obtain s' where "ps_running (fst (runningState 0 readySecond)) = [\<lparr>jb_task = exampleTask 0, jb_ctx = 0, jb_startedAt = 9\<rparr>]"
    by (rule running_form [OF readySecond_fresh [unfolded readySecond_form(1)], of 0]) (simp add: readySecond_form(1))
  then have r: "ps_running (fst (runningState 0 readySecond)) \<noteq> []" by simp
  have init: "pool_init (newCoordinator, \<lambda>i. None)" by (simp add: pool_init_def)
  from one_epoch_probes_at_a_time [OF init busySecond_reach [unfolded busySecond_def], of 1 "fst (runningState 0 readySecond)" "snd (runningState 0 readySecond)"
      0 "fst endedFirst" "snd endedFirst"] r
  show ?thesis by (simp add: bothTokens_def firstAlone_def)
qed

end
