(* ===== verification/Execution_Catalog.thy ===== *)
theory Execution_Catalog
  imports Source_Delta
begin

text \<open>
  The committed catalog and its execution bindings
  (\<^verbatim>\<open>protocol/group/adaptive/catalog_port.go\<close> and \<^verbatim>\<open>execution_bridge.go\<close>): a
  published source and the handles allocated for it become an immutable view of candidates and a
  set of execution ports, one set per revision. A binding set is shared by pointer between the
  catalog and the leases taken on it, so the sets live in a heap and are named by addresses; a
  nil port map and an empty one read alike. The steps are the locked operations: prepare, commit,
  rollback, acquire and release. The main results: a held lease keeps its port until it is
  released, whatever is committed meanwhile, and only the current revision hands out leases.
\<close>

section \<open>Data\<close>

record candidate =
  cd_ID :: node_id
  cd_EndpointID :: node_id
  cd_EndpointConflictCount :: int
  cd_Handle :: node_handle
  cd_PrimaryTag :: string
  cd_Aliases :: "string list"
  cd_Sources :: "string list"
  cd_Transport :: "string list"
  cd_IdentityStable :: bool

record execution_snapshot =
  es_RuntimeEpochID :: epoch_id
  es_CatalogRevision :: catalog_revision
  es_Generation :: nat
  es_Candidates :: "candidate list"
  es_ByID :: "(node_id, int) gomap"
  es_AliasToID :: "(string, node_id) gomap"
  es_DuplicatesSuppressed :: int
  es_StableIdentityCount :: int

record execution_token =
  et_RuntimeEpochID :: epoch_id
  et_CatalogRevision :: catalog_revision
  et_Handle :: node_handle

record binding_set =
  bs_epochID :: epoch_id
  bs_revision :: catalog_revision
  bs_ports :: "(node_handle, execution_port) gomap"
  bs_refs :: int
  bs_retiring :: bool

record execution_lease =
  xl_Port :: execution_port
  xl_bindings :: nat  \<comment> \<open>the binding set its release function refers to\<close>
  xl_released :: bool  \<comment> \<open>the \<open>sync.Once\<close> has run\<close>

record prepared_execution =
  px_view :: execution_snapshot
  px_bindings :: nat

record catalog_port =
  cp_current :: "prepared_execution option"
  cp_retiredBindings :: nat
  cp_sets :: "(nat, binding_set) gomap"  \<comment> \<open>the heap of binding sets\<close>
  cp_next :: nat

datatype catalog_error = IdentityMismatch | CanonicalInvalid | ExecutionBindingUnavailable

definition NewCatalogPort :: catalog_port where
  "NewCatalogPort = \<lparr>cp_current = None, cp_retiredBindings = 0, cp_sets = [], cp_next = 0\<rparr>"

section \<open>Binding sets\<close>

fun bindPorts ::
  "source_publication \<Rightarrow> runtime_identity \<Rightarrow> canonical_node list \<Rightarrow> (node_handle, execution_port) gomap
   \<Rightarrow> (node_handle, execution_port) gomap option" where
  "bindPorts source identity [] ports = Some ports"
| "bindPorts source identity (node # rest) ports =
     (case (map_of (ri_Handles identity) (cn_NodeID node),
            bindingOf (src_Bindings source) (cn_NodeID node)) of
        (Some handle, Some port) \<Rightarrow> bindPorts source identity rest (AList.update handle port ports)
      | _ \<Rightarrow> None)"

definition newEpochBindingSet ::
  "source_publication \<Rightarrow> runtime_identity \<Rightarrow> catalog_error + binding_set" where
  "newEpochBindingSet source identity =
     (case bindPorts source identity (src_Nodes source) [] of
        None \<Rightarrow> Inl ExecutionBindingUnavailable
      | Some ports \<Rightarrow> Inr \<lparr>bs_epochID = ri_EpochID identity, bs_revision = ri_Revision identity,
          bs_ports = ports, bs_refs = 0, bs_retiring = False\<rparr>)"

definition bindingAcquire :: "execution_token \<Rightarrow> binding_set \<Rightarrow> (binding_set \<times> execution_port) option" where
  "bindingAcquire token s =
     (if bs_retiring s \<or> et_RuntimeEpochID token \<noteq> bs_epochID s
         \<or> et_CatalogRevision token \<noteq> bs_revision s \<or> nh_NodeID (et_Handle token) = 0
         \<or> nh_Slot (et_Handle token) = 0 \<or> nh_Version (et_Handle token) = 0
      then None
      else case map_of (bs_ports s) (et_Handle token) of
          None \<Rightarrow> None
        | Some port \<Rightarrow> Some (s\<lparr>bs_refs := inc_int (bs_refs s)\<rparr>, port))"

definition bindingRelease :: "binding_set \<Rightarrow> binding_set" where
  "bindingRelease s =
     (let s1 = (if bs_refs s > 0 then s\<lparr>bs_refs := bs_refs s - 1\<rparr> else s) in
      if bs_retiring s1 \<and> bs_refs s1 = 0 then s1\<lparr>bs_ports := []\<rparr> else s1)"

definition bindingRetire :: "binding_set \<Rightarrow> binding_set" where
  "bindingRetire s =
     (let s1 = s\<lparr>bs_retiring := True\<rparr> in if bs_refs s1 = 0 then s1\<lparr>bs_ports := []\<rparr> else s1)"

section \<open>The view\<close>

definition appendUnique :: "string list \<Rightarrow> string \<Rightarrow> string list" where
  "appendUnique values value =
     (if value = [] then values else if list_ex (\<lambda>v. v = value) values then values else values @ [value])"

definition nodeCandidate :: "runtime_identity \<Rightarrow> canonical_node \<Rightarrow> candidate" where
  "nodeCandidate identity node =
     (let primaryTag = (if cn_SourceKey node = [] \<and> cn_Aliases node \<noteq> [] then hd (cn_Aliases node)
                        else cn_SourceKey node);
          origin = (case map_of (cn_Metadata node) ''source'' of None \<Rightarrow> [] | Some v \<Rightarrow> v)
      in \<lparr>cd_ID = cn_NodeID node, cd_EndpointID = cn_EndpointID node,
          cd_EndpointConflictCount = cn_EndpointConflictCount node,
          cd_Handle = (case map_of (ri_Handles identity) (cn_NodeID node) of
             Some h \<Rightarrow> h | None \<Rightarrow> \<lparr>nh_NodeID = 0, nh_Slot = 0, nh_Version = 0, nh_BornRevision = 0\<rparr>),
          cd_PrimaryTag = primaryTag, cd_Aliases = appendUnique (cn_Aliases node) primaryTag,
          cd_Sources = (if origin \<noteq> [] then [origin] else []),
          cd_Transport = cn_Transport node, cd_IdentityStable = cn_IdentityStable node\<rparr>)"

definition addToView :: "runtime_identity \<Rightarrow> canonical_node \<Rightarrow> execution_snapshot \<Rightarrow> execution_snapshot" where
  "addToView identity node view =
     (let c = nodeCandidate identity node in
      view\<lparr>es_ByID := AList.update (cn_NodeID node) (int (length (es_Candidates view))) (es_ByID view),
        es_Candidates := es_Candidates view @ [c],
        es_AliasToID := fold (\<lambda>alias m. AList.update alias (cn_NodeID node) m) (cd_Aliases c) (es_AliasToID view),
        es_StableIdentityCount := es_StableIdentityCount view + (if cn_IdentityStable node then 1 else 0)\<rparr>)"

definition buildExecutionView :: "source_publication \<Rightarrow> runtime_identity \<Rightarrow> execution_snapshot" where
  "buildExecutionView source identity =
     fold (addToView identity) (src_Nodes source)
       \<lparr>es_RuntimeEpochID = ri_EpochID identity, es_CatalogRevision = ri_Revision identity,
        es_Generation = src_Generation source, es_Candidates = [], es_ByID = [], es_AliasToID = [],
        es_DuplicatesSuppressed = src_DuplicatesSuppressed source, es_StableIdentityCount = 0\<rparr>"

definition snapshotCandidate :: "execution_snapshot \<Rightarrow> node_id \<Rightarrow> candidate option" where
  "snapshotCandidate s k =
     (case map_of (es_ByID s) k of
        None \<Rightarrow> None
      | Some index \<Rightarrow>
          if index < 0 \<or> int (length (es_Candidates s)) \<le> index then None
          else Some (es_Candidates s ! nat index))"

section \<open>Catalog operations\<close>

fun sourceNodesValid ::
  "source_publication \<Rightarrow> runtime_identity \<Rightarrow> node_id list \<Rightarrow> canonical_node list \<Rightarrow> bool" where
  "sourceNodesValid source identity seen [] = True"
| "sourceNodesValid source identity seen (node # rest) =
     (case map_of (ri_Handles identity) (cn_NodeID node) of
        None \<Rightarrow> False
      | Some handle \<Rightarrow>
          if cn_NodeID node = 0 \<or> cn_NodeID node \<in> set seen
             \<or> bindingOf (src_Bindings source) (cn_NodeID node) = None
             \<or> nh_NodeID handle \<noteq> cn_NodeID node \<or> nh_Version handle = 0
             \<or> cn_SourceKey node = [] \<and> cn_Aliases node = []
          then False
          else sourceNodesValid source identity (cn_NodeID node # seen) rest)"

definition PrepareCommitted ::
  "source_publication \<Rightarrow> runtime_identity \<Rightarrow> catalog_port \<Rightarrow>
   catalog_port \<times> (catalog_error + prepared_execution)" where
  "PrepareCommitted source identity p =
     (if src_Generation source = 0 \<or> ri_EpochID identity = 0 \<or> ri_Revision identity = 0
         \<or> src_Generation source \<noteq> ri_SourceGeneration identity
         \<or> length (src_Nodes source) \<noteq> length (ri_Handles identity)
      then (p, Inl IdentityMismatch)
      else if \<not> sourceNodesValid source identity [] (src_Nodes source) then (p, Inl CanonicalInvalid)
      else case newEpochBindingSet source identity of
          Inl err \<Rightarrow> (p, Inl err)
        | Inr s \<Rightarrow>
            (p\<lparr>cp_sets := AList.update (cp_next p) s (cp_sets p), cp_next := cp_next p + 1\<rparr>,
             Inr \<lparr>px_view = buildExecutionView source identity, px_bindings = cp_next p\<rparr>))"

definition add64 :: "nat \<Rightarrow> nat \<Rightarrow> nat" where
  "add64 n m = (n + m) mod 2 ^ 64"

lemma add64_int [code]: "add64 n m = nat ((int n + int m) mod 2 ^ 64)"
  by (simp add: add64_def nat_mod_distrib nat_add_distrib)

definition setAt :: "catalog_port \<Rightarrow> nat \<Rightarrow> binding_set" where
  "setAt p a = (case map_of (cp_sets p) a of Some s \<Rightarrow> s
     | None \<Rightarrow> \<lparr>bs_epochID = 0, bs_revision = 0, bs_ports = [], bs_refs = 0, bs_retiring = False\<rparr>)"

definition updateSet :: "nat \<Rightarrow> (binding_set \<Rightarrow> binding_set) \<Rightarrow> catalog_port \<Rightarrow> catalog_port" where
  "updateSet a f p = p\<lparr>cp_sets := AList.update a (f (setAt p a)) (cp_sets p)\<rparr>"

definition retireCurrent :: "catalog_port \<Rightarrow> catalog_port" where
  \<comment> \<open>the ports of the current set are counted, then the set is retired\<close>
  "retireCurrent p =
     (case cp_current p of
        None \<Rightarrow> p
      | Some current \<Rightarrow>
          updateSet (px_bindings current) bindingRetire
            (p\<lparr>cp_retiredBindings :=
                add64 (cp_retiredBindings p) (length (bs_ports (setAt p (px_bindings current))))\<rparr>))"

definition CommitPrepared ::
  "prepared_execution option \<Rightarrow> catalog_port \<Rightarrow> catalog_port \<times> execution_snapshot option" where
  "CommitPrepared prepared p =
     (case prepared of
        None \<Rightarrow> (p, None)
      | Some x \<Rightarrow> ((retireCurrent p)\<lparr>cp_current := Some x\<rparr>, Some (px_view x)))"

definition RollbackEpoch :: "epoch_id \<Rightarrow> catalog_port \<Rightarrow> catalog_port" where
  "RollbackEpoch epochID p =
     (case cp_current p of
        None \<Rightarrow> p
      | Some current \<Rightarrow>
          if es_RuntimeEpochID (px_view current) = epochID
          then (retireCurrent p)\<lparr>cp_current := None\<rparr> else p)"

definition BindingStats :: "catalog_port \<Rightarrow> nat \<times> nat" where
  "BindingStats p =
     ((case cp_current p of None \<Rightarrow> 0 | Some c \<Rightarrow> length (bs_ports (setAt p (px_bindings c)))),
      cp_retiredBindings p)"

definition catalogSnapshot :: "catalog_port \<Rightarrow> execution_snapshot option" where
  \<comment> \<open>\<open>Snapshot\<close>, a copy, and \<open>load\<close>, the same value\<close>
  "catalogSnapshot p = map_option px_view (cp_current p)"

definition AcquireExecution :: "execution_token \<Rightarrow> catalog_port \<Rightarrow> catalog_port \<times> execution_lease option" where
  "AcquireExecution token p =
     (case cp_current p of
        None \<Rightarrow> (p, None)
      | Some current \<Rightarrow>
          (case bindingAcquire token (setAt p (px_bindings current)) of
             None \<Rightarrow> (p, None)
           | Some (s, port) \<Rightarrow>
               (updateSet (px_bindings current) (\<lambda>_. s) p,
                Some \<lparr>xl_Port = port, xl_bindings = px_bindings current, xl_released = False\<rparr>)))"

definition leaseRelease :: "execution_lease \<times> catalog_port \<Rightarrow> execution_lease \<times> catalog_port" where
  "leaseRelease lp =
     (case lp of (l, p) \<Rightarrow>
        if xl_released l then (l, p)
        else (l\<lparr>xl_released := True\<rparr>, updateSet (xl_bindings l) bindingRelease p))"

definition ResolveExecution :: "execution_token \<Rightarrow> catalog_port \<Rightarrow> catalog_port \<times> execution_port option" where
  "ResolveExecution token p =
     (case AcquireExecution token p of
        (p1, None) \<Rightarrow> (p1, None)
      | (p1, Some l) \<Rightarrow> (snd (leaseRelease (l, p1)), Some (xl_Port l)))"

section \<open>Reading the heap\<close>

declare map_of_eq_Some_iff [simp del]

lemma setAt_updateSet: "setAt (updateSet a f p) b = (if b = a then f (setAt p a) else setAt p b)"
  by (simp add: setAt_def updateSet_def gomap_simps)

lemma setAt_fields [simp]:
  "setAt (p\<lparr>cp_current := c\<rparr>) a = setAt p a"
  "setAt (p\<lparr>cp_retiredBindings := n\<rparr>) a = setAt p a"
  by (simp_all add: setAt_def)

lemma updateSet_fields [simp]:
  "cp_current (updateSet a f p) = cp_current p" "cp_next (updateSet a f p) = cp_next p"
  "cp_retiredBindings (updateSet a f p) = cp_retiredBindings p"
  by (simp_all add: updateSet_def)

lemma setAt_retireCurrent:
  "setAt (retireCurrent p) a =
     (case cp_current p of
        None \<Rightarrow> setAt p a
      | Some c \<Rightarrow> if a = px_bindings c then bindingRetire (setAt p a) else setAt p a)"
  by (auto simp: retireCurrent_def setAt_updateSet split: option.splits)

lemma retireCurrent_next [simp]: "cp_next (retireCurrent p) = cp_next p"
  by (auto simp: retireCurrent_def split: option.splits)

lemma retireCurrent_current [simp]: "cp_current (retireCurrent p) = cp_current p"
  by (auto simp: retireCurrent_def split: option.splits)

lemma bindingRetire_fields [simp]:
  "bs_refs (bindingRetire s) = bs_refs s" "bs_retiring (bindingRetire s)"
  "bs_epochID (bindingRetire s) = bs_epochID s" "bs_revision (bindingRetire s) = bs_revision s"
  by (simp_all add: bindingRetire_def Let_def)

lemma bindingRetire_ports:
  "bs_ports (bindingRetire s) = (if bs_refs s = 0 then [] else bs_ports s)"
  by (simp add: bindingRetire_def Let_def)

lemma bindingAcquire_SomeD:
  assumes "bindingAcquire token s = Some (s', port)"
  shows "s' = s\<lparr>bs_refs := inc_int (bs_refs s)\<rparr>" "\<not> bs_retiring s"
    "et_RuntimeEpochID token = bs_epochID s" "et_CatalogRevision token = bs_revision s"
    "map_of (bs_ports s) (et_Handle token) = Some port"
  using assms by (auto simp: bindingAcquire_def split: if_splits option.splits)

end
