(* ===== verification/Node_Weight.thy ===== *)
theory Node_Weight
  imports Go_Float Transport
begin

text \<open>
  Manual node weights (\<^verbatim>\<open>common/nodeweight\<close>): rules that match a node tag by a keyword
  or exactly, compiled once and looked up for every candidate. \<open>strings.ToLower\<close> lowers
  every Unicode letter; its case table is the field \<open>nm_toLower\<close> of the matcher. The
  lemmas characterise the rule a tag is weighted by: the most specific one, the last of them
  when several are equally specific.
\<close>

section \<open>Runes\<close>

definition cont_byte :: "char \<Rightarrow> bool" where
  "cont_byte c \<longleftrightarrow> 0x80 \<le> (of_char c :: nat) \<and> (of_char c :: nat) \<le> 0xBF"

definition second_byte :: "char \<Rightarrow> char \<Rightarrow> bool" where
  \<comment> \<open>the accepted second byte after a given first one\<close>
  "second_byte a b \<longleftrightarrow>
     (let x = (of_char a :: nat); y = (of_char b :: nat) in
      (if x = 0xE0 then 0xA0 else if x = 0xF0 then 0x90 else 0x80) \<le> y
      \<and> y \<le> (if x = 0xED then 0x9F else if x = 0xF4 then 0x8F else 0xBF))"

definition rune_size :: "string \<Rightarrow> nat" where
  \<comment> \<open>the bytes of the first rune of a non-empty string; an invalid byte counts alone\<close>
  "rune_size s =
     (let x = (of_char (hd s) :: nat) in
      if 0xC2 \<le> x \<and> x \<le> 0xDF \<and> 2 \<le> length s \<and> second_byte (s ! 0) (s ! 1) then 2
      else if 0xE0 \<le> x \<and> x \<le> 0xEF \<and> 3 \<le> length s \<and> second_byte (s ! 0) (s ! 1)
          \<and> cont_byte (s ! 2) then 3
      else if 0xF0 \<le> x \<and> x \<le> 0xF4 \<and> 4 \<le> length s \<and> second_byte (s ! 0) (s ! 1)
          \<and> cont_byte (s ! 2) \<and> cont_byte (s ! 3) then 4
      else 1)"

lemma rune_size_pos: "0 < rune_size s"
  by (simp add: rune_size_def Let_def)

function rune_count :: "string \<Rightarrow> nat" where
  "rune_count s = (if s = [] then 0 else Suc (rune_count (drop (rune_size s) s)))"
  by pat_completeness auto
termination
  using rune_size_pos by (relation "measure length") (auto simp: diff_less)

declare rune_count.simps [simp del]

fun contains_str :: "string \<Rightarrow> string \<Rightarrow> bool" where
  "contains_str s sub = (has_prefix s sub \<or> (case s of [] \<Rightarrow> False | _ # r \<Rightarrow> contains_str r sub))"

declare contains_str.simps [simp del]

lemma contains_str_self: "contains_str s s"
  by (subst contains_str.simps) (simp add: has_prefix_def)

section \<open>Rules\<close>

record weight_rule =
  wr_Match :: string
  wr_Weight :: float64

record compiled_rule =
  cr_match :: string
  cr_exact :: bool
  cr_weight :: float64

record weight_matcher =
  nm_rules :: "compiled_rule list"
  nm_toLower :: "string \<Rightarrow> string"

record weight_match =
  wm_Weight :: float64
  wm_Rule :: string
  wm_Exact :: bool

datatype weight_error = RuleInvalid | ExactMatchEmpty

abbreviation defaultWeight :: float64 where "defaultWeight \<equiv> 1"

fun compileRules ::
  "(string \<Rightarrow> string) \<Rightarrow> compiled_rule list \<Rightarrow> weight_rule list \<Rightarrow> weight_error + compiled_rule list" where
  "compileRules lower acc [] = Inr acc"
| "compileRules lower acc (rule # rest) =
     (let match = trim_space (wr_Match rule) in
      if match = [] \<or> wr_Weight rule < f64 (1 / 100) \<or> 100 < wr_Weight rule then Inl RuleInvalid
      else if has_prefix match ''='' then
        (let exactMatch = trim_space (drop 1 match) in
         if exactMatch = [] then Inl ExactMatchEmpty
         else compileRules lower
           (acc @ [\<lparr>cr_match = lower exactMatch, cr_exact = True, cr_weight = wr_Weight rule\<rparr>]) rest)
      else compileRules lower
        (acc @ [\<lparr>cr_match = lower match, cr_exact = False, cr_weight = wr_Weight rule\<rparr>]) rest)"

definition newWeightMatcher ::
  "(string \<Rightarrow> string) \<Rightarrow> weight_rule list \<Rightarrow> weight_error + weight_matcher" where
  "newWeightMatcher lower rules =
     (case compileRules lower [] rules of
        Inl err \<Rightarrow> Inl err
      | Inr compiled \<Rightarrow> Inr \<lparr>nm_rules = compiled, nm_toLower = lower\<rparr>)"

definition ruleMatches :: "string \<Rightarrow> compiled_rule \<Rightarrow> bool" where
  "ruleMatches tag rule \<longleftrightarrow>
     (if cr_exact rule then tag = cr_match rule else contains_str tag (cr_match rule))"

definition ruleLength :: "compiled_rule \<Rightarrow> int" where
  "ruleLength rule = int (rune_count (cr_match rule)) + (if cr_exact rule then 2 ^ 20 else 0)"

fun explainLoop :: "string \<Rightarrow> int \<Rightarrow> weight_match \<Rightarrow> compiled_rule list \<Rightarrow> weight_match" where
  "explainLoop tag bestLength best [] = best"
| "explainLoop tag bestLength best (rule # rest) =
     (if \<not> ruleMatches tag rule then explainLoop tag bestLength best rest
      else if bestLength \<le> ruleLength rule then
        explainLoop tag (ruleLength rule)
          \<lparr>wm_Weight = cr_weight rule, wm_Rule = cr_match rule, wm_Exact = cr_exact rule\<rparr> rest
      else explainLoop tag bestLength best rest)"

definition weightExplain :: "weight_matcher option \<Rightarrow> string \<Rightarrow> weight_match" where
  "weightExplain m tag =
     (case m of
        None \<Rightarrow> \<lparr>wm_Weight = defaultWeight, wm_Rule = [], wm_Exact = False\<rparr>
      | Some matcher \<Rightarrow>
          if nm_rules matcher = []
          then \<lparr>wm_Weight = defaultWeight, wm_Rule = [], wm_Exact = False\<rparr>
          else explainLoop (nm_toLower matcher tag) (-1)
            \<lparr>wm_Weight = defaultWeight, wm_Rule = [], wm_Exact = False\<rparr> (nm_rules matcher))"

definition nodeWeight :: "weight_matcher option \<Rightarrow> string \<Rightarrow> float64" where
  "nodeWeight m tag = wm_Weight (weightExplain m tag)"

section \<open>The rule a tag is weighted by\<close>

definition match_of_rule :: "compiled_rule \<Rightarrow> weight_match" where
  "match_of_rule r = \<lparr>wm_Weight = cr_weight r, wm_Rule = cr_match r, wm_Exact = cr_exact r\<rparr>"

definition best_rule :: "string \<Rightarrow> compiled_rule list \<Rightarrow> compiled_rule \<Rightarrow> bool" where
  \<comment> \<open>the last of the matching rules of the greatest length\<close>
  "best_rule tag rules r \<longleftrightarrow>
     (\<exists>before after. rules = before @ r # after \<and> ruleMatches tag r
        \<and> (\<forall>q \<in> set before. ruleMatches tag q \<longrightarrow> ruleLength q \<le> ruleLength r)
        \<and> (\<forall>q \<in> set after. ruleMatches tag q \<longrightarrow> ruleLength q < ruleLength r))"

lemma ruleLength_nonneg [simp]: "0 \<le> ruleLength r"
  by (simp add: ruleLength_def)

lemma explainLoop_best:
  "(\<forall>q \<in> set rules. ruleMatches tag q \<longrightarrow> ruleLength q < n) \<and> explainLoop tag n best rules = best
   \<or> (\<exists>r. best_rule tag rules r \<and> n \<le> ruleLength r \<and> explainLoop tag n best rules = match_of_rule r)"
proof (induction rules arbitrary: n best)
  case (Cons q rules)
  show ?case
  proof (cases "ruleMatches tag q \<and> n \<le> ruleLength q")
    case True
    from Cons.IH [of "ruleLength q" "match_of_rule q"] show ?thesis
    proof
      assume a: "(\<forall>p \<in> set rules. ruleMatches tag p \<longrightarrow> ruleLength p < ruleLength q) \<and>
        explainLoop tag (ruleLength q) (match_of_rule q) rules = match_of_rule q"
      then have "best_rule tag (q # rules) q"
        using True a unfolding best_rule_def by (intro exI [of _ "[]"] exI [of _ rules]) auto
      then show ?thesis using True a by (auto simp: match_of_rule_def)
    next
      assume "\<exists>r. best_rule tag rules r \<and> ruleLength q \<le> ruleLength r \<and>
        explainLoop tag (ruleLength q) (match_of_rule q) rules = match_of_rule r"
      then obtain r where r: "best_rule tag rules r" "ruleLength q \<le> ruleLength r"
        "explainLoop tag (ruleLength q) (match_of_rule q) rules = match_of_rule r" by blast
      then obtain before after where
        "rules = before @ r # after" "ruleMatches tag r"
        "\<forall>p \<in> set before. ruleMatches tag p \<longrightarrow> ruleLength p \<le> ruleLength r"
        "\<forall>p \<in> set after. ruleMatches tag p \<longrightarrow> ruleLength p < ruleLength r"
        unfolding best_rule_def by blast
      then have "best_rule tag (q # rules) r"
        using r(2) unfolding best_rule_def by (intro exI [of _ "q # before"] exI [of _ after]) auto
      then show ?thesis using True r by (auto simp: match_of_rule_def)
    qed
  next
    case False
    have eq: "explainLoop tag n best (q # rules) = explainLoop tag n best rules"
      using False by auto
    from Cons.IH [of n best] show ?thesis
    proof
      assume "\<exists>r. best_rule tag rules r \<and> n \<le> ruleLength r \<and>
        explainLoop tag n best rules = match_of_rule r"
      then obtain r where r: "best_rule tag rules r" "n \<le> ruleLength r"
        "explainLoop tag n best rules = match_of_rule r" by blast
      then obtain before after where
        "rules = before @ r # after" "ruleMatches tag r"
        "\<forall>p \<in> set before. ruleMatches tag p \<longrightarrow> ruleLength p \<le> ruleLength r"
        "\<forall>p \<in> set after. ruleMatches tag p \<longrightarrow> ruleLength p < ruleLength r"
        unfolding best_rule_def by blast
      then have "best_rule tag (q # rules) r"
        using r(2) False unfolding best_rule_def by (intro exI [of _ "q # before"] exI [of _ after]) auto
      then show ?thesis using r eq by auto
    qed (use False eq in auto)
  qed
qed simp

lemma weightExplain_best:
  "weightExplain (Some m) tag = \<lparr>wm_Weight = defaultWeight, wm_Rule = [], wm_Exact = False\<rparr>
     \<and> (\<forall>q \<in> set (nm_rules m). \<not> ruleMatches (nm_toLower m tag) q)
   \<or> (\<exists>r. best_rule (nm_toLower m tag) (nm_rules m) r \<and> weightExplain (Some m) tag = match_of_rule r)"
proof (cases "nm_rules m = []")
  case True
  then show ?thesis by (simp add: weightExplain_def)
next
  case False
  let ?d = "\<lparr>wm_Weight = defaultWeight, wm_Rule = [], wm_Exact = False\<rparr>"
  have "weightExplain (Some m) tag = explainLoop (nm_toLower m tag) (-1) ?d (nm_rules m)"
    using False by (simp add: weightExplain_def)
  moreover have "\<not> ruleLength q < -1" for q using ruleLength_nonneg [of q] by linarith
  ultimately show ?thesis
    using explainLoop_best [of "nm_rules m" "nm_toLower m tag" "-1" ?d] by auto
qed

lemma compileRules_weights:
  assumes "compileRules lower acc rules = Inr compiled"
    and "\<forall>r \<in> set acc. f64 (1 / 100) \<le> cr_weight r \<and> cr_weight r \<le> 100"
  shows "\<forall>r \<in> set compiled. f64 (1 / 100) \<le> cr_weight r \<and> cr_weight r \<le> 100"
  using assms
  by (induction lower acc rules rule: compileRules.induct) (auto simp: Let_def split: if_splits)

lemma exact_beats_keyword:
  assumes "best_rule tag rules r" and "q \<in> set rules" and "ruleMatches tag q" and "cr_exact q"
    and "rune_count (cr_match r) < 2 ^ 20"
  shows "cr_exact r"
proof (rule ccontr)
  assume "\<not> cr_exact r"
  then have "ruleLength r < 2 ^ 20" using assms(5) by (simp add: ruleLength_def)
  moreover have "2 ^ 20 \<le> ruleLength q" using assms(4) by (simp add: ruleLength_def)
  moreover have "q \<noteq> r" using assms(4) \<open>\<not> cr_exact r\<close> by auto
  ultimately show False using assms(1-3) unfolding best_rule_def by fastforce
qed

lemma minimum_below_default: "f64 (1 / 100) \<le> 1"
  by code_simp

text \<open>C37. The weight of a tag under compiled rules lies between the two bounds of a rule, and it
  is decided by the most specific matching rule, the later one of two equally specific ones. An
  exact rule that matches wins over every keyword of fewer than two to the twentieth runes.\<close>

theorem weight_by_most_specific_rule:
  assumes "newWeightMatcher lower rules = Inr m"
  shows "f64 (1 / 100) \<le> nodeWeight (Some m) tag \<and> nodeWeight (Some m) tag \<le> 100
    \<and> (if \<exists>q \<in> set (nm_rules m). ruleMatches (lower tag) q
       then \<exists>r. best_rule (lower tag) (nm_rules m) r \<and> weightExplain (Some m) tag = match_of_rule r
         \<and> (rune_count (cr_match r) < 2 ^ 20 \<longrightarrow>
              (\<exists>q \<in> set (nm_rules m). ruleMatches (lower tag) q \<and> cr_exact q) \<longrightarrow> cr_exact r)
       else nodeWeight (Some m) tag = defaultWeight)"
proof -
  have lower: "nm_toLower m = lower" and compiled: "compileRules lower [] rules = Inr (nm_rules m)"
    using assms(1) by (auto simp: newWeightMatcher_def split: sum.splits)
  have bounds: "\<forall>r \<in> set (nm_rules m). f64 (1 / 100) \<le> cr_weight r \<and> cr_weight r \<le> 100"
    by (rule compileRules_weights [OF compiled]) simp
  have mem: "best_rule t rs r \<Longrightarrow> r \<in> set rs \<and> ruleMatches t r" for t rs r
    by (auto simp: best_rule_def)
  show ?thesis
  proof (cases "\<exists>q \<in> set (nm_rules m). ruleMatches (lower tag) q")
    case True
    then obtain r where r: "best_rule (lower tag) (nm_rules m) r"
      "weightExplain (Some m) tag = match_of_rule r"
      using weightExplain_best [of m tag] lower by auto
    then show ?thesis
      using True bounds mem [OF r(1)] exact_beats_keyword [OF r(1)]
      by (auto simp: nodeWeight_def match_of_rule_def)
  next
    case False
    then have "nodeWeight (Some m) tag = 1"
      using weightExplain_best [of m tag] lower mem by (auto simp: nodeWeight_def)
    then show ?thesis using False minimum_below_default by auto
  qed
qed

definition sampleRules :: "weight_rule list" where
  "sampleRules = [\<lparr>wr_Match = ''=hk bgp'', wr_Weight = 2\<rparr>, \<lparr>wr_Match = ''bgp'', wr_Weight = 3 / 2\<rparr>]"

definition sampleMatcher :: weight_matcher where
  "sampleMatcher =
     \<lparr>nm_rules = [\<lparr>cr_match = ''hk bgp'', cr_exact = True, cr_weight = 2\<rparr>,
        \<lparr>cr_match = ''bgp'', cr_exact = False, cr_weight = 3 / 2\<rparr>], nm_toLower = to_lower_ascii\<rparr>"

lemma sampleMatcher_compiled: "newWeightMatcher to_lower_ascii sampleRules = Inr sampleMatcher"
proof -
  have "compileRules to_lower_ascii [] sampleRules = Inr (nm_rules sampleMatcher)"
    by code_simp
  then show ?thesis by (simp add: newWeightMatcher_def sampleMatcher_def)
qed

theorem weight_by_most_specific_rule_witness:
  "nm_rules sampleMatcher \<noteq> []
   \<and> f64 (1 / 100) \<le> nodeWeight (Some sampleMatcher) ''HK BGP''
   \<and> nodeWeight (Some sampleMatcher) ''HK BGP'' \<le> 100"
  using weight_by_most_specific_rule [OF sampleMatcher_compiled, of "''HK BGP''"]
    by (simp add: sampleMatcher_def)

end
