(* ===== verification/Policy.thy ===== *)
theory Policy
  imports Execution_Catalog Node_Weight Lease Health_Permit
begin

text \<open>
  The selection policy (\<^verbatim>\<open>protocol/group/adaptive/policy.go\<close>, the interface and the
  helpers of \<^verbatim>\<open>policy_kernel.go\<close>, the replica tag test of \<^verbatim>\<open>probe_runtime.go\<close> and the
  printed identities of \<^verbatim>\<open>identity.go\<close>): how a plan of candidates is made from a catalog
  snapshot, the health store, the lease of the session and the sticky memory of the engine. The
  health store is shared with other components and is an argument of every operation that reads
  it; a plan is made against one state of it. The portable kernel is an interface value: a record
  of its operations with its state, absent in the default build. \<open>N.NetworkName\<close> belongs to
  another module and is the argument \<open>nn\<close>. A zero instant is replaced by the wall clock, the
  argument \<open>wall\<close>.
\<close>

section \<open>Printed identities\<close>

definition hexDigit :: "nat \<Rightarrow> char" where
  "hexDigit n = ''0123456789abcdef'' ! n"

definition idBytes :: "128 word \<Rightarrow> nat list" where
  "idBytes w = map (\<lambda>i. unat (drop_bit (120 - 8 * i) w) mod 256) [0..<16]"

definition hexEncode :: "nat list \<Rightarrow> string" where
  "hexEncode bs = concat (map (\<lambda>b. [hexDigit (b div 16), hexDigit (b mod 16)]) bs)"

definition nodeIDString :: "node_id \<Rightarrow> string" where
  "nodeIDString k = hexEncode (idBytes k)"

definition sessionKeyString :: "session_key \<Rightarrow> string" where
  "sessionKeyString k = hexEncode (take 8 (idBytes k))"

section \<open>The portable kernel\<close>

record kernel_candidate =
  kc_ID :: "64 word"
  kc_SortKeyHi :: "64 word"
  kc_SortKeyLo :: "64 word"
  kc_HealthPriority :: int
  kc_WeightedDelayMS :: float64
  kc_ThroughputBPS :: float64
  kc_ThroughputSamples :: float64
  kc_Supported :: bool
  kc_Eligible :: bool
  kc_Pinned :: bool
  kc_Leased :: bool

record kernel_decision =
  kd_SelectedID :: "64 word"
  kd_Switched :: bool
  kd_Reason :: nat

record 'k kernel_ops =
  kp_Configure :: "float64 \<Rightarrow> duration \<Rightarrow> string \<Rightarrow> 'k \<Rightarrow> 'k"
  kp_Choose :: "string \<Rightarrow> kernel_candidate list \<Rightarrow> policy_mode \<Rightarrow> gotime \<Rightarrow> 'k \<Rightarrow> 'k \<times> kernel_decision"
  kp_SetBulkSequence :: "string \<Rightarrow> nat \<Rightarrow> 'k \<Rightarrow> 'k"
  kp_Remember :: "string \<Rightarrow> node_id \<Rightarrow> gotime \<Rightarrow> duration \<Rightarrow> 'k \<Rightarrow> 'k"
  kp_Forget :: "string \<Rightarrow> 'k \<Rightarrow> 'k"
  kp_Reset :: "'k \<Rightarrow> 'k"

definition kernelCandidateSortKey :: "node_id \<Rightarrow> 64 word \<times> 64 word" where
  "kernelCandidateSortKey k = (ucast (drop_bit 64 k), ucast k)"

definition fnv64a :: "nat list \<Rightarrow> 64 word" where
  "fnv64a bs = fold (\<lambda>b h. xor h (of_nat b) * 1099511628211) bs 14695981039346656037"

definition kernelCandidateID :: "node_id \<Rightarrow> 64 word" where
  "kernelCandidateID k =
     (let value = fnv64a (map of_char (''sing-box/adaptive-policy/v1'' @ [CHR 0x00]) @ idBytes k) in
      if value = 0 then 1 else value)"

fun policyKernelMode :: "policy_mode \<Rightarrow> nat" where
  "policyKernelMode ModeStrictAffinity = 0"
| "policyKernelMode ModeLatency = 2"
| "policyKernelMode ModeBulk = 3"
| "policyKernelMode ModeManual = 4"
| "policyKernelMode _ = 1"

section \<open>Data\<close>

datatype decision_reason =
  ReasonManualPin | ReasonLease | ReasonRanked | ReasonFallback | ReasonStrictNew | ReasonBulkSpread
| ReasonBulkThroughput | ReasonWarmingFallback | ReasonStickyMargin | ReasonSwitchCooldown

definition kernelDecisionReason :: "nat \<Rightarrow> decision_reason" where
  "kernelDecisionReason reason =
     (if reason = 1 then ReasonStickyMargin
      else if reason = 8 then ReasonSwitchCooldown
      else if reason = 2 then ReasonLease
      else if reason = 3 then ReasonManualPin
      else if reason = 4 then ReasonWarmingFallback
      else if reason = 6 then ReasonBulkSpread
      else if reason = 7 then ReasonBulkThroughput
      else ReasonRanked)"

record decision_plan =
  dn_RuntimeEpochID :: epoch_id
  dn_CatalogRevision :: catalog_revision
  dn_Generation :: nat
  dn_Mode :: policy_mode
  dn_Reason :: decision_reason
  dn_Candidates :: "candidate list"
  dn_hasHealth :: bool  \<comment> \<open>the pointer to the health store is not nil\<close>
  dn_service :: service_context
  dn_allowBlocked :: bool
  dn_disableHedge :: bool

datatype plan_error =
  ErrNoCandidates | ErrNoEligibleCandidates | ErrModeInvalid
| PlanPanic  \<comment> \<open>a slice expression out of range\<close>

record sticky_preference =
  sk_handle :: node_handle
  sk_until :: gotime
  sk_updatedAt :: gotime

record 'k policy_engine =
  pl_kernel :: "('k kernel_ops \<times> 'k) option"
  pl_maxAttempts :: int
  pl_manualFailure :: string
  pl_bulkSequence :: nat
  pl_nodeWeights :: "weight_matcher option"
  pl_switchMargin :: float64
  pl_switchCooldown :: duration
  pl_affinityMode :: string
  pl_sticky :: "(string, sticky_preference) gomap"

abbreviation maxStickyEntries :: nat where "maxStickyEntries \<equiv> 4096"
abbreviation earlySwitchWindow :: duration where "earlySwitchWindow \<equiv> 20 * second"

definition zeroHandle :: node_handle where
  "zeroHandle = \<lparr>nh_NodeID = 0, nh_Slot = 0, nh_Version = 0, nh_BornRevision = 0\<rparr>"

definition defaultSwitchMargin :: float64 where
  "defaultSwitchMargin = f64 (15 / 100)"

definition orNow :: "gotime \<Rightarrow> gotime \<Rightarrow> gotime" where
  "orNow wall now = (if is_zero now then wall else now)"

section \<open>Construction and configuration\<close>

definition NewPolicyEngine ::
  "('k kernel_ops \<times> 'k) option \<Rightarrow> int \<Rightarrow> string \<Rightarrow> 'k policy_engine" where
  "NewPolicyEngine kern maxAttempts manualFailure =
     \<lparr>pl_kernel = kern, pl_maxAttempts = (if maxAttempts \<le> 0 then 3 else maxAttempts),
      pl_manualFailure = (if manualFailure = [] then ''fallback'' else manualFailure),
      pl_bulkSequence = 0, pl_nodeWeights = None, pl_switchMargin = defaultSwitchMargin,
      pl_switchCooldown = 2 * minute, pl_affinityMode = [], pl_sticky = []\<rparr>"

definition onKernel :: "('k kernel_ops \<Rightarrow> 'k \<Rightarrow> 'k) \<Rightarrow> 'k policy_engine \<Rightarrow> 'k policy_engine" where
  "onKernel f e = e\<lparr>pl_kernel := map_option (\<lambda>(ops, k). (ops, f ops k)) (pl_kernel e)\<rparr>"

definition BindBulkSequence :: "nat option \<Rightarrow> 'k policy_engine \<Rightarrow> 'k policy_engine" where
  \<comment> \<open>the counter the pool keeps across its engines\<close>
  "BindBulkSequence sequence e = (case sequence of None \<Rightarrow> e | Some n \<Rightarrow> e\<lparr>pl_bulkSequence := n\<rparr>)"

definition BindNodeWeights :: "weight_matcher option \<Rightarrow> 'k policy_engine \<Rightarrow> 'k policy_engine" where
  "BindNodeWeights weights e = e\<lparr>pl_nodeWeights := weights\<rparr>"

definition BindAffinityMode :: "string \<Rightarrow> 'k policy_engine \<Rightarrow> 'k policy_engine" where
  "BindAffinityMode mode e =
     e\<lparr>pl_affinityMode := (if mode = [] \<or> mode = ''service'' then ''service''
        else if mode = ''disabled'' then ''disabled'' else ''service'')\<rparr>"

definition BindSwitchStability :: "float64 \<Rightarrow> duration \<Rightarrow> 'k policy_engine \<Rightarrow> 'k policy_engine" where
  "BindSwitchStability margin0 cooldown0 e =
     (let margin1 = (if margin0 < 0 then defaultSwitchMargin else margin0);
          margin = (if 1 / 2 < margin1 then 1 / 2 else margin1);
          cooldown = (if cooldown0 < 0 then 0 else cooldown0)
      in onKernel (\<lambda>ops. kp_Configure ops margin cooldown (pl_manualFailure e))
           (e\<lparr>pl_switchMargin := margin, pl_switchCooldown := cooldown\<rparr>))"

definition importStickyFrom :: "'k policy_engine \<Rightarrow> 'k policy_engine \<Rightarrow> 'k policy_engine" where
  "importStickyFrom src e =
     e\<lparr>pl_sticky := fold (\<lambda>(key, pref) m. AList.update key pref m) (pl_sticky src) (pl_sticky e)\<rparr>"

definition ClearPolicy :: "'k policy_engine \<Rightarrow> 'k policy_engine" where
  "ClearPolicy e = onKernel kp_Reset (e\<lparr>pl_sticky := []\<rparr>)"

definition ClosePolicy :: "'k policy_engine \<Rightarrow> 'k policy_engine" where
  "ClosePolicy e = e\<lparr>pl_kernel := None\<rparr>"

section \<open>The sticky memory\<close>

definition stickyExpired :: "gotime \<Rightarrow> sticky_preference \<Rightarrow> bool" where
  "stickyExpired now pref \<longleftrightarrow>
     is_zero (sk_until pref) \<and> 24 * hour < time_sub now (sk_updatedAt pref)
     \<or> \<not> is_zero (sk_until pref) \<and> sk_until pref + 24 * hour < now"

fun oldestSticky :: "string \<Rightarrow> gotime \<Rightarrow> (string, sticky_preference) gomap \<Rightarrow> string" where
  "oldestSticky oldestKey oldest [] = oldestKey"
| "oldestSticky oldestKey oldest ((key, pref) # rest) =
     (if oldestKey = [] \<or> sk_updatedAt pref < oldest
      then oldestSticky key (sk_updatedAt pref) rest
      else oldestSticky oldestKey oldest rest)"

lemma oldestSticky_mem:
  "oldestSticky k t m = k \<or> oldestSticky k t m \<in> fst ` set m"
  by (induction k t m rule: oldestSticky.induct) auto

lemma oldestSticky_in: "m \<noteq> [] \<Longrightarrow> oldestSticky [] t m \<in> fst ` set m"
proof (cases m)
  case (Cons p rest)
  then show ?thesis
    using oldestSticky_mem [of "fst p" "sk_updatedAt (snd p)" rest] by (cases p) auto
qed simp

lemma delete_shorter: "k \<in> fst ` set m \<Longrightarrow> length (AList.delete k m) < length m"
proof (induction m)
  case (Cons p m)
  have "length (AList.delete k m) \<le> length m" by (rule length_delete_le)
  then show ?case using Cons by (cases p) (auto simp: le_imp_less_Suc)
qed simp

function evictSticky :: "(string, sticky_preference) gomap \<Rightarrow> (string, sticky_preference) gomap" where
  "evictSticky m =
     (if maxStickyEntries < length m then evictSticky (AList.delete (oldestSticky [] 0 m) m) else m)"
  by pat_completeness auto
termination
proof (relation "measure length")
  fix m :: "(string, sticky_preference) gomap"
  assume "maxStickyEntries < length m"
  then have "m \<noteq> []" by auto
  then show "(AList.delete (oldestSticky [] 0 m) m, m) \<in> measure length"
    by (simp add: delete_shorter oldestSticky_in)
qed simp

declare evictSticky.simps [simp del]

definition pruneStickyLocked :: "gotime \<Rightarrow> 'k policy_engine \<Rightarrow> 'k policy_engine" where
  "pruneStickyLocked now e =
     e\<lparr>pl_sticky := evictSticky (filter (\<lambda>(key, pref). \<not> stickyExpired now pref) (pl_sticky e))\<rparr>"

definition RememberSelection ::
  "string \<Rightarrow> node_handle \<Rightarrow> gotime \<Rightarrow> gotime \<Rightarrow> 'k policy_engine \<Rightarrow> 'k policy_engine" where
  "RememberSelection key handle wall now0 e =
     (if key = [] \<or> nh_NodeID handle = 0 \<or> pl_affinityMode e = ''disabled'' then e
      else let now = orNow wall now0;
          fresh = (if 0 < pl_switchCooldown e then now + pl_switchCooldown e else 0);
          until = (case map_of (pl_sticky e) key of
              None \<Rightarrow> fresh
            | Some previous \<Rightarrow> if sk_handle previous \<noteq> handle then fresh else sk_until previous);
          e1 = e\<lparr>pl_sticky := AList.update key
            \<lparr>sk_handle = handle, sk_until = until, sk_updatedAt = now\<rparr> (pl_sticky e)\<rparr>;
          e2 = (if maxStickyEntries < length (pl_sticky e1) then pruneStickyLocked now e1 else e1)
        in onKernel (\<lambda>ops. kp_Remember ops key (nh_NodeID handle) now (pl_switchCooldown e)) e2)"

definition stickyKey :: "service_context \<Rightarrow> 'k policy_engine \<Rightarrow> string" where
  "stickyKey service e =
     (if pl_affinityMode e = ''disabled'' then []
      else let base = (if sc_AffinityID service \<noteq> [] then sc_AffinityID service else sc_ID service) in
        if sc_Session service \<noteq> 0
        then sessionKeyString (sc_Session service) @ [CHR 0x00] @ base else base)"

definition ForgetSelectionAfterEarlyFailure ::
  "service_context \<Rightarrow> node_handle \<Rightarrow> gotime \<Rightarrow> gotime \<Rightarrow> 'k policy_engine \<Rightarrow> 'k policy_engine \<times> bool" where
  "ForgetSelectionAfterEarlyFailure service handle wall now0 e =
     (if nh_NodeID handle = 0 then (e, False)
      else let now = orNow wall now0; key = stickyKey service e in
        case map_of (pl_sticky e) key of
          None \<Rightarrow> (e, False)
        | Some pref \<Rightarrow>
            let age = time_sub now (sk_updatedAt pref) in
            if sk_handle pref \<noteq> handle \<or> age < 0 \<or> earlySwitchWindow < age then (e, False)
            else (onKernel (\<lambda>ops. kp_Forget ops key) (e\<lparr>pl_sticky := AList.delete key (pl_sticky e)\<rparr>), True))"

definition stickyPreferred ::
  "string \<Rightarrow> gotime \<Rightarrow> gotime \<Rightarrow> 'k policy_engine \<Rightarrow> 'k policy_engine \<times> sticky_preference option" where
  "stickyPreferred key wall now0 e =
     (if key = [] then (e, None)
      else let now = orNow wall now0 in
        case map_of (pl_sticky e) key of
          None \<Rightarrow> (e, None)
        | Some pref \<Rightarrow>
            if nh_NodeID (sk_handle pref) = 0 then (e, None)
            else if \<not> is_zero (sk_until pref) \<and> sk_until pref + 24 * hour < now
              then (e\<lparr>pl_sticky := AList.delete key (pl_sticky e)\<rparr>, None)
            else (e, Some pref))"

section \<open>Scores\<close>

record candidate_score =
  cs_HealthPriority :: int
  cs_ObservedDelay :: duration
  cs_SmoothedDelay :: duration
  cs_WeightedDelay :: duration
  cs_SelectionScore :: nat
  cs_DominantEvidence :: string
  cs_ManualWeight :: float64

fun healthPriority :: "health_state \<Rightarrow> int" where
  "healthPriority HealthHealthy = 0"
| "healthPriority HealthUnknown = 1"
| "healthPriority HealthDegraded = 2"
| "healthPriority HealthUnreachable = 4"
| "healthPriority HealthEmpty = 3"

definition weightedDelay :: "duration \<Rightarrow> float64 \<Rightarrow> duration" where
  "weightedDelay delay weight0 =
     (let weight = (if weight0 \<le> 0 then defaultWeight else weight0) in
      f_trunc (f_div (f_of_int delay) weight))"

definition significantlyFaster :: "duration \<Rightarrow> duration \<Rightarrow> float64 \<Rightarrow> bool" where
  "significantlyFaster challenger incumbent margin =
     (if incumbent \<le> 0 then True
      else if challenger \<le> 0 then False
      else if margin \<le> 0 then challenger < incumbent
      else f_of_int challenger \<le> f_mul (f_of_int incumbent) (f_sub 1 margin))"

definition modeUsesLease :: "policy_mode \<Rightarrow> bool" where
  "modeUsesLease mode \<longleftrightarrow> mode \<noteq> ModeBulk \<and> mode \<noteq> ModeLatency"

definition lastIndexOf :: "string \<Rightarrow> string \<Rightarrow> nat option" where
  "lastIndexOf s sub =
     (case filter (\<lambda>i. has_prefix (drop i s) sub) [0..<length s] of [] \<Rightarrow> None | js \<Rightarrow> Some (last js))"

definition isProviderReplicaTag :: "string \<Rightarrow> bool" where
  \<comment> \<open>a rune outside ASCII is no digit, and neither is any of its bytes\<close>
  "isProviderReplicaTag tag0 =
     (let tag = trim_space tag0 in
      case lastIndexOf tag '' ('' of
        None \<Rightarrow> False
      | Some opening \<Rightarrow>
          if last tag \<noteq> CHR '')'' then False
          else let num = take (length tag - 1 - (opening + 2)) (drop (opening + 2) tag) in
            if num = [] \<or> num = ''1'' then False
            else list_all (\<lambda>c. 48 \<le> (of_char c :: nat) \<and> (of_char c :: nat) \<le> 57) num)"

definition isProviderReplicaCandidate :: "candidate \<Rightarrow> bool" where
  "isProviderReplicaCandidate c = isProviderReplicaTag (cd_PrimaryTag c)"

definition familyHasEvidence :: "health_status \<Rightarrow> bool" where
  "familyHasEvidence st \<longleftrightarrow>
     0 < st_Successes st \<or> 0 < st_Failures st \<or> 0 < st_NonBreakerSuccesses st
     \<or> 0 < st_NonBreakerFailures st \<or> 0 < st_DelaySamples st \<or> st_Health st = HealthDegraded
     \<or> st_Health st = HealthUnreachable
     \<or> st_Breaker st \<noteq> BreakerClosed \<and> st_Breaker st \<noteq> BreakerEmpty"

definition familyUsableForScore :: "health_status \<Rightarrow> bool" where
  "familyUsableForScore st =
     (if st_Breaker st = BreakerOpen \<or> st_Breaker st = BreakerCooldown then False
      else st_Health st \<noteq> HealthUnreachable)"

definition preferStatusDelay :: "health_status \<Rightarrow> health_status \<Rightarrow> bool" where
  "preferStatusDelay left right =
     (let ld = RankingDelay left; rd = RankingDelay right in
      if ld = 0 then False else if rd = 0 then True else ld \<le> rd)"

definition transportScoreStatus ::
  "health_store \<Rightarrow> node_handle \<Rightarrow> service_context \<Rightarrow> string \<times> health_status" where
  "transportScoreStatus hs handle service =
     (let path = serviceHealthTransport service;
          normalized0 = normalizeHealthTransportPath path;
          normalized = (if normalized0 = [] then path else normalized0);
          status = (\<lambda>p. StatusHandle hs handle DomainTransport p [])
      in case dualStackFamilyPaths normalized of
           None \<Rightarrow> (normalized, status normalized)
         | Some (familyA, familyB) \<Rightarrow>
             let a = status familyA; b = status familyB; agg = status normalized in
             if familyUsableForScore a \<and> familyUsableForScore b then
               (if \<not> familyHasEvidence a \<and> \<not> familyHasEvidence b \<and> familyHasEvidence agg
                then (normalized, agg)
                else if preferStatusDelay a b then (familyA, a) else (familyB, b))
             else if familyUsableForScore a then
               (if \<not> familyHasEvidence a \<and> familyHasEvidence agg then (normalized, agg) else (familyA, a))
             else if familyUsableForScore b then
               (if \<not> familyHasEvidence b \<and> familyHasEvidence agg then (normalized, agg) else (familyB, b))
             else (normalized, agg))"

definition worsenDelay :: "health_status \<Rightarrow> duration \<times> duration \<Rightarrow> duration \<times> duration" where
  "worsenDelay st ds =
     (case ds of (delay, smoothed) \<Rightarrow>
        (if 0 < RankingDelay st \<and> (delay = 0 \<or> delay < RankingDelay st) then RankingDelay st else delay,
         if 0 < st_SmoothedDelay st \<and> (smoothed = 0 \<or> smoothed < st_SmoothedDelay st)
         then st_SmoothedDelay st else smoothed))"

definition worstPriority ::
  "health_store \<Rightarrow> candidate \<Rightarrow> service_context \<Rightarrow> int \<times> string" where
  "worstPriority hs c service =
     (let endpoint = EndpointHandle hs (cd_Handle c);
          (transportName, transport) = transportScoreStatus hs (cd_Handle c) service;
          serviceStatus = StatusHandle hs (cd_Handle c) DomainService [] (sc_ID service);
          p0 = (healthPriority (st_Health endpoint), ''endpoint'');
          p1 = (if fst p0 < healthPriority (st_Health transport)
                then (healthPriority (st_Health transport), transportName) else p0)
      in if sc_ID service \<noteq> [] \<and> fst p1 < healthPriority (st_Health serviceStatus)
         then (healthPriority (st_Health serviceStatus), ''service:'' @ sc_ID service) else p1)"

definition candidateDelays ::
  "health_store \<Rightarrow> candidate \<Rightarrow> service_context \<Rightarrow> duration \<times> duration" where
  "candidateDelays hs c service =
     (let (transportName, transport) = transportScoreStatus hs (cd_Handle c) service;
          d0 = (RankingDelay transport, st_SmoothedDelay transport);
          d1 = worsenDelay (EndpointHandle hs (cd_Handle c)) d0;
          (delay0, smoothed0) = (if sc_ID service \<noteq> []
             then worsenDelay (StatusHandle hs (cd_Handle c) DomainService [] (sc_ID service)) d1 else d1);
          delay = (if delay0 = 0 then 10 * second else delay0)
      in (delay, if smoothed0 = 0 then delay else smoothed0))"

definition candidateScore ::
  "'k policy_engine \<Rightarrow> health_store \<Rightarrow> candidate \<Rightarrow> service_context \<Rightarrow> candidate_score" where
  "candidateScore e hs c service =
     (let (priority, dominant) = worstPriority hs c service;
          (delay, smoothed) = candidateDelays hs c service;
          weight = (case pl_nodeWeights e of None \<Rightarrow> defaultWeight
                    | Some m \<Rightarrow> nodeWeight (Some m) (cd_PrimaryTag c));
          weighted0 = weightedDelay smoothed weight;
          weighted = (if isProviderReplicaCandidate c then int64 (weighted0 + 8 * second)
                      else if 1 < cd_EndpointConflictCount c then int64 (weighted0 + 2 * second)
                      else weighted0);
          score = nat priority * 1000000000000 + (if 0 < weighted then nat (weighted div 1000) else 0)
      in \<lparr>cs_HealthPriority = priority, cs_ObservedDelay = delay, cs_SmoothedDelay = smoothed,
          cs_WeightedDelay = weighted, cs_SelectionScore = score, cs_DominantEvidence = dominant,
          cs_ManualWeight = weight\<rparr>)"

definition candidatePriority ::
  "'k policy_engine \<Rightarrow> health_store \<Rightarrow> candidate \<Rightarrow> service_context \<Rightarrow> int \<times> duration" where
  "candidatePriority e hs c service =
     (let score = candidateScore e hs c service in (cs_HealthPriority score, cs_ObservedDelay score))"

section \<open>Candidates\<close>

definition candidateSupports :: "(string \<Rightarrow> string) \<Rightarrow> candidate \<Rightarrow> string \<Rightarrow> bool" where
  "candidateSupports nn c transport = list_ex (\<lambda>network. nn network = nn transport) (cd_Transport c)"

definition candidateBlocked :: "health_store \<Rightarrow> candidate \<Rightarrow> service_context \<Rightarrow> bool" where
  "candidateBlocked hs c service = (\<not> CanAttemptHandleReadOnly hs (cd_Handle c) service 0)"

definition ExclusionReasons :: "health_store \<Rightarrow> candidate \<Rightarrow> service_context \<Rightarrow> string list" where
  "ExclusionReasons hs c service =
     (if sc_Transport service \<noteq> [] \<or> sc_HealthTransport service \<noteq> [] \<or> sc_ID service \<noteq> [] then
        (let reason = ExplainExclusion hs (cd_Handle c) service 0 in
         if reason \<noteq> [] then [reason]
         else let (ok, reason') = SupportsService (BuildCapabilityProfile hs (cd_Handle c) 0) service in
           if \<not> ok \<and> reason' \<noteq> [] then [reason'] else [])
      else ExplainAllPathExclusions hs (cd_Handle c) 0)"

definition ExclusionReason :: "health_store \<Rightarrow> candidate \<Rightarrow> service_context \<Rightarrow> string" where
  "ExclusionReason hs c service =
     (case ExclusionReasons hs c service of [] \<Rightarrow> [] | reason # _ \<Rightarrow> reason)"

definition hasTrustedBulkThroughput :: "health_store \<Rightarrow> candidate list \<Rightarrow> string \<Rightarrow> bool" where
  "hasTrustedBulkThroughput hs cs serviceID =
     list_ex (\<lambda>c. 2 \<le> st_ThroughputSamples (StatusHandle hs (cd_Handle c) DomainService [] serviceID)) cs"

fun indexOf :: "('a \<Rightarrow> bool) \<Rightarrow> 'a list \<Rightarrow> nat option" where
  "indexOf P [] = None"
| "indexOf P (x # xs) = (if P x then Some 0 else map_option Suc (indexOf P xs))"

definition moveCandidateFirst :: "'a list \<Rightarrow> nat \<Rightarrow> 'a list" where
  "moveCandidateFirst xs index =
     (if index = 0 \<or> length xs \<le> index then xs else xs ! index # take index xs @ drop (Suc index) xs)"

definition limitCandidates :: "'a list \<Rightarrow> int \<Rightarrow> 'a list" where
  "limitCandidates xs limit = (if limit < int (length xs) then take (nat limit) xs else xs)"

definition rotateCandidates :: "'a list \<Rightarrow> int \<Rightarrow> 'a list option" where
  \<comment> \<open>the remainder takes the sign of the offset; a negative one is out of range\<close>
  "rotateCandidates xs offset0 =
     (if length xs < 2 then Some xs
      else let n = int (length xs); offset = offset0 - n * quot_int offset0 n in
        if offset = 0 then Some xs
        else if offset < 0 then None
        else Some (drop (nat offset) xs @ take (nat offset) xs))"

definition candidateLeased :: "session_lease \<Rightarrow> candidate \<Rightarrow> bool" where
  "candidateLeased lease c \<longleftrightarrow> cd_ID c = sl_NodeID lease \<and> nh_Slot (cd_Handle c) = sl_NodeSlot lease
     \<and> nh_Version (cd_Handle c) = sl_NodeVersion lease"

definition stickyIncumbent :: "sticky_preference \<Rightarrow> candidate \<Rightarrow> bool" where
  "stickyIncumbent pref c \<longleftrightarrow> cd_Handle c = sk_handle pref
     \<or> cd_ID c = nh_NodeID (sk_handle pref) \<and> nh_Slot (cd_Handle c) = nh_Slot (sk_handle pref)
       \<and> nh_Version (cd_Handle c) = nh_Version (sk_handle pref)"

definition makePlan ::
  "execution_snapshot \<Rightarrow> policy_mode \<Rightarrow> decision_reason \<Rightarrow> service_context \<Rightarrow> candidate list \<Rightarrow> decision_plan" where
  "makePlan snapshot mode reason service cs =
     \<lparr>dn_RuntimeEpochID = es_RuntimeEpochID snapshot, dn_CatalogRevision = es_CatalogRevision snapshot,
      dn_Generation = es_Generation snapshot, dn_Mode = mode, dn_Reason = reason, dn_Candidates = cs,
      dn_hasHealth = True, dn_service = service, dn_allowBlocked = False, dn_disableHedge = False\<rparr>"

section \<open>Ranking\<close>

definition rankBefore ::
  "'k policy_engine \<Rightarrow> health_store \<Rightarrow> service_context \<Rightarrow> policy_mode \<Rightarrow> candidate \<Rightarrow> candidate \<Rightarrow> bool" where
  "rankBefore e hs service mode left right =
     (let ls = candidateScore e hs left service; rs = candidateScore e hs right service;
          lt = StatusHandle hs (cd_Handle left) DomainService [] (sc_ID service);
          rt = StatusHandle hs (cd_Handle right) DomainService [] (sc_ID service);
          lk = (2 \<le> st_ThroughputSamples lt); rk = (2 \<le> st_ThroughputSamples rt)
      in if cs_HealthPriority ls \<noteq> cs_HealthPriority rs then cs_HealthPriority ls < cs_HealthPriority rs
         else if mode = ModeBulk \<and> lk \<noteq> rk then lk
         else if mode = ModeBulk \<and> lk \<and> st_ThroughputBPS lt \<noteq> st_ThroughputBPS rt
           then st_ThroughputBPS rt < st_ThroughputBPS lt
         else if cs_WeightedDelay ls \<noteq> cs_WeightedDelay rs then cs_WeightedDelay ls < cs_WeightedDelay rs
         else cd_ID left < cd_ID right)"

definition kernelCandidate ::
  "'k policy_engine \<Rightarrow> health_store \<Rightarrow> service_context \<Rightarrow> session_lease option \<Rightarrow> node_id option \<Rightarrow>
   candidate \<Rightarrow> kernel_candidate" where
  "kernelCandidate e hs service lease pinned c =
     (let score = candidateScore e hs c service;
          throughput = (if sc_ID service \<noteq> []
            then StatusHandle hs (cd_Handle c) DomainService [] (sc_ID service) else emptyStatus)
      in \<lparr>kc_ID = kernelCandidateID (cd_ID c), kc_SortKeyHi = fst (kernelCandidateSortKey (cd_ID c)),
          kc_SortKeyLo = snd (kernelCandidateSortKey (cd_ID c)),
          kc_HealthPriority = cs_HealthPriority score,
          kc_WeightedDelayMS = f_div (f_of_int (cs_WeightedDelay score)) (f_of_int millisecond),
          kc_ThroughputBPS = st_ThroughputBPS throughput,
          kc_ThroughputSamples = f_of_int (int (st_ThroughputSamples throughput)),
          kc_Supported = True, kc_Eligible = True,
          kc_Pinned = (case pinned of None \<Rightarrow> False | Some k \<Rightarrow> cd_ID c = k),
          kc_Leased = (case lease of None \<Rightarrow> False | Some l \<Rightarrow> candidateLeased l c)\<rparr>)"

definition kernelChoose ::
  "health_store \<Rightarrow> service_context \<Rightarrow> session_lease option \<Rightarrow> node_id option \<Rightarrow> gotime \<Rightarrow> policy_mode \<Rightarrow>
   nat \<Rightarrow> candidate list \<Rightarrow> 'k policy_engine \<Rightarrow> 'k policy_engine \<times> candidate list \<times> decision_reason option" where
  \<comment> \<open>the eligible candidates with the one the kernel selected in front, if it selected one of them\<close>
  "kernelChoose hs service lease pinned now mode bulkSequence eligible e =
     (case pl_kernel e of
        None \<Rightarrow> (e, eligible, None)
      | Some (ops, k) \<Rightarrow>
          let key = stickyKey service e;
              k1 = (if mode = ModeBulk then kp_SetBulkSequence ops key bulkSequence k else k);
              (k2, decision) =
                kp_Choose ops key (map (kernelCandidate e hs service lease pinned) eligible) mode now k1;
              e' = e\<lparr>pl_kernel := Some (ops, k2)\<rparr>
          in if kd_SelectedID decision = 0 then (e', eligible, None)
             else case indexOf (\<lambda>c. kernelCandidateID (cd_ID c) = kd_SelectedID decision) eligible of
                 None \<Rightarrow> (e', eligible, None)
               | Some index \<Rightarrow>
                   (e', moveCandidateFirst eligible index, Some (kernelDecisionReason (kd_Reason decision))))"

definition rankEligible ::
  "'k policy_engine \<Rightarrow> health_store \<Rightarrow> service_context \<Rightarrow> policy_mode \<Rightarrow> bool \<Rightarrow> candidate list \<Rightarrow> candidate list" where
  \<comment> \<open>the stable sort of the candidates behind the one the kernel selected\<close>
  "rankEligible e hs service mode kernelUsed cs =
     (if kernelUsed then take 1 cs @ sortSlice (rankBefore e hs service mode) (drop 1 cs)
      else sortSlice (rankBefore e hs service mode) cs)"

definition applyStickyStability ::
  "health_store \<Rightarrow> service_context \<Rightarrow> gotime \<Rightarrow> candidate list \<Rightarrow> 'k policy_engine \<Rightarrow>
   'k policy_engine \<times> (candidate list \<times> decision_reason) option" where
  "applyStickyStability hs service now eligible e =
     (case stickyPreferred (stickyKey service e) now now e of
        (e', None) \<Rightarrow> (e', None)
      | (e', Some pref) \<Rightarrow>
          (case indexOf (stickyIncumbent pref) eligible of
             None \<Rightarrow> (e', None)
           | Some index \<Rightarrow>
               if index = 0 then (e', None)
               else let challenger = candidateScore e hs (eligible ! 0) service;
                   incumbent = candidateScore e hs (eligible ! index) service;
                   inCooldown = (0 < pl_switchCooldown e \<and> \<not> is_zero (sk_until pref) \<and> now \<le> sk_until pref);
                   moved = moveCandidateFirst eligible index
                 in if cs_HealthPriority challenger < cs_HealthPriority incumbent then (e', None)
                    else if inCooldown then (e', Some (moved, ReasonSwitchCooldown))
                    else if cs_HealthPriority incumbent < cs_HealthPriority challenger
                      then (e', Some (moved, ReasonStickyMargin))
                    else if \<not> significantlyFaster (cs_WeightedDelay challenger)
                        (cs_WeightedDelay incumbent) (pl_switchMargin e)
                      then (e', Some (moved, ReasonStickyMargin))
                    else (e', None)))"

section \<open>Plans\<close>

definition bulkPlan ::
  "health_store \<Rightarrow> execution_snapshot \<Rightarrow> service_context \<Rightarrow> int \<Rightarrow> nat \<Rightarrow> decision_reason option \<Rightarrow>
   candidate list \<Rightarrow> plan_error + decision_plan" where
  "bulkPlan hs snapshot service maxAttempts sequence kernelReason eligible =
     (let planOf = (\<lambda>reason cs. makePlan snapshot ModeBulk reason service (limitCandidates cs maxAttempts)) in
      case kernelReason of
        Some reason \<Rightarrow>
          Inr (if reason = ReasonBulkThroughput \<or> reason = ReasonBulkSpread then planOf reason eligible
               else planOf ReasonBulkSpread eligible)
      | None \<Rightarrow>
          if hasTrustedBulkThroughput hs eligible (sc_ID service) then
            (if sequence mod 5 \<noteq> 0 then Inr (planOf ReasonBulkThroughput eligible)
             else case rotateCandidates eligible (int64 (int (sequence div 5))) of
                 None \<Rightarrow> Inl PlanPanic
               | Some rotated \<Rightarrow> Inr (planOf ReasonBulkSpread rotated))
          else case rotateCandidates eligible (int64 (int sequence - 1)) of
              None \<Rightarrow> Inl PlanPanic
            | Some rotated \<Rightarrow> Inr (planOf ReasonBulkSpread rotated))"

definition stickyStage ::
  "health_store \<Rightarrow> service_context \<Rightarrow> node_id option \<Rightarrow> gotime \<Rightarrow> policy_mode \<Rightarrow> decision_reason option \<Rightarrow>
   candidate list \<Rightarrow> 'k policy_engine \<Rightarrow> 'k policy_engine \<times> candidate list \<times> decision_reason" where
  "stickyStage hs service pinned now mode kernelReason ranked e =
     (let reason = (if pinned \<noteq> None then ReasonFallback
                    else case kernelReason of None \<Rightarrow> ReasonRanked | Some r \<Rightarrow> r)
      in if kernelReason = None \<and> (mode = ModeAdaptive \<or> mode = ModeStrictAffinity)
         then (case applyStickyStability hs service now ranked e of
             (e', None) \<Rightarrow> (e', ranked, reason)
           | (e', Some (moved, r)) \<Rightarrow> (e', moved, r))
         else (e, ranked, reason))"

definition modePlan ::
  "health_store \<Rightarrow> execution_snapshot \<Rightarrow> service_context \<Rightarrow> session_lease option \<Rightarrow> policy_mode \<Rightarrow> int \<Rightarrow>
   nat \<Rightarrow> decision_reason option \<Rightarrow> candidate list \<Rightarrow> decision_reason \<Rightarrow> plan_error + decision_plan" where
  "modePlan hs snapshot service lease mode maxAttempts sequence kernelReason eligible reason =
     (let leased = (case lease of None \<Rightarrow> None
            | Some l \<Rightarrow> if mode = ModeStrictAffinity then find (candidateLeased l) eligible else None);
          limited = limitCandidates eligible maxAttempts
      in case leased of
           Some c \<Rightarrow> Inr (makePlan snapshot mode ReasonLease service [c])
         | None \<Rightarrow>
             (case mode of
                ModeStrictAffinity \<Rightarrow> Inr (makePlan snapshot mode
                  (if reason = ReasonRanked then ReasonStrictNew else reason) service limited)
              | ModeBulk \<Rightarrow> bulkPlan hs snapshot service maxAttempts sequence kernelReason eligible
              | ModeAdaptive \<Rightarrow> Inr (makePlan snapshot mode reason service limited)
              | ModeLatency \<Rightarrow> Inr (makePlan snapshot mode reason service limited)
              | _ \<Rightarrow> Inl ErrModeInvalid))"

definition bulkCount :: "policy_mode \<Rightarrow> 'k policy_engine \<Rightarrow> 'k policy_engine" where
  "bulkCount mode e =
     (if mode = ModeBulk then e\<lparr>pl_bulkSequence := inc64 (pl_bulkSequence e)\<rparr> else e)"

definition rankedPlan ::
  "health_store \<Rightarrow> execution_snapshot \<Rightarrow> service_context \<Rightarrow> session_lease option \<Rightarrow> node_id option \<Rightarrow>
   gotime \<Rightarrow> policy_mode \<Rightarrow> candidate list \<Rightarrow> 'k policy_engine \<Rightarrow>
   'k policy_engine \<times> (plan_error + decision_plan)" where
  "rankedPlan hs snapshot service lease pinned now mode eligible e =
     (let e1 = bulkCount mode e;
          sequence = (if mode = ModeBulk then pl_bulkSequence e1 else 0);
          (e2, chosen, kernelReason) =
            kernelChoose hs service lease pinned now mode sequence eligible e1;
          (e3, steady, reason) = stickyStage hs service pinned now mode kernelReason
            (rankEligible e2 hs service mode (kernelReason \<noteq> None) chosen) e2
      in (e3, modePlan hs snapshot service lease mode (pl_maxAttempts e) sequence kernelReason steady reason))"

definition supportedCandidates ::
  "(string \<Rightarrow> string) \<Rightarrow> execution_snapshot \<Rightarrow> service_context \<Rightarrow> candidate list" where
  "supportedCandidates nn snapshot service =
     filter (\<lambda>c. candidateSupports nn c (sc_Transport service)) (es_Candidates snapshot)"

definition eligibleCandidates ::
  "(string \<Rightarrow> string) \<Rightarrow> health_store \<Rightarrow> execution_snapshot \<Rightarrow> service_context \<Rightarrow> candidate list" where
  "eligibleCandidates nn hs snapshot service =
     filter (\<lambda>c. \<not> candidateBlocked hs c service) (supportedCandidates nn snapshot service)"

definition pinnedPlan ::
  "(string \<Rightarrow> string) \<Rightarrow> health_store \<Rightarrow> execution_snapshot \<Rightarrow> service_context \<Rightarrow> string \<Rightarrow>
   node_id option \<Rightarrow> (plan_error + decision_plan) option" where
  "pinnedPlan nn hs snapshot service manualFailure pinned =
     (let failed = (if manualFailure = ''fail_closed'' then Some (Inl ErrNoEligibleCandidates) else None) in
      case pinned of
        None \<Rightarrow> None
      | Some k \<Rightarrow>
          (case snapshotCandidate snapshot k of
             None \<Rightarrow> failed
           | Some c \<Rightarrow>
               if candidateSupports nn c (sc_Transport service) then
                 (if \<not> candidateBlocked hs c service
                  then Some (Inr (makePlan snapshot ModeManual ReasonManualPin service [c])) else failed)
               else failed))"

definition effectiveMode :: "service_context \<Rightarrow> policy_mode" where
  "effectiveMode service = (if sc_Mode service = ModeUnset then ModeAdaptive else sc_Mode service)"

definition Plan ::
  "(string \<Rightarrow> string) \<Rightarrow> health_store \<Rightarrow> execution_snapshot option \<Rightarrow> service_context \<Rightarrow>
   session_lease option \<Rightarrow> node_id option \<Rightarrow> gotime \<Rightarrow> 'k policy_engine \<Rightarrow>
   'k policy_engine \<times> (plan_error + decision_plan)" where
  "Plan nn hs snapshot0 service lease pinned now e =
     (case snapshot0 of
        None \<Rightarrow> (e, Inl ErrNoCandidates)
      | Some snapshot \<Rightarrow>
          let supported = supportedCandidates nn snapshot service;
              eligible = eligibleCandidates nn hs snapshot service;
              mode = effectiveMode service
          in case pinnedPlan nn hs snapshot service (pl_manualFailure e) pinned of
               Some result \<Rightarrow> (e, result)
             | None \<Rightarrow>
                 if eligible = [] then
                   (if supported \<noteq> [] \<and> (mode = ModeAdaptive \<or> mode = ModeLatency \<or> mode = ModeBulk)
                    then (e, Inr ((makePlan snapshot mode ReasonWarmingFallback service
                        (limitCandidates supported 1))\<lparr>dn_allowBlocked := True, dn_disableHedge := True\<rparr>))
                    else (e, Inl ErrNoEligibleCandidates))
                 else case (if mode = ModeAdaptive then lease else None) of
                     Some l \<Rightarrow>
                       (case indexOf (candidateLeased l) eligible of
                          Some index \<Rightarrow> (e, Inr (makePlan snapshot mode ReasonLease service
                            (limitCandidates (moveCandidateFirst eligible index) (pl_maxAttempts e))))
                        | None \<Rightarrow> rankedPlan hs snapshot service lease pinned now mode eligible e)
                   | None \<Rightarrow> rankedPlan hs snapshot service lease pinned now mode eligible e)"

definition planPermit ::
  "decision_plan \<Rightarrow> node_id \<Rightarrow> gotime \<Rightarrow> health_store \<Rightarrow> health_store \<times> attempt_permit option" where
  \<comment> \<open>\<open>DecisionPlan.TryAcquireAttemptPermit\<close>\<close>
  "planPermit p nodeID now hs =
     (if \<not> dn_hasHealth p then (hs, Some (newPermit []))
      else let handle = (case find (\<lambda>c. cd_ID c = nodeID) (dn_Candidates p) of
                 None \<Rightarrow> zeroHandle | Some c \<Rightarrow> cd_Handle c)
        in if dn_allowBlocked p
           then (hs, TryAcquireConnectionFallbackPermitHandle handle (serviceHealthTransport (dn_service p)) hs)
           else TryAcquireConnectionPermitHandle handle (serviceHealthTransport (dn_service p)) now hs)"

end
