(* ===== verification/Policy_Plan.thy ===== *)
theory Policy_Plan
  imports Policy Health_Breaker "HOL-Library.Multiset" "HOL-Library.Product_Lexorder"
begin

text \<open>
  What a plan contains: the candidates are admissible members of the snapshot, ranked by health,
  then delay, then identity; when planning fails; and that bulk plans visit the candidates in turn.
\<close>

section \<open>Rearrangements\<close>

lemma mset_insertSlice [simp]: "mset (insertSlice lt x xs) = add_mset x (mset xs)"
  by (induction xs) auto

lemma mset_sortSlice [simp]: "mset (sortSlice lt xs) = mset xs"
  by (induction xs) (simp_all add: sortSlice_def)

lemma indexOf_Some:
  "indexOf P xs = Some i \<Longrightarrow> i < length xs \<and> P (xs ! i) \<and> (\<forall>j < i. \<not> P (xs ! j))"
proof (induction xs arbitrary: i)
  case (Cons x xs)
  show ?case
  proof (cases "P x")
    case False
    then obtain k where k: "indexOf P xs = Some k" "i = Suc k" using Cons.prems by auto
    then show ?thesis using Cons.IH [OF k(1)] False by (auto simp: nth_Cons split: nat.splits)
  qed (use Cons.prems in auto)
qed simp

lemma indexOf_None: "indexOf P xs = None \<longleftrightarrow> (\<forall>x \<in> set xs. \<not> P x)"
  by (induction xs) auto

lemma mset_moveCandidateFirst [simp]: "mset (moveCandidateFirst xs i) = mset xs"
proof (cases "i = 0 \<or> length xs \<le> i")
  case False
  then have "mset xs = mset (take i xs @ xs ! i # drop (Suc i) xs)"
    using id_take_nth_drop [of i xs] by simp
  then show ?thesis using False by (simp add: moveCandidateFirst_def)
qed (simp add: moveCandidateFirst_def)

lemma hd_moveCandidateFirst: "i < length xs \<Longrightarrow> hd (moveCandidateFirst xs i) = xs ! i"
  by (cases xs) (auto simp: moveCandidateFirst_def)

lemma mset_rankEligible [simp]: "mset (rankEligible e hs service mode used cs) = mset cs"
proof -
  have "mset (take 1 cs) + mset (drop 1 cs) = mset cs" by (metis append_take_drop_id mset_append)
  then show ?thesis by (simp add: rankEligible_def)
qed

lemma rotateCandidates_mset: "rotateCandidates xs k = Some ys \<Longrightarrow> mset ys = mset xs"
proof -
  have split: "mset (drop n xs) + mset (take n xs) = mset xs" for n
    by (metis add.commute append_take_drop_id mset_append)
  assume "rotateCandidates xs k = Some ys"
  then show ?thesis using split by (auto simp: rotateCandidates_def Let_def split: if_splits)
qed

lemma kernelChoose_mset:
  "kernelChoose hs service lease pinned now mode q eligible e = (e', chosen, r) \<Longrightarrow> mset chosen = mset eligible"
  by (auto simp: kernelChoose_def Let_def split: option.splits prod.splits if_splits)

lemma applySticky_mset:
  "applyStickyStability hs service now eligible e = (e', Some (moved, r)) \<Longrightarrow> mset moved = mset eligible"
  by (auto simp: applyStickyStability_def Let_def split: option.splits prod.splits if_splits)

lemma limit_take: "limitCandidates xs n = take (nat n) xs \<or> limitCandidates xs n = xs \<and> int (length xs) \<le> n"
  by (simp add: limitCandidates_def)

lemma limit_sub: "set (limitCandidates xs n) \<subseteq> set xs"
  by (auto simp: limitCandidates_def dest: in_set_takeD)

lemma limit_length: "0 < n \<Longrightarrow> int (length (limitCandidates xs n)) \<le> n"
  by (auto simp: limitCandidates_def)

lemma limit_nonempty: "0 < n \<Longrightarrow> xs \<noteq> [] \<Longrightarrow> limitCandidates xs n \<noteq> []"
  by (auto simp: limitCandidates_def)

lemma limit_distinct: "distinct xs \<Longrightarrow> distinct (limitCandidates xs n)"
  by (simp add: limitCandidates_def)

lemma limit_hd: "0 < n \<Longrightarrow> xs \<noteq> [] \<Longrightarrow> hd (limitCandidates xs n) = hd xs"
  by (cases xs; cases "nat n") (auto simp: limitCandidates_def)

section \<open>Shape of a plan\<close>

definition admissible :: "candidate list \<Rightarrow> int \<Rightarrow> execution_snapshot \<Rightarrow> decision_plan \<Rightarrow> bool" where
  \<comment> \<open>a plan made of some of the given candidates\<close>
  "admissible pool n snapshot p \<longleftrightarrow>
     dn_Candidates p \<noteq> [] \<and> int (length (dn_Candidates p)) \<le> n
     \<and> set (dn_Candidates p) \<subseteq> set pool \<and> (distinct pool \<longrightarrow> distinct (dn_Candidates p))
     \<and> \<not> dn_allowBlocked p \<and> dn_RuntimeEpochID p = es_RuntimeEpochID snapshot
     \<and> dn_CatalogRevision p = es_CatalogRevision snapshot \<and> dn_Generation p = es_Generation snapshot"

lemma admissible_limit:
  assumes "mset cs = mset pool" and "0 < n" and "pool \<noteq> []"
  shows "admissible pool n snapshot (makePlan snapshot mode reason service (limitCandidates cs n))"
proof -
  have "cs \<noteq> []" "set cs = set pool" "distinct cs \<longleftrightarrow> distinct pool"
    using assms mset_eq_setD [OF assms(1)] mset_eq_imp_distinct_iff [OF assms(1)] by auto
  then show ?thesis
    using limit_sub [of cs n] limit_length [of n cs] limit_nonempty [of n cs] limit_distinct [of cs n] assms(2)
    by (auto simp: admissible_def makePlan_def)
qed

lemma admissible_one:
  "c \<in> set pool \<Longrightarrow> 0 < n \<Longrightarrow> admissible pool n snapshot (makePlan snapshot mode reason service [c])"
  by (auto simp: admissible_def makePlan_def)

lemma bulkPlan_admissible:
  assumes "bulkPlan hs snapshot service n q r cs = Inr p" and "mset cs = mset pool" and "0 < n" and "pool \<noteq> []"
  shows "admissible pool n snapshot p"
proof -
  have rot: "mset ys = mset pool" if "rotateCandidates cs k = Some ys" for k ys
    using rotateCandidates_mset [OF that] assms(2) by simp
  show ?thesis
    using assms(1) admissible_limit [OF assms(2-4)] admissible_limit [OF rot assms(3,4)]
    by (auto simp: bulkPlan_def Let_def split: option.splits if_splits)
qed

lemma stickyStage_mset:
  "stickyStage hs service pinned now mode kr ranked e = (e', steady, reason) \<Longrightarrow> mset steady = mset ranked"
  using applySticky_mset [of hs service now ranked e]
  by (auto simp: stickyStage_def Let_def split: option.splits prod.splits if_splits)

lemma rankedPlan_stages:
  assumes "rankedPlan hs snapshot service lease pinned now mode eligible e = (e', r)"
  shows "\<exists>e2 chosen kr steady reason q.
    q = (if mode = ModeBulk then pl_bulkSequence (bulkCount mode e) else 0)
    \<and> kernelChoose hs service lease pinned now mode q eligible (bulkCount mode e) = (e2, chosen, kr)
    \<and> stickyStage hs service pinned now mode kr (rankEligible e2 hs service mode (kr \<noteq> None) chosen) e2
        = (e', steady, reason)
    \<and> mset steady = mset eligible
    \<and> r = modePlan hs snapshot service lease mode (pl_maxAttempts e) q kr steady reason"
proof -
  define q where "q = (if mode = ModeBulk then pl_bulkSequence (bulkCount mode e) else 0)"
  obtain e2 chosen kr where k:
    "kernelChoose hs service lease pinned now mode q eligible (bulkCount mode e) = (e2, chosen, kr)"
    by (cases "kernelChoose hs service lease pinned now mode q eligible (bulkCount mode e)") auto
  obtain e3 steady reason where s:
    "stickyStage hs service pinned now mode kr (rankEligible e2 hs service mode (kr \<noteq> None) chosen) e2
       = (e3, steady, reason)"
    by (cases "stickyStage hs service pinned now mode kr (rankEligible e2 hs service mode (kr \<noteq> None) chosen) e2") auto
  have "mset steady = mset eligible"
    using stickyStage_mset [OF s] kernelChoose_mset [OF k] by simp
  moreover have "e' = e3 \<and> r = modePlan hs snapshot service lease mode (pl_maxAttempts e) q kr steady reason"
    using assms unfolding rankedPlan_def Let_def q_def [symmetric] k by (simp add: s del: not_None_eq)
  ultimately show ?thesis using q_def k s by blast
qed

lemma modePlan_admissible:
  assumes "modePlan hs snapshot service lease mode n q kr steady reason = Inr p"
    and "mset steady = mset pool" and "0 < n" and "pool \<noteq> []"
  shows "admissible pool n snapshot p"
proof -
  have found: "c \<in> set pool" if "find P steady = Some c" for P c
    using find_SomeD [OF that] mset_eq_setD [OF assms(2)] by simp
  show ?thesis
    using assms(1) admissible_limit [OF assms(2-4), of snapshot] bulkPlan_admissible [OF _ assms(2-4)]
      admissible_one [OF found assms(3)]
    by (auto simp: modePlan_def Let_def split: option.splits if_splits policy_mode.splits)
qed

lemma rankedPlan_admissible:
  assumes "rankedPlan hs snapshot service lease pinned now mode eligible e = (e', Inr p)"
    and "0 < pl_maxAttempts e" and "eligible \<noteq> []"
  shows "admissible eligible (pl_maxAttempts e) snapshot p"
  using rankedPlan_stages [OF assms(1)] modePlan_admissible [OF _ _ assms(2,3)] by metis

section \<open>Admissibility\<close>

lemma snapshotCandidate_mem: "snapshotCandidate s k = Some c \<Longrightarrow> c \<in> set (es_Candidates s)"
  by (auto simp: snapshotCandidate_def split: option.splits if_splits)

lemma pinnedPlan_admissible:
  assumes "pinnedPlan nn hs snapshot service mf pinned = Some (Inr p)" and "0 < n"
  shows "admissible (eligibleCandidates nn hs snapshot service) n snapshot p"
proof -
  obtain k c where "pinned = Some k" and c: "snapshotCandidate snapshot k = Some c"
    "candidateSupports nn c (sc_Transport service)" "\<not> candidateBlocked hs c service"
    and p: "p = makePlan snapshot ModeManual ReasonManualPin service [c]"
    using assms(1) by (auto simp: pinnedPlan_def Let_def split: option.splits if_splits)
  have "c \<in> set (eligibleCandidates nn hs snapshot service)"
    using c snapshotCandidate_mem [OF c(1)] by (simp add: eligibleCandidates_def supportedCandidates_def)
  then show ?thesis unfolding p by (rule admissible_one) (rule assms(2))
qed

lemma Plan_admissible:
  assumes plan: "Plan nn hs (Some snapshot) service lease pinned now e = (e', Inr p)"
    and n: "0 < pl_maxAttempts e"
  shows "admissible (eligibleCandidates nn hs snapshot service) (pl_maxAttempts e) snapshot p
    \<or> eligibleCandidates nn hs snapshot service = [] \<and> supportedCandidates nn snapshot service \<noteq> []
      \<and> p = (makePlan snapshot (effectiveMode service) ReasonWarmingFallback service
          [hd (supportedCandidates nn snapshot service)])\<lparr>dn_allowBlocked := True, dn_disableHedge := True\<rparr>"
proof -
  let ?el = "eligibleCandidates nn hs snapshot service"
  let ?su = "supportedCandidates nn snapshot service"
  show ?thesis
  proof (cases "pinnedPlan nn hs snapshot service (pl_manualFailure e) pinned")
    case (Some r)
    then have "pinnedPlan nn hs snapshot service (pl_manualFailure e) pinned = Some (Inr p)"
      using plan by (simp add: Plan_def Let_def)
    then show ?thesis using pinnedPlan_admissible n by blast
  next
    case None
    show ?thesis
    proof (cases "?el = []")
      case True
      then have "?su \<noteq> []" and p: "p = (makePlan snapshot (effectiveMode service) ReasonWarmingFallback service
          (limitCandidates ?su 1))\<lparr>dn_allowBlocked := True, dn_disableHedge := True\<rparr>"
        using plan None by (auto simp: Plan_def Let_def split: if_splits)
      then have "limitCandidates ?su 1 = [hd ?su]" by (cases ?su) (auto simp: limitCandidates_def)
      then show ?thesis using True \<open>?su \<noteq> []\<close> p by simp
    next
      case False
      have ranked: "admissible ?el (pl_maxAttempts e) snapshot p"
        if "rankedPlan hs snapshot service lease pinned now (effectiveMode service) ?el e = (e', Inr p)"
        using rankedPlan_admissible [OF that n False] .
      have moved: "admissible ?el (pl_maxAttempts e) snapshot (makePlan snapshot mode reason service
          (limitCandidates (moveCandidateFirst ?el i) (pl_maxAttempts e)))" for mode reason i
        by (rule admissible_limit) (use n False in auto)
      show ?thesis
        using plan None False ranked moved
        by (auto simp: Plan_def Let_def split: option.splits if_splits)
    qed
  qed
qed

text \<open>C7. A plan only offers candidates that may be tried. Whatever the portable kernel answers,
  the candidates of a plan are members of the snapshot it names, support the transport of the
  service, do not repeat, are at least one and at most the configured number of attempts, and none
  of them is blocked by a breaker. The one exception is the warming plan of a total outage: every
  candidate that supports the transport is blocked, the plan offers a single one of them, and
  hedging is off.\<close>

theorem plan_candidates_admissible:
  assumes "Plan nn hs (Some snapshot) service lease pinned now e = (e', Inr p)"
    and "0 < pl_maxAttempts e" and "distinct (es_Candidates snapshot)"
  shows "dn_Candidates p \<noteq> [] \<and> int (length (dn_Candidates p)) \<le> pl_maxAttempts e
    \<and> distinct (dn_Candidates p)
    \<and> (\<forall>c \<in> set (dn_Candidates p). c \<in> set (es_Candidates snapshot)
         \<and> candidateSupports nn c (sc_Transport service))
    \<and> dn_RuntimeEpochID p = es_RuntimeEpochID snapshot
    \<and> dn_CatalogRevision p = es_CatalogRevision snapshot \<and> dn_Generation p = es_Generation snapshot
    \<and> (if dn_allowBlocked p
       then dn_Reason p = ReasonWarmingFallback \<and> length (dn_Candidates p) = 1 \<and> dn_disableHedge p
         \<and> (\<forall>c \<in> set (es_Candidates snapshot). candidateSupports nn c (sc_Transport service) \<longrightarrow>
              candidateBlocked hs c service)
       else \<forall>c \<in> set (dn_Candidates p). \<not> candidateBlocked hs c service)"
proof -
  let ?el = "eligibleCandidates nn hs snapshot service"
  let ?su = "supportedCandidates nn snapshot service"
  from Plan_admissible [OF assms(1,2)] show ?thesis
  proof
    assume adm: "admissible ?el (pl_maxAttempts e) snapshot p"
    moreover have "distinct ?el" using assms(3) by (simp add: eligibleCandidates_def supportedCandidates_def)
    moreover have "c \<in> set (es_Candidates snapshot) \<and> candidateSupports nn c (sc_Transport service)
        \<and> \<not> candidateBlocked hs c service" if "c \<in> set ?el" for c
      using that by (simp add: eligibleCandidates_def supportedCandidates_def)
    ultimately show ?thesis by (auto simp: admissible_def)
  next
    assume a: "?el = [] \<and> ?su \<noteq> [] \<and> p = (makePlan snapshot (effectiveMode service)
        ReasonWarmingFallback service [hd ?su])\<lparr>dn_allowBlocked := True, dn_disableHedge := True\<rparr>"
    then have "hd ?su \<in> set ?su" by simp
    then have "hd ?su \<in> set (es_Candidates snapshot) \<and> candidateSupports nn (hd ?su) (sc_Transport service)"
      unfolding supportedCandidates_def by (simp only: set_filter mem_Collect_eq)
    moreover have "candidateBlocked hs c service"
      if "c \<in> set (es_Candidates snapshot)" "candidateSupports nn c (sc_Transport service)" for c
      using a that by (auto simp: eligibleCandidates_def supportedCandidates_def filter_empty_conv)
    ultimately show ?thesis using a assms(2) by (simp add: makePlan_def)
  qed
qed

section \<open>Ranking\<close>

definition rankKey ::
  "'k policy_engine \<Rightarrow> health_store \<Rightarrow> service_context \<Rightarrow> policy_mode \<Rightarrow> candidate \<Rightarrow>
   int \<times> bool \<times> rat \<times> int \<times> node_id" where
  \<comment> \<open>the lexicographic key the comparison implements\<close>
  "rankKey e hs service mode c =
     (let st = StatusHandle hs (cd_Handle c) DomainService [] (sc_ID service);
          known = (mode = ModeBulk \<and> 2 \<le> st_ThroughputSamples st)
      in (cs_HealthPriority (candidateScore e hs c service), mode = ModeBulk \<and> \<not> known,
          if known then - st_ThroughputBPS st else 0,
          cs_WeightedDelay (candidateScore e hs c service), cd_ID c))"

lemma rankBefore_key:
  "rankBefore e hs service mode a b \<longleftrightarrow> rankKey e hs service mode a < rankKey e hs service mode b"
  by (auto simp: rankBefore_def rankKey_def Let_def less_prod_def)

lemma ranked_sorted:
  "sorted_wrt (\<lambda>a b. rankKey e hs service mode a \<le> rankKey e hs service mode b)
     (sortSlice (rankBefore e hs service mode) cs)"
proof -
  have "sorted_wrt (\<lambda>a b. \<not> rankBefore e hs service mode b a) (sortSlice (rankBefore e hs service mode) cs)"
    by (rule sorted_sortSlice) (auto simp: rankBefore_key)
  then show ?thesis by (simp add: rankBefore_key not_less)
qed

lemma take_sorted:
  assumes "sorted_wrt R xs" and "x \<in> set (take n xs)" and "y \<in> set xs" and "y \<notin> set (take n xs)"
  shows "R x y"
proof -
  have "sorted_wrt R (take n xs @ drop n xs)" using assms(1) by simp
  moreover have "y \<in> set (drop n xs)"
    using assms(3,4) by (metis Un_iff append_take_drop_id set_append)
  ultimately show ?thesis using assms(2) by (simp only: sorted_wrt_append)
qed

lemma kernelChoose_none [simp]:
  "pl_kernel e = None \<Longrightarrow> kernelChoose hs service lease pinned now mode q eligible e = (e, eligible, None)"
  by (simp add: kernelChoose_def)

lemma bulkCount_fields [simp]:
  "pl_kernel (bulkCount mode e) = pl_kernel e" "pl_maxAttempts (bulkCount mode e) = pl_maxAttempts e"
  "pl_sticky (bulkCount mode e) = pl_sticky e" "pl_nodeWeights (bulkCount mode e) = pl_nodeWeights e"
  "mode \<noteq> ModeBulk \<Longrightarrow> bulkCount mode e = e"
  by (simp_all add: bulkCount_def)

lemma candidateScore_cong: "pl_nodeWeights e = pl_nodeWeights e' \<Longrightarrow>
   candidateScore e hs c service = candidateScore e' hs c service"
  by (simp add: candidateScore_def)

lemma rankBefore_cong: "pl_nodeWeights e = pl_nodeWeights e' \<Longrightarrow>
   rankBefore e hs service mode = rankBefore e' hs service mode"
  by (intro ext) (simp add: rankBefore_def candidateScore_cong [of e e'])

lemma plan_without_pin:
  assumes "pinned = None" and "eligibleCandidates nn hs snapshot service \<noteq> []"
    and "effectiveMode service \<noteq> ModeAdaptive \<or> lease = None"
  shows "Plan nn hs (Some snapshot) service lease pinned now e =
     rankedPlan hs snapshot service lease pinned now (effectiveMode service)
       (eligibleCandidates nn hs snapshot service) e"
  using assms by (auto simp: Plan_def pinnedPlan_def Let_def)

lemma rankedPlan_no_kernel:
  assumes "pl_kernel e = None"
  shows "rankedPlan hs snapshot service lease pinned now mode eligible e =
    (let ranked = sortSlice (rankBefore e hs service mode) eligible;
         q = (if mode = ModeBulk then inc64 (pl_bulkSequence e) else 0);
         (e3, steady, reason) = stickyStage hs service pinned now mode None ranked (bulkCount mode e)
     in (e3, modePlan hs snapshot service lease mode (pl_maxAttempts e) q None steady reason))"
proof -
  have "rankBefore (bulkCount mode e) hs service mode = rankBefore e hs service mode"
    by (rule rankBefore_cong) simp
  moreover have "(if mode = ModeBulk then pl_bulkSequence (bulkCount mode e) else 0)
      = (if mode = ModeBulk then inc64 (pl_bulkSequence e) else 0)"
    by (simp add: bulkCount_def)
  ultimately show ?thesis
    using assms by (simp add: rankedPlan_def rankEligible_def Let_def)
qed

text \<open>C18. Latency plans are ranked. Without a kernel and a pin, the candidates of a latency plan
  are sorted by worst health over their domains, then by weighted delay, then by identity, and no
  eligible candidate left out of the plan ranks before one in it.\<close>

theorem latency_plan_is_ranked:
  assumes "pl_kernel e = None" and "effectiveMode service = ModeLatency"
    and "Plan nn hs (Some snapshot) service lease None now e = (e', Inr p)" and "\<not> dn_allowBlocked p"
    and "0 < pl_maxAttempts e"
  defines "key \<equiv> \<lambda>c. (cs_HealthPriority (candidateScore e hs c service),
      cs_WeightedDelay (candidateScore e hs c service), cd_ID c)"
  shows "sorted (map key (dn_Candidates p))
    \<and> (\<forall>c \<in> set (dn_Candidates p). \<forall>d \<in> set (eligibleCandidates nn hs snapshot service).
         d \<notin> set (dn_Candidates p) \<longrightarrow> key c \<le> key d)"
proof -
  let ?el = "eligibleCandidates nn hs snapshot service"
  let ?ranked = "sortSlice (rankBefore e hs service ModeLatency) ?el"
  have ne: "?el \<noteq> []"
    using Plan_admissible [OF assms(3,5)] assms(4) by (auto simp: admissible_def)
  then have p: "p = makePlan snapshot ModeLatency ReasonRanked service (limitCandidates ?ranked (pl_maxAttempts e))"
    using assms(3) plan_without_pin [of None nn hs snapshot service lease now e] assms(1,2)
    by (simp add: rankedPlan_no_kernel stickyStage_def modePlan_def Let_def split: option.splits)
  have mono: "rankKey e hs service ModeLatency a \<le> rankKey e hs service ModeLatency b \<longleftrightarrow> key a \<le> key b" for a b
    by (auto simp: rankKey_def key_def Let_def less_eq_prod_def)
  have srt: "sorted_wrt (\<lambda>a b. key a \<le> key b) ?ranked"
    using ranked_sorted [of e hs service ModeLatency ?el] by (simp add: mono)
  have take: "\<exists>n. dn_Candidates p = take n ?ranked"
    using limit_take [of ?ranked "pl_maxAttempts e"] by (auto simp: p makePlan_def intro: exI [of _ "length ?ranked"])
  then obtain n where n: "dn_Candidates p = take n ?ranked" by blast
  have "sorted (map key (dn_Candidates p))"
    unfolding n sorted_map using srt by (rule sorted_wrt_take)
  moreover have "key c \<le> key d" if "c \<in> set (dn_Candidates p)" "d \<in> set ?el" "d \<notin> set (dn_Candidates p)" for c d
    using take_sorted [OF srt, of c n d] that unfolding n by simp
  ultimately show ?thesis by blast
qed

section \<open>Failure\<close>

definition pinUsable :: "(string \<Rightarrow> string) \<Rightarrow> health_store \<Rightarrow> execution_snapshot \<Rightarrow> service_context \<Rightarrow> node_id \<Rightarrow> bool" where
  "pinUsable nn hs snapshot service k \<longleftrightarrow>
     (\<exists>c. snapshotCandidate snapshot k = Some c \<and> candidateSupports nn c (sc_Transport service)
        \<and> \<not> candidateBlocked hs c service)"

lemma pinnedPlan_cases:
  "pinnedPlan nn hs snapshot service mf pinned =
     (case pinned of None \<Rightarrow> None
      | Some k \<Rightarrow> if pinUsable nn hs snapshot service k
          then Some (Inr (makePlan snapshot ModeManual ReasonManualPin service [the (snapshotCandidate snapshot k)]))
          else if mf = ''fail_closed'' then Some (Inl ErrNoEligibleCandidates) else None)"
  by (auto simp: pinnedPlan_def pinUsable_def Let_def split: option.splits)

lemma rotate_total: "0 \<le> k \<Longrightarrow> \<exists>ys. rotateCandidates xs k = Some ys"
proof -
  assume "0 \<le> k"
  show ?thesis
  proof (cases "length xs < 2")
    case False
    then have "0 < int (length xs)" by linarith
    then have "k - int (length xs) * quot_int k (int (length xs)) = k mod int (length xs)"
      using \<open>0 \<le> k\<close> by (simp add: minus_mult_div_eq_mod)
    moreover have "0 \<le> k mod int (length xs)" using \<open>0 < int (length xs)\<close> by simp
    ultimately show ?thesis using False by (simp add: rotateCandidates_def Let_def)
  qed (simp add: rotateCandidates_def)
qed

lemma bulkPlan_total:
  assumes "0 < q" and "q < 2 ^ 63"
  shows "\<exists>p. bulkPlan hs snapshot service n q kr cs = Inr p"
proof -
  have "int q < 2 ^ 63" using assms(2) by (metis of_nat_less_iff of_nat_numeral of_nat_power)
  moreover have "int (q div 5) \<le> int q" by simp
  ultimately have "int64 (int (q div 5)) = int (q div 5)" "int64 (int q - 1) = int q - 1"
    using assms(1) by (intro int64_id; linarith)+
  then have "\<exists>ys. rotateCandidates cs (int64 (int (q div 5))) = Some ys"
    "\<exists>ys. rotateCandidates cs (int64 (int q - 1)) = Some ys"
    using rotate_total [of "int (q div 5)" cs] rotate_total [of "int q - 1" cs] assms(1) by auto
  then show ?thesis by (auto simp: bulkPlan_def Let_def split: option.splits)
qed

lemma modePlan_error:
  assumes "mode = ModeBulk \<Longrightarrow> 0 < q \<and> q < 2 ^ 63"
  shows "(\<exists>err. modePlan hs snapshot service lease mode n q kr cs reason = Inl err) \<longleftrightarrow>
    mode \<notin> {ModeStrictAffinity, ModeBulk, ModeAdaptive, ModeLatency}"
  using bulkPlan_total [of q hs snapshot service n kr cs] assms
  by (auto simp: modePlan_def Let_def split: option.splits policy_mode.splits)

lemma Plan_error_iff:
  assumes "pl_bulkSequence e < 2 ^ 62"
  shows "(\<exists>e' err. Plan nn hs (Some snapshot) service lease pinned now e = (e', Inl err)) \<longleftrightarrow>
    (if \<exists>k. pinned = Some k \<and> pinUsable nn hs snapshot service k then False
     else pinned \<noteq> None \<and> pl_manualFailure e = ''fail_closed''
       \<or> (if eligibleCandidates nn hs snapshot service = []
          then supportedCandidates nn snapshot service = []
            \<or> effectiveMode service \<notin> {ModeAdaptive, ModeLatency, ModeBulk}
          else effectiveMode service \<notin> {ModeStrictAffinity, ModeBulk, ModeAdaptive, ModeLatency}))"
proof -
  let ?el = "eligibleCandidates nn hs snapshot service" and ?mode = "effectiveMode service"
  have seq: "0 < pl_bulkSequence (bulkCount ModeBulk e) \<and> pl_bulkSequence (bulkCount ModeBulk e) < 2 ^ 63"
    using assms by (simp add: bulkCount_def)
  have ranked: "(\<exists>e' err. rankedPlan hs snapshot service lease pinned now ?mode ?el e = (e', Inl err)) \<longleftrightarrow>
      ?mode \<notin> {ModeStrictAffinity, ModeBulk, ModeAdaptive, ModeLatency}"
  proof -
    obtain e' r where r: "rankedPlan hs snapshot service lease pinned now ?mode ?el e = (e', r)" by fastforce
    obtain kr steady reason q where q: "q = (if ?mode = ModeBulk then pl_bulkSequence (bulkCount ?mode e) else 0)"
      and m: "r = modePlan hs snapshot service lease ?mode (pl_maxAttempts e) q kr steady reason"
      using rankedPlan_stages [OF r] by blast
    have "?mode = ModeBulk \<Longrightarrow> 0 < q \<and> q < 2 ^ 63" using seq q by auto
    from modePlan_error [of ?mode q, OF this]
    show ?thesis using r m by auto
  qed
  show ?thesis
  proof (cases "pinned \<noteq> None \<and> (\<exists>k. pinned = Some k \<and> pinUsable nn hs snapshot service k
      \<or> pl_manualFailure e = ''fail_closed'')")
    case True
    then show ?thesis by (auto simp: Plan_def pinnedPlan_cases Let_def)
  next
    case False
    then have none: "pinnedPlan nn hs snapshot service (pl_manualFailure e) pinned = None"
      and noPin: "\<not> (\<exists>k. pinned = Some k \<and> pinUsable nn hs snapshot service k)"
      and closed: "\<not> (pinned \<noteq> None \<and> pl_manualFailure e = ''fail_closed'')"
      by (auto simp: pinnedPlan_cases split: option.splits)
    show ?thesis
    proof (cases "?el = []")
      case True
      then show ?thesis using none noPin closed by (auto simp: Plan_def Let_def)
    next
      case False
      show ?thesis
        using none noPin closed False ranked
        by (cases "if ?mode = ModeAdaptive then lease else None")
          (auto simp: Plan_def Let_def split: option.splits)
    qed
  qed
qed

text \<open>C27. When planning fails. A plan is refused exactly when a pin cannot be used and the policy
  fails closed, or when, without a usable pin, no candidate is eligible and no warming plan applies
  (nothing supports the transport, or the mode does not warm), or the mode is not one of the four
  planning modes. The counter of bulk plans is below two to the power 62.\<close>

theorem plan_refused_iff:
  assumes "pl_bulkSequence e < 2 ^ 62"
  shows "(\<exists>e' err. Plan nn hs (Some snapshot) service lease pinned now e = (e', Inl err)) \<longleftrightarrow>
    (if \<exists>k. pinned = Some k \<and> pinUsable nn hs snapshot service k then False
     else pinned \<noteq> None \<and> pl_manualFailure e = ''fail_closed''
       \<or> (if eligibleCandidates nn hs snapshot service = []
          then supportedCandidates nn snapshot service = []
            \<or> effectiveMode service \<notin> {ModeAdaptive, ModeLatency, ModeBulk}
          else effectiveMode service \<notin> {ModeStrictAffinity, ModeBulk, ModeAdaptive, ModeLatency}))"
  by (rule Plan_error_iff [OF assms])

section \<open>Bulk plans\<close>

primrec bulkHeads ::
  "(string \<Rightarrow> string) \<Rightarrow> health_store \<Rightarrow> execution_snapshot \<Rightarrow> service_context \<Rightarrow> session_lease option \<Rightarrow>
   gotime \<Rightarrow> nat \<Rightarrow> 'k policy_engine \<Rightarrow> candidate list" where
  \<comment> \<open>the first candidates of successive plans\<close>
  "bulkHeads nn hs snapshot service lease now 0 e = []"
| "bulkHeads nn hs snapshot service lease now (Suc n) e =
     (case Plan nn hs (Some snapshot) service lease None now e of
        (e', Inr p) \<Rightarrow> hd (dn_Candidates p) # bulkHeads nn hs snapshot service lease now n e'
      | (e', Inl _) \<Rightarrow> bulkHeads nn hs snapshot service lease now n e')"

lemma rotate_head:
  assumes "xs \<noteq> []"
  shows "\<exists>ys. rotateCandidates xs (int k) = Some ys \<and> ys \<noteq> [] \<and> hd ys = xs ! (k mod length xs)"
proof (cases "length xs < 2")
  case True
  then have "length xs = 1" using assms by (cases xs) auto
  then show ?thesis using assms by (auto simp: rotateCandidates_def hd_conv_nth)
next
  case False
  then have pos: "0 < int (length xs)" by linarith
  define r where "r = k mod length xs"
  have "int k - int (length xs) * quot_int (int k) (int (length xs)) = int r"
    unfolding r_def using quot_int_nonneg [of "int k" "int (length xs)"] pos
    by (simp add: minus_mult_div_eq_mod zmod_int)
  moreover have "r < length xs" unfolding r_def using pos by simp
  ultimately show ?thesis
    using False assms unfolding r_def [symmetric]
    by (auto simp: rotateCandidates_def Let_def hd_append hd_drop_conv_nth hd_conv_nth)
qed

definition bulkIndex :: "bool \<Rightarrow> nat \<Rightarrow> nat \<Rightarrow> nat" where
  \<comment> \<open>the place in the ranking from which the plan with this sequence number starts\<close>
  "bulkIndex trusted sequence n =
     (if trusted then if sequence mod 5 \<noteq> 0 then 0 else sequence div 5 mod n else (sequence - 1) mod n)"

lemma small_int64: "k < 2 ^ 62 \<Longrightarrow> int64 (int k) = int k"
proof -
  assume "k < 2 ^ 62"
  then have "int k < 2 ^ 62" by (metis of_nat_less_iff of_nat_numeral of_nat_power)
  then have "int k < 4611686018427387904" by simp
  then show ?thesis by (intro int64_id) simp_all
qed

lemma bulk_step:
  assumes "pl_kernel e = None" and "effectiveMode service = ModeBulk"
    and "eligibleCandidates nn hs snapshot service \<noteq> []" and "0 < pl_maxAttempts e"
    and "pl_bulkSequence e < 2 ^ 62"
  defines "ranked \<equiv> sortSlice (rankBefore e hs service ModeBulk) (eligibleCandidates nn hs snapshot service)"
    and "trusted \<equiv> hasTrustedBulkThroughput hs (eligibleCandidates nn hs snapshot service) (sc_ID service)"
  shows "\<exists>p. Plan nn hs (Some snapshot) service lease None now e = (bulkCount ModeBulk e, Inr p)
    \<and> hd (dn_Candidates p) = ranked ! bulkIndex trusted (Suc (pl_bulkSequence e)) (length ranked)"
proof -
  let ?s = "pl_bulkSequence e" and ?n = "pl_maxAttempts e"
  have ne: "ranked \<noteq> []"
    using assms(3) length_sortSlice [of _ "eligibleCandidates nn hs snapshot service"]
    unfolding ranked_def by (metis length_0_conv)
  have i64: "int64 (int ?s) = int ?s" "int64 (int (Suc ?s div 5)) = int (Suc ?s div 5)"
    using assms(5) by (intro small_int64; simp)+
  have inc: "inc64 ?s = Suc ?s" using assms(5) by simp
  have trust: "hasTrustedBulkThroughput hs ranked (sc_ID service) = trusted"
    by (simp add: hasTrustedBulkThroughput_def list_ex_iff ranked_def trusted_def)
  obtain ys where ys: "rotateCandidates ranked (int ?s) = Some ys" "ys \<noteq> []" "hd ys = ranked ! (?s mod length ranked)"
    using rotate_head [OF ne] by blast
  obtain zs where zs: "rotateCandidates ranked (int (Suc ?s div 5)) = Some zs" "zs \<noteq> []"
      "hd zs = ranked ! ((Suc ?s div 5) mod length ranked)"
    using rotate_head [OF ne, of "Suc ?s div 5"] by blast
  let ?r = "bulkPlan hs snapshot service ?n (Suc ?s) None ranked"
  have "\<exists>p. ?r = Inr p \<and> hd (dn_Candidates p) = ranked ! bulkIndex trusted (Suc ?s) (length ranked)"
    using ys zs i64 trust ne limit_hd [OF assms(4) ys(2)] limit_hd [OF assms(4) zs(2)] limit_hd [OF assms(4) ne]
    by (auto simp: bulkPlan_def bulkIndex_def Let_def makePlan_def hd_conv_nth)
  moreover have "Plan nn hs (Some snapshot) service lease None now e = (bulkCount ModeBulk e, ?r)"
    using plan_without_pin [of None nn hs snapshot service lease now e] assms(1-3) inc
    by (cases lease) (simp_all add: rankedPlan_no_kernel stickyStage_def modePlan_def Let_def flip: ranked_def)
  ultimately show ?thesis by auto
qed

lemma bulkHeads_eq:
  assumes "pl_kernel e = None" and "effectiveMode service = ModeBulk"
    and "eligibleCandidates nn hs snapshot service \<noteq> []" and "0 < pl_maxAttempts e"
    and "pl_bulkSequence e + m \<le> 2 ^ 62"
  defines "ranked \<equiv> sortSlice (rankBefore e hs service ModeBulk) (eligibleCandidates nn hs snapshot service)"
    and "trusted \<equiv> hasTrustedBulkThroughput hs (eligibleCandidates nn hs snapshot service) (sc_ID service)"
  shows "bulkHeads nn hs snapshot service lease now m e =
    map (\<lambda>i. ranked ! bulkIndex trusted (Suc (pl_bulkSequence e + i)) (length ranked)) [0..<m]"
  using assms(1,4,5) unfolding ranked_def
proof (induction m arbitrary: e)
  case (Suc m)
  let ?el = "eligibleCandidates nn hs snapshot service" and ?e = "bulkCount ModeBulk e"
  have seq: "pl_bulkSequence ?e = Suc (pl_bulkSequence e)" using Suc.prems by (simp add: bulkCount_def)
  have same: "rankBefore ?e hs service ModeBulk = rankBefore e hs service ModeBulk"
    by (rule rankBefore_cong) simp
  obtain p where p: "Plan nn hs (Some snapshot) service lease None now e = (?e, Inr p)"
    "hd (dn_Candidates p) = sortSlice (rankBefore e hs service ModeBulk) ?el
       ! bulkIndex trusted (Suc (pl_bulkSequence e)) (length (sortSlice (rankBefore e hs service ModeBulk) ?el))"
    using bulk_step [OF Suc.prems(1) assms(2,3) Suc.prems(2), of lease now] Suc.prems(3) unfolding trusted_def by auto
  have "bulkHeads nn hs snapshot service lease now m ?e =
      map (\<lambda>i. sortSlice (rankBefore e hs service ModeBulk) ?el
        ! bulkIndex trusted (Suc (Suc (pl_bulkSequence e) + i)) (length (sortSlice (rankBefore e hs service ModeBulk) ?el))) [0..<m]"
    using Suc.IH [of ?e] Suc.prems by (simp add: seq same)
  then show ?case using p by (simp add: map_upt_Suc del: upt_Suc length_sortSlice)
qed simp

lemma every_fifth:
  "filter (\<lambda>i. Suc (q + i) mod 5 = 0) [0..<5 * n] = map (\<lambda>j. 4 - q mod 5 + 5 * j) [0..<n]"
proof (induction n)
  case (Suc n)
  have "[0..<5 * Suc n] = [0..<5 * n] @ [5 * n..<5 * n + 5]"
    using upt_add_eq_append [of 0 "5 * n" 5] by (simp add: add.commute)
  also have "[5 * n..<5 * n + 5] = map (\<lambda>i. i + 5 * n) [0..<5]" using map_add_upt [of "5 * n" 5] by (simp add: add.commute)
  also have "[0..<5] = [0, 1, 2, 3, 4 :: nat]" by code_simp
  finally have split: "[0..<5 * Suc n] = [0..<5 * n] @ map (\<lambda>i. i + 5 * n) [0, 1, 2, 3, 4]" .
  have mods: "Suc (q + (i + 5 * n)) mod 5 = Suc (q mod 5 + i) mod 5" for i
  proof -
    have "Suc (q + (i + 5 * n)) = Suc (q + i) + n * 5" by simp
    then have "Suc (q + (i + 5 * n)) mod 5 = Suc (q + i) mod 5" by (simp only: mod_mult_self1)
    also have "\<dots> = Suc (q mod 5 + i) mod 5" by (metis mod_Suc_eq mod_add_left_eq)
    finally show ?thesis .
  qed
  have "q mod 5 < 5" by simp
  then consider "q mod 5 = 0" | "q mod 5 = 1" | "q mod 5 = 2" | "q mod 5 = 3" | "q mod 5 = 4" by linarith
  then have "filter (\<lambda>i. Suc (q mod 5 + i) mod 5 = 0) [0, 1, 2, 3, 4] = [4 - q mod 5]" by cases simp_all
  then have "filter (\<lambda>i. Suc (q + i) mod 5 = 0) (map (\<lambda>i. i + 5 * n) [0, 1, 2, 3, 4]) = [4 - q mod 5 + 5 * n]"
    unfolding filter_map comp_def mods by simp
  then show ?case using Suc unfolding split filter_append by (simp only: upt_Suc le0 if_True map_append list.map)
qed simp

lemma mset_rotate [simp]: "mset (rotate n xs) = mset xs"
proof (induction n)
  case (Suc n)
  have "mset (rotate1 ys) = mset ys" for ys :: "'a list" by (cases ys) auto
  then show ?case using Suc by (simp add: rotate_Suc)
qed simp


section \<open>A concrete pool\<close>

definition poolCandidate :: "node_id \<Rightarrow> candidate" where
  "poolCandidate k = \<lparr>cd_ID = k, cd_EndpointID = k, cd_EndpointConflictCount = 0,
     cd_Handle = \<lparr>nh_NodeID = k, nh_Slot = 1, nh_Version = 1, nh_BornRevision = 1\<rparr>,
     cd_PrimaryTag = ''hk'', cd_Aliases = [''hk''], cd_Sources = [], cd_Transport = [''tcp''],
     cd_IdentityStable = True\<rparr>"

definition poolView :: execution_snapshot where
  "poolView = \<lparr>es_RuntimeEpochID = 1, es_CatalogRevision = 1, es_Generation = 1,
     es_Candidates = map poolCandidate [9, 7, 8], es_ByID = [(9, 0), (7, 1), (8, 2)],
     es_AliasToID = [], es_DuplicatesSuppressed = 0, es_StableIdentityCount = 3\<rparr>"

definition poolService :: "policy_mode \<Rightarrow> service_context" where
  "poolService mode = \<lparr>sc_ID = ''web'', sc_AffinityID = [], sc_Session = 0, sc_Mode = mode,
     sc_Host = [], sc_Transport = ''tcp'', sc_HealthTransport = ''tcp/ipv4'', sc_ExpectUDPResponse = False\<rparr>"

definition poolEngine :: "unit policy_engine" where
  "poolEngine = NewPolicyEngine None 2 []"

lemma pool_eligible: "eligibleCandidates (\<lambda>x. x) openStore poolView (poolService mode) = map poolCandidate [9, 8]"
proof -
  have "eligibleCandidates (\<lambda>x. x) openStore poolView (poolService ModeUnset) = map poolCandidate [9, 8]"
    by code_simp
  moreover have "candidateBlocked openStore c (poolService mode) = candidateBlocked openStore c (poolService ModeUnset)" for c
    by (simp add: candidateBlocked_def CanAttemptHandleReadOnly_def serviceKeys_def poolService_def
        serviceHealthTransport_def)
  ultimately show ?thesis
    by (simp add: eligibleCandidates_def supportedCandidates_def poolService_def)
qed

lemma pool_engine: "pl_kernel poolEngine = None" "0 < pl_maxAttempts poolEngine" "pl_bulkSequence poolEngine = 0"
  "pl_maxAttempts poolEngine = 2"
  by (simp_all add: poolEngine_def NewPolicyEngine_def)

lemma pool_mode [simp]: "mode \<noteq> ModeUnset \<Longrightarrow> effectiveMode (poolService mode) = mode"
  by (simp add: effectiveMode_def poolService_def)

lemma pool_plan:
  "\<exists>e' p. Plan (\<lambda>x. x) openStore (Some poolView) (poolService ModeLatency) None None 1 poolEngine = (e', Inr p)
     \<and> \<not> dn_allowBlocked p"
proof -
  obtain e' r where r: "Plan (\<lambda>x. x) openStore (Some poolView) (poolService ModeLatency) None None 1 poolEngine
      = (e', r)" by fastforce
  have "\<not> (\<exists>err. r = Inl err)"
    using Plan_error_iff [of poolEngine "\<lambda>x. x" openStore poolView "poolService ModeLatency" None None 1] r
    by (simp add: pool_engine pool_eligible)
  then obtain p where p: "r = Inr p" by (cases r) auto
  then have "\<not> dn_allowBlocked p"
    using Plan_admissible [OF r [unfolded p] pool_engine(2)] by (auto simp: pool_eligible admissible_def)
  then show ?thesis using r p by blast
qed

theorem plan_candidates_admissible_witness:
  "\<exists>e' p. Plan (\<lambda>x. x) openStore (Some poolView) (poolService ModeLatency) None None 1 poolEngine = (e', Inr p)
    \<and> dn_Candidates p \<noteq> [] \<and> distinct (dn_Candidates p) \<and> int (length (dn_Candidates p)) \<le> 2"
proof -
  have d: "distinct (es_Candidates poolView)" by code_simp
  obtain e' p where p: "Plan (\<lambda>x. x) openStore (Some poolView) (poolService ModeLatency) None None 1 poolEngine
      = (e', Inr p)" using pool_plan by blast
  show ?thesis using p plan_candidates_admissible [OF p pool_engine(2) d] by (auto simp: pool_engine)
qed

theorem latency_plan_is_ranked_witness:
  "\<exists>e' p. Plan (\<lambda>x. x) openStore (Some poolView) (poolService ModeLatency) None None 1 poolEngine = (e', Inr p)
    \<and> sorted (map (\<lambda>c. (cs_HealthPriority (candidateScore poolEngine openStore c (poolService ModeLatency)),
      cs_WeightedDelay (candidateScore poolEngine openStore c (poolService ModeLatency)), cd_ID c))
     (dn_Candidates p))"
proof -
  obtain e' p where p: "Plan (\<lambda>x. x) openStore (Some poolView) (poolService ModeLatency) None None 1 poolEngine
      = (e', Inr p)" "\<not> dn_allowBlocked p" using pool_plan by blast
  have "effectiveMode (poolService ModeLatency) = ModeLatency" by simp
  from latency_plan_is_ranked [OF pool_engine(1) this p pool_engine(2)] show ?thesis using p(1) by blast
qed

theorem plan_refused_iff_witness:
  "pl_bulkSequence poolEngine < 2 ^ 62
   \<and> (\<exists>e' err. Plan (\<lambda>x. x) openStore (Some poolView) (poolService ModeManual) None None 1 poolEngine = (e', Inl err))"
proof -
  have b: "pl_bulkSequence poolEngine < 2 ^ 62" by (simp add: pool_engine)
  then show ?thesis
    using plan_refused_iff [OF b, of "\<lambda>x. x" openStore poolView "poolService ModeManual" None None 1]
    by (simp add: pool_eligible)
qed


end
