(* ===== verification/Policy_Sticky.thy ===== *)
theory Policy_Sticky
  imports Policy_Plan
begin

text \<open>
  The memory of the policy engine: its invariant over every sequence of operations, and what it
  does to the plans. A remembered node keeps its place during the switch cooldown unless a
  healthier one exists, and a strict session keeps the node of its lease.
\<close>

section \<open>Invariant\<close>

definition sticky_ok :: "(string, sticky_preference) gomap \<Rightarrow> bool" where
  "sticky_ok m \<longleftrightarrow> gm_wf m \<and> length m \<le> maxStickyEntries
     \<and> (\<forall>(k, pref) \<in> set m. k \<noteq> [] \<and> nh_NodeID (sk_handle pref) \<noteq> 0)"

definition policy_ok :: "'k policy_engine \<Rightarrow> bool" where
  "policy_ok e \<longleftrightarrow> sticky_ok (pl_sticky e) \<and> 0 < pl_maxAttempts e
     \<and> 0 \<le> pl_switchMargin e \<and> pl_switchMargin e \<le> 1 / 2 \<and> 0 \<le> pl_switchCooldown e"

lemma set_delete_sub: "set (AList.delete k m) \<subseteq> set m"
  by (induction m) auto

lemma sticky_ok_delete: "sticky_ok m \<Longrightarrow> sticky_ok (AList.delete k m)"
  using set_delete_sub [of k m] length_delete_le [of k m] unfolding sticky_ok_def by force

lemma evictSticky_props:
  "set (evictSticky m) \<subseteq> set m \<and> length (evictSticky m) \<le> maxStickyEntries \<and> (gm_wf m \<longrightarrow> gm_wf (evictSticky m))"
proof (induction m rule: evictSticky.induct)
  case (1 m)
  show ?case
  proof (cases "maxStickyEntries < length m")
    case True
    then have "evictSticky m = evictSticky (AList.delete (oldestSticky [] 0 m) m)"
      by (subst evictSticky.simps) simp
    then show ?thesis
      using 1 [OF True] set_delete_sub [of "oldestSticky [] 0 m" m] by auto
  next
    case False
    then have "evictSticky m = m" by (subst evictSticky.simps) simp
    then show ?thesis using False by simp
  qed
qed

lemma set_update_sub: "set (AList.update k v m) \<subseteq> insert (k, v) (set m)"
  by (induction m) auto

lemma sticky_ok_put:
  assumes "sticky_ok m" and "k \<noteq> []" and "nh_NodeID (sk_handle v) \<noteq> 0"
  defines "m' \<equiv> AList.update k v m"
  shows "sticky_ok (if maxStickyEntries < length m' then evictSticky (filter P m') else m')"
proof -
  have wf: "gm_wf m'" using assms(1) by (simp add: sticky_ok_def m'_def)
  have el: "\<forall>(k, pref) \<in> set m'. k \<noteq> [] \<and> nh_NodeID (sk_handle pref) \<noteq> 0"
    using set_update_sub [of k v m] assms(1-3) unfolding sticky_ok_def m'_def by fast
  have "gm_wf (filter P m')" by (rule distinct_map_filter) (rule wf)
  moreover have "set (evictSticky (filter P m')) \<subseteq> set m'"
    using evictSticky_props [of "filter P m'"] by auto
  ultimately have "sticky_ok (evictSticky (filter P m'))"
    using evictSticky_props [of "filter P m'"] el unfolding sticky_ok_def by blast
  then show ?thesis using wf el by (simp add: sticky_ok_def)
qed

lemma onKernel_fields [simp]:
  "pl_sticky (onKernel f e) = pl_sticky e" "pl_maxAttempts (onKernel f e) = pl_maxAttempts e"
  "pl_switchMargin (onKernel f e) = pl_switchMargin e" "pl_switchCooldown (onKernel f e) = pl_switchCooldown e"
  "pl_affinityMode (onKernel f e) = pl_affinityMode e" "pl_nodeWeights (onKernel f e) = pl_nodeWeights e"
  "pl_manualFailure (onKernel f e) = pl_manualFailure e" "pl_kernel e = None \<Longrightarrow> onKernel f e = e"
  by (simp_all add: onKernel_def)

lemma RememberSelection_sticky:
  fixes wall now :: gotime and e :: "'k policy_engine" and key :: string and handle :: node_handle
  assumes "key \<noteq> []" and "nh_NodeID handle \<noteq> 0" and "pl_affinityMode e \<noteq> ''disabled''"
  defines "until \<equiv> (case map_of (pl_sticky e) key of
        None \<Rightarrow> if 0 < pl_switchCooldown e then orNow wall now + pl_switchCooldown e else 0
      | Some previous \<Rightarrow> if sk_handle previous \<noteq> handle
          then if 0 < pl_switchCooldown e then orNow wall now + pl_switchCooldown e else 0
          else sk_until previous)"
  defines "m' \<equiv> AList.update key \<lparr>sk_handle = handle, sk_until = until, sk_updatedAt = orNow wall now\<rparr> (pl_sticky e)"
  shows "pl_sticky (RememberSelection key handle wall now e) =
    (if maxStickyEntries < length m' then evictSticky (filter (\<lambda>(k, p). \<not> stickyExpired (orNow wall now) p) m') else m')"
  using assms(1-3)
  by (simp add: RememberSelection_def Let_def pruneStickyLocked_def m'_def until_def cong: option.case_cong)

lemma Remember_fields [simp]:
  "pl_maxAttempts (RememberSelection key h wall now e) = pl_maxAttempts e"
  "pl_switchMargin (RememberSelection key h wall now e) = pl_switchMargin e"
  "pl_switchCooldown (RememberSelection key h wall now e) = pl_switchCooldown e"
  "pl_affinityMode (RememberSelection key h wall now e) = pl_affinityMode e"
  "pl_nodeWeights (RememberSelection key h wall now e) = pl_nodeWeights e"
  by (simp_all add: RememberSelection_def Let_def pruneStickyLocked_def)

lemma ok_remember: "policy_ok e \<Longrightarrow> policy_ok (RememberSelection key h wall now e)"
proof (cases "key = [] \<or> nh_NodeID h = 0 \<or> pl_affinityMode e = ''disabled''")
  case True
  moreover assume "policy_ok e"
  ultimately show ?thesis by (auto simp: RememberSelection_def)
next
  case False
  assume ok: "policy_ok e"
  then have "sticky_ok (pl_sticky (RememberSelection key h wall now e))"
    using False RememberSelection_sticky [of key h e wall now] sticky_ok_put [of "pl_sticky e" key]
    by (simp add: policy_ok_def)
  then show ?thesis using ok by (simp add: policy_ok_def)
qed

definition same_settings :: "'k policy_engine \<Rightarrow> 'k policy_engine \<Rightarrow> bool" where
  \<comment> \<open>planning changes at most the kernel, the bulk counter and an expired sticky entry\<close>
  "same_settings e e' \<longleftrightarrow>
     pl_maxAttempts e' = pl_maxAttempts e \<and> pl_switchMargin e' = pl_switchMargin e
     \<and> pl_switchCooldown e' = pl_switchCooldown e
     \<and> (pl_sticky e' = pl_sticky e \<or> (\<exists>k. pl_sticky e' = AList.delete k (pl_sticky e)))"

lemma same_settings_ok: "same_settings e e' \<Longrightarrow> policy_ok e \<Longrightarrow> policy_ok e'"
  by (auto simp: same_settings_def policy_ok_def sticky_ok_delete)

lemma kernelChoose_settings:
  "kernelChoose hs service lease pinned now mode q eligible e = (e', chosen, r) \<Longrightarrow>
   pl_maxAttempts e' = pl_maxAttempts e \<and> pl_switchMargin e' = pl_switchMargin e
     \<and> pl_switchCooldown e' = pl_switchCooldown e \<and> pl_sticky e' = pl_sticky e"
  by (auto simp: kernelChoose_def Let_def split: option.splits prod.splits if_splits)

lemma stickyPreferred_settings: "stickyPreferred key wall now e = (e', r) \<Longrightarrow> same_settings e e'"
  by (auto simp: stickyPreferred_def same_settings_def Let_def split: option.splits if_splits)

lemma applySticky_settings:
  assumes "applyStickyStability hs service now eligible e = (e', r)"
  shows "same_settings e e'"
proof -
  obtain e1 pr where p: "stickyPreferred (stickyKey service e) now now e = (e1, pr)" by fastforce
  then have "e' = e1"
    using assms by (auto simp: applyStickyStability_def Let_def split: option.splits if_splits)
  then show ?thesis using stickyPreferred_settings [OF p] by simp
qed

lemma stickyStage_settings:
  assumes "stickyStage hs service pinned now mode kr ranked e = (e', steady, reason)"
  shows "same_settings e e'"
proof (cases "kr = None \<and> (mode = ModeAdaptive \<or> mode = ModeStrictAffinity)")
  case True
  obtain e1 r where a: "applyStickyStability hs service now ranked e = (e1, r)" by fastforce
  then have "e' = e1" using assms True by (auto simp: stickyStage_def Let_def split: option.splits)
  then show ?thesis using applySticky_settings [OF a] by simp
qed (use assms in \<open>auto simp: stickyStage_def same_settings_def Let_def split: if_splits\<close>)

lemma Plan_settings: "Plan nn hs snapshot service lease pinned now e = (e', r) \<Longrightarrow> same_settings e e'"
proof -
  have ranked: "same_settings e e1"
    if rp: "rankedPlan hs s service lease pinned now mode eligible e = (e1, r1)" for s mode eligible e1 r1
  proof -
    obtain e2 chosen kr steady reason q where
      k: "kernelChoose hs service lease pinned now mode q eligible (bulkCount mode e) = (e2, chosen, kr)"
      and st: "stickyStage hs service pinned now mode kr (rankEligible e2 hs service mode (kr \<noteq> None) chosen) e2
        = (e1, steady, reason)"
      using rankedPlan_stages [OF rp] by blast
    show ?thesis
      using kernelChoose_settings [OF k] stickyStage_settings [OF st]
      by (auto simp: same_settings_def bulkCount_def split: if_splits)
  qed
  have refl: "same_settings e e" by (simp add: same_settings_def)
  assume "Plan nn hs snapshot service lease pinned now e = (e', r)"
  then show ?thesis
    using refl ranked by (auto simp: Plan_def Let_def split: option.splits if_splits)
qed

lemma ok_plan: "policy_ok e \<Longrightarrow> policy_ok (fst (Plan nn hs snapshot service lease pinned now e))"
proof -
  obtain e' r where p: "Plan nn hs snapshot service lease pinned now e = (e', r)" by fastforce
  assume "policy_ok e"
  then show ?thesis using same_settings_ok [OF Plan_settings [OF p]] p by simp
qed

lemma ok_forget: "policy_ok e \<Longrightarrow> policy_ok (fst (ForgetSelectionAfterEarlyFailure service h wall now e))"
  by (auto simp: ForgetSelectionAfterEarlyFailure_def policy_ok_def sticky_ok_delete Let_def
      split: option.splits)

lemma default_margin: "0 \<le> defaultSwitchMargin \<and> defaultSwitchMargin \<le> 1 / 2"
  by code_simp

lemma ok_stability: "policy_ok e \<Longrightarrow> policy_ok (BindSwitchStability margin cooldown e)"
  using default_margin by (auto simp: BindSwitchStability_def policy_ok_def Let_def)

lemma ok_import: "policy_ok src \<Longrightarrow> policy_ok e \<Longrightarrow> pl_sticky e = [] \<Longrightarrow> policy_ok (importStickyFrom src e)"
proof -
  have put: "fold (\<lambda>(key, pref) m. AList.update key pref m) xs ys = ys @ xs"
    if "distinct (map fst (ys @ xs))" for xs ys :: "(string, sticky_preference) gomap"
    using that
  proof (induction xs arbitrary: ys)
    case (Cons x xs)
    have "AList.update (fst x) (snd x) ys = ys @ [x]"
      using Cons.prems by (induction ys) auto
    then show ?case using Cons.IH [of "ys @ [x]"] Cons.prems by (simp add: case_prod_unfold)
  qed simp
  assume "policy_ok src" "policy_ok e" "pl_sticky e = []"
  then show ?thesis using put [of "[]" "pl_sticky src"] by (simp add: importStickyFrom_def policy_ok_def sticky_ok_def)
qed

inductive policy_step :: "'k policy_engine \<Rightarrow> 'k policy_engine \<Rightarrow> bool" where
  remember: "policy_step e (RememberSelection key h wall now e)"
| forget: "policy_step e (fst (ForgetSelectionAfterEarlyFailure service h wall now e))"
| plan: "policy_step e (fst (Plan nn hs snapshot service lease pinned now e))"
| stability: "policy_step e (BindSwitchStability margin cooldown e)"
| affinity: "policy_step e (BindAffinityMode mode e)"
| weights: "policy_step e (BindNodeWeights weights e)"
| sequence: "policy_step e (BindBulkSequence counter e)"
| clear: "policy_step e (ClearPolicy e)"
| close: "policy_step e (ClosePolicy e)"

definition policy_init :: "'k policy_engine \<Rightarrow> bool" where
  "policy_init e \<longleftrightarrow> (\<exists>kern maxAttempts manualFailure. e = NewPolicyEngine kern maxAttempts manualFailure)"

lemma policy_step_ok: "policy_step e e' \<Longrightarrow> policy_ok e \<Longrightarrow> policy_ok e'"
proof (induction rule: policy_step.induct)
  case (remember e key h wall now)
  then show ?case by (rule ok_remember)
next
  case (forget e service h wall now)
  then show ?case by (rule ok_forget)
next
  case (plan e nn hs snapshot service lease pinned now)
  then show ?case by (rule ok_plan)
next
  case (stability e margin cooldown)
  then show ?case by (rule ok_stability)
qed (auto simp: policy_ok_def sticky_ok_def BindAffinityMode_def BindNodeWeights_def BindBulkSequence_def
    ClearPolicy_def ClosePolicy_def split: option.splits)

lemma policy_init_ok: "policy_init e \<Longrightarrow> policy_ok e"
  using default_margin by (auto simp: policy_init_def policy_ok_def sticky_ok_def NewPolicyEngine_def)

interpretation policy_run: transition_system policy_init policy_step policy_ok
  by unfold_locales (auto intro: policy_init_ok policy_step_ok)

section \<open>The switch cooldown\<close>

lemma sorted_head:
  assumes "sorted_wrt R xs" and "x \<in> set xs" and "\<And>x. R x x"
  shows "R (xs ! 0) x"
  using assms by (cases xs) auto

lemma rankKey_priority:
  "rankKey e hs service mode a \<le> rankKey e hs service mode b \<Longrightarrow>
   cs_HealthPriority (candidateScore e hs a service) \<le> cs_HealthPriority (candidateScore e hs b service)"
  by (auto simp: rankKey_def Let_def less_eq_prod_def)

lemma sticky_head:
  fixes hs :: health_store and mode :: policy_mode and e :: "'k policy_engine"
  assumes pref: "stickyPreferred (stickyKey service e) now now e = (e, Some pref)"
    and cool: "0 < pl_switchCooldown e" "sk_until pref \<noteq> 0" "now \<le> sk_until pref"
    and picked: "picked \<in> set eligible" "stickyIncumbent pref picked"
    and unique: "\<And>c. c \<in> set eligible \<Longrightarrow> stickyIncumbent pref c \<Longrightarrow> c = picked"
    and mode: "mode = ModeAdaptive \<or> mode = ModeStrictAffinity"
  defines "prio \<equiv> \<lambda>c. cs_HealthPriority (candidateScore e hs c service)"
  defines "ranked \<equiv> sortSlice (rankBefore e hs service mode) eligible"
  shows "\<exists>steady reason. stickyStage hs service pinned now mode None ranked e = (e, steady, reason)
      \<and> steady \<noteq> [] \<and> mset steady = mset eligible
      \<and> (hd steady = picked \<longleftrightarrow> (\<forall>c \<in> set eligible. prio picked \<le> prio c))"
proof -
  have set: "set ranked = set eligible" by (simp add: ranked_def)
  have ne: "ranked \<noteq> []" using picked(1) set by auto
  obtain i where i: "indexOf (stickyIncumbent pref) ranked = Some i"
    using picked set indexOf_None [of "stickyIncumbent pref" ranked] by fastforce
  note i' = indexOf_Some [OF i]
  have pickedi: "ranked ! i = picked" using i' unique set by (metis nth_mem)
  have head: "prio (ranked ! 0) \<le> prio c" if "c \<in> set eligible" for c
  proof -
    have "rankKey e hs service mode (ranked ! 0) \<le> rankKey e hs service mode c"
      using sorted_head [OF ranked_sorted [of e hs service mode eligible], of c] that
      by (simp add: ranked_def)
    then show ?thesis unfolding prio_def by (rule rankKey_priority)
  qed
  show ?thesis
  proof (cases "i = 0")
    case True
    then have "applyStickyStability hs service now ranked e = (e, None)"
      using pref i by (simp add: applyStickyStability_def)
    moreover have "hd ranked = picked" using True pickedi ne by (simp add: hd_conv_nth)
    moreover have "mset ranked = mset eligible" by (simp add: ranked_def)
    ultimately show ?thesis using head pickedi True ne mode by (auto simp: stickyStage_def)
  next
    case False
    have notc: "ranked ! 0 \<noteq> picked" using i' False picked(2) by auto
    show ?thesis
    proof (cases "prio (ranked ! 0) < prio picked")
      case True
      then have "applyStickyStability hs service now ranked e = (e, None)"
        using pref i False pickedi by (simp add: applyStickyStability_def Let_def prio_def)
      moreover have "hd ranked \<noteq> picked" using notc ne by (simp add: hd_conv_nth)
      moreover have "\<exists>c \<in> set eligible. \<not> prio picked \<le> prio c"
        using True ne set by (intro bexI [of _ "ranked ! 0"]) (auto simp flip: set)
      moreover have "mset ranked = mset eligible" by (simp add: ranked_def)
      ultimately show ?thesis using ne mode by (auto simp: stickyStage_def)
    next
      case no: False
      let ?moved = "moveCandidateFirst ranked i"
      have "applyStickyStability hs service now ranked e = (e, Some (?moved, ReasonSwitchCooldown))"
        using pref i False no pickedi cool by (simp add: applyStickyStability_def Let_def prio_def is_zero_def)
      moreover have "hd ?moved = picked" using hd_moveCandidateFirst [of i ranked] i' pickedi by simp
      moreover have "mset ?moved = mset eligible" by (simp add: ranked_def)
      moreover have "?moved \<noteq> []" using i' by (auto simp: moveCandidateFirst_def)
      moreover have "prio picked \<le> prio c" if "c \<in> set eligible" for c
        using no head [OF that] by linarith
      ultimately show ?thesis using mode by (auto simp: stickyStage_def)
    qed
  qed
qed


section \<open>Strict sessions\<close>

text \<open>C26. A strict session keeps the node of its lease: when the leased handle is among the
  eligible candidates, a strict plan consists of this candidate alone, whatever ranks better,
  whatever the sticky memory holds and whatever the kernel answers.\<close>

theorem strict_lease_is_kept:
  assumes "effectiveMode service = ModeStrictAffinity"
    and picked: "picked \<in> set (eligibleCandidates nn hs snapshot service)" "candidateLeased l picked"
    and unique: "\<forall>c \<in> set (eligibleCandidates nn hs snapshot service). candidateLeased l c \<longrightarrow> c = picked"
  shows "\<exists>e' p. Plan nn hs (Some snapshot) service (Some l) None now e = (e', Inr p)
    \<and> dn_Candidates p = [picked] \<and> dn_Reason p = ReasonLease \<and> \<not> dn_allowBlocked p"
proof -
  let ?el = "eligibleCandidates nn hs snapshot service"
  obtain e' r where r: "rankedPlan hs snapshot service (Some l) None now ModeStrictAffinity ?el e = (e', r)" by fastforce
  obtain kr steady reason q where ms: "mset steady = mset ?el"
    and m: "r = modePlan hs snapshot service (Some l) ModeStrictAffinity (pl_maxAttempts e) q kr steady reason"
    using rankedPlan_stages [OF r] by blast
  have set: "set steady = set ?el" using ms by (rule mset_eq_setD)
  have ne: "?el \<noteq> []" using picked(1) by auto
  have "find (candidateLeased l) steady \<noteq> None" using picked set by (auto simp: find_None_iff)
  then obtain c where c: "find (candidateLeased l) steady = Some c" by auto
  have "c = picked" using find_SomeD [OF c] unique set by auto
  then have "r = Inr (makePlan snapshot ModeStrictAffinity ReasonLease service [picked])"
    using m c by (simp add: modePlan_def)
  moreover have "Plan nn hs (Some snapshot) service (Some l) None now e = (e', r)"
    using plan_without_pin [of None nn hs snapshot service "Some l" now e] assms(1) ne r by simp
  ultimately show ?thesis by (simp add: makePlan_def)
qed

section \<open>Bounds and examples\<close>

text \<open>C28. In every reachable state of the engine the sticky memory holds at most 4096 entries with
  distinct non-empty keys and real nodes, at least one attempt is allowed, the switch margin lies
  between zero and one half and the cooldown is not negative, whatever the sequence of selections,
  early failures, plans and configuration changes was.\<close>

theorem policy_engine_bounded:
  assumes "policy_init e0" and "policy_step\<^sup>*\<^sup>* e0 e"
  shows "length (pl_sticky e) \<le> 4096 \<and> distinct (map fst (pl_sticky e))
    \<and> (\<forall>(k, pref) \<in> set (pl_sticky e). k \<noteq> [] \<and> nh_NodeID (sk_handle pref) \<noteq> 0)
    \<and> 0 < pl_maxAttempts e \<and> 0 \<le> pl_switchMargin e \<and> pl_switchMargin e \<le> 1 / 2 \<and> 0 \<le> pl_switchCooldown e"
  using policy_run.reach_inv [OF assms] by (simp add: policy_ok_def sticky_ok_def)

theorem policy_engine_bounded_witness:
  "length (pl_sticky (RememberSelection ''web'' (cd_Handle (poolCandidate 8)) 5 5 poolEngine)) \<le> 4096
   \<and> map_of (pl_sticky (RememberSelection ''web'' (cd_Handle (poolCandidate 8)) 5 5 poolEngine)) ''web'' \<noteq> None"
proof -
  have "policy_init poolEngine" by (auto simp: policy_init_def poolEngine_def)
  moreover have "policy_step\<^sup>*\<^sup>* poolEngine (RememberSelection ''web'' (cd_Handle (poolCandidate 8)) 5 5 poolEngine)"
    by (rule r_into_rtranclp) (rule policy_step.remember)
  ultimately show ?thesis
    using policy_engine_bounded
    by (simp add: RememberSelection_def poolEngine_def NewPolicyEngine_def poolCandidate_def Let_def)
qed

definition switchEngine :: "unit policy_engine" where
  \<comment> \<open>node 8 was selected at 3 and its cooldown ends at 9\<close>
  "switchEngine = poolEngine\<lparr>pl_switchCooldown := 6,
     pl_sticky := [(''web'', \<lparr>sk_handle = cd_Handle (poolCandidate 8), sk_until = 9, sk_updatedAt = 3\<rparr>)]\<rparr>"


definition poolLease :: session_lease where
  "poolLease = emptyLease\<lparr>sl_NodeID := 9, sl_NodeSlot := 1, sl_NodeVersion := 1\<rparr>"

theorem strict_lease_is_kept_witness:
  "\<exists>e' p. Plan (\<lambda>x. x) openStore (Some poolView) (poolService ModeStrictAffinity) (Some poolLease) None 7 poolEngine
      = (e', Inr p) \<and> dn_Candidates p = [poolCandidate 9]"
proof -
  let ?el = "eligibleCandidates (\<lambda>x. x) openStore poolView (poolService ModeStrictAffinity)"
  have mode: "effectiveMode (poolService ModeStrictAffinity) = ModeStrictAffinity" by simp
  have mem: "poolCandidate 9 \<in> set ?el" by (simp add: pool_eligible)
  have leased: "candidateLeased poolLease (poolCandidate 9)"
    by (simp add: candidateLeased_def poolLease_def poolCandidate_def)
  have "\<not> candidateLeased poolLease (poolCandidate 8)"
    by (simp add: candidateLeased_def poolLease_def poolCandidate_def)
  then have "\<forall>c \<in> set ?el. candidateLeased poolLease c \<longrightarrow> c = poolCandidate 9" by (simp add: pool_eligible)
  from strict_lease_is_kept [OF mode mem leased this] show ?thesis by blast
qed

end
