(* ===== verification/Catalog_Run.thy ===== *)
theory Catalog_Run
  imports Execution_Catalog
begin

text \<open>
  Runs of the execution catalog: publishers prepare and commit revisions and roll epochs back
  while dialers take and release leases, in any order. A prepared execution is committed at most
  once, and fewer than \<open>2 ^ 63 - 1\<close> leases are taken. The invariant accounts for every
  lease in the reference count of its binding set.
\<close>

section \<open>The system\<close>

record catalog_system =
  cy_port :: catalog_port
  cy_prepared :: "prepared_execution list"
  cy_leases :: "execution_lease list"

inductive catalog_step :: "catalog_system \<Rightarrow> catalog_system \<Rightarrow> bool" where
  prepare: "PrepareCommitted source identity (cy_port y) = (p', Inr x) \<Longrightarrow>
    catalog_step y (y\<lparr>cy_port := p', cy_prepared := x # cy_prepared y\<rparr>)"
| commit: "x \<in> set (cy_prepared y) \<Longrightarrow>
    catalog_step y (y\<lparr>cy_port := fst (CommitPrepared (Some x) (cy_port y)),
      cy_prepared := remove1 x (cy_prepared y)\<rparr>)"
| rollback: "catalog_step y (y\<lparr>cy_port := RollbackEpoch epochID (cy_port y)\<rparr>)"
| acquire: "AcquireExecution token (cy_port y) = (p', Some l) \<Longrightarrow>
    length (cy_leases y) < 2 ^ 63 - 1 \<Longrightarrow>
    catalog_step y (y\<lparr>cy_port := p', cy_leases := cy_leases y @ [l]\<rparr>)"
| release: "i < length (cy_leases y) \<Longrightarrow> leaseRelease (cy_leases y ! i, cy_port y) = (l', p') \<Longrightarrow>
    catalog_step y (y\<lparr>cy_port := p', cy_leases := (cy_leases y)[i := l']\<rparr>)"

definition catalog_init :: "catalog_system \<Rightarrow> bool" where
  "catalog_init y \<longleftrightarrow> y = \<lparr>cy_port = NewCatalogPort, cy_prepared = [], cy_leases = []\<rparr>"

section \<open>Invariant\<close>

definition holds :: "nat \<Rightarrow> execution_lease \<Rightarrow> bool" where
  "holds a l \<longleftrightarrow> \<not> xl_released l \<and> xl_bindings l = a"

definition held :: "nat \<Rightarrow> execution_lease list \<Rightarrow> nat" where
  "held a ls = length (filter (holds a) ls)"

definition set_ok :: "execution_lease list \<Rightarrow> nat \<Rightarrow> binding_set \<Rightarrow> bool" where
  \<comment> \<open>the count is right, a drained retired set is empty, a held port is still there\<close>
  "set_ok ls a s \<longleftrightarrow> bs_refs s = int (held a ls) \<and> (bs_retiring s \<and> bs_refs s = 0 \<longrightarrow> bs_ports s = [])
     \<and> (\<forall>l \<in> set ls. holds a l \<longrightarrow> xl_Port l \<in> snd ` set (bs_ports s))"

definition live_at :: "catalog_port \<Rightarrow> prepared_execution \<Rightarrow> bool" where
  "live_at p x \<longleftrightarrow> px_bindings x < cp_next p \<and> \<not> bs_retiring (setAt p (px_bindings x))
     \<and> bs_epochID (setAt p (px_bindings x)) = es_RuntimeEpochID (px_view x)
     \<and> bs_revision (setAt p (px_bindings x)) = es_CatalogRevision (px_view x)"

definition live :: "catalog_system \<Rightarrow> prepared_execution list" where
  "live y = cy_prepared y @ (case cp_current (cy_port y) of None \<Rightarrow> [] | Some c \<Rightarrow> [c])"

definition sets_ok :: "catalog_port \<Rightarrow> execution_lease list \<Rightarrow> bool" where
  "sets_ok p ls \<longleftrightarrow> (\<forall>a. set_ok ls a (setAt p a)) \<and> (\<forall>a \<ge> cp_next p. map_of (cp_sets p) a = None)"

definition lives_ok :: "catalog_port \<Rightarrow> prepared_execution list \<Rightarrow> bool" where
  "lives_ok p xs \<longleftrightarrow> distinct (map px_bindings xs) \<and> (\<forall>x \<in> set xs. live_at p x)
     \<and> (\<forall>a < cp_next p. \<not> bs_retiring (setAt p a) \<longrightarrow> a \<in> px_bindings ` set xs)"

definition leases_ok :: "catalog_port \<Rightarrow> execution_lease list \<Rightarrow> bool" where
  "leases_ok p ls \<longleftrightarrow> (\<forall>l \<in> set ls. xl_bindings l < cp_next p) \<and> length ls < 2 ^ 63"

definition cat_ok :: "catalog_system \<Rightarrow> bool" where
  "cat_ok y \<longleftrightarrow> sets_ok (cy_port y) (cy_leases y) \<and> lives_ok (cy_port y) (live y)
     \<and> leases_ok (cy_port y) (cy_leases y)"

lemma lease_held_append [simp]: "held a (ls @ [l]) = held a ls + (if holds a l then 1 else 0)"
  by (simp add: held_def)

lemma held_Nil [simp]: "held a [] = 0"
  by (simp add: held_def)

lemma held_le: "held a ls \<le> length ls"
  by (simp add: held_def)

lemma held_update:
  assumes "i < length ls"
  shows "held a (ls[i := l']) + (if holds a (ls ! i) then 1 else 0)
       = held a ls + (if holds a l' then 1 else 0)"
  unfolding held_def by (rule length_filter_update [OF assms])

lemma bindingRelease_fields [simp]:
  "bs_retiring (bindingRelease s) = bs_retiring s" "bs_epochID (bindingRelease s) = bs_epochID s"
  "bs_revision (bindingRelease s) = bs_revision s"
  by (simp_all add: bindingRelease_def Let_def)

lemma set_ok_retire: "set_ok ls a s \<Longrightarrow> set_ok ls a (bindingRetire s)"
  by (auto simp: set_ok_def bindingRetire_ports held_def filter_empty_conv)

lemma PrepareCommitted_Inr:
  assumes "PrepareCommitted source identity p = (p', Inr x)"
  shows "\<exists>s. newEpochBindingSet source identity = Inr s
    \<and> p' = p\<lparr>cp_sets := AList.update (cp_next p) s (cp_sets p), cp_next := cp_next p + 1\<rparr>
    \<and> x = \<lparr>px_view = buildExecutionView source identity, px_bindings = cp_next p\<rparr>
    \<and> sourceNodesValid source identity [] (src_Nodes source)"
  using assms by (auto simp: PrepareCommitted_def split: if_splits sum.splits)

lemma addToView_fields [simp]:
  "es_RuntimeEpochID (addToView identity n v) = es_RuntimeEpochID v"
  "es_CatalogRevision (addToView identity n v) = es_CatalogRevision v"
  by (simp_all add: addToView_def Let_def)

lemma view_identity:
  "es_RuntimeEpochID (buildExecutionView source identity) = ri_EpochID identity"
  "es_CatalogRevision (buildExecutionView source identity) = ri_Revision identity"
proof -
  have "es_RuntimeEpochID (fold (addToView identity) ns v) = es_RuntimeEpochID v
      \<and> es_CatalogRevision (fold (addToView identity) ns v) = es_CatalogRevision v" for ns v
    by (induction ns arbitrary: v) simp_all
  then show "es_RuntimeEpochID (buildExecutionView source identity) = ri_EpochID identity"
    "es_CatalogRevision (buildExecutionView source identity) = ri_Revision identity"
    by (simp_all add: buildExecutionView_def)
qed

lemma newEpochBindingSet_Inr:
  "newEpochBindingSet source identity = Inr s \<Longrightarrow>
   bs_epochID s = ri_EpochID identity \<and> bs_revision s = ri_Revision identity \<and> bs_refs s = 0
   \<and> \<not> bs_retiring s \<and> bindPorts source identity (src_Nodes source) [] = Some (bs_ports s)"
  by (auto simp: newEpochBindingSet_def split: option.splits)

section \<open>Preservation\<close>

lemma ok_prepare:
  assumes ok: "cat_ok y" and prep: "PrepareCommitted source identity (cy_port y) = (p', Inr x)"
  shows "cat_ok (y\<lparr>cy_port := p', cy_prepared := x # cy_prepared y\<rparr>)"
proof -
  let ?p = "cy_port y"
  obtain s where s: "newEpochBindingSet source identity = Inr s"
    and p': "p' = ?p\<lparr>cp_sets := AList.update (cp_next ?p) s (cp_sets ?p), cp_next := cp_next ?p + 1\<rparr>"
    and x: "x = \<lparr>px_view = buildExecutionView source identity, px_bindings = cp_next ?p\<rparr>"
    using PrepareCommitted_Inr [OF prep] by blast
  note s' = newEpochBindingSet_Inr [OF s]
  have at: "setAt p' a = (if a = cp_next ?p then s else setAt ?p a)" for a
    by (simp add: p' setAt_def gomap_simps)
  have next': "cp_next p' = Suc (cp_next ?p)" by (simp add: p')
  have live: "live (y\<lparr>cy_port := p', cy_prepared := x # cy_prepared y\<rparr>) = x # live y"
    by (simp add: live_def p')
  have leases: "leases_ok ?p (cy_leases y)" and lives: "lives_ok ?p (live y)"
    and sets: "sets_ok ?p (cy_leases y)"
    using ok by (simp_all add: cat_ok_def)
  have fresh: "\<not> holds (cp_next ?p) l" if "l \<in> set (cy_leases y)" for l
    using leases that by (auto simp: leases_ok_def holds_def)
  have "set_ok (cy_leases y) (cp_next ?p) s"
    using s' fresh by (simp add: set_ok_def held_def filter_empty_conv)
  then have sets': "sets_ok p' (cy_leases y)"
    using sets unfolding sets_ok_def at by (auto simp: p' gomap_simps)
  have below: "px_bindings z < cp_next ?p" if "z \<in> set (live y)" for z
    using lives that by (simp add: lives_ok_def live_at_def)
  have "live_at p' x" using s' by (simp add: live_at_def at x next' view_identity)
  moreover have "live_at p' z" if z: "z \<in> set (live y)" for z
    using lives below [OF z] z unfolding lives_ok_def live_at_def at next' by auto
  moreover have "cp_next ?p \<notin> px_bindings ` set (live y)" using below by fastforce
  ultimately have lives': "lives_ok p' (x # live y)"
    using lives unfolding lives_ok_def at next' by (auto simp: x less_Suc_eq)
  have leases': "leases_ok p' (cy_leases y)" using leases by (auto simp: leases_ok_def next')
  show ?thesis unfolding cat_ok_def live using sets' lives' leases' by simp
qed

lemma cat_retire:
  assumes ok: "cat_ok y" and new: "new = None \<and> prepared = cy_prepared y
      \<or> (\<exists>x. new = Some x \<and> x \<in> set (cy_prepared y) \<and> prepared = remove1 x (cy_prepared y))"
  shows "cat_ok (y\<lparr>cy_port := (retireCurrent (cy_port y))\<lparr>cp_current := new\<rparr>, cy_prepared := prepared\<rparr>)"
proof -
  let ?p = "cy_port y" and ?p' = "(retireCurrent (cy_port y))\<lparr>cp_current := new\<rparr>"
  let ?ps = "cy_prepared y"
  define curs where "curs = (case cp_current ?p of None \<Rightarrow> [] | Some c \<Rightarrow> [px_bindings c])"
  have leases: "leases_ok ?p (cy_leases y)" and lives: "lives_ok ?p (live y)"
    and sets: "sets_ok ?p (cy_leases y)"
    using ok by (simp_all add: cat_ok_def)
  have at: "setAt ?p' a = (if a \<in> set curs then bindingRetire (setAt ?p a) else setAt ?p a)" for a
    by (auto simp: setAt_retireCurrent curs_def split: option.splits)
  have "map_of (cp_sets ?p') a = None" if "cp_next ?p \<le> a" for a
  proof -
    have "cp_current ?p = Some c \<Longrightarrow> a \<noteq> px_bindings c" for c
      using lives that by (auto simp: lives_ok_def live_def live_at_def)
    then show ?thesis using sets that
      by (auto simp: sets_ok_def retireCurrent_def updateSet_def gomap_simps split: option.splits)
  qed
  then have sets': "sets_ok ?p' (cy_leases y)"
    using sets set_ok_retire unfolding sets_ok_def at by auto
  have mset: "set prepared \<union> set_option new = set ?ps"
    and dist: "distinct (map px_bindings (prepared @ (case new of None \<Rightarrow> [] | Some c \<Rightarrow> [c])))"
  proof -
    have d: "distinct (map px_bindings ?ps)" using lives by (simp add: lives_ok_def live_def)
    then have "distinct ?ps" by (simp add: distinct_map)
    then show "set prepared \<union> set_option new = set ?ps" using new by auto
    have inj: "inj_on px_bindings (set ?ps)" using d by (simp add: distinct_map)
    show "distinct (map px_bindings (prepared @ (case new of None \<Rightarrow> [] | Some c \<Rightarrow> [c])))"
      using new d \<open>distinct ?ps\<close> inj
      by (auto simp: distinct_map inj_on_def dest: in_set_remove1 [THEN iffD1])
  qed
  have "set curs \<inter> px_bindings ` set ?ps = {}"
    using lives unfolding lives_ok_def live_def curs_def by (cases "cp_current ?p") simp_all
  then have other: "a \<notin> set curs" if "a \<in> px_bindings ` set ?ps" for a using that by blast
  have set': "set (prepared @ (case new of None \<Rightarrow> [] | Some c \<Rightarrow> [c])) = set ?ps"
    using mset by (auto split: option.splits)
  have "live_at ?p' z" if z: "z \<in> set ?ps" for z
    using lives z other [of "px_bindings z"]
    unfolding lives_ok_def live_at_def at by (auto simp: live_def)
  moreover have "a \<in> px_bindings ` set ?ps"
    if "a < cp_next ?p" "\<not> bs_retiring (setAt ?p' a)" for a
    using lives that unfolding lives_ok_def at
    by (auto simp: live_def curs_def split: if_splits option.splits)
  ultimately have lives': "lives_ok ?p' (prepared @ (case new of None \<Rightarrow> [] | Some c \<Rightarrow> [c]))"
    unfolding lives_ok_def set' using dist by simp
  have leases': "leases_ok ?p' (cy_leases y)" using leases by (simp add: leases_ok_def)
  show ?thesis unfolding cat_ok_def using sets' lives' leases' by (simp add: live_def)
qed

lemma ok_updateSet:
  assumes ok: "cat_ok y" and a: "a < cp_next (cy_port y)"
    and same: "bs_retiring (f (setAt (cy_port y) a)) = bs_retiring (setAt (cy_port y) a)"
      "bs_epochID (f (setAt (cy_port y) a)) = bs_epochID (setAt (cy_port y) a)"
      "bs_revision (f (setAt (cy_port y) a)) = bs_revision (setAt (cy_port y) a)"
    and sets: "set_ok ls a (f (setAt (cy_port y) a))"
    and others: "\<And>b. b \<noteq> a \<Longrightarrow> set_ok (cy_leases y) b (setAt (cy_port y) b) \<Longrightarrow>
        set_ok ls b (setAt (cy_port y) b)"
    and leases: "leases_ok (cy_port y) ls"
  shows "cat_ok (y\<lparr>cy_port := updateSet a f (cy_port y), cy_leases := ls\<rparr>)"
proof -
  let ?p = "cy_port y"
  have ok': "sets_ok ?p (cy_leases y)" "lives_ok ?p (live y)" using ok by (simp_all add: cat_ok_def)
  have "map_of (cp_sets (updateSet a f ?p)) b = None" if "cp_next ?p \<le> b" for b
    using ok'(1) a that by (auto simp: sets_ok_def updateSet_def gomap_simps)
  then have 1: "sets_ok (updateSet a f ?p) ls"
    using ok'(1) sets others by (auto simp: sets_ok_def setAt_updateSet)
  have "live_at (updateSet a f ?p) x = live_at ?p x" for x
    using same by (simp add: live_at_def setAt_updateSet)
  moreover have "bs_retiring (setAt (updateSet a f ?p) b) = bs_retiring (setAt ?p b)" for b
    using same by (simp add: setAt_updateSet)
  ultimately have 2: "lives_ok (updateSet a f ?p) (live y)"
    using ok'(2) by (simp add: lives_ok_def)
  have 3: "leases_ok (updateSet a f ?p) ls" using leases by (simp add: leases_ok_def)
  show ?thesis using 1 2 3 by (simp add: cat_ok_def live_def)
qed

lemma cat_acquire:
  assumes ok: "cat_ok y" and acq: "AcquireExecution token (cy_port y) = (p', Some l)"
    and room: "length (cy_leases y) < 2 ^ 63 - 1"
  shows "cat_ok (y\<lparr>cy_port := p', cy_leases := cy_leases y @ [l]\<rparr>)"
proof -
  let ?p = "cy_port y"
  obtain c s port where c: "cp_current ?p = Some c"
    and b: "bindingAcquire token (setAt ?p (px_bindings c)) = Some (s, port)"
    and p': "p' = updateSet (px_bindings c) (\<lambda>_. s) ?p"
    and l: "l = \<lparr>xl_Port = port, xl_bindings = px_bindings c, xl_released = False\<rparr>"
    using acq by (auto simp: AcquireExecution_def split: option.splits)
  note b' = bindingAcquire_SomeD [OF b]
  let ?a = "px_bindings c"
  have a: "?a < cp_next ?p" using ok c by (auto simp: cat_ok_def lives_ok_def live_def live_at_def)
  have old: "set_ok (cy_leases y) ?a (setAt ?p ?a)" using ok by (simp add: cat_ok_def sets_ok_def)
  have "inc_int (bs_refs (setAt ?p ?a)) = bs_refs (setAt ?p ?a) + 1"
    using old held_le [of ?a "cy_leases y"] room by (intro inc_int_small) (simp_all add: set_ok_def)
  moreover have "port \<in> snd ` set (bs_ports (setAt ?p ?a))"
    using map_of_SomeD [OF b'(5)] by force
  ultimately have new: "set_ok (cy_leases y @ [l]) ?a s"
    using old b'(1,2) by (auto simp: set_ok_def l holds_def)
  have "cat_ok (y\<lparr>cy_port := updateSet ?a (\<lambda>_. s) ?p, cy_leases := cy_leases y @ [l]\<rparr>)"
  proof (rule ok_updateSet [OF ok a])
    fix d assume "d \<noteq> ?a" "set_ok (cy_leases y) d (setAt ?p d)"
    then show "set_ok (cy_leases y @ [l]) d (setAt ?p d)" by (auto simp: set_ok_def l holds_def)
  next
    show "leases_ok ?p (cy_leases y @ [l])"
      using ok a room by (auto simp: cat_ok_def leases_ok_def l)
  qed (use b'(1) new in auto)
  then show ?thesis by (simp add: p')
qed

lemma cat_release:
  assumes ok: "cat_ok y" and i: "i < length (cy_leases y)"
    and rel: "leaseRelease (cy_leases y ! i, cy_port y) = (l', p')"
  shows "cat_ok (y\<lparr>cy_port := p', cy_leases := (cy_leases y)[i := l']\<rparr>)"
proof (cases "xl_released (cy_leases y ! i)")
  case True
  then have "l' = cy_leases y ! i" "p' = cy_port y" using rel by (simp_all add: leaseRelease_def)
  then show ?thesis using ok by (simp add: list_update_id)
next
  case False
  let ?p = "cy_port y" and ?l = "cy_leases y ! i" and ?ls = "(cy_leases y)[i := l']"
  let ?a = "xl_bindings ?l"
  have l': "l' = ?l\<lparr>xl_released := True\<rparr>" and p': "p' = updateSet ?a bindingRelease ?p"
    using rel False by (auto simp: leaseRelease_def)
  have mem: "?l \<in> set (cy_leases y)" using i by simp
  have a: "?a < cp_next ?p" using ok mem by (auto simp: cat_ok_def leases_ok_def)
  have old: "set_ok (cy_leases y) ?a (setAt ?p ?a)" using ok by (simp add: cat_ok_def sets_ok_def)
  have none: "\<not> holds d l'" for d by (simp add: holds_def l')
  have held: "held d ?ls + (if holds d ?l then 1 else 0) = held d (cy_leases y)" for d
    using held_update [OF i, of d l'] none by simp
  have sub: "l = l' \<or> l \<in> set (cy_leases y)" if "l \<in> set ?ls" for l
    using that set_update_subset_insert [of "cy_leases y" i l'] by auto
  have one: "holds ?a ?l" using False by (simp add: holds_def)
  have pos: "0 < bs_refs (setAt ?p ?a)" using held [of ?a] one old by (simp add: set_ok_def)
  have refs: "bs_refs (bindingRelease (setAt ?p ?a)) = int (held ?a ?ls)"
    using pos held [of ?a] one old by (simp add: bindingRelease_def Let_def set_ok_def)
  have ports: "bs_ports (bindingRelease s) = (if bs_retiring s \<and> bs_refs (bindingRelease s) = 0
      then [] else bs_ports s)" for s
    by (auto simp: bindingRelease_def Let_def)
  have "set_ok ?ls ?a (bindingRelease (setAt ?p ?a))"
    unfolding set_ok_def ports refs
  proof (intro conjI ballI impI)
    fix l assume l: "l \<in> set ?ls" "holds ?a l"
    then have "held ?a ?ls \<noteq> 0" by (auto simp: held_def filter_empty_conv)
    then show "xl_Port l \<in> snd ` set (if bs_retiring (setAt ?p ?a) \<and> int (held ?a ?ls) = 0 then []
        else bs_ports (setAt ?p ?a))"
      using sub [OF l(1)] l(2) none old by (auto simp: set_ok_def)
  qed simp_all
  then have "cat_ok (y\<lparr>cy_port := updateSet ?a bindingRelease ?p, cy_leases := ?ls\<rparr>)"
  proof (rule ok_updateSet [OF ok a, rotated 3])
    fix d assume d: "d \<noteq> ?a" "set_ok (cy_leases y) d (setAt ?p d)"
    moreover have "held d ?ls = held d (cy_leases y)" using held [of d] d(1) by (simp add: holds_def)
    ultimately show "set_ok ?ls d (setAt ?p d)" using sub none by (auto simp: set_ok_def)
  next
    have "xl_bindings l < cp_next ?p" if "l \<in> set ?ls" for l
      using sub [OF that] ok a by (auto simp: cat_ok_def leases_ok_def l')
    then show "leases_ok ?p ?ls" using ok by (simp add: cat_ok_def leases_ok_def)
  qed simp_all
  then show ?thesis by (simp add: p')
qed

lemma cat_step_ok: "catalog_step y y' \<Longrightarrow> cat_ok y \<Longrightarrow> cat_ok y'"
proof (induction rule: catalog_step.induct)
  case (prepare source identity y p' x)
  then show ?case by (intro ok_prepare)
next
  case (commit x y)
  then show ?case using cat_retire [of y "Some x" "remove1 x (cy_prepared y)"]
    by (simp add: CommitPrepared_def)
next
  case (rollback y epochID)
  then show ?case
    using cat_retire [of y None "cy_prepared y"] by (auto simp: RollbackEpoch_def split: option.splits)
next
  case (acquire token y p' l)
  then show ?case by (intro cat_acquire)
next
  case (release i y l' p')
  then show ?case by (intro cat_release)
qed

lemma cat_init_ok: "catalog_init y \<Longrightarrow> cat_ok y"
  by (simp add: catalog_init_def cat_ok_def sets_ok_def lives_ok_def leases_ok_def live_def
      NewCatalogPort_def set_ok_def setAt_def)

interpretation catalog_run: transition_system catalog_init catalog_step cat_ok
  by unfold_locales (auto intro: cat_init_ok cat_step_ok)

section \<open>Leases and revisions\<close>

text \<open>C8. Whatever publishers and dialers do, the reference count of every binding set is the
  number of leases held on it; the port of a held lease stays in its set, also after newer
  revisions were committed or the epoch was rolled back; a retired set is emptied once its last
  lease is released; and the sets that are not retired are those of the current revision and of
  the revisions prepared and not yet committed.\<close>

theorem held_execution_keeps_port:
  assumes "catalog_init y0" and "catalog_step\<^sup>*\<^sup>* y0 y"
  shows "(\<forall>a. bs_refs (setAt (cy_port y) a) = int (held a (cy_leases y)))
    \<and> (\<forall>l \<in> set (cy_leases y). \<not> xl_released l \<longrightarrow>
         xl_Port l \<in> snd ` set (bs_ports (setAt (cy_port y) (xl_bindings l))))
    \<and> (\<forall>a. bs_retiring (setAt (cy_port y) a) \<and> held a (cy_leases y) = 0 \<longrightarrow>
         bs_ports (setAt (cy_port y) a) = [])
    \<and> (\<forall>a < cp_next (cy_port y). \<not> bs_retiring (setAt (cy_port y) a) \<longleftrightarrow> a \<in> px_bindings ` set (live y))"
proof -
  have ok: "cat_ok y" by (rule catalog_run.reach_inv [OF assms])
  then have sets: "set_ok (cy_leases y) a (setAt (cy_port y) a)" for a
    by (simp add: cat_ok_def sets_ok_def)
  have "lives_ok (cy_port y) (live y)" using ok by (simp add: cat_ok_def)
  then have "\<not> bs_retiring (setAt (cy_port y) a) \<longleftrightarrow> a \<in> px_bindings ` set (live y)"
    if "a < cp_next (cy_port y)" for a
    using that by (auto simp: lives_ok_def live_at_def)
  moreover have "bs_refs (setAt (cy_port y) a) = int (held a (cy_leases y))" for a
    using sets by (simp add: set_ok_def)
  moreover have "xl_Port l \<in> snd ` set (bs_ports (setAt (cy_port y) (xl_bindings l)))"
    if "l \<in> set (cy_leases y)" "\<not> xl_released l" for l
    using sets [of "xl_bindings l"] that by (auto simp: set_ok_def holds_def)
  moreover have "bs_ports (setAt (cy_port y) a) = []"
    if "bs_retiring (setAt (cy_port y) a)" "held a (cy_leases y) = 0" for a
    using sets [of a] that by (simp add: set_ok_def)
  ultimately show ?thesis by blast
qed

text \<open>C20. Only the committed revision hands out executions: a token of another epoch or another
  revision than the ones of the current view is refused in every reachable state, and a granted
  lease carries the port bound to the handle of the token.\<close>

theorem stale_token_refused:
  assumes "catalog_init y0" and "catalog_step\<^sup>*\<^sup>* y0 y" and "cp_current (cy_port y) = Some c"
  shows "(et_RuntimeEpochID token \<noteq> es_RuntimeEpochID (px_view c)
        \<or> et_CatalogRevision token \<noteq> es_CatalogRevision (px_view c) \<longrightarrow>
      AcquireExecution token (cy_port y) = (cy_port y, None))
    \<and> (\<forall>p' l. AcquireExecution token (cy_port y) = (p', Some l) \<longrightarrow>
        map_of (bs_ports (setAt (cy_port y) (px_bindings c))) (et_Handle token) = Some (xl_Port l)
        \<and> xl_bindings l = px_bindings c \<and> \<not> xl_released l)"
proof -
  have "cat_ok y" by (rule catalog_run.reach_inv [OF assms(1,2)])
  then have "live_at (cy_port y) c" using assms(3) by (auto simp: cat_ok_def lives_ok_def live_def)
  then have "bindingAcquire token (setAt (cy_port y) (px_bindings c)) = None"
    if "et_RuntimeEpochID token \<noteq> es_RuntimeEpochID (px_view c)
        \<or> et_CatalogRevision token \<noteq> es_CatalogRevision (px_view c)"
    using that by (auto simp: bindingAcquire_def live_at_def)
  then show ?thesis using assms(3)
    by (auto simp: AcquireExecution_def dest: bindingAcquire_SomeD(5) split: option.splits)
qed

section \<open>A published revision can be executed\<close>

text \<open>For every node of a source that was prepared and committed and whose handle has a slot, the
  token of its handle yields a lease on the port the source bound to that node.\<close>

lemma bindPorts_get:
  assumes "bindPorts source identity ns ports0 = Some ports"
    and "\<And>n. n \<in> set ns \<Longrightarrow> \<exists>h. map_of (ri_Handles identity) (cn_NodeID n) = Some h \<and> nh_NodeID h = cn_NodeID n"
    and "n \<in> set ns \<or> map_of ports0 h = bindingOf (src_Bindings source) (nh_NodeID h)"
    and "map_of (ri_Handles identity) (nh_NodeID h) = Some h" and "n \<in> set ns \<Longrightarrow> cn_NodeID n = nh_NodeID h"
  shows "map_of ports h = bindingOf (src_Bindings source) (nh_NodeID h)"
  using assms
proof (induction ns arbitrary: ports0)
  case (Cons m ns)
  obtain g port where g: "map_of (ri_Handles identity) (cn_NodeID m) = Some g"
    "bindingOf (src_Bindings source) (cn_NodeID m) = Some port"
    and rest: "bindPorts source identity ns (AList.update g port ports0) = Some ports"
    using Cons.prems(1) by (auto split: option.splits)
  have gid: "nh_NodeID g = cn_NodeID m" using Cons.prems(2) [of m] g(1) by auto
  have upd: "map_of (AList.update g port ports0) h = bindingOf (src_Bindings source) (nh_NodeID h)"
    if "cn_NodeID m = nh_NodeID h \<or> map_of ports0 h = bindingOf (src_Bindings source) (nh_NodeID h)"
    using that g gid Cons.prems(4) by (auto simp: gomap_simps)
  show ?case
  proof (rule Cons.IH [OF rest])
    show "n \<in> set ns \<or> map_of (AList.update g port ports0) h = bindingOf (src_Bindings source) (nh_NodeID h)"
      using Cons.prems(3,5) upd by auto
  qed (use Cons.prems in auto)
qed simp

lemma sourceNodesValid_node:
  "sourceNodesValid source identity seen ns \<Longrightarrow> n \<in> set ns \<Longrightarrow>
   \<exists>h. map_of (ri_Handles identity) (cn_NodeID n) = Some h \<and> nh_NodeID h = cn_NodeID n
     \<and> nh_Version h \<noteq> 0 \<and> cn_NodeID n \<noteq> 0 \<and> bindingOf (src_Bindings source) (cn_NodeID n) \<noteq> None"
  by (induction ns arbitrary: seen) (auto split: option.splits if_splits)

lemma committed_executes:
  assumes "catalog_init y0" and "catalog_step\<^sup>*\<^sup>* y0 y"
    and prep: "PrepareCommitted source identity (cy_port y) = (p', Inr x)"
    and n: "n \<in> set (src_Nodes source)" "map_of (ri_Handles identity) (cn_NodeID n) = Some h"
    and slot: "nh_Slot h \<noteq> 0"
  shows "\<exists>l. snd (AcquireExecution
        \<lparr>et_RuntimeEpochID = ri_EpochID identity, et_CatalogRevision = ri_Revision identity, et_Handle = h\<rparr>
        (fst (CommitPrepared (Some x) p'))) = Some l
      \<and> bindingOf (src_Bindings source) (cn_NodeID n) = Some (xl_Port l)"
proof -
  let ?p = "cy_port y"
  obtain s where s: "newEpochBindingSet source identity = Inr s"
    and p': "p' = ?p\<lparr>cp_sets := AList.update (cp_next ?p) s (cp_sets ?p), cp_next := cp_next ?p + 1\<rparr>"
    and x: "x = \<lparr>px_view = buildExecutionView source identity, px_bindings = cp_next ?p\<rparr>"
    and valid: "sourceNodesValid source identity [] (src_Nodes source)"
    using PrepareCommitted_Inr [OF prep] by blast
  note s' = newEpochBindingSet_Inr [OF s]
  note node = sourceNodesValid_node [OF valid]
  have h: "nh_NodeID h = cn_NodeID n" "nh_Version h \<noteq> 0" "cn_NodeID n \<noteq> 0"
    "bindingOf (src_Bindings source) (cn_NodeID n) \<noteq> None"
    using node [OF n(1)] n(2) by auto
  have "map_of (bs_ports s) h = bindingOf (src_Bindings source) (nh_NodeID h)"
    by (rule bindPorts_get [of source identity "src_Nodes source" "[]" "bs_ports s" n h])
      (use s' node n h in auto)
  then obtain port where port: "map_of (bs_ports s) h = Some port"
    "bindingOf (src_Bindings source) (cn_NodeID n) = Some port" using h by auto
  have "cat_ok y" by (rule catalog_run.reach_inv [OF assms(1,2)])
  then have "cp_current ?p = Some c \<Longrightarrow> px_bindings c \<noteq> cp_next ?p" for c
    by (auto simp: cat_ok_def lives_ok_def live_def live_at_def)
  then have "setAt (fst (CommitPrepared (Some x) p')) (cp_next ?p) = s"
    by (auto simp: CommitPrepared_def setAt_retireCurrent p' split: option.splits)
      (simp_all add: setAt_def gomap_simps)
  then show ?thesis
    using s' slot h port
    by (simp add: AcquireExecution_def CommitPrepared_def x bindingAcquire_def)
qed

section \<open>A concrete run\<close>

definition sampleHandleOf :: "node_id \<Rightarrow> nat \<Rightarrow> node_handle" where
  "sampleHandleOf k slot = \<lparr>nh_NodeID = k, nh_Slot = slot, nh_Version = 1, nh_BornRevision = 1\<rparr>"

definition catalogIdentity :: "nat \<Rightarrow> node_id list \<Rightarrow> runtime_identity" where
  "catalogIdentity g ks = \<lparr>ri_EpochID = 1, ri_Revision = g, ri_SourceGeneration = g,
     ri_Handles = map (\<lambda>(k, i). (k, sampleHandleOf k (Suc i))) (zip ks [0..<length ks]),
     ri_RetiredHandles = [], ri_VersionTransitions = []\<rparr>"

definition sampleSource :: source_publication where
  "sampleSource = samplePublication 1 [(1, ''a''), (2, ''bb'')]"

definition catalogStart :: catalog_system where
  "catalogStart = \<lparr>cy_port = NewCatalogPort, cy_prepared = [], cy_leases = []\<rparr>"

definition samplePrepared :: prepared_execution where
  "samplePrepared = \<lparr>px_view = buildExecutionView sampleSource (catalogIdentity 1 [1, 2]), px_bindings = 0\<rparr>"

definition samplePortState :: catalog_port where
  "samplePortState = fst (PrepareCommitted sampleSource (catalogIdentity 1 [1, 2]) NewCatalogPort)"

definition sampleToken :: execution_token where
  "sampleToken = \<lparr>et_RuntimeEpochID = 1, et_CatalogRevision = 1, et_Handle = sampleHandleOf 2 2\<rparr>"

definition sampleCommitted :: catalog_system where
  "sampleCommitted = \<lparr>cy_port = fst (CommitPrepared (Some samplePrepared) samplePortState),
     cy_prepared = [], cy_leases = []\<rparr>"

definition sampleHeld :: catalog_system where
  \<comment> \<open>a lease was taken, then the epoch was rolled back\<close>
  "sampleHeld = \<lparr>cy_port = RollbackEpoch 1 (fst (AcquireExecution sampleToken (cy_port sampleCommitted))),
     cy_prepared = [], cy_leases = [\<lparr>xl_Port = samplePort 2, xl_bindings = 0, xl_released = False\<rparr>]\<rparr>"

lemma sample_prepare:
  "PrepareCommitted sampleSource (catalogIdentity 1 [1, 2]) NewCatalogPort = (samplePortState, Inr samplePrepared)"
  by code_simp

lemma sample_init: "catalog_init catalogStart"
  by (simp add: catalog_init_def catalogStart_def)

lemma sample_committed: "catalog_step\<^sup>*\<^sup>* catalogStart sampleCommitted"
proof -
  let ?y = "\<lparr>cy_port = samplePortState, cy_prepared = [samplePrepared], cy_leases = []\<rparr>"
  have s1: "catalog_step catalogStart ?y"
    using catalog_step.prepare [of sampleSource "catalogIdentity 1 [1, 2]" catalogStart] sample_prepare
    by (simp add: catalogStart_def)
  have s2: "catalog_step ?y sampleCommitted"
    using catalog_step.commit [of samplePrepared ?y] by (simp add: sampleCommitted_def)
  show ?thesis
    by (rule rtranclp.rtrancl_into_rtrancl [OF r_into_rtranclp [of catalog_step, OF s1] s2])
qed

lemma sample_acquire:
  "snd (AcquireExecution sampleToken (cy_port sampleCommitted)) =
     Some \<lparr>xl_Port = samplePort 2, xl_bindings = 0, xl_released = False\<rparr>"
  by code_simp

lemma sample_held: "catalog_step\<^sup>*\<^sup>* catalogStart sampleHeld"
proof -
  let ?p = "fst (AcquireExecution sampleToken (cy_port sampleCommitted))"
  let ?l = "\<lparr>xl_Port = samplePort 2, xl_bindings = 0, xl_released = False\<rparr>"
  have acq: "AcquireExecution sampleToken (cy_port sampleCommitted) = (?p, Some ?l)"
    using sample_acquire by (metis prod.collapse)
  have s1: "catalog_step sampleCommitted (sampleCommitted\<lparr>cy_port := ?p, cy_leases := cy_leases sampleCommitted @ [?l]\<rparr>)"
    by (rule catalog_step.acquire [OF acq]) (simp add: sampleCommitted_def)
  have s2: "catalog_step (sampleCommitted\<lparr>cy_port := ?p, cy_leases := cy_leases sampleCommitted @ [?l]\<rparr>) sampleHeld"
    using catalog_step.rollback [of "sampleCommitted\<lparr>cy_port := ?p, cy_leases := cy_leases sampleCommitted @ [?l]\<rparr>" 1]
    by (simp add: sampleHeld_def sampleCommitted_def del: One_nat_def)
  show ?thesis
    by (rule rtranclp.rtrancl_into_rtrancl [OF rtranclp.rtrancl_into_rtrancl [OF sample_committed s1] s2])
qed

theorem held_execution_keeps_port_witness:
  "catalog_init catalogStart \<and> catalog_step\<^sup>*\<^sup>* catalogStart sampleHeld
   \<and> bs_retiring (setAt (cy_port sampleHeld) 0) \<and> held 0 (cy_leases sampleHeld) = 1
   \<and> bs_refs (setAt (cy_port sampleHeld) 0) = int (held 0 (cy_leases sampleHeld))"
proof -
  have "bs_retiring (setAt (cy_port sampleHeld) 0)" by code_simp
  moreover have "held 0 (cy_leases sampleHeld) = 1" by code_simp
  ultimately show ?thesis
    using held_execution_keeps_port [OF sample_init sample_held] sample_init sample_held by blast
qed

theorem stale_token_refused_witness:
  "cp_current (cy_port sampleCommitted) = Some samplePrepared
   \<and> AcquireExecution (sampleToken\<lparr>et_CatalogRevision := 7\<rparr>) (cy_port sampleCommitted)
       = (cy_port sampleCommitted, None)"
proof -
  have c: "cp_current (cy_port sampleCommitted) = Some samplePrepared"
    by (simp add: sampleCommitted_def CommitPrepared_def)
  have "es_CatalogRevision (px_view samplePrepared) = 1" by code_simp
  then show ?thesis
    using stale_token_refused [OF sample_init sample_committed c, of "sampleToken\<lparr>et_CatalogRevision := 7\<rparr>"] c
    by (simp add: sampleToken_def)
qed

end
