(* ===== verification/Publish_Path.thy ===== *)
theory Publish_Path
  imports Catalog_Run Identity_Run Policy_Plan
begin

text \<open>
  From a source to a plan: a published identity fits the source it was made from, so the catalog
  accepts it, its view lists the nodes of the source with their new handles, and a plan over that
  view names handles that are bound. The facts here join the stable identities, the execution
  catalog and the policy.
\<close>

declare map_of_eq_Some_iff [simp del]

section \<open>The handles of a published identity\<close>

definition handles_ok :: "publish_state \<Rightarrow> bool" where
  "handles_ok p \<longleftrightarrow> gm_wf (ps_handles p)
     \<and> (\<forall>n h. map_of (ps_handles p) n = Some h \<longrightarrow>
          (\<exists>l. map_of (si_lineage (ps_state p)) n = Some l \<and> nl_handle l = h))"

lemma store_handles:
  "handles_ok p \<Longrightarrow> handles_ok (storeLineage n h p)
     \<and> fst ` set (ps_handles (storeLineage n h p)) = insert n (fst ` set (ps_handles p))"
  by (auto simp: handles_ok_def storeLineage_def gomap_simps dom_update)

lemma handles_frame:
  "handles_ok p \<Longrightarrow> ps_handles p' = ps_handles p \<Longrightarrow> si_lineage (ps_state p') = si_lineage (ps_state p) \<Longrightarrow> handles_ok p'"
  by (simp add: handles_ok_def)

lemma publishNode_handles:
  assumes "handles_ok p"
  shows "handles_ok (publishNode rv node p)
    \<and> fst ` set (ps_handles (publishNode rv node p)) = insert (in_NodeID node) (fst ` set (ps_handles p))"
proof -
  have "handles_ok p'" if "ps_handles p' = ps_handles p" "si_lineage (ps_state p') = si_lineage (ps_state p)" for p'
    using handles_frame [OF assms that] .
  then show ?thesis
    using store_handles assms by (auto simp: publishNode_def Let_def split: option.split)
qed

lemma fold_handles:
  "handles_ok p \<Longrightarrow> handles_ok (fold (publishNode rv) nodes p)
     \<and> fst ` set (ps_handles (fold (publishNode rv) nodes p)) = in_NodeID ` set nodes \<union> fst ` set (ps_handles p)"
proof (induction nodes arbitrary: p)
  case (Cons node nodes)
  show ?case using Cons.IH [of "publishNode rv node p"] publishNode_handles [OF Cons.prems] by simp
qed simp

lemma published_handles:
  assumes ok: "identity_ok s" and pub: "publishable snapshot s"
    and prep: "preparePublish snapshot newEpoch s = (s', identity)"
  shows "gm_wf (ri_Handles identity)" "fst ` set (ri_Handles identity) = in_NodeID ` set (is_Nodes snapshot)"
    "\<And>n h. map_of (ri_Handles identity) n = Some h \<Longrightarrow> nh_NodeID h = n \<and> 0 < nh_Slot h \<and> 0 < nh_Version h"
    "ri_Revision identity = Suc (si_nextRevision s)" "ri_SourceGeneration identity = is_SourceGeneration snapshot"
    "ri_EpochID identity = si_currentEpoch (beginPublish newEpoch s)"
proof -
  let ?start = "\<lparr>ps_state = beginPublish newEpoch s, ps_handles = [], ps_retired = [], ps_transitions = []\<rparr>"
  let ?rv = "Suc (si_nextRevision s)"
  let ?p = "fold (publishNode ?rv) (is_Nodes snapshot) ?start"
  let ?retire = "retireNode (in_NodeID ` set (is_Nodes snapshot)) ?rv"
  have rv: "inc64 (si_nextRevision s) = ?rv" using pub by (simp add: publishable_def)
  have nodes: "publishNodes snapshot newEpoch s = fold ?retire (map fst (si_lineage (ps_state ?p))) ?p"
    by (simp add: publishNodes_def Let_def rv)
  have "ps_handles (fold ?retire ns q) = ps_handles q \<and> si_currentEpoch (ps_state (fold ?retire ns q)) = si_currentEpoch (ps_state q)"
    for ns q by (induction ns arbitrary: q) simp_all
  then have keep: "ps_handles (publishNodes snapshot newEpoch s) = ps_handles ?p"
    "si_currentEpoch (ps_state (publishNodes snapshot newEpoch s)) = si_currentEpoch (ps_state ?p)"
    unfolding nodes by blast+
  have cur: "si_currentEpoch (ps_state ?p) = si_currentEpoch (ps_state ?start)"
    by (rule fold_frame [where g = "\<lambda>p. si_currentEpoch (ps_state p)"]) simp
  have id: "ri_Handles identity = ps_handles ?p" "ri_SourceGeneration identity = is_SourceGeneration snapshot"
    "ri_Revision identity = ?rv" "ri_EpochID identity = si_currentEpoch (beginPublish newEpoch s)"
    using prep keep cur rv by (auto simp: preparePublish_def Let_def)
  have h: "handles_ok ?p" "fst ` set (ps_handles ?p) = in_NodeID ` set (is_Nodes snapshot)"
    using fold_handles [of ?start ?rv "is_Nodes snapshot"] by (simp_all add: handles_ok_def)
  have lin: "lineage_ok (si_nextSlot (ps_state ?p)) ?rv (si_lineage (ps_state ?p))"
    using pub_fold(1) [OF publish_begin [OF ok pub]] by (simp add: pub_ok_def)
  show "gm_wf (ri_Handles identity)" "fst ` set (ri_Handles identity) = in_NodeID ` set (is_Nodes snapshot)"
    using h by (simp_all add: id handles_ok_def)
  show "nh_NodeID k = n \<and> 0 < nh_Slot k \<and> 0 < nh_Version k" if k: "map_of (ri_Handles identity) n = Some k" for n k
  proof -
    obtain l where "map_of (si_lineage (ps_state ?p)) n = Some l" "nl_handle l = k"
      using h(1) k unfolding id handles_ok_def by blast
    then show ?thesis using lineage_okD [OF lin] by blast
  qed
  show "ri_Revision identity = ?rv" "ri_SourceGeneration identity = is_SourceGeneration snapshot"
    "ri_EpochID identity = si_currentEpoch (beginPublish newEpoch s)" by (simp_all add: id)
qed

section \<open>Accepted by the catalog\<close>

definition executable_node :: "source_publication \<Rightarrow> runtime_identity \<Rightarrow> canonical_node \<Rightarrow> bool" where
  "executable_node source identity n \<longleftrightarrow> cn_NodeID n \<noteq> 0 \<and> bindingOf (src_Bindings source) (cn_NodeID n) \<noteq> None
     \<and> (cn_SourceKey n \<noteq> [] \<or> cn_Aliases n \<noteq> [])
     \<and> (\<exists>h. map_of (ri_Handles identity) (cn_NodeID n) = Some h \<and> nh_NodeID h = cn_NodeID n \<and> nh_Version h \<noteq> 0)"

lemma sourceNodesValid_intro:
  "\<forall>n \<in> set ns. executable_node source identity n \<Longrightarrow> distinct (map cn_NodeID ns) \<Longrightarrow>
   set seen \<inter> cn_NodeID ` set ns = {} \<Longrightarrow> sourceNodesValid source identity seen ns"
  by (induction ns arbitrary: seen) (auto simp: executable_node_def)

lemma bindPorts_total:
  "\<forall>n \<in> set ns. executable_node source identity n \<Longrightarrow> \<exists>ports'. bindPorts source identity ns ports = Some ports'"
  by (induction ns arbitrary: ports) (auto simp: executable_node_def)

lemma view_candidates:
  "es_Candidates (buildExecutionView source identity) = map (nodeCandidate identity) (src_Nodes source)"
  "es_RuntimeEpochID (buildExecutionView source identity) = ri_EpochID identity"
  "es_CatalogRevision (buildExecutionView source identity) = ri_Revision identity"
proof -
  have "es_Candidates (fold (addToView identity) ns v) = es_Candidates v @ map (nodeCandidate identity) ns
      \<and> es_RuntimeEpochID (fold (addToView identity) ns v) = es_RuntimeEpochID v
      \<and> es_CatalogRevision (fold (addToView identity) ns v) = es_CatalogRevision v" for ns v
    by (induction ns arbitrary: v) (simp_all add: addToView_def Let_def)
  then show "es_Candidates (buildExecutionView source identity) = map (nodeCandidate identity) (src_Nodes source)"
    "es_RuntimeEpochID (buildExecutionView source identity) = ri_EpochID identity"
    "es_CatalogRevision (buildExecutionView source identity) = ri_Revision identity"
    by (simp_all add: buildExecutionView_def)
qed

lemma published_accepted:
  assumes "identity_ok s" and "IdentityFromSource source = (snapshot, None)" and "publishable snapshot s"
    and "preparePublish snapshot newEpoch s = (s', identity)" and "ri_EpochID identity \<noteq> 0"
    and named: "\<forall>n \<in> set (src_Nodes source). bindingOf (src_Bindings source) (cn_NodeID n) \<noteq> None
        \<and> (cn_SourceKey n \<noteq> [] \<or> cn_Aliases n \<noteq> [])"
  shows "\<exists>port' x. PrepareCommitted source identity port = (port', Inr x) \<and> px_view x = buildExecutionView source identity"
    "\<And>n. n \<in> set (src_Nodes source) \<Longrightarrow>
       \<exists>h. map_of (ri_Handles identity) (cn_NodeID n) = Some h \<and> nh_NodeID h = cn_NodeID n \<and> nh_Slot h \<noteq> 0"
proof -
  note h = published_handles [OF assms(1,3,4)]
  have ids: "map in_NodeID (is_Nodes snapshot) = map cn_NodeID (src_Nodes source)"
    and gen: "is_SourceGeneration snapshot = src_Generation source"
    using assms(2) by (auto simp: IdentityFromSource_def Let_def)
  then have idset: "in_NodeID ` set (is_Nodes snapshot) = cn_NodeID ` set (src_Nodes source)" by (metis list.set_map)
  have valid: "src_Generation source \<noteq> 0" "distinct (map cn_NodeID (src_Nodes source))" "0 \<notin> cn_NodeID ` set (src_Nodes source)"
    using assms(3) ids idset gen
    by (auto simp: publishable_def validateIdentitySnapshot_def validateNodes_iff split: if_splits)
  have handle: "\<exists>h. map_of (ri_Handles identity) (cn_NodeID n) = Some h \<and> nh_NodeID h = cn_NodeID n
      \<and> nh_Slot h \<noteq> 0 \<and> nh_Version h \<noteq> 0" if "n \<in> set (src_Nodes source)" for n
  proof -
    have "cn_NodeID n \<in> fst ` set (ri_Handles identity)" using h(2) idset that by blast
    then have "map_of (ri_Handles identity) (cn_NodeID n) \<noteq> None" by (simp add: map_of_eq_None_iff)
    then obtain k where k: "map_of (ri_Handles identity) (cn_NodeID n) = Some k" by blast
    then show ?thesis using h(3) [OF k] by auto
  qed
  then show "\<exists>h. map_of (ri_Handles identity) (cn_NodeID n) = Some h \<and> nh_NodeID h = cn_NodeID n \<and> nh_Slot h \<noteq> 0"
    if "n \<in> set (src_Nodes source)" for n using that by blast
  have ex: "\<forall>n \<in> set (src_Nodes source). executable_node source identity n"
    using named handle valid(3) by (fastforce simp: executable_node_def)
  have "length (ri_Handles identity) = card (fst ` set (ri_Handles identity))"
    using h(1) distinct_card [of "map fst (ri_Handles identity)"] by simp
  also have "\<dots> = length (src_Nodes source)"
    unfolding h(2) idset using distinct_card [OF valid(2)] by simp
  finally have len: "length (ri_Handles identity) = length (src_Nodes source)" .
  obtain ports where ports: "bindPorts source identity (src_Nodes source) [] = Some ports"
    using bindPorts_total [OF ex] by blast
  show "\<exists>port' x. PrepareCommitted source identity port = (port', Inr x) \<and> px_view x = buildExecutionView source identity"
    using assms(5) valid(1) h(4,5) gen len sourceNodesValid_intro [OF ex valid(2), of "[]"] ports
    by (auto simp: PrepareCommitted_def newEpochBindingSet_def)
qed

lemma plan_candidates_of_view:
  assumes "Plan nn hs (Some view) service lease pinned now e = (e', Inr p)" and "0 < pl_maxAttempts e"
  shows "set (dn_Candidates p) \<subseteq> set (es_Candidates view)" "dn_RuntimeEpochID p = es_RuntimeEpochID view"
    "dn_CatalogRevision p = es_CatalogRevision view"
proof -
  have "hd (supportedCandidates nn view service) \<in> set (es_Candidates view)" if "supportedCandidates nn view service \<noteq> []"
    using hd_in_set [OF that] by (simp add: supportedCandidates_def)
  then show "set (dn_Candidates p) \<subseteq> set (es_Candidates view)" "dn_RuntimeEpochID p = es_RuntimeEpochID view"
    "dn_CatalogRevision p = es_CatalogRevision view"
    using Plan_admissible [OF assms]
    by (auto simp: admissible_def eligibleCandidates_def supportedCandidates_def makePlan_def)
qed

end
