(* ===== verification/Attempt_Runner.thy ===== *)
theory Attempt_Runner
  imports Policy
begin

text \<open>
  Dialing a plan (\<^verbatim>\<open>protocol/group/adaptive/retry.go\<close>): one goroutine per started candidate
  and the loop that starts them, collects their results from a buffered channel and returns the
  first connection. The state holds the loop's variables, the stage of every goroutine and what
  they share. A step is one action between two points where another goroutine may run: the
  attempt to get a permit, the call of \<open>begin\<close>, the resolution of the execution, the return of
  the dial, the two tests of the context, the call of \<open>complete\<close> (or of \<open>ReleaseDeferred\<close>), the
  sending of the result and the deferred release of the execution. The release comes after the
  sending, except after a panic, where the deferred calls run before the recovery reports. The
  outbound, the callbacks, the health store at the moment of a permit and the binding of a candidate
  are the environment: a rule covers every answer they may give, and each of them answers. \<open>begin\<close> returns a completion function or none; without
  one the permit is released instead. A dialer that returns a connection together with an error, and a
  panic outside the call of the dialer, are outside the model.
\<close>

section \<open>Data\<close>

datatype dial_error =
  ErrAttemptDeferred | ErrBinding | ErrNilConnection | ErrContext | ErrPanic | ErrBegin string | ErrDial string

record attempt_result =
  ar_Err :: "dial_error option"
  ar_Deferred :: bool
  ar_Panic :: bool

record dial_result =
  rs_index :: nat
  rs_conn :: bool
  rs_err :: "dial_error option"
  rs_deferred :: bool

datatype settlement = SettledReleased | SettledCompleted attempt_result

datatype stage =
  Starting
| Permitted
| Begun bool  \<comment> \<open>with a completion function of the caller\<close>
| Dialing bool
| Dialed bool "dial_error option"
| Checked bool "dial_error option"  \<comment> \<open>past the first test of the context\<close>
| Completing bool bool attempt_result "dial_result option"
    \<comment> \<open>about to call \<open>complete\<close>; whether the execution is held, and the result to send after it\<close>
| Sending bool dial_result  \<comment> \<open>about to send; whether the execution is held\<close>
| Releasing  \<comment> \<open>only the deferred release of the execution is left\<close>
| Finished

datatype dial_outcome = DialConnected nat | DialFailed "dial_error list"

record dial_state =
  dr_plan :: decision_plan
  dr_stages :: "stage list"  \<comment> \<open>of the started candidates, in the order of the plan\<close>
  dr_active :: nat
  dr_timer :: bool  \<comment> \<open>the hedge timer may fire\<close>
  dr_results :: "dial_result list"  \<comment> \<open>the channel\<close>
  dr_received :: "nat list"
  dr_errors :: "dial_error list"
  dr_ctxDone :: bool
  dr_cancelled :: bool  \<comment> \<open>\<open>cancelAll\<close> was called\<close>
  dr_outcome :: "dial_outcome option"
  dr_permits :: "nat list"  \<comment> \<open>goroutines that were granted a permit\<close>
  dr_settled :: "(nat \<times> settlement) list"
  dr_held :: "nat list"  \<comment> \<open>goroutines that hold an execution\<close>
  dr_open :: "nat list"  \<comment> \<open>connections that were opened and not closed\<close>

definition hedges :: "decision_plan \<Rightarrow> bool" where
  "hedges p \<longleftrightarrow> \<not> dn_disableHedge p \<and> \<not> dn_allowBlocked p \<and> dn_Mode p \<noteq> ModeBulk
     \<and> dn_Mode p \<noteq> ModeStrictAffinity \<and> 1 < length (dn_Candidates p)"

definition dialStart :: "decision_plan \<Rightarrow> dial_state option" where
  "dialStart p =
     (if dn_Candidates p = [] then None
      else Some \<lparr>dr_plan = p, dr_stages = [Starting], dr_active = 1, dr_timer = hedges p,
        dr_results = [], dr_received = [], dr_errors = [], dr_ctxDone = False, dr_cancelled = False,
        dr_outcome = None, dr_permits = [], dr_settled = [], dr_held = [], dr_open = []\<rparr>)"

abbreviation dr_total :: "dial_state \<Rightarrow> nat" where
  "dr_total s \<equiv> length (dn_Candidates (dr_plan s))"

abbreviation dr_started :: "dial_state \<Rightarrow> nat" where
  "dr_started s \<equiv> length (dr_stages s)"

definition contextDone :: "dial_state \<Rightarrow> bool" where
  \<comment> \<open>\<open>parentCtx.Err() != nil\<close>\<close>
  "contextDone s \<longleftrightarrow> dr_ctxDone s \<or> dr_cancelled s"

definition resolve ::
  "decision_plan \<Rightarrow> candidate \<Rightarrow> catalog_port option \<Rightarrow> catalog_port option \<times> execution_lease option" where
  \<comment> \<open>without a bridge nothing is resolved\<close>
  "resolve plan c bridge =
     (case bridge of
        None \<Rightarrow> (None, None)
      | Some p \<Rightarrow> map_prod Some id (AcquireExecution
          \<lparr>et_RuntimeEpochID = dn_RuntimeEpochID plan, et_CatalogRevision = dn_CatalogRevision plan,
           et_Handle = cd_Handle c\<rparr> p))"

section \<open>Goroutines\<close>

definition setStage :: "nat \<Rightarrow> stage \<Rightarrow> dial_state \<Rightarrow> dial_state" where
  "setStage i st s = s\<lparr>dr_stages := (dr_stages s)[i := st]\<rparr>"

definition settle :: "bool \<Rightarrow> nat \<Rightarrow> attempt_result \<Rightarrow> dial_state \<Rightarrow> dial_state" where
  "settle custom i r s =
     s\<lparr>dr_settled := dr_settled s @ [(i, if custom then SettledCompleted r else SettledReleased)]\<rparr>"

definition sendResult :: "dial_result \<Rightarrow> dial_state \<Rightarrow> dial_state" where
  "sendResult r s = s\<lparr>dr_results := dr_results s @ [r]\<rparr>"

definition releaseExecution :: "nat \<Rightarrow> dial_state \<Rightarrow> dial_state" where
  "releaseExecution i s = s\<lparr>dr_held := remove1 i (dr_held s)\<rparr>"

definition errResult :: "nat \<Rightarrow> dial_error \<Rightarrow> bool \<Rightarrow> dial_result" where
  "errResult i err deferred = \<lparr>rs_index = i, rs_conn = False, rs_err = Some err, rs_deferred = deferred\<rparr>"

definition attemptErr :: "dial_error \<Rightarrow> bool \<Rightarrow> bool \<Rightarrow> attempt_result" where
  "attemptErr err deferred panic = \<lparr>ar_Err = Some err, ar_Deferred = deferred, ar_Panic = panic\<rparr>"

definition afterSend :: "bool \<Rightarrow> stage" where
  \<comment> \<open>the deferred \<open>Release\<close> of an execution that is held\<close>
  "afterSend held = (if held then Releasing else Finished)"

definition afterComplete :: "bool \<Rightarrow> dial_result option \<Rightarrow> stage" where
  "afterComplete held out = (case out of Some d \<Rightarrow> Sending held d | None \<Rightarrow> afterSend held)"

inductive attempt_step :: "nat \<Rightarrow> dial_state \<Rightarrow> dial_state \<Rightarrow> bool" for i where
  permit_refused: "dr_stages s ! i = Starting \<Longrightarrow>
    planPermit (dr_plan s) (cd_ID (dn_Candidates (dr_plan s) ! i)) 0 hs = (hs', None) \<Longrightarrow>
    attempt_step i s (setStage i (Sending False (errResult i ErrAttemptDeferred True)) s)"
| permit_granted: "dr_stages s ! i = Starting \<Longrightarrow>
    planPermit (dr_plan s) (cd_ID (dn_Candidates (dr_plan s) ! i)) 0 hs = (hs', Some permit) \<Longrightarrow>
    attempt_step i s ((setStage i Permitted s)\<lparr>dr_permits := i # dr_permits s\<rparr>)"
| begin_failed: "dr_stages s ! i = Permitted \<Longrightarrow>
    attempt_step i s (setStage i (Completing False False (attemptErr (ErrBegin msg) True False)
      (Some (errResult i (ErrBegin msg) True))) s)"
| begun: "dr_stages s ! i = Permitted \<Longrightarrow> attempt_step i s (setStage i (Begun custom) s)"
| unresolved: "dr_stages s ! i = Begun custom \<Longrightarrow>
    attempt_step i s (setStage i (Completing custom False (attemptErr ErrBinding False False)
      (Some (errResult i ErrBinding False))) s)"
| resolved: "dr_stages s ! i = Begun custom \<Longrightarrow>
    attempt_step i s ((setStage i (Dialing custom) s)\<lparr>dr_held := i # dr_held s\<rparr>)"
| panicked: "dr_stages s ! i = Dialing custom \<Longrightarrow>
    attempt_step i s (releaseExecution i (setStage i (Completing custom False (attemptErr ErrPanic False True)
      (Some (errResult i ErrPanic False))) s))"
| connected: "dr_stages s ! i = Dialing custom \<Longrightarrow>
    attempt_step i s ((setStage i (Dialed custom None) s)\<lparr>dr_open := i # dr_open s\<rparr>)"
| dial_failed: "dr_stages s ! i = Dialing custom \<Longrightarrow>
    attempt_step i s (setStage i (Dialed custom (Some err)) s)"
| abandoned: "dr_stages s ! i = Dialed custom None \<Longrightarrow> contextDone s \<Longrightarrow>
    attempt_step i s ((setStage i (Completing custom True (attemptErr ErrContext True False) None) s)
      \<lparr>dr_open := remove1 i (dr_open s)\<rparr>)"
| checked: "dr_stages s ! i = Dialed custom err \<Longrightarrow> err \<noteq> None \<or> \<not> contextDone s \<Longrightarrow>
    attempt_step i s (setStage i (Checked custom err) s)"
| interrupted: "dr_stages s ! i = Checked custom err \<Longrightarrow> contextDone s \<Longrightarrow>
    attempt_step i s (setStage i (Completing custom True (attemptErr ErrContext True False)
      (Some (errResult i ErrContext True))) s)"
| judged: "dr_stages s ! i = Checked custom err \<Longrightarrow> \<not> contextDone s \<Longrightarrow>
    attempt_step i s (setStage i (Completing custom True \<lparr>ar_Err = err, ar_Deferred = False, ar_Panic = False\<rparr>
      (Some \<lparr>rs_index = i, rs_conn = (err = None), rs_err = err, rs_deferred = False\<rparr>)) s)"
| completed: "dr_stages s ! i = Completing custom held r out \<Longrightarrow>
    attempt_step i s (settle custom i r (setStage i (afterComplete held out) s))"
| reported: "dr_stages s ! i = Sending held d \<Longrightarrow>
    attempt_step i s (sendResult d (setStage i (afterSend held) s))"
| released: "dr_stages s ! i = Releasing \<Longrightarrow>
    attempt_step i s (releaseExecution i (setStage i Finished s))"

section \<open>The loop\<close>

definition startNext :: "dial_state \<Rightarrow> dial_state" where
  "startNext s =
     (if dr_started s < dr_total s
      then s\<lparr>dr_stages := dr_stages s @ [Starting], dr_active := dr_active s + 1\<rparr> else s)"

definition receiveResult :: "dial_result \<Rightarrow> dial_result list \<Rightarrow> dial_state \<Rightarrow> dial_state" where
  "receiveResult r rest s =
     (let s1 = s\<lparr>dr_results := rest, dr_received := rs_index r # dr_received s, dr_active := dr_active s - 1\<rparr> in
      if rs_deferred r then startNext (s1\<lparr>dr_errors := dr_errors s @ [ErrAttemptDeferred]\<rparr>)
      else case rs_err r of
          Some err \<Rightarrow> startNext (s1\<lparr>dr_errors := dr_errors s @ [err]\<rparr>)
        | None \<Rightarrow> s1\<lparr>dr_cancelled := True, dr_outcome := Some (DialConnected (rs_index r))\<rparr>)"

definition failDial :: "dial_error list \<Rightarrow> dial_state \<Rightarrow> dial_state" where
  \<comment> \<open>the deferred \<open>cancelAll\<close> runs on the way out\<close>
  "failDial errs s = s\<lparr>dr_cancelled := True, dr_outcome := Some (DialFailed errs)\<rparr>"

inductive dial_work :: "dial_state \<Rightarrow> dial_state \<Rightarrow> bool" where
  \<comment> \<open>what the goroutines and the loop do\<close>
  attempt: "i < dr_started s \<Longrightarrow> attempt_step i s s' \<Longrightarrow> dial_work s s'"
| give_up: "dr_outcome s = None \<Longrightarrow> 0 < dr_active s \<Longrightarrow> dr_ctxDone s \<Longrightarrow>
    dial_work s (failDial (dr_errors s @ [ErrContext]) s)"
| hedge: "dr_outcome s = None \<Longrightarrow> 0 < dr_active s \<Longrightarrow> dr_timer s \<Longrightarrow>
    dial_work s ((startNext s)\<lparr>dr_timer := dr_started (startNext s) < dr_total s\<rparr>)"
| receive: "dr_outcome s = None \<Longrightarrow> 0 < dr_active s \<Longrightarrow> dr_results s = r # rest \<Longrightarrow>
    dial_work s (receiveResult r rest s)"
| exhausted: "dr_outcome s = None \<Longrightarrow> dr_active s = 0 \<Longrightarrow> dial_work s (failDial (dr_errors s) s)"

inductive dial_step :: "dial_state \<Rightarrow> dial_state \<Rightarrow> bool" where
  \<comment> \<open>the dial with its caller, who may end the context at any time\<close>
  work: "dial_work s s' \<Longrightarrow> dial_step s s'"
| caller_done: "\<not> dr_ctxDone s \<Longrightarrow> dial_step s (s\<lparr>dr_ctxDone := True\<rparr>)"

definition dial_init :: "dial_state \<Rightarrow> bool" where
  "dial_init s \<longleftrightarrow> (\<exists>p. dialStart p = Some s)"

inductive_cases attempt_stepE: "attempt_step i s s'"

end
