(* ===== verification/Dial_Run.thy ===== *)
theory Dial_Run
  imports Attempt_Runner "HOL-Library.Multiset"
begin

text \<open>
  Runs of a dial: the invariant of the loop and its goroutines, the bound on the number of steps,
  and what holds when nothing can move any more.
\<close>

section \<open>What an attempt changes\<close>

fun weight :: "stage \<Rightarrow> nat" where
  "weight Starting = 18"
| "weight Permitted = 16"
| "weight (Begun _) = 14"
| "weight (Dialing _) = 12"
| "weight (Dialed _ _) = 10"
| "weight (Checked _ _) = 8"
| "weight (Completing _ _ _ _) = 6"
| "weight (Sending _ _) = 4"
| "weight Releasing = 2"
| "weight Finished = 0"

fun executing :: "stage \<Rightarrow> bool" where
  "executing (Dialing _) = True"
| "executing (Dialed _ _) = True"
| "executing (Checked _ _) = True"
| "executing (Completing _ held _ _) = held"
| "executing (Sending held _) = held"
| "executing Releasing = True"
| "executing _ = False"

fun reports :: "stage \<Rightarrow> bool" where
  \<comment> \<open>the goroutine has still to send its result\<close>
  "reports (Completing _ _ _ out) = (out \<noteq> None)"
| "reports Releasing = False"
| "reports Finished = False"
| "reports _ = True"

fun inFlight :: "stage \<Rightarrow> bool" where
  \<comment> \<open>between the start of the goroutine and its report (or its return without one)\<close>
  "inFlight Releasing = False"
| "inFlight Finished = False"
| "inFlight _ = True"

fun completing :: "stage \<Rightarrow> bool" where
  \<comment> \<open>before or at the call that settles the permit\<close>
  "completing (Sending _ _) = False"
| "completing Releasing = False"
| "completing Finished = False"
| "completing _ = True"

fun carries :: "nat \<Rightarrow> stage \<Rightarrow> bool" where
  \<comment> \<open>a result in hand is the goroutine's own\<close>
  "carries i (Completing _ _ _ (Some d)) = (rs_index d = i)"
| "carries i (Sending _ d) = (rs_index d = i)"
| "carries i _ = True"

lemma weight_zero [simp]: "weight st = 0 \<longleftrightarrow> st = Finished"
  by (cases st) auto

lemmas attempt_defs = setStage_def settle_def sendResult_def releaseExecution_def errResult_def
  afterComplete_def afterSend_def

definition same_loop :: "dial_state \<Rightarrow> dial_state \<Rightarrow> bool" where
  \<comment> \<open>an attempt does not touch the variables of the loop\<close>
  "same_loop s s' \<longleftrightarrow> dr_plan s' = dr_plan s \<and> dr_active s' = dr_active s \<and> dr_timer s' = dr_timer s
     \<and> dr_received s' = dr_received s \<and> dr_errors s' = dr_errors s \<and> dr_ctxDone s' = dr_ctxDone s
     \<and> dr_cancelled s' = dr_cancelled s \<and> dr_outcome s' = dr_outcome s"

definition stage_move :: "nat \<Rightarrow> stage \<Rightarrow> stage \<Rightarrow> bool" where
  \<comment> \<open>the stages of two successive states of goroutine \<open>i\<close>\<close>
  "stage_move i st st' \<longleftrightarrow> weight st' + 2 \<le> weight st \<and> st' \<noteq> Starting \<and> (carries i st \<longrightarrow> carries i st')
     \<and> (st' = Permitted \<longrightarrow> st = Starting)
     \<and> (st = Starting \<longrightarrow> st' = Permitted \<or> (\<exists>d. st' = Sending False d))
     \<and> (completing st' \<longrightarrow> completing st) \<and> (reports st' \<longrightarrow> reports st) \<and> (inFlight st' \<longrightarrow> inFlight st)"

lemma stage_order: "completing st \<Longrightarrow> inFlight st" "reports st \<Longrightarrow> inFlight st"
  by (cases st; simp)+

definition effect :: "nat \<Rightarrow> stage \<Rightarrow> stage \<Rightarrow> dial_state \<Rightarrow> dial_state \<Rightarrow> bool" where
  "effect i st st' s s' \<longleftrightarrow>
     dr_stages s ! i = st \<and> dr_stages s' = (dr_stages s)[i := st'] \<and> stage_move i st st'
     \<and> dr_permits s' = (if st' = Permitted then i # dr_permits s else dr_permits s)
     \<and> mset (map fst (dr_settled s')) = mset (map fst (dr_settled s)) +
         (if completing st \<and> \<not> completing st' \<and> st \<noteq> Starting then {#i#} else {#})
     \<and> (dr_results s' = dr_results s \<and> (reports st \<and> \<not> reports st' \<longrightarrow> contextDone s)
        \<or> reports st \<and> \<not> inFlight st' \<and> (carries i st \<longrightarrow> (\<exists>r. dr_results s' = dr_results s @ [r] \<and> rs_index r = i))
          \<and> length (dr_results s') = Suc (length (dr_results s)))
     \<and> (executing st' \<and> \<not> executing st \<and> dr_held s' = i # dr_held s
        \<or> executing st \<and> \<not> executing st' \<and> dr_held s' = remove1 i (dr_held s)
        \<or> executing st = executing st' \<and> dr_held s' = dr_held s)"

lemma attempt_effect:
  assumes "attempt_step i s s'"
  shows "\<exists>st st'. same_loop s s' \<and> effect i st st' s s'"
  using assms
proof (cases rule: attempt_step.cases)
  case (completed custom held r out)
  then show ?thesis
    by (intro exI [of _ "Completing custom held r out"] exI [of _ "afterComplete held out"])
      (auto simp: same_loop_def effect_def stage_move_def attempt_defs split: option.split)
next
  case (reported held d)
  then show ?thesis
    by (intro exI [of _ "Sending held d"] exI [of _ "afterSend held"])
      (auto simp: same_loop_def effect_def stage_move_def attempt_defs)
qed (force simp: same_loop_def effect_def stage_move_def attempt_defs)+

section \<open>Invariant\<close>

definition unreported :: "dial_state \<Rightarrow> nat" where
  "unreported s = length (filter reports (dr_stages s))"

definition flying :: "dial_state \<Rightarrow> nat" where
  "flying s = length (filter inFlight (dr_stages s))"

definition permits_ok :: "dial_state \<Rightarrow> bool" where
  "permits_ok s \<longleftrightarrow> set (dr_permits s) \<subseteq> {..<dr_started s}
     \<and> (\<forall>i < dr_started s. (dr_stages s ! i = Starting \<longrightarrow> i \<notin> set (dr_permits s))
        \<and> (dr_stages s ! i \<noteq> Starting \<and> completing (dr_stages s ! i) \<longrightarrow> i \<in> set (dr_permits s)))"

definition settled_ok :: "dial_state \<Rightarrow> bool" where
  "settled_ok s \<longleftrightarrow> (\<forall>i. count (mset (map fst (dr_settled s))) i =
     (if i < dr_started s \<and> \<not> completing (dr_stages s ! i) \<and> i \<in> set (dr_permits s) then 1 else 0))"

definition sent :: "dial_state \<Rightarrow> nat list" where
  "sent s = map rs_index (dr_results s) @ dr_received s"

definition sent_ok :: "dial_state \<Rightarrow> bool" where
  "sent_ok s \<longleftrightarrow> distinct (sent s) \<and> (\<forall>i \<in> set (sent s). i < dr_started s \<and> \<not> inFlight (dr_stages s ! i))
     \<and> (\<forall>i < dr_started s. carries i (dr_stages s ! i))"

definition loop_ok :: "dial_state \<Rightarrow> bool" where
  "loop_ok s \<longleftrightarrow> 0 < dr_started s \<and> dr_started s \<le> dr_total s
     \<and> (dr_outcome s = None \<longrightarrow> \<not> dr_cancelled s \<and> length (dr_received s) + dr_active s = dr_started s
        \<and> unreported s + length (dr_results s) \<le> dr_active s
        \<and> (\<not> dr_ctxDone s \<longrightarrow> unreported s + length (dr_results s) = dr_active s))"

definition sequential_ok :: "dial_state \<Rightarrow> bool" where
  "sequential_ok s \<longleftrightarrow> (\<not> hedges (dr_plan s) \<longrightarrow>
     \<not> dr_timer s \<and> flying s \<le> 1 \<and> (dr_outcome s = None \<longrightarrow> dr_active s \<le> 1))"

definition held_ok :: "dial_state \<Rightarrow> bool" where
  "held_ok s \<longleftrightarrow> (\<forall>i. count (mset (dr_held s)) i =
     (if i < dr_started s \<and> executing (dr_stages s ! i) then 1 else 0))"

definition dial_ok :: "dial_state \<Rightarrow> bool" where
  "dial_ok s \<longleftrightarrow> permits_ok s \<and> settled_ok s \<and> sent_ok s \<and> loop_ok s \<and> sequential_ok s \<and> held_ok s"

lemma unreported_effect:
  assumes "effect i st st' s s'" and "i < dr_started s"
  shows "unreported s' + (if reports st \<and> \<not> reports st' then 1 else 0) = unreported s"
  using length_filter_update [OF assms(2), of reports st'] assms(1)
  by (auto simp: unreported_def effect_def stage_move_def split: if_splits)

lemma flying_effect: "effect i st st' s s' \<Longrightarrow> i < dr_started s \<Longrightarrow> flying s' \<le> flying s"
  using length_filter_update [of i "dr_stages s" inFlight st']
  by (auto simp: flying_def effect_def stage_move_def split: if_splits)

lemma permits_effect:
  assumes "effect i st st' s s'" and "i < dr_started s" and "permits_ok s"
  shows "permits_ok s'"
proof -
  have "dr_stages s ! i = st" "dr_stages s' = (dr_stages s)[i := st']" "st' \<noteq> Starting"
    "st' = Permitted \<longrightarrow> st = Starting" "st = Starting \<longrightarrow> st' = Permitted \<or> (\<exists>d. st' = Sending False d)"
    "completing st' \<longrightarrow> completing st" "dr_permits s' = (if st' = Permitted then i # dr_permits s else dr_permits s)"
    using assms(1) by (simp_all add: effect_def stage_move_def)
  then show ?thesis using assms(2,3)
    by (cases "st = Starting") (auto simp: permits_ok_def nth_list_update)
qed

lemma settled_effect:
  assumes eff: "effect i st st' s s'" and i: "i < dr_started s" and ok: "settled_ok s" "permits_ok s"
  shows "settled_ok s'"
  unfolding settled_ok_def
proof
  fix j
  have ms: "mset (map fst (dr_settled s')) = mset (map fst (dr_settled s)) +
      (if completing st \<and> \<not> completing st' \<and> st \<noteq> Starting then {#i#} else {#})" and st: "dr_stages s ! i = st"
    and stages: "dr_stages s' = (dr_stages s)[i := st']"
    and mono: "completing st' \<longrightarrow> completing st" "st' = Permitted \<longrightarrow> st = Starting"
    and perm: "dr_permits s' = (if st' = Permitted then i # dr_permits s else dr_permits s)"
    using eff by (auto simp: effect_def stage_move_def)
  have old: "count (mset (map fst (dr_settled s))) j =
      (if j < dr_started s \<and> \<not> completing (dr_stages s ! j) \<and> j \<in> set (dr_permits s) then 1 else 0)"
    using ok(1) by (simp add: settled_ok_def)
  have inp: "completing st \<Longrightarrow> i \<in> set (dr_permits s) \<longleftrightarrow> st \<noteq> Starting"
    using ok(2) i st by (auto simp: permits_ok_def)
  show "count (mset (map fst (dr_settled s'))) j =
      (if j < dr_started s' \<and> \<not> completing (dr_stages s' ! j) \<and> j \<in> set (dr_permits s') then 1 else 0)"
    unfolding ms using old inp i st mono perm stages by (auto simp: nth_list_update)
qed

lemma sent_effect:
  assumes "same_loop s s'" and "effect i st st' s s'" and "i < dr_started s" and "sent_ok s"
  shows "sent_ok s'"
proof -
  have st: "dr_stages s ! i = st" and stages: "dr_stages s' = (dr_stages s)[i := st']" and "stage_move i st st'"
    and c: "carries i st"
    using assms(2,3,4) by (auto simp: effect_def sent_ok_def)
  then have mono: "inFlight st' \<longrightarrow> inFlight st" and c': "carries i st'" by (simp_all add: stage_move_def)
  have res: "dr_results s' = dr_results s \<or> reports st \<and> \<not> inFlight st' \<and> (\<exists>r. dr_results s' = dr_results s @ [r] \<and> rs_index r = i)"
    using assms(2) c by (auto simp: effect_def)
  have keep: "j < dr_started s' \<and> \<not> inFlight (dr_stages s' ! j)" if "j \<in> set (sent s)" for j
    using assms(4) that mono st by (cases "j = i") (auto simp: sent_ok_def stages)
  have "carries j (dr_stages s' ! j)" if "j < dr_started s'" for j
    using assms(4) c' that by (cases "j = i") (simp_all add: sent_ok_def stages)
  then have carry: "\<forall>j < dr_started s'. carries j (dr_stages s' ! j)" by blast
  have rec: "dr_received s' = dr_received s" using assms(1) by (simp add: same_loop_def)
  from res show ?thesis
  proof
    assume "dr_results s' = dr_results s"
    then have "sent s' = sent s" by (simp add: sent_def rec)
    then show ?thesis using keep carry assms(4) by (simp add: sent_ok_def)
  next
    assume "reports st \<and> \<not> inFlight st' \<and> (\<exists>r. dr_results s' = dr_results s @ [r] \<and> rs_index r = i)"
    then obtain r where f: "reports st" "\<not> inFlight st'" and r: "dr_results s' = dr_results s @ [r]" "rs_index r = i" by blast
    have new: "i \<notin> set (sent s)" using assms(4) stage_order(2) [OF f(1)] st by (auto simp: sent_ok_def)
    have ms: "mset (sent s') = mset (i # sent s)" by (simp add: sent_def rec r)
    have s': "set (sent s') = insert i (set (sent s))" "distinct (sent s') \<longleftrightarrow> distinct (i # sent s)"
      using mset_eq_setD [OF ms] mset_eq_imp_distinct_iff [OF ms] by simp_all
    have "i < dr_started s' \<and> \<not> inFlight (dr_stages s' ! i)" using f assms(3) by (simp add: stages)
    then show ?thesis using keep new s' carry assms(4) by (simp add: sent_ok_def)
  qed
qed

lemma loop_effect:
  assumes "same_loop s s'" and "effect i st st' s s'" and "i < dr_started s" and "loop_ok s"
  shows "loop_ok s'"
proof -
  have len: "dr_started s' = dr_started s" using assms(2) by (simp add: effect_def)
  have un: "unreported s' + (if reports st \<and> \<not> reports st' then 1 else 0) = unreported s"
    by (rule unreported_effect [OF assms(2,3)])
  have res: "dr_results s' = dr_results s \<and> (reports st \<and> \<not> reports st' \<longrightarrow> contextDone s)
      \<or> reports st \<and> \<not> reports st' \<and> length (dr_results s') = Suc (length (dr_results s))"
    using assms(2) stage_order(2) by (auto simp: effect_def)
  show ?thesis
    using assms(1,4) len un res by (auto simp: loop_ok_def same_loop_def contextDone_def split: if_splits)
qed

lemma sequential_effect:
  assumes "same_loop s s'" and "effect i st st' s s'" and "i < dr_started s" and "sequential_ok s"
  shows "sequential_ok s'"
  using assms(1,4) flying_effect [OF assms(2,3)]
  by (auto simp: sequential_ok_def same_loop_def)

lemma held_effect:
  assumes "effect i st st' s s'" and "i < dr_started s" and "held_ok s"
  shows "held_ok s'"
  unfolding held_ok_def
proof
  fix j
  have old: "count (mset (dr_held s)) j = (if j < dr_started s \<and> executing (dr_stages s ! j) then 1 else 0)"
    using assms(3) by (simp add: held_ok_def)
  show "count (mset (dr_held s')) j = (if j < dr_started s' \<and> executing (dr_stages s' ! j) then 1 else 0)"
    using old assms(1,2) unfolding effect_def by (elim conjE disjE) (auto simp: nth_list_update)
qed

lemma attempt_ok:
  assumes "attempt_step i s s'" and "i < dr_started s" and "dial_ok s"
  shows "dial_ok s'"
proof -
  obtain st st' where sl: "same_loop s s'" and eff: "effect i st st' s s'"
    using attempt_effect [OF assms(1)] by blast
  show ?thesis
    using assms(2,3) permits_effect [OF eff] settled_effect [OF eff] sent_effect [OF sl eff]
      loop_effect [OF sl eff] sequential_effect [OF sl eff] held_effect [OF eff]
    by (simp add: dial_ok_def)
qed

section \<open>Steps of the loop\<close>

lemma startNext_props:
  "dr_plan (startNext s) = dr_plan s" "dr_results (startNext s) = dr_results s"
  "dr_received (startNext s) = dr_received s" "dr_outcome (startNext s) = dr_outcome s"
  "dr_ctxDone (startNext s) = dr_ctxDone s" "dr_cancelled (startNext s) = dr_cancelled s"
  "dr_timer (startNext s) = dr_timer s" "dr_permits (startNext s) = dr_permits s"
  "dr_settled (startNext s) = dr_settled s" "dr_held (startNext s) = dr_held s"
  "unreported (startNext s) + dr_active s = unreported s + dr_active (startNext s)"
  "flying (startNext s) + dr_active s = flying s + dr_active (startNext s)"
  "dr_active (startNext s) = dr_active s + (dr_started (startNext s) - dr_started s)"
  "dr_started s \<le> dr_started (startNext s)"
  by (auto simp: startNext_def unreported_def flying_def)

lemma startNext_nth:
  "j < dr_started (startNext s) \<Longrightarrow>
   dr_stages (startNext s) ! j = (if j < dr_started s then dr_stages s ! j else Starting)"
  by (auto simp: startNext_def nth_append less_Suc_eq split: if_splits)

lemma startNext_ok:
  assumes "permits_ok s" and "settled_ok s" and "sent_ok s" and "held_ok s"
  shows "permits_ok (startNext s) \<and> settled_ok (startNext s) \<and> sent_ok (startNext s) \<and> held_ok (startNext s)"
proof -
  note n = startNext_nth [of _ s] and p = startNext_props [of s]
  have le: "dr_started s \<le> dr_started (startNext s)" by (rule p)
  have "permits_ok (startNext s)"
    using assms(1) le unfolding permits_ok_def p by (auto simp: n)
  moreover have "settled_ok (startNext s)"
    using assms(1,2) le unfolding settled_ok_def p by (auto simp: n permits_ok_def)
  moreover have "sent_ok (startNext s)"
    using assms(3) le unfolding sent_ok_def sent_def p by (fastforce simp: n)
  moreover have "held_ok (startNext s)"
    using assms(4) le unfolding held_ok_def p by (auto simp: n)
  ultimately show ?thesis by simp
qed

lemma startNext_total: "dr_started s \<le> dr_total s \<Longrightarrow> dr_started (startNext s) \<le> dr_total s"
  by (simp add: startNext_def)

lemmas ok_defs = dial_ok_def permits_ok_def settled_ok_def sent_ok_def sent_def held_ok_def loop_ok_def
  sequential_ok_def unreported_def flying_def

lemma all_sent:
  assumes "sent_ok s" and "dr_started s \<le> length (sent s)"
  shows "flying s = 0"
proof -
  have sub: "set (sent s) \<subseteq> {..<dr_started s}" using assms(1) by (auto simp: sent_ok_def)
  have "card (set (sent s)) = length (sent s)" using assms(1) by (simp add: sent_ok_def distinct_card)
  then have "set (sent s) = {..<dr_started s}" using card_subset_eq [OF _ sub] card_mono [OF _ sub] assms(2) by simp
  then have "\<forall>i < dr_started s. \<not> inFlight (dr_stages s ! i)" using assms(1) by (auto simp: sent_ok_def)
  then show ?thesis by (auto simp: flying_def filter_empty_conv in_set_conv_nth)
qed

lemma receive_ok:
  assumes ok: "dial_ok s" and none: "dr_outcome s = None" "0 < dr_active s" and r: "dr_results s = r # rest"
  shows "dial_ok (receiveResult r rest s)"
proof -
  define s1 where "s1 = s\<lparr>dr_results := rest, dr_received := rs_index r # dr_received s, dr_active := dr_active s - 1\<rparr>"
  have parts: "permits_ok s1" "settled_ok s1" "held_ok s1"
    using ok by (simp_all add: s1_def dial_ok_def permits_ok_def settled_ok_def held_ok_def)
  have "set (sent s1) = set (sent s)" "distinct (sent s1) \<longleftrightarrow> distinct (sent s)"
    by (auto simp: s1_def sent_def r)
  then have sent1: "sent_ok s1" using ok by (simp add: dial_ok_def sent_ok_def s1_def)
  have loop: "loop_ok s" and seq: "sequential_ok s" using ok by (simp_all add: dial_ok_def)
  have loop1: "loop_ok s1"
    using loop none r by (auto simp: loop_ok_def s1_def unreported_def)
  have seq1: "\<not> hedges (dr_plan s) \<longrightarrow> \<not> dr_timer s \<and> flying s1 = 0 \<and> dr_active s1 = 0"
  proof
    assume "\<not> hedges (dr_plan s)"
    then have s: "\<not> dr_timer s" "dr_active s = 1" using seq none by (auto simp: sequential_ok_def)
    have "dr_started s1 \<le> length (sent s1)" using loop none s(2) by (simp add: s1_def sent_def loop_ok_def)
    from all_sent [OF sent1 this] s show "\<not> dr_timer s \<and> flying s1 = 0 \<and> dr_active s1 = 0" by (simp add: s1_def)
  qed
  have next_ok: "dial_ok (startNext (s1\<lparr>dr_errors := es\<rparr>))" for es
  proof -
    let ?s2 = "s1\<lparr>dr_errors := es\<rparr>"
    have 2: "permits_ok ?s2" "settled_ok ?s2" "sent_ok ?s2" "held_ok ?s2" "loop_ok ?s2"
      using parts sent1 loop1
      by (simp_all add: permits_ok_def settled_ok_def sent_ok_def sent_def held_ok_def loop_ok_def unreported_def)
    have fields: "dr_outcome ?s2 = None" "dr_timer ?s2 = dr_timer s" "flying ?s2 = flying s1"
      "dr_active ?s2 = dr_active s1" "dr_plan ?s2 = dr_plan s" "dr_plan s1 = dr_plan s"
      using none(1) by (simp_all add: s1_def flying_def)
    have "loop_ok (startNext ?s2)"
      using 2(5) startNext_props [of ?s2] startNext_total [of ?s2] unfolding loop_ok_def by auto
    moreover have "sequential_ok (startNext ?s2)"
    proof -
      have "dr_started (startNext ?s2) - dr_started ?s2 \<le> 1" by (simp add: startNext_def)
      then show ?thesis
        using seq1 fields startNext_props [of ?s2] unfolding sequential_ok_def by auto
    qed
    ultimately show ?thesis using startNext_ok [OF 2(1-4)] by (simp add: dial_ok_def)
  qed
  have done_ok: "dial_ok (s1\<lparr>dr_cancelled := True, dr_outcome := Some oc\<rparr>)" for oc
    using parts sent1 loop1 seq1 by (auto simp: ok_defs s1_def)
  show ?thesis
    using next_ok done_ok unfolding receiveResult_def Let_def s1_def [symmetric] by (auto split: option.splits)
qed

lemma hedge_ok:
  assumes ok: "dial_ok s" and none: "dr_outcome s = None" and timer: "dr_timer s"
  shows "dial_ok ((startNext s)\<lparr>dr_timer := b\<rparr>)"
proof -
  have parts: "permits_ok (startNext s)" "settled_ok (startNext s)" "sent_ok (startNext s)" "held_ok (startNext s)"
    using startNext_ok [of s] ok by (simp_all add: dial_ok_def)
  have "loop_ok (startNext s)"
    using ok startNext_props [of s] startNext_total [of s] unfolding dial_ok_def loop_ok_def by auto
  moreover have "hedges (dr_plan s)" using ok timer by (auto simp: dial_ok_def sequential_ok_def)
  ultimately show ?thesis
    using parts startNext_props(1) [of s] by (simp add: ok_defs)
qed

lemma dial_work_ok: "dial_work s s' \<Longrightarrow> dial_ok s \<Longrightarrow> dial_ok s'"
proof (induction rule: dial_work.induct)
  case (attempt i s s')
  then show ?case using attempt_ok by blast
next
  case (hedge s)
  then show ?case using hedge_ok by blast
next
  case (receive s r rest)
  then show ?case using receive_ok by blast
qed (simp_all add: failDial_def ok_defs)

lemma dial_step_ok: "dial_step s s' \<Longrightarrow> dial_ok s \<Longrightarrow> dial_ok s'"
  by (induction rule: dial_step.induct) (simp_all add: dial_work_ok, simp add: ok_defs)

lemma dial_init_ok: "dial_init s \<Longrightarrow> dial_ok s"
  by (auto simp: dial_init_def dialStart_def ok_defs Suc_le_eq split: if_splits)

section \<open>Connections and outcomes\<close>

fun connected_stage :: "stage \<Rightarrow> bool" where
  \<comment> \<open>the goroutine has a connection in hand that it has not closed\<close>
  "connected_stage (Dialed _ err) = (err = None)"
| "connected_stage (Checked _ err) = (err = None)"
| "connected_stage (Completing _ _ _ (Some d)) = (rs_err d = None)"
| "connected_stage (Sending _ d) = (rs_err d = None)"
| "connected_stage _ = False"

definition open_ok :: "dial_state \<Rightarrow> bool" where
  "open_ok s \<longleftrightarrow> (\<forall>i < dr_started s. connected_stage (dr_stages s ! i) \<longrightarrow> i \<in> set (dr_open s))
     \<and> (\<forall>r \<in> set (dr_results s). rs_err r = None \<longrightarrow> rs_index r \<in> set (dr_open s))
     \<and> (\<forall>i. dr_outcome s = Some (DialConnected i) \<longrightarrow> i \<in> set (dr_open s) \<and> i \<in> set (dr_received s))
     \<and> set (dr_open s) \<subseteq> set (dr_permits s)"

definition outcome_ok :: "dial_state \<Rightarrow> bool" where
  "outcome_ok s \<longleftrightarrow>
     (case dr_outcome s of
        None \<Rightarrow> length (dr_received s) + dr_active s = dr_started s
          \<and> length (dr_errors s) = length (dr_received s)
          \<and> (dr_active s = 0 \<longrightarrow> dr_started s = dr_total s)
      | Some (DialConnected i) \<Rightarrow> True
      | Some (DialFailed es) \<Rightarrow> dr_ctxDone s \<or> dr_started s = dr_total s \<and> length es = dr_total s)"

lemma attempt_open:
  assumes "attempt_step i s s'" and "i < dr_started s" and "sent_ok s" and "open_ok s" and "permits_ok s"
  shows "open_ok s'"
proof -
  have perm: "i \<in> set (dr_permits s)" if "dr_stages s ! i = Dialing b" for b
    using assms(2,5) that by (simp add: permits_ok_def)
  have new: "j \<noteq> i" if "inFlight (dr_stages s ! i)" "j \<in> set (sent s)" for j
    using assms(3) that by (auto simp: sent_ok_def)
  have carry: "carries i (dr_stages s ! i)" using assms(2,3) by (simp add: sent_ok_def)
  from assms(1) show ?thesis
  proof (cases rule: attempt_step.cases)
    case (abandoned custom)
    then show ?thesis
      using assms(2,4) new
      by (auto simp: open_ok_def attempt_defs sent_def nth_list_update in_set_remove1
        split: if_splits dest: notin_set_remove1)
  next
    case (completed custom held r out)
    then show ?thesis
      using assms(2,4) by (auto simp: open_ok_def attempt_defs nth_list_update split: option.splits if_splits)
  next
    case (reported held d)
    then show ?thesis
      using assms(2,4) carry by (auto simp: open_ok_def attempt_defs nth_list_update split: if_splits)
  qed (use assms(2,4) perm in \<open>auto simp: open_ok_def attempt_defs nth_list_update split: if_splits\<close>)
qed

lemma startNext_fields:
  "dr_open (startNext s) = dr_open s" "dr_errors (startNext s) = dr_errors s"
  by (simp_all add: startNext_def)

lemma startNext_open: "open_ok s \<Longrightarrow> open_ok (startNext s)"
  unfolding open_ok_def startNext_props startNext_fields
  by (auto simp: startNext_nth)

lemma dial_work_open:
  assumes "dial_work s s'" and "dial_ok s" and "open_ok s"
  shows "open_ok s'"
  using assms
proof (induction rule: dial_work.induct)
  case (attempt i s s')
  then show ?case using attempt_open by (simp add: dial_ok_def)
next
  case (hedge s)
  then show ?case using startNext_open [of s] by (simp add: open_ok_def)
next
  case (receive s r rest)
  have "open_ok (s\<lparr>dr_results := rest, dr_received := rs_index r # dr_received s, dr_active := dr_active s - 1,
      dr_errors := es\<rparr>)" for es
    using receive by (simp add: open_ok_def)
  then show ?case
    using receive startNext_open by (auto simp: receiveResult_def Let_def open_ok_def split: option.splits)
qed (auto simp: open_ok_def failDial_def)

lemma dial_step_open: "dial_step s s' \<Longrightarrow> dial_ok s \<Longrightarrow> open_ok s \<Longrightarrow> open_ok s'"
  by (induction rule: dial_step.induct) (simp_all add: dial_work_open, simp add: open_ok_def)

lemma attempt_outcome:
  assumes "attempt_step i s s'" and "outcome_ok s"
  shows "outcome_ok s'"
proof -
  obtain st st' where "same_loop s s'" "effect i st st' s s'" using attempt_effect [OF assms(1)] by blast
  then show ?thesis
    using assms(2) by (auto simp: outcome_ok_def same_loop_def effect_def split: option.splits dial_outcome.splits)
qed

lemma dial_work_outcome:
  assumes "dial_work s s'" and "dial_ok s" and "outcome_ok s"
  shows "outcome_ok s'"
  using assms
proof (induction rule: dial_work.induct)
  case (attempt i s s')
  then show ?case using attempt_outcome by blast
next
  case (receive s r rest)
  then show ?case
    by (auto simp: receiveResult_def Let_def outcome_ok_def startNext_def dial_ok_def loop_ok_def split: option.splits)
qed (auto simp: outcome_ok_def failDial_def startNext_def split: option.splits dial_outcome.splits)

lemma dial_step_outcome: "dial_step s s' \<Longrightarrow> dial_ok s \<Longrightarrow> outcome_ok s \<Longrightarrow> outcome_ok s'"
  by (induction rule: dial_step.induct)
    (auto simp: dial_work_outcome, auto simp: outcome_ok_def split: option.splits dial_outcome.splits)

definition dial_inv :: "dial_state \<Rightarrow> bool" where
  "dial_inv s \<longleftrightarrow> dial_ok s \<and> open_ok s \<and> outcome_ok s"

lemma dial_init_inv: "dial_init s \<Longrightarrow> dial_inv s"
  using dial_init_ok [of s]
  by (auto simp: dial_inv_def dial_init_def dialStart_def open_ok_def outcome_ok_def split: if_splits)

lemma dial_step_inv: "dial_step s s' \<Longrightarrow> dial_inv s \<Longrightarrow> dial_inv s'"
  using dial_step_ok dial_step_open dial_step_outcome unfolding dial_inv_def by blast

interpretation dial_run: transition_system dial_init dial_step dial_inv
  by unfold_locales (auto intro: dial_init_inv dial_step_inv)

lemma dial_reach_inv:
  assumes "dialStart p = Some s0" and "dial_step\<^sup>*\<^sup>* s0 s"
  shows "dial_inv s"
proof -
  have "dial_init s0" using assms(1) by (auto simp: dial_init_def)
  then show ?thesis using assms(2) by (rule dial_run.reach_inv)
qed

lemma dial_work_plan: "dial_work s s' \<Longrightarrow> dr_plan s' = dr_plan s"
  by (induction rule: dial_work.induct)
    (auto simp: failDial_def receiveResult_def startNext_def Let_def same_loop_def dest: attempt_effect split: option.splits)

lemma dial_plan_kept: "dial_step s s' \<Longrightarrow> dr_plan s' = dr_plan s"
  by (induction rule: dial_step.induct) (simp_all add: dial_work_plan)

lemma dial_run_plan:
  assumes "dialStart p = Some s0" and "dial_step\<^sup>*\<^sup>* s0 s"
  shows "dr_plan s = p"
  using assms(2,1) by (induction rule: rtranclp_induct) (auto simp: dialStart_def dial_plan_kept split: if_splits)

section \<open>Progress and termination\<close>

lemma attempt_progress:
  assumes "dr_stages s ! i \<noteq> Finished"
  shows "\<exists>s'. attempt_step i s s'"
proof (cases "dr_stages s ! i")
  case Starting
  obtain hs' q where "planPermit (dr_plan s) (cd_ID (dn_Candidates (dr_plan s) ! i)) 0 undefined = (hs', q)"
    by fastforce
  then show ?thesis using attempt_step.permit_refused [OF Starting] attempt_step.permit_granted [OF Starting]
    by (cases q) blast+
next
  case Permitted
  show ?thesis by (rule exI, rule attempt_step.begun [OF Permitted])
next
  case (Begun custom)
  show ?thesis by (rule exI, rule attempt_step.unresolved [OF Begun])
next
  case (Dialing custom)
  show ?thesis by (rule exI, rule attempt_step.panicked [OF Dialing])
next
  case (Dialed custom err)
  show ?thesis
  proof (cases "err \<noteq> None \<or> \<not> contextDone s")
    case True
    show ?thesis by (rule exI, rule attempt_step.checked [OF Dialed True])
  next
    case False
    then have "dr_stages s ! i = Dialed custom None" "contextDone s" using Dialed by auto
    then show ?thesis by (intro exI, rule attempt_step.abandoned)
  qed
next
  case (Checked custom err)
  show ?thesis
    using attempt_step.interrupted [OF Checked] attempt_step.judged [OF Checked] by (cases "contextDone s") blast+
next
  case (Completing custom held r out)
  show ?thesis by (rule exI, rule attempt_step.completed [OF Completing])
next
  case (Sending held d)
  show ?thesis by (rule exI, rule attempt_step.reported [OF Sending])
next
  case Releasing
  show ?thesis by (rule exI, rule attempt_step.released [OF Releasing])
qed (use assms in simp)

definition dial_final :: "dial_state \<Rightarrow> bool" where
  \<comment> \<open>\<open>Dial\<close> has returned, its goroutines have ended, every permit granted was settled once and no
      execution is held\<close>
  "dial_final s \<longleftrightarrow> dr_outcome s \<noteq> None \<and> list_all (\<lambda>st. st = Finished) (dr_stages s)
     \<and> distinct (map fst (dr_settled s)) \<and> set (map fst (dr_settled s)) = set (dr_permits s) \<and> dr_held s = []"

lemma distinct_count_le: "distinct xs \<longleftrightarrow> (\<forall>x. count (mset xs) x \<le> 1)"
  by (induction xs) (auto simp: le_Suc_eq count_mset_0_iff)

lemma finished_final:
  assumes "dial_ok s" and "dr_outcome s \<noteq> None" and fin: "\<forall>i < dr_started s. dr_stages s ! i = Finished"
  shows "dial_final s"
proof -
  have sub: "set (dr_permits s) \<subseteq> {..<dr_started s}" using assms(1) by (simp add: dial_ok_def permits_ok_def)
  have cnt: "count (mset (map fst (dr_settled s))) i = (if i \<in> set (dr_permits s) then 1 else 0)" for i
    using assms(1) fin sub by (auto simp: dial_ok_def settled_ok_def)
  have "distinct (map fst (dr_settled s))" unfolding distinct_count_le cnt by simp
  moreover have "set (map fst (dr_settled s)) = set (dr_permits s)"
    using cnt by (metis (no_types, lifting) count_eq_zero_iff set_mset_mset subsetI subset_antisym zero_neq_one)
  moreover have "count (mset (dr_held s)) i = 0" for i
    using assms(1) fin by (auto simp: dial_ok_def held_ok_def)
  then have "dr_held s = []" by (metis count_mset_0_iff list.set_intros(1) neq_Nil_conv)
  ultimately show ?thesis using assms(2) fin by (simp add: dial_final_def list_all_length)
qed

lemma dial_progress:
  assumes ok: "dial_ok s" and no: "\<nexists>s'. dial_work s s'"
  shows "dial_final s"
proof -
  have fin: "\<forall>i < dr_started s. dr_stages s ! i = Finished"
    using no attempt_progress dial_work.attempt by blast
  have "dr_outcome s \<noteq> None"
  proof
    assume none: "dr_outcome s = None"
    have active: "0 < dr_active s" using no dial_work.exhausted [OF none] by blast
    have ctx: "\<not> dr_ctxDone s" using no dial_work.give_up [OF none active] by blast
    have empty: "dr_results s = []" using no dial_work.receive [OF none active] by (cases "dr_results s") blast+
    have "\<not> reports st" if "st \<in> set (dr_stages s)" for st using fin that by (auto simp: in_set_conv_nth)
    then have "unreported s = 0" by (simp add: unreported_def filter_empty_conv)
    then show False using ok none active ctx empty by (simp add: dial_ok_def loop_ok_def)
  qed
  then show ?thesis using finished_final [OF ok _ fin] by simp
qed

lemma final_stuck: "dial_final s \<Longrightarrow> \<not> dial_work s s'"
  by (auto simp: dial_final_def list_all_length elim!: dial_work.cases attempt_stepE)

definition dial_measure :: "dial_state \<Rightarrow> nat" where
  "dial_measure s = sum_list (map weight (dr_stages s)) + 19 * (dr_total s - dr_started s) + length (dr_results s)
     + (if dr_timer s then 1 else 0) + (if dr_outcome s = None then 1 else 0) + (if dr_ctxDone s then 0 else 1)"

lemma attempt_measure:
  assumes "attempt_step i s s'" and "i < dr_started s"
  shows "dial_measure s' < dial_measure s"
proof -
  obtain st st' where sl: "same_loop s s'" and eff: "effect i st st' s s'"
    using attempt_effect [OF assms(1)] by blast
  have st: "map weight (dr_stages s) ! i = weight st" "weight st' + 2 \<le> weight st"
    and stages: "map weight (dr_stages s') = (map weight (dr_stages s))[i := weight st']"
    using eff assms(2) by (auto simp: effect_def stage_move_def map_update)
  have "weight st \<le> sum_list (map weight (dr_stages s))"
    unfolding st(1) [symmetric] by (rule member_le_sum_list) (use assms(2) nth_mem in force)+
  then have "sum_list (map weight (dr_stages s')) + 2 \<le> sum_list (map weight (dr_stages s))"
    using sum_list_update [of i "map weight (dr_stages s)" "weight st'"] assms(2) st unfolding stages by simp
  moreover have "length (dr_results s') \<le> Suc (length (dr_results s))" "dr_started s' = dr_started s"
    using eff by (auto simp: effect_def)
  ultimately show ?thesis using sl by (simp add: dial_measure_def same_loop_def)
qed

lemma startNext_measure: "dial_measure (startNext s) \<le> dial_measure s"
  and startNext_measure_less: "dr_started s < dr_total s \<Longrightarrow> dial_measure (startNext s) < dial_measure s"
  by (auto simp: dial_measure_def startNext_def)

lemma receive_measure:
  assumes "dr_outcome s = None" and "dr_results s = r # rest"
  shows "dial_measure (receiveResult r rest s) < dial_measure s"
proof -
  define s1 where "s1 = s\<lparr>dr_results := rest, dr_received := rs_index r # dr_received s, dr_active := dr_active s - 1\<rparr>"
  have "dial_measure (startNext (s1\<lparr>dr_errors := es\<rparr>)) < dial_measure s" for es
    using startNext_measure [of "s1\<lparr>dr_errors := es\<rparr>"] assms by (simp add: dial_measure_def s1_def)
  moreover have "dial_measure (s1\<lparr>dr_cancelled := True, dr_outcome := Some oc\<rparr>) < dial_measure s" for oc
    using assms by (simp add: dial_measure_def s1_def)
  ultimately show ?thesis
    unfolding receiveResult_def Let_def s1_def [symmetric] by (simp split: option.split)
qed

lemma dial_work_measure: "dial_work s s' \<Longrightarrow> dial_measure s' < dial_measure s"
proof (induction rule: dial_work.induct)
  case (attempt i s s')
  then show ?case using attempt_measure by blast
next
  case (hedge s)
  then show ?case by (cases "dr_total s - dr_started s") (auto simp: dial_measure_def startNext_def)
next
  case (receive s r rest)
  then show ?case using receive_measure by blast
qed (auto simp: dial_measure_def failDial_def)

lemma dial_step_measure: "dial_step s s' \<Longrightarrow> dial_measure s' < dial_measure s"
  by (induction rule: dial_step.induct) (simp_all add: dial_work_measure, simp add: dial_measure_def)

lemma dial_steps_measure: "(dial_step ^^ k) s s' \<Longrightarrow> k + dial_measure s' \<le> dial_measure s"
proof (induction k arbitrary: s')
  case (Suc k)
  then obtain s1 where "(dial_step ^^ k) s s1" "dial_step s1 s'" by auto
  then show ?case using Suc.IH dial_step_measure by fastforce
qed simp

section \<open>Properties\<close>

text \<open>C6. A dial always ends. Whatever the outbounds, the callbacks and the caller do, a dial of a
  plan with n candidates takes at most 19 * n + 2 steps, and as long as it has not come to its end a
  goroutine or the loop has a step to make, also when the caller never ends the context. At its end
  Dial has returned, every goroutine has ended, every permit granted was completed or released
  exactly once and no execution is held.\<close>
theorem dial_ends_settled:
  assumes "dialStart p = Some s0" and "(dial_step ^^ k) s0 s"
  shows "k \<le> 19 * length (dn_Candidates p) + 2 \<and> (dial_final s \<longleftrightarrow> (\<nexists>s'. dial_work s s'))"
proof
  have "dial_measure s0 \<le> 19 * length (dn_Candidates p) + 2"
    using assms(1) by (cases "dn_Candidates p") (auto simp: dialStart_def dial_measure_def split: if_splits)
  then show "k \<le> 19 * length (dn_Candidates p) + 2" using dial_steps_measure [OF assms(2)] by simp
  have "dial_ok s"
    using dial_reach_inv [OF assms(1) relpowp_imp_rtranclp [OF assms(2)]] by (simp add: dial_inv_def)
  then show "dial_final s \<longleftrightarrow> (\<nexists>s'. dial_work s s')" using dial_progress final_stuck by blast
qed

text \<open>C16. What Dial returns. While it runs, no result is ever sent to a full channel. A connection
  it returns comes from a candidate of the plan that was started and granted a permit, and is
  open. An error that is not the caller's own cancellation lists one cause for each
  candidate of the plan, all of which were tried.\<close>
theorem dial_outcome_correct:
  assumes "dialStart p = Some s0" and "dial_step\<^sup>*\<^sup>* s0 s"
  shows "length (dr_results s) \<le> length (dn_Candidates p)
     \<and> (case dr_outcome s of
          None \<Rightarrow> \<not> dr_cancelled s
        | Some (DialConnected i) \<Rightarrow> i < dr_started s \<and> dr_started s \<le> length (dn_Candidates p) \<and> i \<in> set (dr_open s)
            \<and> i \<in> set (dr_permits s)
        | Some (DialFailed es) \<Rightarrow> dr_ctxDone s
            \<or> dr_started s = length (dn_Candidates p) \<and> length es = length (dn_Candidates p))"
proof -
  have inv: "dial_inv s" by (rule dial_reach_inv [OF assms])
  have p: "dr_plan s = p" by (rule dial_run_plan [OF assms])
  have sent: "distinct (sent s)" "set (sent s) \<subseteq> {..<dr_started s}"
    using inv by (auto simp: dial_inv_def dial_ok_def sent_ok_def)
  have le: "dr_started s \<le> length (dn_Candidates p)"
    using inv p by (simp add: dial_inv_def dial_ok_def loop_ok_def)
  have "length (sent s) \<le> dr_started s"
    using card_mono [OF _ sent(2)] distinct_card [OF sent(1)] by simp
  then have "length (dr_results s) \<le> length (dn_Candidates p)" using le by (simp add: sent_def)
  then show ?thesis
    using inv p le sent(2)
    by (auto simp: dial_inv_def dial_ok_def loop_ok_def outcome_ok_def open_ok_def sent_def
        split: option.split dial_outcome.split)
qed

lemma outstanding_flying:
  assumes "dial_ok s" and "i \<in> set (dr_permits s)" and "i \<notin> set (map fst (dr_settled s))"
  shows "i < dr_started s \<and> inFlight (dr_stages s ! i)"
proof -
  have "count (mset (map fst (dr_settled s))) i = 0" using assms(3) by (simp only: count_mset_0_iff not_False_eq_True)
  then show ?thesis
    using assms(1,2) stage_order(1) by (auto simp: dial_ok_def settled_ok_def permits_ok_def split: if_splits)
qed

text \<open>C29. Without hedging (a bulk or strict plan, a plan for a warming or blocked pool, or a single
  candidate) the candidates are tried one after the other: at any time at most one attempt has been
  started and not ended, at most one permit is held and not settled, and the hedge timer never
  fires. An attempt ends when its result is sent, or when it closed its connection and completed
  because the context is done; only its deferred release of the execution may still be to come.\<close>
theorem unhedged_dial_is_sequential:
  assumes "dialStart p = Some s0" and "dial_step\<^sup>*\<^sup>* s0 s" and "\<not> hedges p"
  shows "length (filter inFlight (dr_stages s)) \<le> 1
    \<and> card (set (dr_permits s) - set (map fst (dr_settled s))) \<le> 1 \<and> \<not> dr_timer s"
proof -
  have inv: "dial_ok s" using dial_reach_inv [OF assms(1,2)] by (simp add: dial_inv_def)
  have p: "dr_plan s = p" by (rule dial_run_plan [OF assms(1,2)])
  have un: "flying s \<le> 1" "\<not> dr_timer s"
    using inv assms(3) p by (simp_all add: dial_ok_def sequential_ok_def)
  have "set (dr_permits s) - set (map fst (dr_settled s)) \<subseteq> {i. i < dr_started s \<and> inFlight (dr_stages s ! i)}"
    using outstanding_flying [OF inv] by blast
  then have "card (set (dr_permits s) - set (map fst (dr_settled s))) \<le> flying s"
    unfolding flying_def length_filter_conv_card by (intro card_mono) auto
  then show ?thesis using un by (simp add: flying_def)
qed

section \<open>A connection that nobody closes\<close>

definition okResult :: "nat \<Rightarrow> dial_result" where
  "okResult i = \<lparr>rs_index = i, rs_conn = True, rs_err = None, rs_deferred = False\<rparr>"

lemma attempt_connects:
  assumes i: "i < dr_started s" "dr_stages s ! i = Starting" and ctx: "\<not> contextDone s"
    and permit: "planPermit (dr_plan s) (cd_ID (dn_Candidates (dr_plan s) ! i)) 0 hs = (hs', Some q)"
  shows "dial_step\<^sup>*\<^sup>* s (s\<lparr>dr_stages := (dr_stages s)[i := Sending True (okResult i)],
    dr_permits := i # dr_permits s, dr_held := i # dr_held s, dr_open := i # dr_open s,
    dr_settled := dr_settled s @ [(i, SettledCompleted \<lparr>ar_Err = None, ar_Deferred = False, ar_Panic = False\<rparr>)]\<rparr>)"
proof -
  let ?r = "\<lparr>ar_Err = None, ar_Deferred = False, ar_Panic = False\<rparr>"
  define s1 where "s1 = (setStage i Permitted s)\<lparr>dr_permits := i # dr_permits s\<rparr>"
  define s2 where "s2 = setStage i (Begun True) s1"
  define s3 where "s3 = (setStage i (Dialing True) s2)\<lparr>dr_held := i # dr_held s2\<rparr>"
  define s4 where "s4 = (setStage i (Dialed True None) s3)\<lparr>dr_open := i # dr_open s3\<rparr>"
  define s5 where "s5 = setStage i (Checked True None) s4"
  define s6 where "s6 = setStage i (Completing True True ?r (Some (okResult i))) s5"
  define s7 where "s7 = settle True i ?r (setStage i (afterComplete True (Some (okResult i))) s6)"
  note defs = s1_def s2_def s3_def s4_def s5_def s6_def s7_def setStage_def contextDone_def
  have run: "dial_step\<^sup>*\<^sup>* a b" if "attempt_step i a b" "dr_started a = dr_started s" for a b
    using dial_step.work [OF dial_work.attempt [OF _ that(1)]] that(2) i(1) by auto
  have "attempt_step i s s1" unfolding s1_def by (rule attempt_step.permit_granted [OF i(2) permit])
  then have "dial_step\<^sup>*\<^sup>* s s1" by (rule run) simp
  also have "attempt_step i s1 s2" unfolding s2_def by (rule attempt_step.begun) (simp add: defs i)
  then have "dial_step\<^sup>*\<^sup>* s1 s2" by (rule run) (simp add: defs)
  also have "attempt_step i s2 s3" unfolding s3_def by (rule attempt_step.resolved) (simp add: defs i)
  then have "dial_step\<^sup>*\<^sup>* s2 s3" by (rule run) (simp add: defs)
  also have "attempt_step i s3 s4" unfolding s4_def by (rule attempt_step.connected) (simp add: defs i)
  then have "dial_step\<^sup>*\<^sup>* s3 s4" by (rule run) (simp add: defs)
  also have "attempt_step i s4 s5" unfolding s5_def
    by (rule attempt_step.checked) (use ctx in \<open>simp_all add: defs i\<close>)
  then have "dial_step\<^sup>*\<^sup>* s4 s5" by (rule run) (simp add: defs)
  also have "attempt_step i s5 s6"
    using attempt_step.judged [of s5 i True None] ctx i by (simp add: defs okResult_def)
  then have "dial_step\<^sup>*\<^sup>* s5 s6" by (rule run) (simp add: defs)
  also have "attempt_step i s6 s7" unfolding s7_def by (rule attempt_step.completed) (simp add: defs i)
  then have "dial_step\<^sup>*\<^sup>* s6 s7" by (rule run) (simp add: defs)
  finally have "dial_step\<^sup>*\<^sup>* s s7" .
  moreover have "s7 = s\<lparr>dr_stages := (dr_stages s)[i := Sending True (okResult i)],
    dr_permits := i # dr_permits s, dr_held := i # dr_held s, dr_open := i # dr_open s,
    dr_settled := dr_settled s @ [(i, SettledCompleted ?r)]\<rparr>"
    by (simp add: defs settle_def afterComplete_def)
  ultimately show ?thesis by simp
qed

definition raceState :: "decision_plan \<Rightarrow> stage list \<Rightarrow> nat list \<Rightarrow> dial_state" where
  \<comment> \<open>two attempts in flight, of which those in \<open>is\<close> have opened a connection and completed\<close>
  "raceState p sts is = \<lparr>dr_plan = p, dr_stages = sts, dr_active = 2, dr_timer = 2 < length (dn_Candidates p),
     dr_results = [], dr_received = [], dr_errors = [], dr_ctxDone = False, dr_cancelled = False,
     dr_outcome = None, dr_permits = is,
     dr_settled = map (\<lambda>i. (i, SettledCompleted \<lparr>ar_Err = None, ar_Deferred = False, ar_Panic = False\<rparr>)) (rev is),
     dr_held = is, dr_open = is\<rparr>"

lemma race_starts:
  assumes start: "dialStart p = Some s0" and h: "hedges p"
  shows "dial_step s0 (raceState p [Starting, Starting] [])"
proof -
  have s0: "s0 = \<lparr>dr_plan = p, dr_stages = [Starting], dr_active = 1, dr_timer = True,
        dr_results = [], dr_received = [], dr_errors = [], dr_ctxDone = False, dr_cancelled = False,
        dr_outcome = None, dr_permits = [], dr_settled = [], dr_held = [], dr_open = []\<rparr>"
    and n: "1 < length (dn_Candidates p)"
    using start h by (auto simp: dialStart_def hedges_def split: if_splits)
  show ?thesis
    using dial_step.work [OF dial_work.hedge [of s0]] n by (simp add: s0 startNext_def raceState_def numeral_2_eq_2)
qed

definition reportOk :: "nat \<Rightarrow> dial_state \<Rightarrow> dial_state" where
  "reportOk i s = releaseExecution i (setStage i Finished (sendResult (okResult i) (setStage i Releasing s)))"

lemma reportOk_step:
  assumes "i < dr_started s" and "dr_stages s ! i = Sending True (okResult i)"
  shows "dial_step\<^sup>*\<^sup>* s (reportOk i s)"
proof -
  let ?s = "sendResult (okResult i) (setStage i Releasing s)"
  have "attempt_step i s ?s" using attempt_step.reported [OF assms(2)] by (simp add: afterSend_def)
  then have "dial_step s ?s" using assms(1) by (intro dial_step.work dial_work.attempt)
  moreover have "attempt_step i ?s (reportOk i s)"
    unfolding reportOk_def by (rule attempt_step.released) (use assms(1) in \<open>simp add: attempt_defs\<close>)
  then have "dial_step ?s (reportOk i s)"
    using assms(1) by (intro dial_step.work dial_work.attempt) (simp_all add: attempt_defs)
  ultimately show ?thesis by (rule converse_rtranclp_into_rtranclp [OF _ r_into_rtranclp])
qed

definition raceEnd :: "decision_plan \<Rightarrow> dial_state" where
  \<comment> \<open>both attempts have reported and the first result was received\<close>
  "raceEnd p = \<lparr>dr_plan = p, dr_stages = [Finished, Finished], dr_active = 1,
     dr_timer = 2 < length (dn_Candidates p), dr_results = [okResult 1],
     dr_received = [0], dr_errors = [], dr_ctxDone = False, dr_cancelled = True,
     dr_outcome = Some (DialConnected 0), dr_permits = [1, 0],
     dr_settled = map (\<lambda>i. (i, SettledCompleted \<lparr>ar_Err = None, ar_Deferred = False, ar_Panic = False\<rparr>)) [0, 1],
     dr_held = [], dr_open = [1, 0]\<rparr>"

lemma race_ends:
  "dial_step\<^sup>*\<^sup>* (raceState p [Sending True (okResult 0), Sending True (okResult 1)] [1, 0]) (raceEnd p)"
proof -
  let ?s = "raceState p [Sending True (okResult 0), Sending True (okResult 1)] [1, 0]"
  let ?s2 = "reportOk 1 (reportOk 0 ?s)"
  have "dial_step\<^sup>*\<^sup>* ?s (reportOk 0 ?s)" by (rule reportOk_step) (simp_all add: raceState_def)
  also have "dial_step\<^sup>*\<^sup>* (reportOk 0 ?s) ?s2"
    by (rule reportOk_step) (simp_all add: raceState_def reportOk_def attempt_defs)
  also have "dial_step ?s2 (raceEnd p)"
    using dial_step.work [OF dial_work.receive [of ?s2]]
    by (simp add: reportOk_def raceState_def raceEnd_def attempt_defs receiveResult_def okResult_def)
  finally show ?thesis .
qed

lemma final_run:
  assumes "dial_final s" and "dial_step\<^sup>*\<^sup>* s s'"
  shows "dial_final s' \<and> dr_open s' = dr_open s"
  using assms(2)
proof (induction rule: rtranclp_induct)
  case (step y z)
  then show ?case
    using final_stuck [of y z] by (elim dial_step.cases) (simp_all add: dial_final_def)
qed (use assms(1) in simp)

text \<open>C40. A hedged dial may open a connection that nobody closes: two goroutines pass their tests of
  the context and report a connection each; Dial returns the first one, and the second stays in
  the channel that no one reads any more. Every goroutine has ended by then, so the connection
  stays open whatever happens next.\<close>
theorem hedged_dial_leaks_connection:
  assumes start: "dialStart p = Some s0" and h: "hedges p"
    and permit0: "planPermit p (cd_ID (dn_Candidates p ! 0)) 0 hsa = (hsa', Some qa)"
    and permit1: "planPermit p (cd_ID (dn_Candidates p ! 1)) 0 hsb = (hsb', Some qb)"
  shows "\<exists>s. dial_step\<^sup>*\<^sup>* s0 s \<and> dial_final s \<and> dr_outcome s = Some (DialConnected 0)
     \<and> (\<forall>s'. dial_step\<^sup>*\<^sup>* s s' \<longrightarrow> 1 \<in> set (dr_open s'))"
proof -
  have "dial_step\<^sup>*\<^sup>* s0 (raceState p [Starting, Starting] [])" using race_starts [OF start h] by simp
  also have "dial_step\<^sup>*\<^sup>* \<dots> (raceState p [Sending True (okResult 0), Starting] [0])"
    using attempt_connects [of 0 "raceState p [Starting, Starting] []"] permit0
    by (simp add: raceState_def contextDone_def)
  also have "dial_step\<^sup>*\<^sup>* \<dots> (raceState p [Sending True (okResult 0), Sending True (okResult 1)] [1, 0])"
    using attempt_connects [of 1 "raceState p [Sending True (okResult 0), Starting] [0]"] permit1
    by (simp add: raceState_def contextDone_def)
  also note race_ends
  finally have run: "dial_step\<^sup>*\<^sup>* s0 (raceEnd p)" .
  have final: "dial_final (raceEnd p)" by (simp add: dial_final_def raceEnd_def insert_commute)
  have "1 \<in> set (dr_open s')" if "dial_step\<^sup>*\<^sup>* (raceEnd p) s'" for s'
    using final_run [OF final that] by (simp add: raceEnd_def)
  moreover have "dr_outcome (raceEnd p) = Some (DialConnected 0)" by (simp add: raceEnd_def)
  ultimately show ?thesis using run final by blast
qed

section \<open>Witnesses\<close>

definition dialCandidate :: "node_id \<Rightarrow> candidate" where
  "dialCandidate k = \<lparr>cd_ID = k, cd_EndpointID = k, cd_EndpointConflictCount = 0,
     cd_Handle = \<lparr>nh_NodeID = k, nh_Slot = 1, nh_Version = 1, nh_BornRevision = 1\<rparr>,
     cd_PrimaryTag = ''hk'', cd_Aliases = [], cd_Sources = [], cd_Transport = [], cd_IdentityStable = True\<rparr>"

definition dialPlan :: "policy_mode \<Rightarrow> decision_plan" where
  "dialPlan mode = \<lparr>dn_RuntimeEpochID = 1, dn_CatalogRevision = 1, dn_Generation = 1, dn_Mode = mode,
     dn_Reason = ReasonRanked, dn_Candidates = map dialCandidate [7, 8], dn_hasHealth = False,
     dn_service = \<lparr>sc_ID = [], sc_AffinityID = [], sc_Session = 0, sc_Mode = mode, sc_Host = [],
       sc_Transport = ''tcp'', sc_HealthTransport = [], sc_ExpectUDPResponse = False\<rparr>,
     dn_allowBlocked = False, dn_disableHedge = False\<rparr>"

definition dialSample :: "policy_mode \<Rightarrow> dial_state" where
  "dialSample mode = the (dialStart (dialPlan mode))"

lemma dial_sample: "dialStart (dialPlan mode) = Some (dialSample mode)"
  by (simp add: dialSample_def dialStart_def dialPlan_def)

lemma sample_permit: "planPermit (dialPlan mode) k 0 hs = (hs, Some (newPermit []))"
  by (simp add: planPermit_def dialPlan_def)

lemma sample_plan:
  "length (dn_Candidates (dialPlan mode)) = 2" "hedges (dialPlan ModeLatency)" "\<not> hedges (dialPlan ModeBulk)"
  by (simp_all add: dialPlan_def hedges_def)

definition connectedSample :: "policy_mode \<Rightarrow> dial_state" where
  "connectedSample mode = (dialSample mode)\<lparr>dr_stages := [Sending True (okResult 0)], dr_permits := [0], dr_held := [0],
     dr_open := [0], dr_settled := [(0, SettledCompleted \<lparr>ar_Err = None, ar_Deferred = False, ar_Panic = False\<rparr>)]\<rparr>"

lemma sample_connects: "dial_step\<^sup>*\<^sup>* (dialSample mode) (connectedSample mode)"
  using attempt_connects [of 0 "dialSample mode"] sample_permit [of mode]
  by (simp add: connectedSample_def dialSample_def dialStart_def dialPlan_def contextDone_def)

theorem dial_ends_settled_witness:
  "\<exists>s k. (dial_step ^^ k) (dialSample ModeLatency) s \<and> k \<le> 19 * 2 + 2 \<and> \<not> dial_final s \<and> (\<exists>s'. dial_work s s')"
proof -
  obtain k where k: "(dial_step ^^ k) (dialSample ModeLatency) (connectedSample ModeLatency)"
    using rtranclp_imp_relpowp [OF sample_connects] by blast
  have "\<not> dial_final (connectedSample ModeLatency)" by (simp add: dial_final_def connectedSample_def)
  with dial_ends_settled [OF dial_sample k] k show ?thesis unfolding sample_plan by blast
qed

theorem dial_outcome_correct_witness:
  "\<exists>s. dial_step\<^sup>*\<^sup>* (dialSample ModeLatency) s \<and> dr_outcome s = Some (DialConnected 0)
     \<and> 0 < dr_started s \<and> dr_started s \<le> 2 \<and> 0 \<in> set (dr_open s)"
proof -
  let ?s1 = "connectedSample ModeLatency"
  let ?s = "receiveResult (okResult 0) [] (reportOk 0 ?s1)"
  have "dial_step\<^sup>*\<^sup>* ?s1 (reportOk 0 ?s1)" by (rule reportOk_step) (simp_all add: connectedSample_def)
  moreover have "dial_work (reportOk 0 ?s1) ?s"
    by (rule dial_work.receive)
      (simp_all add: connectedSample_def reportOk_def attempt_defs dialSample_def dialStart_def dialPlan_def)
  ultimately have run: "dial_step\<^sup>*\<^sup>* (dialSample ModeLatency) ?s"
    using sample_connects [of ModeLatency] dial_step.work
    by (meson rtranclp.rtrancl_into_rtrancl rtranclp_trans)
  have out: "dr_outcome ?s = Some (DialConnected 0)" by (simp add: receiveResult_def okResult_def)
  from dial_outcome_correct [OF dial_sample run] run show ?thesis
    unfolding out sample_plan by (intro exI [of _ ?s]) (simp add: out)
qed

theorem unhedged_dial_is_sequential_witness:
  "\<exists>s. dial_step\<^sup>*\<^sup>* (dialSample ModeBulk) s \<and> dr_held s = [0]
     \<and> length (filter inFlight (dr_stages s)) \<le> 1 \<and> \<not> dr_timer s"
  using unhedged_dial_is_sequential [OF dial_sample sample_connects sample_plan(3)] sample_connects [of ModeBulk]
  by (intro exI [of _ "connectedSample ModeBulk"]) (simp add: connectedSample_def)

theorem hedged_dial_leaks_connection_witness:
  "\<exists>s. dial_step\<^sup>*\<^sup>* (dialSample ModeLatency) s \<and> dial_final s \<and> dr_outcome s = Some (DialConnected 0)
     \<and> 1 \<in> set (dr_open s)"
  using hedged_dial_leaks_connection [OF dial_sample sample_plan(2) sample_permit sample_permit] by blast

end
