(* ===== verification/Spec2Isabelle.thy ===== *)
theory Spec2Isabelle
  imports Capability_Policy Lease_Props Runtime_Props Observation_Ingest Probe_Fairness Probe_Owners Policy_Sticky
    Publish_Path Dial_Run
begin

text \<open>
  A verification library for the adaptive proxy pool of this sing-box fork, the Go package
  \<^verbatim>\<open>src/protocol/group/adaptive\<close> with the node weights of \<^verbatim>\<open>src/common/nodeweight\<close>. The
  pool takes nodes from its sources, gives them stable identities, measures their health by probes
  and by the traffic they carry, and picks for every connection the nodes to try.

  \<^bold>\<open>The parts and how they work together.\<close> A source publishes its nodes with the outbounds
  that reach them. The runtime manager turns the nodes into handles (node, slot, version) and
  publishes them as a revision of an epoch; the catalog binds handles to outbounds. The policy
  engine makes a plan from the view of the catalog, the health store, the lease of the session and
  its own memory of earlier choices. The attempt runner dials the plan: each attempt takes a permit
  from the breakers it crosses and an execution from the catalog, and settles both. Outcomes and
  probe results come back as observations, which the reducer checks against the runtime manager
  and enters into the health store. A scheduler runs the probes; a coordinator makes sure that only
  one epoch of a group probes at a time.

  \<^bold>\<open>Which theory models which part.\<close>

  \<^item> \<^verbatim>\<open>Go_Prelude\<close>, \<^verbatim>\<open>Go_Float\<close>: the machine types, the parts of the Go library the
    source uses, sorting, recency lists and the two interfaces of the development, the bounded
    table \<open>lru_table\<close> and the runs \<open>transition_system\<close>.
  \<^item> \<^verbatim>\<open>Transport\<close>: the health paths of \<^verbatim>\<open>resolver.go\<close> and the service context.
  \<^item> \<^verbatim>\<open>Health_Store\<close>, \<^verbatim>\<open>Health_Invariant\<close>, \<^verbatim>\<open>Health_Permit\<close>,
    \<^verbatim>\<open>Health_Breaker\<close>, \<^verbatim>\<open>Breaker_Cycle\<close>, \<^verbatim>\<open>Permit_Owner\<close>,
    \<^verbatim>\<open>Health_System\<close>: \<^verbatim>\<open>health.go\<close>. The store is the record \<open>health_store\<close>;
    \<open>observeLocked\<close>, \<open>observeQualityLocked\<close>, \<open>tryAcquirePermit\<close>,
    \<open>completePermitDomains\<close> and the others keep their names. Shown: the store stays bounded and
    consistent under every sequence of operations, a half-open token has one owner, and how a
    breaker opens, backs off and recovers.
  \<^item> \<^verbatim>\<open>Capability\<close>, \<^verbatim>\<open>Capability_Policy\<close>: \<^verbatim>\<open>node_capability.go\<close>. Shown: the
    admission test, the capability report and the explanations agree, and where they do not.
  \<^item> \<^verbatim>\<open>Lease\<close>, \<^verbatim>\<open>Lease_System\<close>, \<^verbatim>\<open>Lease_Props\<close>: \<^verbatim>\<open>lease.go\<close>, over a heap
    of records. Shown: one reservation per session, no waiter is forgotten, and the manager refines
    a recency list cut to its capacity.
  \<^item> \<^verbatim>\<open>Scheduler_Owner\<close>, \<^verbatim>\<open>Probe_Queue\<close>, \<^verbatim>\<open>Probe_Fairness\<close>,
    \<^verbatim>\<open>Probe_Scheduler\<close>, \<^verbatim>\<open>Probe_System\<close>, \<^verbatim>\<open>Probe_Run\<close>, \<^verbatim>\<open>Probe_Props\<close>,
    \<^verbatim>\<open>Probe_Owners\<close>: \<^verbatim>\<open>scheduler.go\<close>. The dispatcher, its workers and its callers
    are steps of one relation. Shown: exclusion of owners and their turn, single flight of a
    key, one answer for every waiter, and what the choice of the next probe guarantees over time.
  \<^item> \<^verbatim>\<open>Runtime_Identity\<close>, \<^verbatim>\<open>Identity_Run\<close>, \<^verbatim>\<open>Runtime_Manager\<close>,
    \<^verbatim>\<open>Runtime_System\<close>, \<^verbatim>\<open>Runtime_Props\<close>: \<^verbatim>\<open>runtime_manager.go\<close> and the
    persisted identity of \<^verbatim>\<open>state_persistence.go\<close>. Shown: slots are unique, a retired handle
    is never accepted again, a held epoch stays, concurrent publications are serialised, and the
    persisted form restores.
  \<^item> \<^verbatim>\<open>Observation\<close>, \<^verbatim>\<open>Observation_Ingest\<close>: \<^verbatim>\<open>observation.go\<close>. Shown: the
    suppression of replays is bounded and leaks no reservation.
  \<^item> \<^verbatim>\<open>Source_Delta\<close>: \<^verbatim>\<open>source_adapter.go\<close> and \<open>IdentityFromSource\<close>. Shown: the
    difference of two publications, applied to the older one, gives the newer one.
  \<^item> \<^verbatim>\<open>Execution_Catalog\<close>, \<^verbatim>\<open>Catalog_Run\<close>: \<^verbatim>\<open>catalog_port.go\<close> and
    \<^verbatim>\<open>execution_bridge.go\<close>, over a heap of binding sets. Shown: reference counts are exact, a
    held port stays bound, and only the committed revision is executed.
  \<^item> \<^verbatim>\<open>Node_Weight\<close>: \<^verbatim>\<open>common/nodeweight/matcher.go\<close>. Shown: the most specific rule
    decides.
  \<^item> \<^verbatim>\<open>Policy\<close>, \<^verbatim>\<open>Policy_Plan\<close>, \<^verbatim>\<open>Policy_Sticky\<close>: \<^verbatim>\<open>policy.go\<close> and
    \<^verbatim>\<open>policy_kernel.go\<close>. \<open>Plan\<close> is cut at its comments into \<open>pinnedPlan\<close>,
    \<open>rankedPlan\<close>, \<open>kernelChoose\<close>, \<open>rankEligible\<close>, \<open>stickyStage\<close>, \<open>modePlan\<close> and
    \<open>bulkPlan\<close>. Shown: plans contain only admissible candidates, in the promised order; when
    planning fails; bulk plans go round; a remembered or leased node keeps its place; the memory
    is bounded.
  \<^item> \<^verbatim>\<open>Attempt_Runner\<close>, \<^verbatim>\<open>Dial_Run\<close>: \<^verbatim>\<open>retry.go\<close>. The loop of \<open>Dial\<close> and
    its goroutines are steps of one relation. Shown: every dial ends, with permits and executions
    settled; what it returns; no parallel attempts without hedging; and a connection it can lose.
  \<^item> \<^verbatim>\<open>Publish_Path\<close> and the theorem below: the source, the runtime manager, the catalog,
    the policy and the attempt runner together.

  \<^bold>\<open>How the code is read.\<close> A method that holds its mutex is one step. Goroutines, callers
  blocked on a channel and timers are steps of their own, in any order. Pointers that the code
  compares or shares are addresses into a heap; other structs are values. A map is an association
  list, and what is shown holds for every order of it. What the code gets from outside is an
  argument or a field: the clock, the jitter source, two functions of the math package, the
  Unicode tables, \<open>N.NetworkName\<close>, the portable policy kernel, and the callbacks of probes,
  observers and outbounds.

  \<^bold>\<open>Bounds.\<close> Nothing is modelled with fuel: every loop is a total function or a run of a step
  relation. Unsigned counters wrap at \<open>2 ^ 64\<close> as in the code; where a theorem needs that they do
  not wrap, it says so: below \<open>2 ^ 64\<close> publications, slots and tokens, \<open>2 ^ 63\<close> leases on
  executions, \<open>2 ^ 62\<close> bulk plans. Floating point values are rationals, rounded after each
  operation to 53 bits; infinities, NaN and subnormal numbers do not occur in the ranges used. A
  dial takes at most \<open>15 * n + 2\<close> steps for \<open>n\<close> candidates, counting those of all its
  goroutines.

  \<^bold>\<open>Findings.\<close> Some theorems state behaviour that departs from what the code or its comments
  promise: \<open>late_settlement_loses_token\<close>, \<open>tokenless_entry_completes_recovery\<close>,
  \<open>metrics_only_failure_marks_path_good\<close>, \<open>profile_misses_collapsed_ledger\<close>,
  \<open>default_maximum_below_base\<close>, \<open>commit_over_live_lease_orphans\<close>,
  \<open>rollback_loses_lease\<close>, \<open>source_rotation_can_starve\<close>,
  \<open>removed_periodic_probe_returns\<close>, \<open>metadata_change_missed\<close> and
  \<open>hedged_dial_leaks_connection\<close>.

  \<^bold>\<open>Not modelled.\<close> Of the package: \<^verbatim>\<open>outbound.go\<close> and
  \<^verbatim>\<open>business_observation.go\<close>, the wiring of the parts to connections and to the service
  life cycle; \<^verbatim>\<open>probe_runtime.go\<close>, \<^verbatim>\<open>probe_capability.go\<close>, \<^verbatim>\<open>dns_health.go\<close>
  and the \<^verbatim>\<open>capability_\<close> files, which send probes and judge the answers of remote servers;
  \<^verbatim>\<open>source_a48_v1.go\<close>, which reads nodes from providers; the hashing of
  \<^verbatim>\<open>identity.go\<close>; the classification of hosts and the overrides of \<^verbatim>\<open>resolver.go\<close>;
  \<^verbatim>\<open>selection_memory.go\<close>, \<^verbatim>\<open>endpoint_profile.go\<close>, \<^verbatim>\<open>exit_identity.go\<close> and
  \<^verbatim>\<open>switch_audit.go\<close>, side records that no decision above reads; \<^verbatim>\<open>status_export.go\<close> and
  the files of \<^verbatim>\<open>state_persistence.go\<close>, which format and store. The portable kernel in
  \<^verbatim>\<open>smart-engine\<close> is written in Zig and called through C. The rest of the program (routing,
  DNS, the protocols and transports, the other groups, the clients and the services) does not take
  part in the decisions of the pool.
\<close>

section \<open>From a source to an outbound\<close>

text \<open>C5. The path from a source to an outbound. Let a source publication have valid node identities,
  each node bound to a port and named, and let the runtime manager publish it, after any history of
  publications, with counters that do not wrap. Then the catalog, after any history of its own,
  accepts the identity; and once the preparation is committed, every candidate of every plan made
  over its view, for any service, health, lease, pin, sticky memory and kernel, resolves to a lease
  on the port the source bound to that candidate.\<close>
theorem published_plan_executes:
  assumes ident: "publish_step\<^sup>*\<^sup>* newStableIdentityState s"
    and src: "IdentityFromSource source = (snapshot, None)" "publishable snapshot s"
    and named: "\<forall>n \<in> set (src_Nodes source). bindingOf (src_Bindings source) (cn_NodeID n) \<noteq> None
        \<and> (cn_SourceKey n \<noteq> [] \<or> cn_Aliases n \<noteq> [])"
    and pub: "preparePublish snapshot newEpoch s = (s', identity)" "ri_EpochID identity \<noteq> 0"
    and cat: "catalog_init y0" "catalog_step\<^sup>*\<^sup>* y0 y"
  shows "\<exists>port x. PrepareCommitted source identity (cy_port y) = (port, Inr x)
    \<and> (\<forall>nn hs service lease pinned now (e :: 'k policy_engine) e' p c.
         Plan nn hs (Some (px_view x)) service lease pinned now e = (e', Inr p) \<longrightarrow> 0 < pl_maxAttempts e \<longrightarrow>
         c \<in> set (dn_Candidates p) \<longrightarrow>
         (\<exists>l. snd (resolve p c (Some (fst (CommitPrepared (Some x) port)))) = Some l
            \<and> bindingOf (src_Bindings source) (cd_ID c) = Some (xl_Port l)))"
proof -
  have ok: "identity_ok s" using publish_run.reach_inv [OF refl ident] .
  note acc = published_accepted [OF ok src pub named]
  obtain port x where x: "PrepareCommitted source identity (cy_port y) = (port, Inr x)"
    "px_view x = buildExecutionView source identity"
    using acc(1) by blast
  have "\<exists>l. snd (resolve p c (Some (fst (CommitPrepared (Some x) port)))) = Some l
      \<and> bindingOf (src_Bindings source) (cd_ID c) = Some (xl_Port l)"
    if plan: "Plan nn hs (Some (px_view x)) service lease pinned now e = (e', Inr p)" "0 < pl_maxAttempts e"
      and c: "c \<in> set (dn_Candidates p)" for nn hs service lease pinned now and e e' :: "'k policy_engine" and p c
  proof -
    note v = plan_candidates_of_view [OF plan, unfolded x(2) view_candidates]
    obtain n where n: "n \<in> set (src_Nodes source)" "c = nodeCandidate identity n" using v(1) c by auto
    obtain h where h: "map_of (ri_Handles identity) (cn_NodeID n) = Some h" "nh_Slot h \<noteq> 0"
      using acc(2) [OF n(1)] by blast
    have "cd_Handle c = h" "cd_ID c = cn_NodeID n" using h(1) by (simp_all add: n(2) nodeCandidate_def Let_def)
    then show ?thesis
      using committed_executes [OF cat x(1) n(1) h] v(2,3) by (simp add: resolve_def)
  qed
  then show ?thesis using x(1) by blast
qed

definition pathSnapshot :: identity_snapshot where
  "pathSnapshot = fst (IdentityFromSource sampleSource)"

lemma path_snapshot:
  "IdentityFromSource sampleSource = (pathSnapshot, None)" "publishable pathSnapshot newStableIdentityState"
proof -
  show src: "IdentityFromSource sampleSource = (pathSnapshot, None)" by code_simp
  then show "publishable pathSnapshot newStableIdentityState"
    by (simp add: publishable_def newStableIdentityState_def IdentityFromSource_def Let_def)
      (simp add: pathSnapshot_def IdentityFromSource_def Let_def sampleSource_def samplePublication_def)
qed

theorem published_plan_executes_witness:
  "\<exists>s' identity port x e' p c l. preparePublish pathSnapshot True newStableIdentityState = (s', identity)
     \<and> PrepareCommitted sampleSource identity NewCatalogPort = (port, Inr x)
     \<and> Plan (\<lambda>x. x) openStore (Some (px_view x)) (poolService ModeLatency) None None 1 poolEngine = (e', Inr p)
     \<and> c \<in> set (dn_Candidates p)
     \<and> snd (resolve p c (Some (fst (CommitPrepared (Some x) port)))) = Some l
     \<and> bindingOf (src_Bindings sampleSource) (cd_ID c) = Some (xl_Port l)"
proof -
  obtain s' identity where pub: "preparePublish pathSnapshot True newStableIdentityState = (s', identity)" by fastforce
  have named: "\<forall>n \<in> set (src_Nodes sampleSource). bindingOf (src_Bindings sampleSource) (cn_NodeID n) \<noteq> None
      \<and> (cn_SourceKey n \<noteq> [] \<or> cn_Aliases n \<noteq> [])" by code_simp
  have start: "publish_step\<^sup>*\<^sup>* newStableIdentityState newStableIdentityState" by simp
  have epoch: "ri_EpochID identity \<noteq> 0"
    using published_handles(6) [OF identity_new path_snapshot(2) pub]
    by (simp add: beginPublish_def newStableIdentityState_def)
  have cat: "catalog_step\<^sup>*\<^sup>* catalogStart catalogStart" by simp
  have port0: "cy_port catalogStart = NewCatalogPort" by (simp add: catalogStart_def)
  obtain port x where x: "PrepareCommitted sampleSource identity NewCatalogPort = (port, Inr x)"
    and all: "\<forall>nn hs service lease pinned now (e :: unit policy_engine) e' p c.
         Plan nn hs (Some (px_view x)) service lease pinned now e = (e', Inr p) \<longrightarrow> 0 < pl_maxAttempts e \<longrightarrow>
         c \<in> set (dn_Candidates p) \<longrightarrow>
         (\<exists>l. snd (resolve p c (Some (fst (CommitPrepared (Some x) port)))) = Some l
            \<and> bindingOf (src_Bindings sampleSource) (cd_ID c) = Some (xl_Port l))"
    using published_plan_executes [OF start path_snapshot named pub epoch sample_init cat, unfolded port0]
    by (elim exE conjE)
  have view: "px_view x = buildExecutionView sampleSource identity" using PrepareCommitted_Inr [OF x] by auto
  have "supportedCandidates (\<lambda>x. x) (px_view x) (poolService ModeLatency) \<noteq> []"
    by (simp add: supportedCandidates_def view view_candidates candidateSupports_def poolService_def nodeCandidate_def
        Let_def sampleSource_def samplePublication_def sampleNode_def)
  then have "\<nexists>e' err. Plan (\<lambda>x. x) openStore (Some (px_view x)) (poolService ModeLatency) None None 1 poolEngine = (e', Inl err)"
    using Plan_error_iff [of poolEngine "\<lambda>x. x" openStore "px_view x" "poolService ModeLatency" None None 1]
    by (simp add: pool_engine)
  then obtain e' p where p: "Plan (\<lambda>x. x) openStore (Some (px_view x)) (poolService ModeLatency) None None 1 poolEngine = (e', Inr p)"
    by (metis old.prod.exhaust sumE)
  have "dn_Candidates p \<noteq> []" using Plan_admissible [OF p pool_engine(2)] by (auto simp: admissible_def makePlan_def)
  then have c: "hd (dn_Candidates p) \<in> set (dn_Candidates p)" by simp
  obtain l where "snd (resolve p (hd (dn_Candidates p)) (Some (fst (CommitPrepared (Some x) port)))) = Some l"
    "bindingOf (src_Bindings sampleSource) (cd_ID (hd (dn_Candidates p))) = Some (xl_Port l)"
    using all [rule_format, OF p pool_engine(2) c] by blast
  then show ?thesis using pub x p c by blast
qed

end
